(* ===== verification/Prelude.thy ===== *)
theory Prelude
  imports Main "HOL-Library.Word"
begin

text \<open>
  Shared vocabulary of the development: the machine integers of the crate by their Rust
  names, the saturating and checked operations of the Rust standard library on them, arrays
  of fixed length with Rust's bounds check, and the lemma collections the component
  theories fill.
\<close>

unbundle bit_operations_syntax

section \<open>Lemma collections\<close>

named_theorems flag_simps \<open>reading a lifecycle flag after an operation on the flag word\<close>
named_theorems frame_simps \<open>fields an operation leaves alone\<close>

section \<open>Machine integers\<close>

type_synonym u8 = "8 word"
type_synonym u16 = "16 word"
type_synonym u32 = "32 word"
type_synonym u64 = "64 word"

definition sat_add :: "'a::len word \<Rightarrow> 'a word \<Rightarrow> 'a word" where
  "sat_add a b = (if unat a + unat b < 2 ^ LENGTH('a) then a + b else - 1)"

definition sat_sub :: "'a::len word \<Rightarrow> 'a word \<Rightarrow> 'a word" where
  "sat_sub a b = (if a < b then 0 else a - b)"

lemma unat_minus_one_word_aux: "unat (- 1 :: 'a::len word) = 2 ^ LENGTH('a) - 1"
  by (simp add: unsigned_minus_1_eq_mask mask_eq_exp_minus_1)

lemma unat_sat_add: "unat (sat_add a b) = min (unat a + unat b) (2 ^ LENGTH('a) - 1)"
  for a b :: "'a::len word"
proof (cases "unat a + unat b < 2 ^ LENGTH('a)")
  case True
  then show ?thesis by (simp add: sat_add_def unat_word_ariths)
next
  case False
  then show ?thesis
    unfolding sat_add_def by (simp add: unat_minus_one_word_aux min_absorb2)
qed

lemma unat_sat_sub: "unat (sat_sub a b) = unat a - unat b"
proof (cases "a < b")
  case True
  then show ?thesis by (simp add: sat_sub_def word_less_nat_alt)
next
  case False
  then have "unat (a - b) = unat a - unat b"
    by (simp add: unat_sub linorder_not_less)
  with False show ?thesis by (simp add: sat_sub_def)
qed

section \<open>Time\<close>

text \<open>
  Instants and durations are counts of timer ticks. The conversion to and from milliseconds
  belongs to \<^verbatim>\<open>embassy_time\<close> and depends on its tick rate: it is a parameter.
\<close>

record time_api =
  as_millis :: "nat \<Rightarrow> nat"
  from_millis :: "nat \<Rightarrow> nat"

definition ticks32 :: "nat \<Rightarrow> u32" where
  "ticks32 t = of_nat t"

section \<open>Decimal text\<close>

fun decimal :: "nat \<Rightarrow> string" where
  "decimal n = (if n < 10 then [char_of (48 + n)] else decimal (n div 10) @ [char_of (48 + n mod 10)])"

declare decimal.simps [simp del]

section \<open>Fixed-size arrays\<close>

text \<open>
  A Rust array write \<open>xs[i] = v\<close> panics when \<open>i\<close> is out of range: \<open>None\<close> is the panic.
\<close>

definition array_set :: "'a list \<Rightarrow> nat \<Rightarrow> 'a \<Rightarrow> 'a list option" where
  "array_set xs i v = (if i < length xs then Some (xs[i := v]) else None)"

definition array_get :: "'a list \<Rightarrow> nat \<Rightarrow> 'a option" where
  "array_get xs i = (if i < length xs then Some (xs ! i) else None)"

lemma array_set_Some [simp]: "i < length xs \<Longrightarrow> array_set xs i v = Some (xs[i := v])"
  by (simp add: array_set_def)

lemma array_get_Some [simp]: "i < length xs \<Longrightarrow> array_get xs i = Some (xs ! i)"
  by (simp add: array_get_def)

lemma array_set_length: "array_set xs i v = Some ys \<Longrightarrow> length ys = length xs"
  by (auto simp: array_set_def split: if_splits)

lemma array_get_eq_SomeD: "array_get xs i = Some v \<Longrightarrow> i < length xs \<and> v = xs ! i"
  by (auto simp: array_get_def split: if_splits)

lemma take_Suc_update: "n < length xs \<Longrightarrow> take (Suc n) (xs[n := v]) = take n xs @ [v]"
  by (simp add: take_Suc_conv_app_nth)

lemma unat_of_nat_u8 [simp]: "n < 256 \<Longrightarrow> unat (of_nat n :: u8) = n"
  by (simp add: unat_of_nat)

section \<open>Waiting loops\<close>

text \<open>
  The crate's waits have one shape, \<open>while !cond { signal.wait().await }\<close>. \<open>wait_loop\<close> runs
  it over the states the waiter sees: the one at its first check, then one per wake-up.
  \<open>None\<close> is still parked when the wake-ups are used up.
\<close>

fun wait_loop :: "('s \<Rightarrow> bool) \<Rightarrow> 's \<Rightarrow> 's list \<Rightarrow> 's option" where
  "wait_loop c s [] = (if c s then Some s else None)"
| "wait_loop c s (t # ts) = (if c s then Some s else wait_loop c t ts)"

lemma wait_loop_Some: "wait_loop c s ts = Some t \<Longrightarrow> c t \<and> t \<in> set (s # ts)"
  by (induction c s ts rule: wait_loop.induct) (auto split: if_splits)

lemma wait_loop_returns: "(\<exists>t. wait_loop c s ts = Some t) \<longleftrightarrow> (\<exists>t \<in> set (s # ts). c t)"
  by (induction c s ts rule: wait_loop.induct) auto

end
