(* ===== verification/Topology.thy ===== *)
theory Topology
  imports Prelude
begin

text \<open>
  The graph topology of \<^verbatim>\<open>supervisor/src/lib.rs\<close>: the dependency rows, the compile-time Kahn
  sort \<open>topo_sort_const\<close> that orders them, the two \<open>Topology\<close> implementations and the
  slot queries of \<open>Graph\<close>.
\<close>

section \<open>Kahn's algorithm as the const fn runs it\<close>

text \<open>
  A dependency table is one row of slot indices (\<open>u8\<close>) per slot. The sort keeps four arrays
  of length \<open>N\<close> with their cursors. A panic of the const evaluation is \<open>None\<close>: it is a
  compile error of the graph.
\<close>

type_synonym dep_table = "u8 list list"

record kahn =
  in_degree :: "u8 list"
  queue :: "u8 list"
  tail :: nat
  order :: "u8 list"
  produced :: nat
  head :: nat

definition init_in_degree :: "dep_table \<Rightarrow> u8 list" where
  "init_in_degree deps = map (\<lambda>row. of_nat (length row)) deps"

text \<open>Seeding: every slot whose in-degree is zero is queued, in slot order.\<close>

fun seed_queue :: "nat list \<Rightarrow> kahn \<Rightarrow> kahn option" where
  "seed_queue [] s = Some s"
| "seed_queue (i # is) s =
     (if in_degree s ! i = 0
      then case array_set (queue s) (tail s) (of_nat i) of
             None \<Rightarrow> None
           | Some q \<Rightarrow> seed_queue is (s\<lparr>queue := q, tail := Suc (tail s)\<rparr>)
      else seed_queue is s)"

definition kahn_start :: "dep_table \<Rightarrow> kahn option" where
  "kahn_start deps = (let n = length deps in
     seed_queue [0..<n]
       \<lparr>in_degree = init_in_degree deps, queue = replicate n 0, tail = 0,
        order = replicate n 0, produced = 0, head = 0\<rparr>)"

definition row_depends :: "u8 list \<Rightarrow> nat \<Rightarrow> bool" where
  "row_depends row node = list_ex (\<lambda>d. unat d = node) row"

text \<open>The inner loop: decrement every dependent of the popped node, queue those that reach zero.\<close>

fun relax :: "dep_table \<Rightarrow> nat \<Rightarrow> nat list \<Rightarrow> kahn \<Rightarrow> kahn option" where
  "relax deps node [] s = Some s"
| "relax deps node (j # js) s =
     (if in_degree s ! j \<noteq> 0 \<and> row_depends (deps ! j) node
      then let d = in_degree s ! j - 1;
               s1 = s\<lparr>in_degree := (in_degree s)[j := d]\<rparr>
           in if d = 0
              then case array_set (queue s1) (tail s1) (of_nat j) of
                     None \<Rightarrow> None
                   | Some q \<Rightarrow> relax deps node js (s1\<lparr>queue := q, tail := Suc (tail s1)\<rparr>)
              else relax deps node js s1
      else relax deps node js s)"

text \<open>One turn of the \<open>while head < tail\<close> loop.\<close>

definition kahn_step :: "dep_table \<Rightarrow> kahn \<Rightarrow> kahn option" where
  "kahn_step deps s =
     (case array_get (queue s) (head s) of
        None \<Rightarrow> None
      | Some w \<Rightarrow>
          (case array_set (order s) (produced s) w of
             None \<Rightarrow> None
           | Some ord \<Rightarrow>
               relax deps (unat w) [0..<length deps]
                 (s\<lparr>head := Suc (head s), order := ord, produced := Suc (produced s)\<rparr>)))"

lemma relax_keeps:
  "relax deps node js s = Some t \<Longrightarrow>
     head t = head s \<and> length (queue t) = length (queue s)
     \<and> order t = order s \<and> produced t = produced s"
  by (induction deps node js s rule: relax.induct)
    (auto simp: Let_def array_set_def split: if_splits)

lemma kahn_step_measure:
  "kahn_step deps s = Some t \<Longrightarrow>
     length (queue t) - head t < length (queue s) - head s"
  by (auto simp: kahn_step_def array_get_def array_set_def
      split: if_splits option.splits dest!: relax_keeps)

function kahn_loop :: "dep_table \<Rightarrow> kahn \<Rightarrow> kahn option" where
  "kahn_loop deps s =
     (if head s < tail s
      then case kahn_step deps s of None \<Rightarrow> None | Some t \<Rightarrow> kahn_loop deps t
      else Some s)"
  by pat_completeness auto
termination
  by (relation "measure (\<lambda>(deps, s). length (queue s) - head s)")
    (auto dest: kahn_step_measure)

declare kahn_loop.simps [simp del]

definition topo_sort_const :: "dep_table \<Rightarrow> u8 list option" where
  "topo_sort_const deps =
     (if length deps \<le> 256
      then case kahn_start deps of
             None \<Rightarrow> None
           | Some s \<Rightarrow>
               (case kahn_loop deps s of
                  None \<Rightarrow> None
                | Some t \<Rightarrow> if produced t = length deps then Some (order t) else None)
      else None)"

section \<open>The relaxation pass, closed form\<close>

definition hits :: "dep_table \<Rightarrow> nat \<Rightarrow> kahn \<Rightarrow> nat \<Rightarrow> bool" where
  "hits deps node s j \<longleftrightarrow> in_degree s ! j \<noteq> 0 \<and> row_depends (deps ! j) node"

definition freed :: "dep_table \<Rightarrow> nat \<Rightarrow> kahn \<Rightarrow> nat list \<Rightarrow> nat list" where
  "freed deps node s js = filter (\<lambda>j. hits deps node s j \<and> in_degree s ! j = 1) js"

definition relaxed :: "dep_table \<Rightarrow> nat \<Rightarrow> nat list \<Rightarrow> kahn \<Rightarrow> kahn \<Rightarrow> bool" where
  "relaxed deps node js s t \<longleftrightarrow>
     length (in_degree t) = length (in_degree s)
     \<and> length (queue t) = length (queue s)
     \<and> head t = head s \<and> order t = order s \<and> produced t = produced s
     \<and> tail t = tail s + length (freed deps node s js)
     \<and> take (tail t) (queue t) = take (tail s) (queue s) @ map of_nat (freed deps node s js)
     \<and> (\<forall>j < length (in_degree s). in_degree t ! j
          = (if j \<in> set js \<and> hits deps node s j then in_degree s ! j - 1 else in_degree s ! j))"

lemma freed_cong:
  "(\<And>j. j \<in> set js \<Longrightarrow> in_degree s ! j = in_degree s' ! j) \<Longrightarrow>
     freed deps node s js = freed deps node s' js"
  by (auto simp: freed_def hits_def intro!: filter_cong)

lemma relax_relaxed:
  assumes "distinct js" "\<forall>j \<in> set js. j < length (in_degree s)"
    and "tail s + length (freed deps node s js) \<le> length (queue s)"
  shows "\<exists>t. relax deps node js s = Some t \<and> relaxed deps node js s t"
  using assms
proof (induction js arbitrary: s)
  case Nil
  then show ?case by (simp add: relaxed_def freed_def)
next
  case (Cons j js)
  show ?case
  proof (cases "hits deps node s j")
    case False
    then have "freed deps node s (j # js) = freed deps node s js"
      by (simp add: freed_def)
    with Cons obtain t where "relax deps node js s = Some t" "relaxed deps node js s t"
      by fastforce
    with False \<open>freed deps node s (j # js) = freed deps node s js\<close> show ?thesis
      by (auto simp: relaxed_def hits_def)
  next
    case hit: True
    let ?s1 = "s\<lparr>in_degree := (in_degree s)[j := in_degree s ! j - 1]\<rparr>"
    show ?thesis
    proof (cases "in_degree s ! j = 1")
      case False
      have same: "freed deps node ?s1 js = freed deps node s js"
        using Cons.prems by (intro freed_cong) (auto simp: nth_list_update)
      have fr: "freed deps node s (j # js) = freed deps node s js"
        using False by (simp add: freed_def)
      from Cons.prems same fr obtain t where
        t: "relax deps node js ?s1 = Some t" "relaxed deps node js ?s1 t"
        using Cons.IH[of ?s1] by auto
      from hit False t(1) have "relax deps node (j # js) s = Some t"
        by (simp add: hits_def Let_def)
      moreover from t(2) hit Cons.prems same fr have "relaxed deps node (j # js) s t"
        by (auto simp: relaxed_def hits_def nth_list_update)
      ultimately show ?thesis by blast
    next
      case True
      let ?s2 = "?s1\<lparr>queue := (queue s)[tail s := of_nat j], tail := Suc (tail s)\<rparr>"
      have same: "freed deps node ?s2 js = freed deps node s js"
        using Cons.prems by (intro freed_cong) (auto simp: nth_list_update)
      have fr: "freed deps node s (j # js) = j # freed deps node s js"
        using True hit by (simp add: freed_def)
      with Cons.prems have room: "tail s < length (queue s)" by simp
      from Cons.prems same fr obtain t where
        t: "relax deps node js ?s2 = Some t" "relaxed deps node js ?s2 t"
        using Cons.IH[of ?s2] by auto
      from hit True t(1) room have "relax deps node (j # js) s = Some t"
        by (simp add: hits_def Let_def)
      moreover from t(2) hit Cons.prems same fr room have "relaxed deps node (j # js) s t"
        by (auto simp: relaxed_def hits_def nth_list_update take_Suc_update)
      ultimately show ?thesis by blast
    qed
  qed
qed

section \<open>The loop invariant\<close>

definition kahn_inv :: "dep_table \<Rightarrow> kahn \<Rightarrow> bool" where
  "kahn_inv deps s \<longleftrightarrow>
     length (in_degree s) = length deps \<and> length (queue s) = length deps
     \<and> length (order s) = length deps
     \<and> head s \<le> tail s \<and> tail s \<le> length deps \<and> produced s = head s
     \<and> take (head s) (order s) = take (head s) (queue s)
     \<and> distinct (take (tail s) (queue s))
     \<and> (\<forall>w \<in> set (take (tail s) (queue s)). unat w < length deps)
     \<and> (\<forall>j < length deps. in_degree s ! j = 0 \<longleftrightarrow> of_nat j \<in> set (take (tail s) (queue s)))
     \<and> (\<forall>j < length deps. in_degree s ! j \<noteq> 0 \<longrightarrow>
          unat (in_degree s ! j) + card (set (deps ! j) \<inter> set (take (head s) (queue s)))
            = length (deps ! j))
     \<and> (\<forall>i < tail s. set (deps ! unat (queue s ! i)) \<subseteq> set (take i (queue s)))"

definition rows_fit :: "dep_table \<Rightarrow> bool" where
  "rows_fit deps \<longleftrightarrow> length deps \<le> 256 \<and> (\<forall>row \<in> set deps. length row < 256)"

lemma rows_fit_unat:
  "rows_fit deps \<Longrightarrow> j < length deps \<Longrightarrow> unat (of_nat j :: u8) = j"
  by (simp add: rows_fit_def)

lemma row_depends_iff: "row_depends row (unat w) \<longleftrightarrow> w \<in> set row"
  by (auto simp: row_depends_def list_ex_iff dest: word_unat_eq_iff[THEN iffD2])

lemma rows_fit_eq_iff:
  "rows_fit deps \<Longrightarrow> i < length deps \<Longrightarrow> j < length deps \<Longrightarrow> (of_nat i :: u8) = of_nat j \<longleftrightarrow> i = j"
  by (metis rows_fit_unat)

subsection \<open>Seeding establishes it\<close>

definition seeds :: "kahn \<Rightarrow> nat list \<Rightarrow> nat list" where
  "seeds s is = filter (\<lambda>i. in_degree s ! i = 0) is"

lemma seed_queue_closed:
  assumes "tail s + length (seeds s is) \<le> length (queue s)"
  shows "\<exists>q. seed_queue is s = Some (s\<lparr>queue := q, tail := tail s + length (seeds s is)\<rparr>)
    \<and> length q = length (queue s)
    \<and> take (tail s + length (seeds s is)) q = take (tail s) (queue s) @ map of_nat (seeds s is)"
  using assms
proof (induction "is" arbitrary: s)
  case Nil
  show ?case by (rule exI[of _ "queue s"]) (simp add: seeds_def)
next
  case (Cons i "is")
  show ?case
  proof (cases "in_degree s ! i = 0")
    case False
    with Cons show ?thesis by (simp add: seeds_def)
  next
    case True
    let ?s1 = "s\<lparr>queue := (queue s)[tail s := of_nat i], tail := Suc (tail s)\<rparr>"
    have sd: "seeds s (i # is) = i # seeds s is" "seeds ?s1 is = seeds s is"
      using True by (simp_all add: seeds_def)
    with Cons.prems have room: "tail s < length (queue s)"
      "tail ?s1 + length (seeds ?s1 is) \<le> length (queue ?s1)" by simp_all
    from Cons.IH[OF room(2)] sd room(1) True show ?thesis
      by (auto simp: take_Suc_update)
  qed
qed

lemma kahn_start_inv:
  assumes "rows_fit deps"
  shows "\<exists>s. kahn_start deps = Some s \<and> kahn_inv deps s \<and> head s = 0"
proof -
  let ?n = "length deps"
  let ?s0 = "\<lparr>in_degree = init_in_degree deps, queue = replicate ?n 0, tail = 0,
        order = replicate ?n 0, produced = 0, head = 0\<rparr> :: kahn"
  let ?q0 = "seeds ?s0 [0..<?n]"
  have deg: "init_in_degree deps ! j = 0 \<longleftrightarrow> deps ! j = []"
    "unat (init_in_degree deps ! j) = length (deps ! j)" if "j < ?n" for j
  proof -
    have "length (deps ! j) < 256" using assms that by (simp add: rows_fit_def)
    then show u: "unat (init_in_degree deps ! j) = length (deps ! j)"
      using that by (simp add: init_in_degree_def)
    show "init_in_degree deps ! j = 0 \<longleftrightarrow> deps ! j = []"
      using u by (metis length_0_conv unat_eq_zero)
  qed
  have room: "tail ?s0 + length ?q0 \<le> length (queue ?s0)"
    using length_filter_le[of _ "[0..<?n]"] by (simp add: seeds_def)
  from seed_queue_closed[OF room] obtain q where
    q: "kahn_start deps = Some (?s0\<lparr>queue := q, tail := length ?q0\<rparr>)"
      "length q = ?n" "take (length ?q0) q = map of_nat ?q0"
    by (auto simp: kahn_start_def Let_def)
  have sd: "set ?q0 = {j. j < ?n \<and> deps ! j = []}" "distinct ?q0"
    using deg(1) by (auto simp: seeds_def)
  have mem: "(of_nat j :: u8) \<in> of_nat ` set ?q0 \<longleftrightarrow> deps ! j = []" if "j < ?n" for j
    using that sd(1) rows_fit_eq_iff[OF assms] by (auto simp: image_iff)
  have dist: "distinct (map of_nat ?q0 :: u8 list)"
    using sd rows_fit_eq_iff[OF assms] by (auto simp: distinct_map intro!: inj_onI)
  let ?s = "?s0\<lparr>queue := q, tail := length ?q0\<rparr>"
  have len: "length ?q0 \<le> ?n" using room by simp
  have row0: "deps ! unat (q ! i) = []" if "i < length ?q0" for i
  proof -
    have "q ! i = take (length ?q0) q ! i" using that by simp
    also have "\<dots> = of_nat (?q0 ! i)" using that by (simp add: q(3))
    finally have "unat (q ! i) = ?q0 ! i"
      using sd(1) nth_mem[OF that] rows_fit_unat[OF assms] by auto
    then show ?thesis using sd(1) nth_mem[OF that] by auto
  qed
  have "kahn_inv deps ?s"
    unfolding kahn_inv_def
  proof (intro conjI)
    show "length (in_degree ?s) = ?n" by (simp add: init_in_degree_def)
    show "\<forall>w \<in> set (take (tail ?s) (queue ?s)). unat w < ?n"
      using q(3) sd(1) rows_fit_unat[OF assms] by auto
    show "\<forall>j < ?n. in_degree ?s ! j = 0 \<longleftrightarrow> of_nat j \<in> set (take (tail ?s) (queue ?s))"
      using q(3) deg(1) mem by simp
    show "\<forall>i < tail ?s. set (deps ! unat (queue ?s ! i)) \<subseteq> set (take i (queue ?s))"
      using row0 by simp
  qed (use q len dist deg in simp_all)
  with q(1) show ?thesis by auto
qed

subsection \<open>A turn of the loop keeps it\<close>

lemma card_le_length_distinct_sub:
  assumes "distinct xs" "\<forall>w \<in> set xs. unat (w :: u8) < n"
  shows "length xs \<le> n"
proof -
  have "unat ` set xs \<subseteq> {..<n}" using assms(2) by auto
  then have "card (unat ` set xs) \<le> n"
    by (metis card_lessThan card_mono finite_lessThan)
  moreover have "card (unat ` set xs) = card (set xs)"
    by (rule card_image) (simp add: inj_on_def word_unat_eq_iff)
  ultimately show ?thesis using assms(1) by (simp add: distinct_card)
qed

lemma all_resolved:
  assumes "card (set row \<inter> P) = length row"
  shows "set row \<subseteq> P"
proof -
  have "card (set row) \<le> card (set row \<inter> P)"
    using assms card_length[of row] by simp
  then have "set row \<inter> P = set row"
    by (metis Int_lower1 List.finite_set card_seteq)
  then show ?thesis by blast
qed

definition popped :: "kahn \<Rightarrow> kahn" where
  "popped s = s\<lparr>head := Suc (head s), order := (order s)[produced s := queue s ! head s],
                 produced := Suc (produced s)\<rparr>"

definition newly :: "dep_table \<Rightarrow> kahn \<Rightarrow> nat list" where
  "newly deps s = filter (\<lambda>j. queue s ! head s \<in> set (deps ! j) \<and> in_degree s ! j = 1) [0..<length deps]"

lemma freed_popped:
  "freed deps (unat (queue s ! head s)) (popped s) [0..<length deps] = newly deps s"
  by (auto simp: freed_def newly_def popped_def hits_def row_depends_iff intro!: filter_cong)

lemma newly_queue_distinct:
  assumes "rows_fit deps" "kahn_inv deps s"
  shows "distinct (take (tail s) (queue s) @ map of_nat (newly deps s))"
    and "\<forall>w \<in> set (take (tail s) (queue s) @ map of_nat (newly deps s)). unat w < length deps"
proof -
  have "of_nat j \<notin> set (take (tail s) (queue s))" if "j \<in> set (newly deps s)" for j
    using assms that by (auto simp: kahn_inv_def newly_def)
  moreover have "distinct (map of_nat (newly deps s) :: u8 list)"
    using rows_fit_eq_iff[OF assms(1)] by (auto simp: distinct_map newly_def intro!: inj_onI)
  ultimately show "distinct (take (tail s) (queue s) @ map of_nat (newly deps s))"
    using assms(2) by (auto simp: kahn_inv_def)
  show "\<forall>w \<in> set (take (tail s) (queue s) @ map of_nat (newly deps s)). unat w < length deps"
    using assms rows_fit_unat[OF assms(1)] by (auto simp: kahn_inv_def newly_def)
qed

lemma kahn_step_relaxed:
  assumes "rows_fit deps" "kahn_inv deps s" "head s < tail s"
  shows "\<exists>t. kahn_step deps s = Some t
    \<and> relaxed deps (unat (queue s ! head s)) [0..<length deps] (popped s) t"
proof -
  have "length (take (tail s) (queue s) @ map of_nat (newly deps s) :: u8 list) \<le> length deps"
    using newly_queue_distinct[OF assms(1,2)] by (rule card_le_length_distinct_sub)
  then have "tail (popped s) + length (freed deps (unat (queue s ! head s)) (popped s) [0..<length deps])
      \<le> length (queue (popped s))"
    using assms(2) by (simp add: freed_popped kahn_inv_def) (simp add: popped_def)
  moreover have "\<forall>j \<in> set [0..<length deps]. j < length (in_degree (popped s))"
    using assms(2) by (simp add: kahn_inv_def popped_def)
  ultimately obtain t where "relax deps (unat (queue s ! head s)) [0..<length deps] (popped s) = Some t"
    "relaxed deps (unat (queue s ! head s)) [0..<length deps] (popped s) t"
    using relax_relaxed[of "[0..<length deps]" "popped s" deps] by auto
  with assms(2,3) show ?thesis
    by (auto simp: kahn_step_def kahn_inv_def popped_def)
qed

lemma kahn_degree_step:
  assumes "kahn_inv deps s" "head s < tail s" "j < length deps" "in_degree s ! j \<noteq> 0"
    and w: "w = queue s ! head s"
    and P': "P' = insert w (set (take (head s) (queue s)))"
  shows "unat (if w \<in> set (deps ! j) then in_degree s ! j - 1 else in_degree s ! j)
    + card (set (deps ! j) \<inter> P') = length (deps ! j)"
proof -
  have sum: "unat (in_degree s ! j) + card (set (deps ! j) \<inter> set (take (head s) (queue s)))
      = length (deps ! j)"
    using assms by (simp add: kahn_inv_def)
  have "distinct (take (Suc (head s)) (queue s))"
    using assms(1,2) by (metis Suc_leI distinct_take kahn_inv_def min.absorb_iff1 take_take)
  then have new: "w \<notin> set (take (head s) (queue s))"
    using assms(1,2) w by (simp add: take_Suc_conv_app_nth kahn_inv_def)
  have pos: "unat (in_degree s ! j - 1) = unat (in_degree s ! j) - 1" "0 < unat (in_degree s ! j)"
    using assms(4) by (simp_all add: unat_minus_one unat_gt_0)
  show ?thesis
    using sum new pos P' by (auto simp: Int_insert_right)
qed

lemma relaxed_popped:
  assumes "rows_fit deps" "kahn_inv deps s" "head s < tail s"
    and "relaxed deps (unat (queue s ! head s)) [0..<length deps] (popped s) t"
  shows "length (in_degree t) = length deps" "length (queue t) = length deps"
    "order t = (order s)[head s := queue s ! head s]" "produced t = Suc (head s)"
    "head t = Suc (head s)" "tail t = tail s + length (newly deps s)"
    "take (tail t) (queue t) = take (tail s) (queue s) @ map of_nat (newly deps s)"
    "set (take (head t) (queue t)) = insert (queue s ! head s) (set (take (head s) (queue s)))"
    "take (head t) (queue t) = take (head s) (queue s) @ [queue s ! head s]"
    "\<And>j. j < length deps \<Longrightarrow> in_degree t ! j =
       (if in_degree s ! j \<noteq> 0 \<and> queue s ! head s \<in> set (deps ! j)
        then in_degree s ! j - 1 else in_degree s ! j)"
proof -
  show q: "take (tail t) (queue t) = take (tail s) (queue s) @ map of_nat (newly deps s)"
    and tl: "tail t = tail s + length (newly deps s)" and hd: "head t = Suc (head s)"
    using assms by (auto simp: relaxed_def freed_popped) (simp_all add: popped_def)
  show "length (in_degree t) = length deps" "length (queue t) = length deps"
    "order t = (order s)[head s := queue s ! head s]" "produced t = Suc (head s)"
    "\<And>j. j < length deps \<Longrightarrow> in_degree t ! j =
       (if in_degree s ! j \<noteq> 0 \<and> queue s ! head s \<in> set (deps ! j)
        then in_degree s ! j - 1 else in_degree s ! j)"
    using assms by (auto simp: relaxed_def popped_def kahn_inv_def hits_def row_depends_iff)
  have "take (head t) (queue t) = take (head t) (take (tail t) (queue t))"
    using tl hd assms(3) by (simp add: min_absorb1)
  also have "\<dots> = take (Suc (head s)) (queue s)"
    using q hd assms(2,3) by (simp add: kahn_inv_def min_absorb1)
  finally show e: "take (head t) (queue t) = take (head s) (queue s) @ [queue s ! head s]"
    using assms(2,3) by (simp add: take_Suc_conv_app_nth kahn_inv_def)
  then show "set (take (head t) (queue t)) = insert (queue s ! head s) (set (take (head s) (queue s)))"
    by simp
qed

lemma kahn_rows_step:
  assumes "rows_fit deps" "kahn_inv deps s" "head s < tail s"
    and r: "relaxed deps (unat (queue s ! head s)) [0..<length deps] (popped s) t"
    and i: "i < tail t"
  shows "set (deps ! unat (queue t ! i)) \<subseteq> set (take i (queue t))"
proof (cases "i < tail s")
  case True
  have "take (tail s) (queue t) = take (tail s) (take (tail t) (queue t))"
    using relaxed_popped(6)[OF assms(1-3) r] by (simp add: min_absorb1)
  also have "\<dots> = take (tail s) (queue s)"
    using relaxed_popped(7)[OF assms(1-3) r] assms(2) by (simp add: kahn_inv_def)
  finally have same: "take (tail s) (queue t) = take (tail s) (queue s)" .
  then have "queue t ! i = queue s ! i" "take i (queue t) = take i (queue s)"
    using True by (metis nth_take, metis True less_imp_le min.absorb1 take_take)
  with True assms(2) show ?thesis by (simp add: kahn_inv_def)
next
  case False
  let ?k = "i - tail s" and ?w = "queue s ! head s"
  let ?j = "newly deps s ! ?k"
  have k: "?k < length (newly deps s)"
    using False i relaxed_popped(6)[OF assms(1-3) r] by simp
  then have j: "?j < length deps" "?w \<in> set (deps ! ?j)" "in_degree s ! ?j = 1"
    using nth_mem[OF k] by (auto simp: newly_def)
  have "queue t ! i = take (tail t) (queue t) ! i" using i by simp
  also have "\<dots> = of_nat ?j"
    using False k assms(2) by (simp add: relaxed_popped(7)[OF assms(1-3) r] nth_append kahn_inv_def)
  finally have qi: "unat (queue t ! i) = ?j" using rows_fit_unat[OF assms(1) j(1)] by simp
  have "set (deps ! ?j) \<subseteq> insert ?w (set (take (head s) (queue s)))"
    using kahn_degree_step[OF assms(2,3) j(1) _ refl refl] j
    by (intro all_resolved) simp
  also have "\<dots> = set (take (head t) (queue t))"
    by (rule relaxed_popped(8)[OF assms(1-3) r, symmetric])
  also have "\<dots> \<subseteq> set (take i (queue t))"
    using False assms(3) relaxed_popped(5)[OF assms(1-3) r] by (intro set_take_subset_set_take) simp
  finally show ?thesis by (simp add: qi)
qed

lemma kahn_zero_step:
  assumes "rows_fit deps" "kahn_inv deps s" "head s < tail s"
    and r: "relaxed deps (unat (queue s ! head s)) [0..<length deps] (popped s) t"
    and j: "j < length deps"
  shows "in_degree t ! j = 0 \<longleftrightarrow> of_nat j \<in> set (take (tail t) (queue t))"
proof -
  have "(of_nat j :: u8) \<in> of_nat ` set (newly deps s) \<longleftrightarrow> j \<in> set (newly deps s)"
    using j rows_fit_eq_iff[OF assms(1)] by (auto simp: newly_def image_iff)
  then have "of_nat j \<in> set (take (tail t) (queue t)) \<longleftrightarrow>
      of_nat j \<in> set (take (tail s) (queue s)) \<or> j \<in> set (newly deps s)"
    by (simp add: relaxed_popped(7)[OF assms(1-3) r])
  moreover have "of_nat j \<in> set (take (tail s) (queue s)) \<longleftrightarrow> in_degree s ! j = 0"
    using j assms(2) by (simp add: kahn_inv_def)
  moreover have "j \<in> set (newly deps s) \<longleftrightarrow> queue s ! head s \<in> set (deps ! j) \<and> in_degree s ! j = 1"
    using j by (simp add: newly_def)
  ultimately show ?thesis
    using relaxed_popped(10)[OF assms(1-3) r j] by auto
qed

lemma kahn_step_inv:
  assumes "rows_fit deps" "kahn_inv deps s" "head s < tail s"
  shows "\<exists>t. kahn_step deps s = Some t \<and> kahn_inv deps t \<and> head t = Suc (head s)"
proof -
  obtain t where st: "kahn_step deps s = Some t"
    and r: "relaxed deps (unat (queue s ! head s)) [0..<length deps] (popped s) t"
    using kahn_step_relaxed[OF assms] by blast
  note q = relaxed_popped[OF assms r]
  have d: "distinct (take (tail t) (queue t))" "\<forall>w \<in> set (take (tail t) (queue t)). unat w < length deps"
    using newly_queue_distinct[OF assms(1,2)] by (simp_all add: q(7))
  have "tail t \<le> length deps"
    using card_le_length_distinct_sub[OF newly_queue_distinct[OF assms(1,2)]] assms(2)
    by (simp add: q(6) kahn_inv_def)
  moreover have "take (head t) (order t) = take (head t) (queue t)"
    using assms(2,3) unfolding q(9) by (simp add: q(3,5) take_Suc_update kahn_inv_def)
  moreover have "\<forall>j < length deps. in_degree t ! j \<noteq> 0 \<longrightarrow>
      unat (in_degree t ! j) + card (set (deps ! j) \<inter> set (take (head t) (queue t))) = length (deps ! j)"
  proof (intro allI impI)
    fix j assume j: "j < length deps" and nz: "in_degree t ! j \<noteq> 0"
    with q(10)[OF j] have "in_degree s ! j \<noteq> 0" by (auto split: if_splits)
    with kahn_degree_step[OF assms(2,3) j _ refl q(8)] q(10)[OF j]
    show "unat (in_degree t ! j) + card (set (deps ! j) \<inter> set (take (head t) (queue t))) = length (deps ! j)"
      by simp
  qed
  ultimately have "kahn_inv deps t"
    using assms(2,3) d kahn_zero_step[OF assms r] kahn_rows_step[OF assms r]
    by (simp add: kahn_inv_def q(1-6))
  with st q(5) show ?thesis by blast
qed

section \<open>Correctness of the sort\<close>

lemma kahn_loop_inv:
  "rows_fit deps \<Longrightarrow> kahn_inv deps s \<Longrightarrow>
     \<exists>t. kahn_loop deps s = Some t \<and> kahn_inv deps t \<and> head t = tail t"
proof (induction deps s rule: kahn_loop.induct)
  case (1 deps s)
  show ?case
  proof (cases "head s < tail s")
    case False
    with "1.prems" show ?thesis by (subst kahn_loop.simps) (auto simp: kahn_inv_def)
  next
    case True
    with kahn_step_inv[OF "1.prems"] obtain t where
      t: "kahn_step deps s = Some t" "kahn_inv deps t" by blast
    with "1.IH"[OF True t(1) "1.prems"(1) t(2)] True show ?thesis
      by (subst kahn_loop.simps) simp
  qed
qed

definition dep_rel :: "dep_table \<Rightarrow> (nat \<times> nat) set" where
  "dep_rel deps = {(unat d, j) | d j. j < length deps \<and> d \<in> set (deps ! j)}"

definition topo_sorted :: "dep_table \<Rightarrow> u8 list \<Rightarrow> bool" where
  "topo_sorted deps ord \<longleftrightarrow>
     length ord = length deps \<and> distinct ord \<and> unat ` set ord = {..<length deps}
     \<and> (\<forall>k < length ord. set (deps ! unat (ord ! k)) \<subseteq> set (take k ord))"

definition valid_deps :: "dep_table \<Rightarrow> bool" where
  "valid_deps deps \<longleftrightarrow> length deps \<le> 256
     \<and> (\<forall>row \<in> set deps. distinct row \<and> length row < 256 \<and> (\<forall>d \<in> set row. unat d < length deps))"

lemma valid_deps_rows_fit: "valid_deps deps \<Longrightarrow> rows_fit deps"
  by (auto simp: valid_deps_def rows_fit_def)

lemma card_unat_image: "distinct xs \<Longrightarrow> card (unat ` set (xs :: u8 list)) = length xs"
  by (simp add: card_image distinct_card inj_on_def word_unat_eq_iff)

lemma topo_sort_result:
  assumes "rows_fit deps" and "topo_sort_const deps = Some ord"
  shows "topo_sorted deps ord"
proof -
  from kahn_start_inv[OF assms(1)] obtain s where s: "kahn_start deps = Some s" "kahn_inv deps s"
    by blast
  from kahn_loop_inv[OF assms(1) s(2)] obtain t where
    t: "kahn_loop deps s = Some t" "kahn_inv deps t" "head t = tail t" by blast
  from assms s t have p: "produced t = length deps" "ord = order t"
    by (auto simp: topo_sort_const_def split: if_splits)
  with t have "tail t = length deps" "length (queue t) = length deps" "length (order t) = length deps"
    "take (tail t) (order t) = take (tail t) (queue t)"
    by (simp_all add: kahn_inv_def)
  with p have q: "tail t = length deps" "queue t = ord" "length ord = length deps" by simp_all
  with t have d: "distinct ord" "\<forall>w \<in> set ord. unat w < length deps"
    "\<forall>i < length deps. set (deps ! unat (ord ! i)) \<subseteq> set (take i ord)"
    by (simp_all add: kahn_inv_def)
  have "unat ` set ord = {..<length deps}"
    using d q(3) card_unat_image[OF d(1)] by (intro card_subset_eq) auto
  with d q(3) show ?thesis by (simp add: topo_sorted_def)
qed

lemma topo_sorted_acyclic:
  assumes "topo_sorted deps ord"
  shows "acyclic (dep_rel deps)"
proof -
  let ?pos = "\<lambda>j. LEAST k. k < length ord \<and> unat (ord ! k) = j"
  have pos: "?pos (unat (ord ! k)) = k" if "k < length ord" for k
    using assms that by (intro Least_equality)
      (auto simp: topo_sorted_def nth_eq_iff_index_eq word_unat_eq_iff[symmetric])
  have "?pos i < ?pos j" if "(i, j) \<in> dep_rel deps" for i j
  proof -
    from that obtain d where d: "i = unat d" "j < length deps" "d \<in> set (deps ! j)"
      by (auto simp: dep_rel_def)
    then have "j \<in> unat ` set ord" using assms by (simp add: topo_sorted_def)
    then obtain k where k: "k < length ord" "j = unat (ord ! k)" by (auto simp: in_set_conv_nth)
    with d assms have "d \<in> set (take k ord)" by (auto simp: topo_sorted_def)
    then obtain m where "m < k" "d = ord ! m" by (auto simp: in_set_conv_nth)
    with k d pos[of k] pos[of m] show ?thesis by simp
  qed
  then have "dep_rel deps \<subseteq> measure ?pos" by auto
  then show ?thesis by (meson acyclic_subset wf_acyclic wf_measure)
qed

lemma topo_sort_complete_aux:
  assumes "valid_deps deps" "acyclic (dep_rel deps)"
    and t: "kahn_inv deps t" "head t = tail t"
  shows "tail t = length deps"
proof (rule ccontr)
  let ?Q = "set (take (tail t) (queue t))"
  let ?U = "{j. j < length deps \<and> of_nat j \<notin> ?Q}"
  note fit = valid_deps_rows_fit[OF assms(1)]
  assume "tail t \<noteq> length deps"
  with t have "length (take (tail t) (queue t)) < length deps" by (simp add: kahn_inv_def)
  have "?U \<noteq> {}"
  proof
    assume "?U = {}"
    then have "(of_nat :: nat \<Rightarrow> u8) ` {..<length deps} \<subseteq> ?Q" by auto
    then have "card ((of_nat :: nat \<Rightarrow> u8) ` {..<length deps}) \<le> card ?Q" by (simp add: card_mono)
    also have "card ?Q \<le> tail t" by (rule order.trans[OF card_length]) simp
    finally show False
      using rows_fit_eq_iff[OF fit] \<open>tail t \<noteq> length deps\<close> t(1)
      by (simp add: card_image inj_on_def kahn_inv_def)
  qed
  moreover have "wf (dep_rel deps)"
  proof (rule finite_acyclic_wf[OF _ assms(2)])
    have "dep_rel deps \<subseteq> (\<Union>j<length deps. (\<lambda>d. (unat d, j)) ` set (deps ! j))"
      by (auto simp: dep_rel_def)
    then show "finite (dep_rel deps)" by (rule finite_subset) simp
  qed
  ultimately obtain j where j: "j \<in> ?U" "\<And>i. (i, j) \<in> dep_rel deps \<Longrightarrow> i \<notin> ?U"
    by (metis (no_types, lifting) ex_in_conv wfE_min)
  have "set (deps ! j) \<subseteq> ?Q"
  proof
    fix d assume d: "d \<in> set (deps ! j)"
    then have "(unat d, j) \<in> dep_rel deps" using j(1) by (auto simp: dep_rel_def)
    then have "unat d \<notin> ?U" by (rule j(2))
    moreover have "unat d < length deps" using d j(1) assms(1) by (auto simp: valid_deps_def)
    ultimately show "d \<in> ?Q" by simp
  qed
  then have "card (set (deps ! j) \<inter> ?Q) = length (deps ! j)"
    using j(1) assms(1) by (simp add: Int_absorb2 distinct_card valid_deps_def)
  moreover have "in_degree t ! j \<noteq> 0"
    and "unat (in_degree t ! j) + card (set (deps ! j) \<inter> ?Q) = length (deps ! j)"
    using j(1) t by (auto simp: kahn_inv_def)
  ultimately show False by (simp add: unat_eq_zero)
qed

lemma topo_sort_total:
  assumes "valid_deps deps" "acyclic (dep_rel deps)"
  shows "\<exists>ord. topo_sort_const deps = Some ord"
proof -
  note fit = valid_deps_rows_fit[OF assms(1)]
  from kahn_start_inv[OF fit] obtain s where s: "kahn_start deps = Some s" "kahn_inv deps s"
    by blast
  from kahn_loop_inv[OF fit s(2)] obtain t where
    t: "kahn_loop deps s = Some t" "kahn_inv deps t" "head t = tail t" by blast
  from topo_sort_complete_aux[OF assms t(2,3)] t(2,3) have "produced t = length deps"
    by (simp add: kahn_inv_def)
  with s t fit show ?thesis by (simp add: topo_sort_const_def rows_fit_def)
qed

section \<open>Properties of the sort\<close>

text \<open>
  C14. Whatever table the const fn accepts, its result enumerates every slot exactly once and
  every slot comes after all the slots it depends on; the table only has to have fewer than
  256 entries per row, which every row without repeated entries and without itself has.
\<close>

theorem topo_sort_orders_dependencies:
  assumes "length deps \<le> 256" and "\<forall>row \<in> set deps. length row < 256"
    and "topo_sort_const deps = Some ord"
  shows "length ord = length deps \<and> distinct ord \<and> unat ` set ord = {..<length deps}
    \<and> (\<forall>k < length ord. set (deps ! unat (ord ! k)) \<subseteq> set (take k ord))"
  using topo_sort_result[of deps ord] assms by (simp add: rows_fit_def topo_sorted_def)

theorem topo_sort_orders_dependencies_witness:
  "topo_sort_const [[1, 2], [], [1]] = Some [1, 2, 0]
    \<and> set ([[1, 2], [], [1]] ! unat ([1, 2, 0 :: u8] ! 1)) \<subseteq> set (take 1 [1, 2, 0 :: u8])
    \<and> set ([[1, 2], [], [1]] ! unat ([1, 2, 0 :: u8] ! 2)) \<subseteq> set (take 2 [1, 2, 0 :: u8])"
proof -
  have ev: "topo_sort_const [[1, 2], [], [1]] = Some [1, 2, 0]" by code_simp
  have "length [[1, 2], [], [1 :: u8]] \<le> 256" "\<forall>row \<in> set [[1, 2], [], [1 :: u8]]. length row < 256"
    by simp_all
  note ok = topo_sort_orders_dependencies[OF this ev]
  from ok[THEN conjunct2, THEN conjunct2, THEN conjunct2, THEN spec[of _ 1]]
    ok[THEN conjunct2, THEN conjunct2, THEN conjunct2, THEN spec[of _ 2]]
  show ?thesis using ev by simp
qed

text \<open>
  C15. On tables the graph macro can emit (at most 256 slots, rows without repetition, indices
  in range) the sort returns an order exactly when the dependency relation has no cycle: a
  cyclic graph, and only a cyclic graph, is a compile error.
\<close>

theorem topo_sort_rejects_exactly_cycles:
  assumes "valid_deps deps"
  shows "(\<exists>ord. topo_sort_const deps = Some ord) \<longleftrightarrow> acyclic (dep_rel deps)"
  using topo_sort_total[OF assms] topo_sorted_acyclic topo_sort_result valid_deps_rows_fit[OF assms]
  by blast

theorem topo_sort_rejects_exactly_cycles_witness:
  "valid_deps [[1], [0]] \<and> topo_sort_const [[1], [0]] = None \<and> \<not> acyclic (dep_rel [[1], [0]])"
proof -
  have v: "valid_deps [[1], [0]]" by (simp add: valid_deps_def)
  have n: "topo_sort_const [[1], [0]] = None" by code_simp
  from topo_sort_rejects_exactly_cycles[OF v] n v show ?thesis by simp
qed

text \<open>
  The in-degree of a row of 256 entries wraps to zero in \<open>u8\<close>: such a row is treated as
  dependency-free, so a self-dependency repeated 256 times is accepted.
\<close>

lemma topo_sort_accepts_wrapped_row:
  "topo_sort_const [replicate 256 0] = Some [0] \<and> (0, 0) \<in> dep_rel [replicate 256 0]"
proof
  show "topo_sort_const [replicate 256 0] = Some [0]" by code_simp
  show "(0, 0) \<in> dep_rel [replicate 256 0]"
    by (auto simp: dep_rel_def intro!: exI[of _ "0 :: u8"])
qed

section \<open>Shapes and topologies\<close>

text \<open>
  The two implementations of the \<open>Topology\<close> trait. \<open>Flat\<close> has no rows; its order is the
  slot order. Indexing a row out of range panics: \<open>None\<close>.
\<close>

datatype topology = Ordered dep_table "u8 list" | Flat

definition ordered_new :: "dep_table \<Rightarrow> topology option" where
  "ordered_new deps = map_option (Ordered deps) (topo_sort_const deps)"

fun deps_of :: "topology \<Rightarrow> u8 \<Rightarrow> u8 list option" where
  "deps_of (Ordered deps _) i = array_get deps (unat i)"
| "deps_of Flat i = Some []"

fun order_at :: "topology \<Rightarrow> nat \<Rightarrow> u8 option" where
  "order_at (Ordered _ ord) k = array_get ord k"
| "order_at Flat k = Some (of_nat k)"

definition has :: "u32 \<Rightarrow> u32 \<Rightarrow> bool" where
  "has shape_bits b = (shape_bits AND b \<noteq> 0)"

definition SHAPE_READY_DEPS :: u32 where "SHAPE_READY_DEPS = push_bit 0 1"
definition SHAPE_EXEC_SLOTS :: u32 where "SHAPE_EXEC_SLOTS = push_bit 1 1"
definition SHAPE_RESOURCES :: u32 where "SHAPE_RESOURCES = push_bit 2 1"
definition SHAPE_PAUSE :: u32 where "SHAPE_PAUSE = push_bit 3 1"
definition SHAPE_ON_DEMAND :: u32 where "SHAPE_ON_DEMAND = push_bit 4 1"
definition SHAPE_BEATS :: u32 where "SHAPE_BEATS = push_bit 5 1"
definition SHAPE_OBSERVED :: u32 where "SHAPE_OBSERVED = push_bit 6 1"
definition SHAPE_BOUND_DEPS :: u32 where "SHAPE_BOUND_DEPS = push_bit 7 1"
definition SHAPE_POOLS :: u32 where "SHAPE_POOLS = push_bit 8 1"
definition SHAPE_CLAIMS :: u32 where "SHAPE_CLAIMS = push_bit 9 1"
definition SHAPE_ALL :: u32 where "SHAPE_ALL = - 1"

lemma has_bit: "has s (push_bit k 1) \<longleftrightarrow> bit s k" if "k < 32"
  using that by (auto simp: has_def and_exp_eq_0_iff_not_bit push_bit_eq_mult)

end
