(* ===== verification/Handle.thy ===== *)
theory Handle
  imports Prelude
begin

text \<open>
  \<open>TaskHandle\<close> of \<^verbatim>\<open>supervisor/src/lib.rs\<close>: the per-node word of lifecycle flags with its
  atomic operations, and the other live fields. The build modelled has every feature on.

  Two primitives come from other crates and are represented by what the code does to them.
  An embassy \<open>Signal\<close> is the list of the calls made on it, newest first; whether a poll of
  one is ready is never decided here, it is a parameter of the functions that poll. An
  \<open>AtomicWaker\<close> is treated the same way.
\<close>

section \<open>Signals and wakers as call histories\<close>

datatype sig_op = Fire | Reset | Wait

type_synonym signal = "sig_op list"

datatype waker_op = Wake | Register

type_synonym waker = "waker_op list"

section \<open>Flag bits\<close>

definition SHUTDOWN :: u16 where "SHUTDOWN = push_bit 0 1"
definition DROPPED :: u16 where "DROPPED = push_bit 1 1"
definition RUNNING :: u16 where "RUNNING = push_bit 2 1"
definition BUSY :: u16 where "BUSY = push_bit 3 1"
definition COMPLETED :: u16 where "COMPLETED = push_bit 4 1"
definition DISABLED :: u16 where "DISABLED = push_bit 5 1"
definition DETACHED :: u16 where "DETACHED = push_bit 6 1"
definition READY :: u16 where "READY = push_bit 7 1"
definition BOUND_STOPPED :: u16 where "BOUND_STOPPED = push_bit 8 1"
definition COLLATERAL :: u16 where "COLLATERAL = push_bit 9 1"
definition PENDING_ACK :: u16 where "PENDING_ACK = push_bit 10 1"
definition PENDING_EXIT :: u16 where "PENDING_EXIT = push_bit 11 1"
definition RESIDENT :: u16 where "RESIDENT = push_bit 12 1"
definition IDLE :: u16 where "IDLE = push_bit 13 1"

lemmas flag_defs = SHUTDOWN_def DROPPED_def RUNNING_def BUSY_def COMPLETED_def DISABLED_def
  DETACHED_def READY_def BOUND_STOPPED_def COLLATERAL_def PENDING_ACK_def PENDING_EXIT_def
  RESIDENT_def IDLE_def

section \<open>The handle\<close>

record task_handle =
  flags :: u16
  shutdown_wake :: signal
  dropped_wake :: signal
  resume_wake :: signal
  ready_wake :: signal
  last_beat :: u32
  epoch :: u32
  epoch_wake :: signal
  stale_strikes :: u8
  write_mark :: u32
  pending_beat :: bool
  status :: "string option"
  fault :: u8
  hog_ms :: u32
  fault_waker :: waker
  task_id :: u32
  exec_ticks :: u32
  polls :: u32
  max_poll_ticks :: u32
  crumb :: u8
  restarts :: u16
  restart_window_start :: u32

definition handle_new :: "bool \<Rightarrow> task_handle" where
  "handle_new disabled_at_boot =
     \<lparr>flags = (if disabled_at_boot then DISABLED else 0),
      shutdown_wake = [], dropped_wake = [], resume_wake = [], ready_wake = [],
      last_beat = 0, epoch = 0, epoch_wake = [], stale_strikes = 0, write_mark = 0,
      pending_beat = False, status = None, fault = 0, hog_ms = 0, fault_waker = [],
      task_id = 0, exec_ticks = 0, polls = 0, max_poll_ticks = 0, crumb = 0,
      restarts = 0, restart_window_start = 0\<rparr>"

definition flag :: "u16 \<Rightarrow> task_handle \<Rightarrow> bool" where
  "flag b h = (flags h AND b \<noteq> 0)"

definition flag_set :: "u16 \<Rightarrow> task_handle \<Rightarrow> task_handle" where
  "flag_set b h = h\<lparr>flags := flags h OR b\<rparr>"

definition flag_clear :: "u16 \<Rightarrow> task_handle \<Rightarrow> task_handle" where
  "flag_clear bs h = h\<lparr>flags := flags h AND NOT bs\<rparr>"

definition flag_put :: "u16 \<Rightarrow> bool \<Rightarrow> task_handle \<Rightarrow> task_handle" where
  "flag_put b on h = (if on then flag_set b h else flag_clear b h)"

definition flag_swap :: "u16 \<Rightarrow> bool \<Rightarrow> task_handle \<Rightarrow> bool \<times> task_handle" where
  "flag_swap b on h = (let prior = flags h in
     (prior AND b \<noteq> 0, if on then flag_set b h else flag_clear b h))"

section \<open>Reading one bit\<close>

text \<open>
  Every flag test is a test of one bit of the word, so a fact about several operations
  reduces to a fact about bits. \<open>flag_simps\<close> carries the rewriting.
\<close>

lemma flag_push_bit: "k < 16 \<Longrightarrow> flag (push_bit k 1) h \<longleftrightarrow> bit (flags h) k"
  by (auto simp: flag_def and_exp_eq_0_iff_not_bit push_bit_eq_mult)

lemma flag_bit [flag_simps]:
  "flag SHUTDOWN h \<longleftrightarrow> bit (flags h) 0" "flag DROPPED h \<longleftrightarrow> bit (flags h) 1"
  "flag RUNNING h \<longleftrightarrow> bit (flags h) 2" "flag BUSY h \<longleftrightarrow> bit (flags h) 3"
  "flag COMPLETED h \<longleftrightarrow> bit (flags h) 4" "flag DISABLED h \<longleftrightarrow> bit (flags h) 5"
  "flag DETACHED h \<longleftrightarrow> bit (flags h) 6" "flag READY h \<longleftrightarrow> bit (flags h) 7"
  "flag BOUND_STOPPED h \<longleftrightarrow> bit (flags h) 8" "flag COLLATERAL h \<longleftrightarrow> bit (flags h) 9"
  "flag PENDING_ACK h \<longleftrightarrow> bit (flags h) 10" "flag PENDING_EXIT h \<longleftrightarrow> bit (flags h) 11"
  "flag RESIDENT h \<longleftrightarrow> bit (flags h) 12" "flag IDLE h \<longleftrightarrow> bit (flags h) 13"
  unfolding flag_defs by (simp_all only: flag_push_bit)

lemma bit_push_one: "bit (push_bit j 1 :: u16) k \<longleftrightarrow> k = j \<and> j < 16"
  by (auto simp: bit_simps)

lemma bit_flag_const [flag_simps]:
  "bit SHUTDOWN k \<longleftrightarrow> k = 0" "bit DROPPED k \<longleftrightarrow> k = 1" "bit RUNNING k \<longleftrightarrow> k = 2"
  "bit BUSY k \<longleftrightarrow> k = 3" "bit COMPLETED k \<longleftrightarrow> k = 4" "bit DISABLED k \<longleftrightarrow> k = 5"
  "bit DETACHED k \<longleftrightarrow> k = 6" "bit READY k \<longleftrightarrow> k = 7" "bit BOUND_STOPPED k \<longleftrightarrow> k = 8"
  "bit COLLATERAL k \<longleftrightarrow> k = 9" "bit PENDING_ACK k \<longleftrightarrow> k = 10" "bit PENDING_EXIT k \<longleftrightarrow> k = 11"
  "bit RESIDENT k \<longleftrightarrow> k = 12" "bit IDLE k \<longleftrightarrow> k = 13"
  unfolding flag_defs bit_push_one by auto

lemma bit_flags_set [flag_simps]:
  "bit (flags (flag_set b h)) k \<longleftrightarrow> bit (flags h) k \<or> bit b k"
  by (simp add: flag_set_def bit_or_iff)

lemma bit_flags_clear [flag_simps]:
  "bit (flags (flag_clear b h)) k \<longleftrightarrow> bit (flags h) k \<and> \<not> bit b k"
  by (auto simp: flag_clear_def bit_and_iff bit_not_iff dest: bit_imp_le_length)

lemma bit_flags_put [flag_simps]:
  "bit (flags (flag_put b on h)) k \<longleftrightarrow> (if bit b k then on else bit (flags h) k)"
  by (auto simp: flag_put_def bit_flags_set bit_flags_clear)

lemma flag_set_frame [simp]:
  "shutdown_wake (flag_set b h) = shutdown_wake h" "dropped_wake (flag_set b h) = dropped_wake h"
  "resume_wake (flag_set b h) = resume_wake h" "ready_wake (flag_set b h) = ready_wake h"
  "last_beat (flag_set b h) = last_beat h" "epoch (flag_set b h) = epoch h"
  "fault (flag_set b h) = fault h" "restarts (flag_set b h) = restarts h"
  "restart_window_start (flag_set b h) = restart_window_start h" "crumb (flag_set b h) = crumb h"
  "stale_strikes (flag_set b h) = stale_strikes h" "pending_beat (flag_set b h) = pending_beat h"
  by (simp_all add: flag_set_def)

lemma flag_clear_frame [simp]:
  "shutdown_wake (flag_clear b h) = shutdown_wake h" "dropped_wake (flag_clear b h) = dropped_wake h"
  "resume_wake (flag_clear b h) = resume_wake h" "ready_wake (flag_clear b h) = ready_wake h"
  "last_beat (flag_clear b h) = last_beat h" "epoch (flag_clear b h) = epoch h"
  "fault (flag_clear b h) = fault h" "restarts (flag_clear b h) = restarts h"
  "restart_window_start (flag_clear b h) = restart_window_start h" "crumb (flag_clear b h) = crumb h"
  "stale_strikes (flag_clear b h) = stale_strikes h" "pending_beat (flag_clear b h) = pending_beat h"
  by (simp_all add: flag_clear_def)

lemma flag_put_frame [simp]:
  "shutdown_wake (flag_put b on h) = shutdown_wake h" "dropped_wake (flag_put b on h) = dropped_wake h"
  "resume_wake (flag_put b on h) = resume_wake h" "ready_wake (flag_put b on h) = ready_wake h"
  "last_beat (flag_put b on h) = last_beat h" "epoch (flag_put b on h) = epoch h"
  "fault (flag_put b on h) = fault h" "restarts (flag_put b on h) = restarts h"
  "restart_window_start (flag_put b on h) = restart_window_start h" "crumb (flag_put b on h) = crumb h"
  "stale_strikes (flag_put b on h) = stale_strikes h" "pending_beat (flag_put b on h) = pending_beat h"
  by (simp_all add: flag_put_def)

section \<open>Flag readers\<close>

definition h_shutdown :: "task_handle \<Rightarrow> bool" where "h_shutdown h = flag SHUTDOWN h"
definition has_exited :: "task_handle \<Rightarrow> bool" where "has_exited h = flag COMPLETED h"
definition is_ready :: "task_handle \<Rightarrow> bool" where "is_ready h = flag READY h"
definition is_busy :: "task_handle \<Rightarrow> bool" where "is_busy h = flag BUSY h"
definition is_running :: "task_handle \<Rightarrow> bool" where "is_running h = flag RUNNING h"
definition is_disabled :: "task_handle \<Rightarrow> bool" where "is_disabled h = flag DISABLED h"
definition is_collateral :: "task_handle \<Rightarrow> bool" where "is_collateral h = flag COLLATERAL h"
definition is_detached :: "task_handle \<Rightarrow> bool" where "is_detached h = flag DETACHED h"
definition is_bound_stopped :: "task_handle \<Rightarrow> bool" where "is_bound_stopped h = flag BOUND_STOPPED h"
definition has_dropped :: "task_handle \<Rightarrow> bool" where "has_dropped h = flag DROPPED h"
definition has_acked_stop :: "task_handle \<Rightarrow> bool" where
  "has_acked_stop h = (flag DROPPED h \<and> \<not> flag COMPLETED h)"

definition is_settled :: "task_handle \<Rightarrow> bool" where
  "is_settled h = (flags h AND RESIDENT = 0 \<or> flags h AND IDLE \<noteq> 0)"

lemmas reader_defs = h_shutdown_def has_exited_def is_ready_def is_busy_def is_running_def
  is_disabled_def is_collateral_def is_detached_def is_bound_stopped_def has_dropped_def
  has_acked_stop_def

text \<open>The spawn glue's three-way test of the resident bits.\<close>

datatype spawn_error = SpawnBusy

definition sv_resident :: "task_handle \<Rightarrow> spawn_error + bool" where
  "sv_resident h =
     (case (flags h AND RESIDENT \<noteq> 0, flags h AND IDLE \<noteq> 0) of
        (False, _) \<Rightarrow> Inr False
      | (True, True) \<Rightarrow> Inr True
      | (True, False) \<Rightarrow> Inl SpawnBusy)"

section \<open>Operations that touch only the handle\<close>

definition signal_shutdown :: "task_handle \<Rightarrow> task_handle" where
  "signal_shutdown h = (flag_set SHUTDOWN h)\<lparr>shutdown_wake := Fire # shutdown_wake h\<rparr>"

definition signal_resume :: "task_handle \<Rightarrow> task_handle" where
  "signal_resume h = h\<lparr>resume_wake := Fire # resume_wake h\<rparr>"

definition reset :: "task_handle \<Rightarrow> task_handle" where
  "reset h = (let stale = SHUTDOWN OR DROPPED OR BUSY OR COMPLETED OR READY
                          OR PENDING_ACK OR PENDING_EXIT;
                  h1 = flag_clear stale h in
     h1\<lparr>ready_wake := Reset # ready_wake h1, shutdown_wake := Reset # shutdown_wake h1,
        dropped_wake := Reset # dropped_wake h1\<rparr>)"

definition set_disabled :: "bool \<Rightarrow> task_handle \<Rightarrow> task_handle" where
  "set_disabled disabled h = flag_put DISABLED disabled h"

definition set_detached :: "bool \<Rightarrow> task_handle \<Rightarrow> task_handle" where
  "set_detached detached h = flag_put DETACHED detached h"

definition sv_mark_resident :: "task_handle \<Rightarrow> task_handle" where
  "sv_mark_resident h = flag_set RESIDENT h"

definition sv_start :: "task_handle \<Rightarrow> task_handle" where
  "sv_start h = (let h1 = flag_clear IDLE h in h1\<lparr>resume_wake := Fire # resume_wake h1\<rparr>)"

definition beat :: "task_handle \<Rightarrow> task_handle" where
  "beat h = h\<lparr>pending_beat := True\<rparr>"

lemma bit_flags_reset [flag_simps]:
  "bit (flags (reset h)) k \<longleftrightarrow> bit (flags h) k \<and> k \<notin> {0, 1, 3, 4, 7, 10, 11}"
  by (auto simp: reset_def Let_def bit_or_iff flag_simps)

lemma bit_flags_signal_shutdown [flag_simps]:
  "bit (flags (signal_shutdown h)) k \<longleftrightarrow> bit (flags h) k \<or> k = 0"
  by (auto simp: signal_shutdown_def flag_simps)

lemma bit_flags_other [flag_simps]:
  "bit (flags (signal_resume h)) k \<longleftrightarrow> bit (flags h) k"
  "bit (flags (beat h)) k \<longleftrightarrow> bit (flags h) k"
  "bit (flags (sv_start h)) k \<longleftrightarrow> bit (flags h) k \<and> k \<noteq> 13"
  "bit (flags (sv_mark_resident h)) k \<longleftrightarrow> bit (flags h) k \<or> k = 12"
  "bit (flags (set_disabled d h)) k \<longleftrightarrow> (if k = 5 then d else bit (flags h) k)"
  "bit (flags (set_detached d h)) k \<longleftrightarrow> (if k = 6 then d else bit (flags h) k)"
  by (auto simp: signal_resume_def beat_def sv_start_def sv_mark_resident_def set_disabled_def
      set_detached_def Let_def flag_simps)

lemma is_settled_bits [flag_simps]:
  "is_settled h \<longleftrightarrow> \<not> bit (flags h) 12 \<or> bit (flags h) 13"
  using flag_bit(13,14)[of h] by (auto simp: is_settled_def flag_def)

end
