(* ===== verification/Events.thy ===== *)
theory Events
  imports Handle
begin

text \<open>
  Faults, lifecycle events and the breadcrumb of \<^verbatim>\<open>supervisor/src/lib.rs\<close>: what a
  supervisor reports, and the packed word that survives a reset. A node is named by its
  address, \<open>nref\<close>; the address is the identity the source compares with \<open>ptr::eq\<close>.
\<close>

type_synonym nref = nat

section \<open>Node faults\<close>

datatype fault_kind =
    ReadyDepTimeout nref
  | ResourceMissing
  | ExecutorSlotEmpty
  | SpawnFailed spawn_error
  | ShutdownTimeout
  | RestartStorm

datatype node_fault = NodeFault (nf_node: nref) (nf_kind: fault_kind)

text \<open>The unconditional \<open>Display\<close> of a fault; \<open>nm\<close> and \<open>slot_ms\<close> read the node's declaration.\<close>

definition node_fault_display :: "(nref \<Rightarrow> string) \<Rightarrow> (nref \<Rightarrow> nat) \<Rightarrow> node_fault \<Rightarrow> string" where
  "node_fault_display nm slot_ms f =
     (let n = nm (nf_node f) in
      case nf_kind f of
        ReadyDepTimeout dep \<Rightarrow>
          n @ '': ready-dep '' @ nm dep @ '' did not assert within ''
            @ decimal (slot_ms (nf_node f)) @ ''ms''
      | ResourceMissing \<Rightarrow> n @ '': a resource slot was never provided''
      | ExecutorSlotEmpty \<Rightarrow> n @ '': its executor slot was never filled''
      | SpawnFailed _ \<Rightarrow> n @ '': spawn failed, its task pool is exhausted''
      | ShutdownTimeout \<Rightarrow> n @ '': missed its shutdown ack''
      | RestartStorm \<Rightarrow> n @ '': restart budget exhausted'')"

section \<open>Injected faults\<close>

datatype fault = NoFault | Stall | Wedge | Crash | Hog nat

fun fault_as_str :: "fault \<Rightarrow> string" where
  "fault_as_str NoFault = ''none''"
| "fault_as_str Stall = ''stall''"
| "fault_as_str Wedge = ''wedge''"
| "fault_as_str Crash = ''crash''"
| "fault_as_str (Hog _) = ''hog''"

fun fault_encode :: "time_api \<Rightarrow> fault \<Rightarrow> u8 \<times> u32" where
  "fault_encode T NoFault = (0, 0)"
| "fault_encode T Stall = (1, 0)"
| "fault_encode T Wedge = (2, 0)"
| "fault_encode T Crash = (3, 0)"
| "fault_encode T (Hog d) = (4, of_nat (min (as_millis T d) (2 ^ 32 - 1)))"

definition fault_decode :: "time_api \<Rightarrow> u8 \<Rightarrow> u32 \<Rightarrow> fault" where
  "fault_decode T code ms =
     (if code = 1 then Stall
      else if code = 2 then Wedge
      else if code = 3 then Crash
      else if code = 4 then Hog (from_millis T (unat ms))
      else NoFault)"

datatype inject_error = NoShell

lemma fault_decode_encode:
  "fault_decode T (fst (fault_encode T f)) (snd (fault_encode T f)) =
     (case f of Hog d \<Rightarrow> Hog (from_millis T (min (as_millis T d) (2 ^ 32 - 1))) | _ \<Rightarrow> f)"
  by (cases f) (auto simp: fault_decode_def unat_of_nat)

section \<open>Lifecycle events\<close>

datatype lifecycle_kind =
    LkStarted | LkResumed | LkStopRequested | LkStopped | LkExited | LkFaulted fault_kind

fun lifecycle_as_str :: "lifecycle_kind \<Rightarrow> string" where
  "lifecycle_as_str LkStarted = ''started''"
| "lifecycle_as_str LkResumed = ''resumed''"
| "lifecycle_as_str LkStopRequested = ''stop_requested''"
| "lifecycle_as_str LkStopped = ''stopped''"
| "lifecycle_as_str LkExited = ''exited''"
| "lifecycle_as_str (LkFaulted _) = ''faulted''"

datatype lifecycle_event = LifecycleEvent (ev_node: nref) (ev_kind: lifecycle_kind)

datatype transition =
    Spawning | Started | Resumed | StopRequested | Stopped | Exited | Faulted fault_kind

fun transition_kind :: "transition \<Rightarrow> lifecycle_kind option" where
  "transition_kind Spawning = None"
| "transition_kind Started = Some LkStarted"
| "transition_kind Resumed = Some LkResumed"
| "transition_kind StopRequested = Some LkStopRequested"
| "transition_kind Stopped = Some LkStopped"
| "transition_kind Exited = Some LkExited"
| "transition_kind (Faulted k) = Some (LkFaulted k)"

definition acked :: "task_handle \<Rightarrow> transition" where
  "acked h = (if has_exited h then Exited else Stopped)"

section \<open>The breadcrumb\<close>

datatype crumb_phase =
    CpIdle | CpSpawning | CpStarted | CpStopSignalled | CpStopped | CpFaulted | CpResumed

fun crumb_code :: "crumb_phase \<Rightarrow> u8" where
  "crumb_code CpIdle = 0"
| "crumb_code CpSpawning = 1"
| "crumb_code CpStarted = 2"
| "crumb_code CpStopSignalled = 3"
| "crumb_code CpStopped = 4"
| "crumb_code CpFaulted = 5"
| "crumb_code CpResumed = 6"

definition crumb_from_u8 :: "u8 \<Rightarrow> crumb_phase option" where
  "crumb_from_u8 v =
     (if v = 0 then Some CpIdle else if v = 1 then Some CpSpawning
      else if v = 2 then Some CpStarted else if v = 3 then Some CpStopSignalled
      else if v = 4 then Some CpStopped else if v = 5 then Some CpFaulted
      else if v = 6 then Some CpResumed else None)"

fun crumb_as_str :: "crumb_phase \<Rightarrow> string" where
  "crumb_as_str CpIdle = ''idle''"
| "crumb_as_str CpSpawning = ''spawning''"
| "crumb_as_str CpStarted = ''started''"
| "crumb_as_str CpStopSignalled = ''stop_signalled''"
| "crumb_as_str CpStopped = ''stopped''"
| "crumb_as_str CpFaulted = ''faulted''"
| "crumb_as_str CpResumed = ''resumed''"

definition CRUMB_NO_SLOT :: u16 where "CRUMB_NO_SLOT = - 1"

fun transition_phase :: "transition \<Rightarrow> crumb_phase" where
  "transition_phase Spawning = CpSpawning"
| "transition_phase Started = CpStarted"
| "transition_phase Resumed = CpResumed"
| "transition_phase StopRequested = CpStopSignalled"
| "transition_phase Stopped = CpStopped"
| "transition_phase Exited = CpStopped"
| "transition_phase (Faulted _) = CpFaulted"

text \<open>The word \<open>note\<close> stores: bit 31, the phase at bits 16 to 23, the slot below.\<close>

definition crumb_encode :: "crumb_phase \<Rightarrow> u16 \<Rightarrow> u32" where
  "crumb_encode phase slot = 0x80000000 OR push_bit 16 (ucast (crumb_code phase)) OR ucast slot"

definition crumb_slot :: "nat option \<Rightarrow> u16" where
  "crumb_slot slot = (case slot of None \<Rightarrow> CRUMB_NO_SLOT | Some i \<Rightarrow> of_nat i)"

definition decode_crumb :: "u32 \<Rightarrow> (crumb_phase \<times> u16) option" where
  "decode_crumb w =
     (if w AND 0x80000000 = 0 \<or> w AND 0x7F000000 \<noteq> 0 then None
      else case crumb_from_u8 (ucast (drop_bit 16 w)) of
             Some phase \<Rightarrow> Some (phase, ucast w)
           | None \<Rightarrow> None)"

subsection \<open>The word and its reading\<close>

lemma high_bit: "(0x80000000 :: u32) = push_bit 31 1" by simp
lemma high_mask: "(0x7F000000 :: u32) = push_bit 24 (mask 7)" by (simp add: mask_eq_exp_minus_1)

lemma bit_high: "bit (0x80000000 :: u32) k \<longleftrightarrow> k = 31"
  unfolding high_bit by (subst bit_push_bit_iff) auto

lemma and_high: "w AND 0x80000000 = 0 \<longleftrightarrow> \<not> bit w 31" for w :: u32
proof
  assume "w AND 0x80000000 = 0"
  then have "\<not> bit (w AND 0x80000000) 31" by simp
  then show "\<not> bit w 31" by (simp add: bit_and_iff bit_high)
next
  assume "\<not> bit w 31"
  then show "w AND 0x80000000 = 0" by (intro bit_word_eqI) (metis bit_and_iff bit_high bit_0_eq bot_apply bot_bool_def)
qed

lemma bit_crumb_code: "bit (crumb_code p) k \<Longrightarrow> k < 3"
proof -
  assume b: "bit (crumb_code p) k"
  have "crumb_code p AND mask 3 = crumb_code p" by (cases p) (simp_all add: mask_eq_exp_minus_1)
  with b show "k < 3" by (metis bit_and_iff bit_mask_iff)
qed

lemma bit_crumb_encode:
  "bit (crumb_encode p s) k \<longleftrightarrow> k = 31 \<or> (16 \<le> k \<and> bit (crumb_code p) (k - 16)) \<or> bit s k"
  using bit_crumb_code[of p "k - 16"] bit_imp_le_length[of s k]
  unfolding crumb_encode_def bit_or_iff bit_high
  by (auto simp: bit_simps)

lemma crumb_from_code: "crumb_from_u8 (crumb_code p) = Some p"
  by (cases p) (simp_all add: crumb_from_u8_def)

lemma crumb_from_u8_Some: "crumb_from_u8 v = Some p \<Longrightarrow> v = crumb_code p"
  by (auto simp: crumb_from_u8_def split: if_splits)

lemma decode_crumb_encode: "decode_crumb (crumb_encode p s) = Some (p, s)"
proof -
  have a: "crumb_encode p s AND 0x80000000 \<noteq> 0" by (simp add: and_high bit_crumb_encode)
  have b: "crumb_encode p s AND 0x7F000000 = 0"
    unfolding high_mask
    using bit_crumb_code[of p] bit_imp_le_length[of s]
    by (intro bit_word_eqI) (fastforce simp: bit_simps bit_crumb_encode)
  have c: "ucast (drop_bit 16 (crumb_encode p s)) = crumb_code p"
    using bit_crumb_code[of p] bit_imp_le_length[of s]
    by (intro bit_word_eqI) (fastforce simp: bit_simps bit_crumb_encode)
  have d: "ucast (crumb_encode p s) = s"
    using bit_imp_le_length[of s] by (intro bit_word_eqI) (auto simp: bit_simps bit_crumb_encode)
  show ?thesis using a b c d by (simp add: decode_crumb_def crumb_from_code)
qed

lemma crumb_encode_decode: "decode_crumb w = Some (p, s) \<Longrightarrow> w = crumb_encode p s"
proof (rule bit_word_eqI)
  fix k assume d: "decode_crumb w = Some (p, s)" and "k < LENGTH(32)"
  from d have a: "w AND 0x80000000 \<noteq> 0" and b: "w AND 0x7F000000 = 0"
    and c: "crumb_code p = ucast (drop_bit 16 w)" and e: "s = ucast w"
    by (auto simp: decode_crumb_def split: if_splits option.splits dest: crumb_from_u8_Some)
  have a': "bit w 31" using a by (simp add: and_high)
  have b': "\<not> bit w k" if "24 \<le> k" "k < 31" for k
  proof -
    have "\<not> bit (w AND push_bit 24 (mask 7)) k" using b unfolding high_mask by simp
    moreover have "k - 24 < 7" using that by arith
    ultimately show ?thesis using that by (simp add: bit_simps)
  qed
  show "bit w k = bit (crumb_encode p s) k"
    using a' b'[of k] \<open>k < LENGTH(32)\<close> unfolding bit_crumb_encode c e
    by (cases "k = 31"; cases "k < 24") (auto simp: bit_simps)
qed

text \<open>
  C40. The breadcrumb word carries exactly its phase and slot across a reset: decoding what
  \<open>note\<close> stored gives both back, and a word that decodes at all is the one word that was
  stored for that phase and slot, so no other register content is mistaken for a crumb.
\<close>

theorem crumb_word_roundtrip:
  "decode_crumb (crumb_encode p s) = Some (p, s)
    \<and> (decode_crumb w = Some (p, s) \<longleftrightarrow> w = crumb_encode p s)"
  using decode_crumb_encode crumb_encode_decode by blast

end
