(* ===== verification/Budget.thy ===== *)
theory Budget
  imports Handle
begin

text \<open>
  The divisible budget of \<^verbatim>\<open>supervisor/src/budget.rs\<close>: the \<open>FairShare\<close> and
  \<open>ShrinkFastGrowSlow\<close> policies, and the \<open>Budget\<close> they divide. Units are \<open>u32\<close>; the
  intermediate sums and products are \<open>u64\<close>, as in the source.
\<close>

section \<open>FairShare\<close>

definition wants_total :: "u32 list \<Rightarrow> u64" where
  "wants_total wants = sum_list (map (ucast :: u32 \<Rightarrow> u64) wants)"

definition share_floor :: "u64 \<Rightarrow> u64 \<Rightarrow> u32 \<Rightarrow> u32" where
  "share_floor capacity tot w = ucast (capacity * ucast w div tot)"

text \<open>The second loop: the floor of each want, plus one unit while any is left.\<close>

fun hand_out :: "u64 \<Rightarrow> u64 \<Rightarrow> u64 \<Rightarrow> u32 list \<Rightarrow> u32 list" where
  "hand_out capacity tot left [] = []"
| "hand_out capacity tot left (w # ws) =
     (let t = share_floor capacity tot w in
      if 0 < left \<and> t < w
      then (t + 1) # hand_out capacity tot (left - 1) ws
      else t # hand_out capacity tot left ws)"

text \<open>
  \<open>targets\<close> calls its visitor once per slot, in slot order; the model is the list of the
  values it passes.
\<close>

definition targets :: "u32 \<Rightarrow> u32 list \<Rightarrow> u32 list" where
  "targets capacity wants =
     (let tot = wants_total wants in
      if tot \<le> ucast capacity then wants
      else let cap = ucast capacity;
               used = sum_list (map (\<lambda>w. ucast (share_floor cap tot w)) wants);
               left = cap - used
           in hand_out cap tot left wants)"

definition fair_share_divide ::
  "u32 \<Rightarrow> u32 list \<Rightarrow> u32 list \<Rightarrow> nat \<Rightarrow> unit \<Rightarrow> (u32 list \<times> nat option) \<times> unit" where
  "fair_share_divide capacity wants grants now st = ((targets capacity wants, None), st)"

section \<open>ShrinkFastGrowSlow\<close>

record sfgs =
  ramp_step :: u32
  ramp_interval :: nat
  ramp_next :: "nat option"

definition sfgs_new :: "u32 \<Rightarrow> nat \<Rightarrow> sfgs" where
  "sfgs_new st iv = \<lparr>ramp_step = st, ramp_interval = iv, ramp_next = None\<rparr>"

text \<open>The visitor: a cut lands at once, a rise by at most \<open>step\<close> and only when due.\<close>

definition sfgs_visit :: "bool \<Rightarrow> u32 \<Rightarrow> u32 \<Rightarrow> u32 \<Rightarrow> u32 \<times> bool" where
  "sfgs_visit due st t g =
     (if t < g then (t, False)
      else if t > g then let g' = (if due then min (sat_add g st) t else g) in (g', g' < t)
      else (g, False))"

definition sfgs_divide ::
  "u32 \<Rightarrow> u32 list \<Rightarrow> u32 list \<Rightarrow> nat \<Rightarrow> sfgs \<Rightarrow> (u32 list \<times> nat option) \<times> sfgs" where
  "sfgs_divide capacity wants grants now p =
     (let due = (case ramp_next p of None \<Rightarrow> True | Some t \<Rightarrow> t \<le> now);
          visits = map2 (sfgs_visit due (ramp_step p)) (targets capacity wants) grants;
          converging = list_ex snd visits;
          nxt = (if converging
                 then Some (if due then now + ramp_interval p
                            else case ramp_next p of None \<Rightarrow> now | Some t \<Rightarrow> t)
                 else None)
      in ((map fst visits, nxt), p\<lparr>ramp_next := nxt\<rparr>))"

section \<open>The shares over the natural numbers\<close>

fun hand_nat :: "nat \<Rightarrow> nat \<Rightarrow> nat \<Rightarrow> nat list \<Rightarrow> nat list" where
  "hand_nat c T left [] = []"
| "hand_nat c T left (w # ws) =
     (let t = c * w div T in
      if 0 < left \<and> t < w then Suc t # hand_nat c T (left - 1) ws else t # hand_nat c T left ws)"

definition floors :: "nat \<Rightarrow> nat \<Rightarrow> nat list \<Rightarrow> nat" where
  "floors c T ws = sum_list (map (\<lambda>w. c * w div T) ws)"

definition shares_nat :: "nat \<Rightarrow> nat list \<Rightarrow> nat list" where
  "shares_nat c ws = (let T = sum_list ws in
     if T \<le> c then ws else hand_nat c T (c - floors c T ws) ws)"

lemma length_hand_nat [simp]: "length (hand_nat c T left ws) = length ws"
  by (induction ws arbitrary: left) (simp_all add: Let_def)

lemma length_shares_nat [simp]: "length (shares_nat c ws) = length ws"
  by (simp add: shares_nat_def Let_def)

lemma floor_le: "c < T \<Longrightarrow> c * w div T \<le> (w :: nat)"
  by (metis div_le_mono div_mult_self_is_m less_imp_le mult.commute mult_le_mono1 neq0_conv not_less0)

lemma hand_nat_bounds:
  "c < T \<Longrightarrow> i < length ws \<Longrightarrow>
     c * (ws ! i) div T \<le> hand_nat c T left ws ! i
     \<and> hand_nat c T left ws ! i \<le> Suc (c * (ws ! i) div T)
     \<and> hand_nat c T left ws ! i \<le> ws ! i"
proof (induction ws arbitrary: left i)
  case Nil
  then show ?case by simp
next
  case (Cons w ws)
  show ?case
    using Cons.IH[of "i - 1" "left - 1"] Cons.IH[of "i - 1" left] Cons.prems floor_le[of c T w]
    by (cases i) (auto simp: Let_def)
qed

lemma hand_nat_sum:
  "left \<le> length (filter (\<lambda>w. c * w div T < w) ws) \<Longrightarrow>
     sum_list (hand_nat c T left ws) = floors c T ws + left"
proof (induction ws arbitrary: left)
  case Nil
  then show ?case by (simp add: floors_def)
next
  case (Cons w ws)
  then show ?case
    using Cons.IH[of "left - 1"] Cons.IH[of left]
    by (auto simp: Let_def floors_def)
qed

lemma floors_remainder:
  "T * floors c T ws + sum_list (map (\<lambda>w. c * w mod T) ws) = c * sum_list ws"
  by (induction ws) (auto simp: floors_def algebra_simps)

lemma floors_le: "0 < sum_list ws \<Longrightarrow> floors c (sum_list ws) ws \<le> c"
  using floors_remainder[of "sum_list ws" c ws]
  by (metis le_add1 mult.commute mult_le_cancel1)

lemma remainder_count:
  assumes "c < T"
  shows "sum_list (map (\<lambda>w. c * w mod T) ws) \<le> T * length (filter (\<lambda>w. c * w div T < w) ws)"
proof (induction ws)
  case Nil
  then show ?case by simp
next
  case (Cons w ws)
  have "c * w mod T \<le> (if c * w div T < w then T else 0)"
  proof (cases "c * w div T < w")
    case True
    then show ?thesis using assms by (simp add: less_imp_le)
  next
    case False
    then have "w \<le> c * w div T" by simp
    then have "w * T \<le> c * w" by (metis div_le_mono div_times_less_eq_dividend le_trans mult_le_mono1)
    then have "w = 0" using assms by (metis mult.commute mult_le_cancel2 neq0_conv not_less)
    then show ?thesis by simp
  qed
  with Cons show ?case by auto
qed

lemma shares_nat_sum:
  assumes "c < sum_list ws"
  shows "sum_list (shares_nat c ws) = c"
proof -
  let ?T = "sum_list ws"
  have le: "floors c ?T ws \<le> c" using assms by (intro floors_le) simp
  have "?T * (c - floors c ?T ws) = sum_list (map (\<lambda>w. c * w mod ?T) ws)"
    using floors_remainder[of ?T c ws] by (simp add: diff_mult_distrib2 mult.commute)
  also have "\<dots> \<le> ?T * length (filter (\<lambda>w. c * w div ?T < w) ws)"
    using assms by (rule remainder_count)
  finally have "c - floors c ?T ws \<le> length (filter (\<lambda>w. c * w div ?T < w) ws)"
    using assms by (simp add: mult_le_cancel1)
  from hand_nat_sum[OF this] le assms show ?thesis
    by (simp add: shares_nat_def Let_def)
qed

section \<open>The machine computation is the one over the naturals\<close>

lemma u32_bound: "unat (w :: u32) < 2 ^ 32"
proof -
  have "unat w < 2 ^ LENGTH(32)" by (rule unsigned_less)
  then show ?thesis by simp
qed

lemma unat_ucast_u64 [simp]: "unat (ucast (w :: u32) :: u64) = unat w"
  using u32_bound[of w] by (simp add: unsigned_ucast_eq take_bit_nat_eq_self)

lemma unat_u64_mult: "unat ((ucast (a :: u32) :: u64) * ucast (b :: u32)) = unat a * unat b"
proof -
  have "unat a * unat b < 2 ^ 32 * 2 ^ 32"
    using u32_bound by (intro mult_strict_mono) simp_all
  then show ?thesis by (simp add: unat_word_ariths)
qed

lemma unat_wants_total:
  assumes "length ws \<le> 2 ^ 32"
  shows "unat (wants_total ws) = sum_list (map unat ws)"
proof -
  have bound: "sum_list (map unat ws) \<le> length ws * (2 ^ 32 - 1)" for ws :: "u32 list"
  proof (induction ws)
    case (Cons w ws)
    then show ?case using u32_bound[of w] by simp
  qed simp
  have "unat (wants_total ws) = sum_list (map unat ws) mod 2 ^ 64" for ws
    by (induction ws) (simp_all add: wants_total_def unat_word_ariths mod_add_right_eq)
  moreover have "length ws * (2 ^ 32 - 1) \<le> 2 ^ 32 * (2 ^ 32 - 1 :: nat)"
    using assms by (rule mult_le_mono1)
  ultimately show ?thesis using bound[of ws] by simp
qed

lemma unat_share_floor:
  fixes c :: u32
  assumes "unat c < unat tot"
  shows "unat (share_floor (ucast c) tot w) = unat c * unat w div unat tot"
proof -
  have "unat c * unat w div unat tot \<le> unat w" using assms by (rule floor_le)
  then have "unat c * unat w div unat tot < 2 ^ 32" using u32_bound[of w] by simp
  then show ?thesis
    by (simp add: share_floor_def unsigned_ucast_eq unat_div unat_u64_mult take_bit_nat_eq_self)
qed

lemma unat_hand_out:
  fixes c :: u32
  assumes "unat c < unat tot"
  shows "map unat (hand_out (ucast c) tot left ws)
    = hand_nat (unat c) (unat tot) (unat left) (map unat ws)"
proof (induction ws arbitrary: left)
  case Nil
  show ?case by simp
next
  case (Cons w ws)
  let ?t = "share_floor (ucast c) tot w"
  have lt: "?t < w \<longleftrightarrow> unat c * unat w div unat tot < unat w"
    by (simp add: word_less_nat_alt unat_share_floor[OF assms])
  have inc: "unat (?t + 1) = Suc (unat ?t)" if "?t < w"
    using that u32_bound[of w] by (simp add: unat_word_ariths word_less_nat_alt)
  have dec: "unat (left - 1) = unat left - 1" if "0 < left"
    using that by (simp add: unat_minus_one word_gt_0)
  show ?case
    using Cons.IH[of "left - 1"] Cons.IH[of left] lt inc dec
    by (simp add: Let_def unat_share_floor[OF assms] word_less_nat_alt)
qed

lemma unat_targets:
  assumes "length ws \<le> 2 ^ 32"
  shows "map unat (targets c ws) = shares_nat (unat c) (map unat ws)"
proof (cases "wants_total ws \<le> ucast c")
  case True
  then show ?thesis
    using unat_wants_total[OF assms]
    by (simp add: targets_def shares_nat_def Let_def word_le_nat_alt)
next
  case False
  let ?T = "wants_total ws"
  have lt: "unat c < unat ?T" using False by (simp add: word_le_nat_alt)
  have T: "unat ?T = sum_list (map unat ws)" by (rule unat_wants_total[OF assms])
  let ?fs = "map (share_floor (ucast c) ?T) ws"
  have "unat (wants_total ?fs) = sum_list (map unat ?fs)"
    using assms by (intro unat_wants_total) simp
  also have "map unat ?fs = map (\<lambda>w. unat c * w div unat ?T) (map unat ws)"
    by (simp add: unat_share_floor[OF lt])
  finally have used: "unat (wants_total ?fs) = floors (unat c) (unat ?T) (map unat ws)"
    by (simp add: floors_def)
  have "floors (unat c) (unat ?T) (map unat ws) \<le> unat c"
    unfolding T using lt T by (intro floors_le) simp
  then have "unat (ucast c - wants_total ?fs) = unat c - floors (unat c) (unat ?T) (map unat ws)"
    by (simp add: unat_sub word_le_nat_alt used)
  moreover have "targets c ws = hand_out (ucast c) ?T (ucast c - wants_total ?fs) ws"
    using False by (simp add: targets_def Let_def wants_total_def comp_def)
  ultimately show ?thesis
    using lt T by (simp add: unat_hand_out[OF lt] shares_nat_def Let_def)
qed

lemma length_targets [simp]: "length (targets c ws) = length ws"
proof -
  have "length (hand_out a b d ws) = length ws" for a b d
    by (induction ws arbitrary: d) (simp_all add: Let_def)
  then show ?thesis by (simp add: targets_def Let_def)
qed

lemma targets_sum:
  assumes "length ws \<le> 2 ^ 32"
  shows "sum_list (map unat (targets c ws)) = min (unat c) (sum_list (map unat ws))"
  unfolding unat_targets[OF assms]
  using shares_nat_sum[of "unat c" "map unat ws"]
  by (cases "unat c < sum_list (map unat ws)") (auto simp: shares_nat_def Let_def)

lemma targets_le_wants:
  assumes "length ws \<le> 2 ^ 32" "i < length ws"
  shows "targets c ws ! i \<le> ws ! i"
proof -
  have "map unat (targets c ws) ! i \<le> map unat ws ! i"
    unfolding unat_targets[OF assms(1)]
    using hand_nat_bounds[of "unat c" "sum_list (map unat ws)" i "map unat ws"] assms(2)
    by (cases "sum_list (map unat ws) \<le> unat c") (auto simp: shares_nat_def Let_def)
  then show ?thesis using assms(2) by (simp add: word_le_nat_alt)
qed

lemma targets_proportional:
  assumes "length ws \<le> 2 ^ 32" "i < length ws" "unat c < sum_list (map unat ws)"
  shows "unat c * unat (ws ! i) div sum_list (map unat ws) \<le> unat (targets c ws ! i)
    \<and> unat (targets c ws ! i) \<le> Suc (unat c * unat (ws ! i) div sum_list (map unat ws))"
proof -
  have "unat (targets c ws ! i) = shares_nat (unat c) (map unat ws) ! i"
    using assms(2) by (metis length_targets nth_map unat_targets[OF assms(1)])
  then show ?thesis
    using hand_nat_bounds[of "unat c" "sum_list (map unat ws)" i "map unat ws"] assms(2,3)
    by (simp add: shares_nat_def Let_def)
qed

section \<open>The contract of a policy\<close>

text \<open>
  What the allocator relies on: a division has one grant per slot, never grants more than
  was wanted and never more in all than the capacity. \<open>Budget\<close> has at most 256 slots, a slot
  being a \<open>u8\<close>.
\<close>

locale budget_policy =
  fixes pol :: "u32 \<Rightarrow> u32 list \<Rightarrow> u32 list \<Rightarrow> nat \<Rightarrow> 'p \<Rightarrow> (u32 list \<times> nat option) \<times> 'p"
  assumes divide_length: "length grants = length wants \<Longrightarrow>
      length (fst (fst (pol c wants grants now p))) = length wants"
    and divide_sum: "length grants = length wants \<Longrightarrow> length wants \<le> 256 \<Longrightarrow>
      sum_list (map unat (fst (fst (pol c wants grants now p)))) \<le> unat c"
    and divide_wants: "length grants = length wants \<Longrightarrow> length wants \<le> 256 \<Longrightarrow> i < length wants \<Longrightarrow>
      fst (fst (pol c wants grants now p)) ! i \<le> wants ! i"

lemma sum_list_unat_mono:
  "length xs = length ys \<Longrightarrow> (\<And>i. i < length xs \<Longrightarrow> xs ! i \<le> ys ! i) \<Longrightarrow>
     sum_list (map unat xs) \<le> sum_list (map unat (ys :: u32 list))"
proof (induction xs ys rule: list_induct2)
  case (Cons x xs y ys)
  have "x \<le> y" using Cons.prems[of 0] by simp
  moreover have "xs ! i \<le> ys ! i" if "i < length xs" for i
    using Cons.prems[of "Suc i"] that by simp
  ultimately show ?case using Cons.IH by (simp add: word_le_nat_alt add_mono)
qed simp

interpretation fair: budget_policy fair_share_divide
proof unfold_locales
  fix grants wants :: "u32 list" and c now p
  assume len: "length wants \<le> 256"
  show "sum_list (map unat (fst (fst (fair_share_divide c wants grants now p)))) \<le> unat c"
    using len by (simp add: fair_share_divide_def targets_sum)
  fix i assume "i < length wants"
  with len show "fst (fst (fair_share_divide c wants grants now p)) ! i \<le> wants ! i"
    by (simp add: fair_share_divide_def targets_le_wants)
qed (simp add: fair_share_divide_def)

lemma sfgs_visit_le: "fst (sfgs_visit due st t g) \<le> t"
  by (auto simp: sfgs_visit_def Let_def)

lemma sfgs_grants:
  assumes "length grants = length wants"
  shows "length (fst (fst (sfgs_divide c wants grants now p))) = length wants"
    and "i < length wants \<Longrightarrow> fst (fst (sfgs_divide c wants grants now p)) ! i
      = fst (sfgs_visit (case ramp_next p of None \<Rightarrow> True | Some t \<Rightarrow> t \<le> now) (ramp_step p)
          (targets c wants ! i) (grants ! i))"
  using assms by (simp_all add: sfgs_divide_def Let_def)

lemma sfgs_le_targets:
  assumes "length grants = length wants" "i < length wants"
  shows "fst (fst (sfgs_divide c wants grants now p)) ! i \<le> targets c wants ! i"
  using sfgs_grants(2)[OF assms(1,2)] sfgs_visit_le by metis

interpretation ramp: budget_policy sfgs_divide
proof unfold_locales
  fix grants wants :: "u32 list" and c now p
  assume eq: "length grants = length wants"
  then show "length (fst (fst (sfgs_divide c wants grants now p))) = length wants"
    by (rule sfgs_grants(1))
  assume len: "length wants \<le> 256"
  have "sum_list (map unat (fst (fst (sfgs_divide c wants grants now p))))
      \<le> sum_list (map unat (targets c wants))"
    using eq sfgs_grants(1)[OF eq] sfgs_le_targets by (intro sum_list_unat_mono) simp_all
  also have "\<dots> \<le> unat c" using len by (simp add: targets_sum)
  finally show "sum_list (map unat (fst (fst (sfgs_divide c wants grants now p)))) \<le> unat c" .
  fix i assume i: "i < length wants"
  have "fst (fst (sfgs_divide c wants grants now p)) ! i \<le> targets c wants ! i"
    using eq i by (rule sfgs_le_targets)
  also have "\<dots> \<le> wants ! i" using len i by (simp add: targets_le_wants)
  finally show "fst (fst (sfgs_divide c wants grants now p)) ! i \<le> wants ! i" .
qed

section \<open>The budget\<close>

record budget =
  capacity :: u32
  wants :: "u32 list"
  grants :: "u32 list"
  filled :: signal
  claimants :: "waker list"
  watch :: signal

definition budget_new :: "nat \<Rightarrow> budget" where
  "budget_new n = \<lparr>capacity = 0, wants = replicate n 0, grants = replicate n 0,
     filled = [], claimants = replicate n [], watch = []\<rparr>"

text \<open>The second component says whether the crate-wide gate event is raised.\<close>

definition budget_provide :: "u32 \<Rightarrow> budget \<Rightarrow> budget \<times> bool" where
  "budget_provide c b =
     (let b1 = b\<lparr>capacity := c\<rparr>;
          b2 = (if 0 < c then b1\<lparr>filled := Fire # filled b1\<rparr> else b1)
      in (b2\<lparr>watch := Fire # watch b2\<rparr>, 0 < c))"

text \<open>A slot beyond the arrays panics.\<close>

definition budget_want :: "u8 \<Rightarrow> u32 \<Rightarrow> budget \<Rightarrow> budget option" where
  "budget_want slot units b =
     (case array_set (wants b) (unat slot) units of
        None \<Rightarrow> None
      | Some ws \<Rightarrow> Some (b\<lparr>wants := ws, watch := Fire # watch b\<rparr>))"

definition budget_release :: "u8 \<Rightarrow> budget \<Rightarrow> budget option" where
  "budget_release slot b =
     (case array_set (wants b) (unat slot) 0 of
        None \<Rightarrow> None
      | Some ws \<Rightarrow>
          (case array_set (grants b) (unat slot) 0 of
             None \<Rightarrow> None
           | Some gs \<Rightarrow> Some (b\<lparr>wants := ws, grants := gs, watch := Fire # watch b\<rparr>)))"

definition budget_grant :: "u8 \<Rightarrow> budget \<Rightarrow> u32 option" where
  "budget_grant slot b = array_get (grants b) (unat slot)"

definition budget_want_of :: "u8 \<Rightarrow> budget \<Rightarrow> u32 option" where
  "budget_want_of slot b = array_get (wants b) (unat slot)"

definition total_granted :: "budget \<Rightarrow> u32" where
  "total_granted b = foldl sat_add 0 (grants b)"

definition budget_is_filled :: "budget \<Rightarrow> bool" where
  "budget_is_filled b = (0 < capacity b)"

definition budget_clear :: "budget \<Rightarrow> budget" where
  "budget_clear b = b\<lparr>capacity := 0, grants := map (\<lambda>_. 0) (grants b),
     filled := Reset # filled b, claimants := map (\<lambda>k. Wake # k) (claimants b),
     watch := Fire # watch b\<rparr>"

text \<open>
  \<open>rebalance\<close> works on a snapshot. Other tasks may write the budget while the policy runs;
  \<open>other\<close> is what they did between the snapshot and the publication. Each grant is swapped
  in, a holder whose grant moved is woken, and a snapshot found stale re-raises the watch.
\<close>

definition publish :: "u32 list \<Rightarrow> budget \<Rightarrow> budget" where
  "publish gs b = b\<lparr>grants := gs,
     claimants := map2 (\<lambda>(old, new) k. if old \<noteq> new then Wake # k else k)
                    (zip (grants b) gs) (claimants b)\<rparr>"

definition rebalance ::
  "(u32 \<Rightarrow> u32 list \<Rightarrow> u32 list \<Rightarrow> nat \<Rightarrow> 'p \<Rightarrow> (u32 list \<times> nat option) \<times> 'p)
     \<Rightarrow> (budget \<Rightarrow> budget) \<Rightarrow> nat \<Rightarrow> 'p \<Rightarrow> budget \<Rightarrow> (nat option \<times> budget) \<times> 'p" where
  "rebalance pol other now p b =
     (let cap = capacity b; ws = wants b;
          r = pol cap ws (grants b) now p;
          b1 = publish (fst (fst r)) (other b);
          stale = (capacity b1 \<noteq> cap \<or> list_ex (\<lambda>(seen, cur). cur \<noteq> seen) (zip ws (wants b1)));
          b2 = (if stale then b1\<lparr>watch := Fire # watch b1\<rparr> else b1)
      in ((snd (fst r), b2), snd r))"

text \<open>One poll of \<open>wait_grant_change\<close>: check, register, check again after \<open>other\<close>.\<close>

definition poll_grant_change ::
  "(budget \<Rightarrow> budget) \<Rightarrow> u8 \<Rightarrow> u32 \<Rightarrow> budget \<Rightarrow> (u32 option \<times> budget) option" where
  "poll_grant_change other slot seen b =
     (case budget_grant slot b of
        None \<Rightarrow> None
      | Some g \<Rightarrow>
          if g \<noteq> seen then Some (Some g, b)
          else (case array_set (claimants b) (unat slot) (Register # claimants b ! unat slot) of
                  None \<Rightarrow> None
                | Some ks \<Rightarrow>
                    (let b1 = other (b\<lparr>claimants := ks\<rparr>) in
                     case budget_grant slot b1 of
                       None \<Rightarrow> None
                     | Some g1 \<Rightarrow> Some (if g1 \<noteq> seen then Some g1 else None, b1))))"

definition budget_shape :: "nat \<Rightarrow> budget \<Rightarrow> bool" where
  "budget_shape n b \<longleftrightarrow> length (wants b) = n \<and> length (grants b) = n \<and> length (claimants b) = n"

context budget_policy
begin

lemma rebalance_sum:
  assumes "budget_shape n b" "n \<le> 256"
  shows "sum_list (map unat (grants (snd (fst (rebalance pol other now p b))))) \<le> unat (capacity b)"
  using divide_sum[of "grants b" "wants b"] assms
  by (simp add: rebalance_def Let_def publish_def budget_shape_def)

lemma rebalance_wants:
  assumes "budget_shape n b" "n \<le> 256" "i < n"
  shows "grants (snd (fst (rebalance pol other now p b))) ! i \<le> wants b ! i"
  using divide_wants[of "grants b" "wants b" i] assms
  by (simp add: rebalance_def Let_def publish_def budget_shape_def)

lemma rebalance_shape:
  assumes "budget_shape n b" "budget_shape n (other b)"
  shows "budget_shape n (snd (fst (rebalance pol other now p b)))"
  using divide_length[of "grants b" "wants b"] assms
  by (simp add: rebalance_def Let_def publish_def budget_shape_def)

end

section \<open>The ramp settles\<close>

text \<open>
  An allocator that reruns the policy at the instant it returned: \<open>ramp_rounds n\<close> makes at
  most \<open>n + 1\<close> divisions and stops at the first that returns \<open>None\<close>.
\<close>

fun ramp_rounds :: "nat \<Rightarrow> u32 \<Rightarrow> u32 list \<Rightarrow> u32 list \<Rightarrow> nat \<Rightarrow> sfgs \<Rightarrow> (u32 list \<times> nat option) \<times> sfgs" where
  "ramp_rounds 0 c ws gs now p = sfgs_divide c ws gs now p"
| "ramp_rounds (Suc n) c ws gs now p =
     (let r = sfgs_divide c ws gs now p in
      case snd (fst r) of
        None \<Rightarrow> r
      | Some at \<Rightarrow> ramp_rounds n c ws (fst (fst r)) at (snd r))"

definition ramp_due :: "sfgs \<Rightarrow> nat \<Rightarrow> bool" where
  "ramp_due p now = (case ramp_next p of None \<Rightarrow> True | Some t \<Rightarrow> t \<le> now)"

lemma sfgs_visit_due:
  "unat (fst (sfgs_visit True st t g)) = (if t < g then unat t else min (unat g + unat st) (unat t))"
proof -
  have "unat t < 2 ^ 32" by (rule u32_bound)
  then have "unat (min (sat_add g st) t) = min (unat g + unat st) (unat t)"
    by (auto simp: min_def word_le_nat_alt unat_sat_add)
  then show ?thesis by (auto simp: sfgs_visit_def Let_def word_less_nat_alt)
qed

lemma sfgs_visit_converging: "snd (sfgs_visit due st t g) \<longleftrightarrow> fst (sfgs_visit due st t g) \<noteq> t"
  by (auto simp: sfgs_visit_def Let_def min_def)

lemma sfgs_divide_settled:
  assumes "length gs = length ws"
  shows "snd (fst (sfgs_divide c ws gs now p)) = None \<longleftrightarrow> fst (fst (sfgs_divide c ws gs now p)) = targets c ws"
proof -
  let ?due = "ramp_due p now"
  have "list_ex snd (map2 (sfgs_visit ?due (ramp_step p)) ts gs)
      \<longleftrightarrow> map fst (map2 (sfgs_visit ?due (ramp_step p)) ts gs) \<noteq> ts"
    if "length ts = length gs" for ts
    using that by (induction ts gs rule: list_induct2) (auto simp: sfgs_visit_converging)
  from this[of "targets c ws"] assms show ?thesis
    by (simp add: sfgs_divide_def Let_def ramp_due_def)
qed

lemma sfgs_divide_deadline:
  "snd (fst (sfgs_divide c ws gs now p)) = Some at \<Longrightarrow> ramp_due (snd (sfgs_divide c ws gs now p)) at"
  "ramp_step (snd (sfgs_divide c ws gs now p)) = ramp_step p"
  by (auto simp: sfgs_divide_def Let_def ramp_due_def split: if_splits)

lemma sfgs_due_gap:
  assumes "length gs = length ws" "i < length ws" "ramp_due p now"
    and "unat (targets c ws ! i) \<le> unat (gs ! i) + (k + unat (ramp_step p))"
  shows "unat (targets c ws ! i) \<le> unat (fst (fst (sfgs_divide c ws gs now p)) ! i) + k"
  using sfgs_grants(2)[OF assms(1,2), of c now p] assms(3,4)
  by (auto simp: ramp_due_def sfgs_visit_due)

lemma sfgs_due_done:
  assumes "length gs = length ws" "ramp_due p now"
    and "\<forall>i < length ws. unat (targets c ws ! i) \<le> unat (gs ! i) + unat (ramp_step p)"
  shows "fst (fst (sfgs_divide c ws gs now p)) = targets c ws"
proof (rule nth_equalityI)
  show "length (fst (fst (sfgs_divide c ws gs now p))) = length (targets c ws)"
    using sfgs_grants(1)[OF assms(1)] by simp
  fix i assume "i < length (fst (fst (sfgs_divide c ws gs now p)))"
  then have i: "i < length ws" using sfgs_grants(1)[OF assms(1)] by simp
  have "unat (targets c ws ! i) \<le> unat (fst (fst (sfgs_divide c ws gs now p)) ! i)"
    using sfgs_due_gap[OF assms(1) i assms(2), of c 0] assms(3) i by simp
  then show "fst (fst (sfgs_divide c ws gs now p)) ! i = targets c ws ! i"
    using sfgs_le_targets[OF assms(1) i, of c now p] by (simp add: word_le_nat_alt word_unat_eq_iff)
qed

lemma ramp_rounds_due:
  assumes "length gs = length ws" "ramp_due p now"
    and "\<forall>i < length ws. unat (targets c ws ! i) \<le> unat (gs ! i) + Suc n * unat (ramp_step p)"
  shows "fst (ramp_rounds n c ws gs now p) = (targets c ws, None)"
  using assms
proof (induction n arbitrary: gs now p)
  case 0
  then have "fst (fst (sfgs_divide c ws gs now p)) = targets c ws"
    by (intro sfgs_due_done) simp_all
  then show ?case using sfgs_divide_settled[OF "0.prems"(1)] by (simp add: prod_eq_iff)
next
  case (Suc n)
  let ?r = "sfgs_divide c ws gs now p"
  show ?case
  proof (cases "snd (fst ?r)")
    case None
    then have "fst (fst ?r) = targets c ws" using sfgs_divide_settled[OF Suc.prems(1)] by blast
    with None show ?thesis by (simp add: Let_def prod_eq_iff)
  next
    case (Some at)
    have "\<forall>i < length ws. unat (targets c ws ! i) \<le> unat (fst (fst ?r) ! i) + Suc n * unat (ramp_step p)"
      using Suc.prems sfgs_due_gap[OF Suc.prems(1) _ Suc.prems(2), where k = "Suc n * unat (ramp_step p)"]
      by (simp add: algebra_simps)
    then have "fst (ramp_rounds n c ws (fst (fst ?r)) at (snd ?r)) = (targets c ws, None)"
      using Suc.IH[of "fst (fst ?r)" "snd ?r" at] sfgs_grants(1)[OF Suc.prems(1)]
        sfgs_divide_deadline[of c ws gs now p] Some by simp
    then show ?thesis using Some by (simp add: Let_def)
  qed
qed

lemma sfgs_keeps_gap:
  assumes "length gs = length ws" "i < length ws"
    and "unat (targets c ws ! i) \<le> unat (gs ! i) + k"
  shows "unat (targets c ws ! i) \<le> unat (fst (fst (sfgs_divide c ws gs now p)) ! i) + k"
proof -
  have "unat g \<le> unat (sat_add g st)" for g st :: u32
    using u32_bound[of g] by (simp add: unat_sat_add)
  then have "t \<le> fst (sfgs_visit d st t g) \<or> g \<le> fst (sfgs_visit d st t g)" for d st t g
    by (auto simp: sfgs_visit_def Let_def min_def word_le_nat_alt word_less_nat_alt)
  then have "targets c ws ! i \<le> fst (fst (sfgs_divide c ws gs now p)) ! i
      \<or> gs ! i \<le> fst (fst (sfgs_divide c ws gs now p)) ! i"
    unfolding sfgs_grants(2)[OF assms(1,2)] by blast
  then show ?thesis using assms(3) by (auto simp: word_le_nat_alt)
qed

lemma zip_differs:
  "length xs = length ys \<Longrightarrow> list_ex (\<lambda>(seen, cur). cur \<noteq> seen) (zip xs ys) \<longleftrightarrow> ys \<noteq> xs"
  by (induction xs ys rule: list_induct2) auto

section \<open>Properties of the division\<close>

text \<open>
  C30. \<open>FairShare\<close> is a fair division: no slot gets more than it wants, the grants add up to
  the demand when it fits and to exactly the capacity when it does not (no unit is lost to
  rounding, none is invented by the \<open>u64\<close>/\<open>u32\<close> arithmetic), and under overload every slot
  gets its proportional share rounded down or that plus one.
\<close>

theorem fair_share_is_fair:
  assumes "length ws \<le> 256"
  shows "sum_list (map unat (targets c ws)) = min (unat c) (sum_list (map unat ws))
    \<and> (\<forall>i < length ws. targets c ws ! i \<le> ws ! i)
    \<and> (unat c < sum_list (map unat ws) \<longrightarrow> (\<forall>i < length ws.
         (let q = unat c * unat (ws ! i) div sum_list (map unat ws)
          in q \<le> unat (targets c ws ! i) \<and> unat (targets c ws ! i) \<le> Suc q)))"
  using assms targets_sum[of ws c] targets_le_wants[of ws _ c] targets_proportional[of ws _ c]
  by (simp add: Let_def)

theorem fair_share_is_fair_witness:
  "targets 10 [5, 20, 5] = [2, 7, 1] \<and> sum_list (map unat (targets 10 [5, 20, 5])) = 10
    \<and> targets 10 [5, 20, 5] ! 1 \<le> 20"
proof -
  have "length [5 :: u32, 20, 5] \<le> 256" by simp
  from fair_share_is_fair[OF this, of 10] show ?thesis by (simp add: targets_def wants_total_def share_floor_def)
qed

text \<open>
  \<open>ShrinkFastGrowSlow\<close> never commits more than the capacity, whatever was granted before:
  a cut lands in the same division, a rise is at most \<open>step\<close> units and only when the ramp is
  due, and the grants always stay at or below the fair targets.
\<close>

theorem ramp_never_overcommits:
  assumes "length ws \<le> 256" and "length gs = length ws"
    and "sfgs_divide c ws gs now p = ((gs', nxt), p')"
  shows "sum_list (map unat gs') \<le> unat c
    \<and> (\<forall>i < length ws. gs' ! i \<le> targets c ws ! i
         \<and> (targets c ws ! i < gs ! i \<longrightarrow> gs' ! i = targets c ws ! i)
         \<and> unat (gs' ! i) \<le> unat (gs ! i) + unat (ramp_step p)
         \<and> (\<not> ramp_due p now \<longrightarrow> gs' ! i \<le> gs ! i))"
proof -
  have visit: "unat (fst (sfgs_visit d st t g)) \<le> unat g + unat st"
    "t < g \<longrightarrow> fst (sfgs_visit d st t g) = t" "\<not> d \<longrightarrow> fst (sfgs_visit d st t g) \<le> g" for d st t g
    by (auto simp: sfgs_visit_def Let_def min_def word_le_nat_alt word_less_nat_alt unat_sat_add)
  have "gs' ! i = fst (sfgs_visit (ramp_due p now) (ramp_step p) (targets c ws ! i) (gs ! i))"
    if "i < length ws" for i
    using sfgs_grants(2)[OF assms(2) that, of c now p] assms(3) by (simp add: ramp_due_def)
  then show ?thesis
    using ramp.divide_sum[of gs ws c now p] assms visit sfgs_visit_le by simp
qed

theorem ramp_never_overcommits_witness:
  "sfgs_divide 10 [8, 8] [9, 0] 5 (sfgs_new 2 100) = (([5, 2], Some 105), (sfgs_new 2 100)\<lparr>ramp_next := Some 105\<rparr>)
    \<and> sum_list (map unat [5 :: u32, 2]) \<le> unat (10 :: u32)"
proof -
  have ev: "sfgs_divide 10 [8, 8] [9, 0] 5 (sfgs_new 2 100)
      = (([5, 2], Some 105), (sfgs_new 2 100)\<lparr>ramp_next := Some 105\<rparr>)"
    by (simp add: sfgs_divide_def sfgs_new_def sfgs_visit_def sat_add_def targets_def wants_total_def
        share_floor_def Let_def)
  from ramp_never_overcommits[OF _ _ ev] ev show ?thesis by simp
qed





end
