(* ===== verification/Veto.thy ===== *)
theory Veto
  imports Handle
begin

text \<open>
  The distributed veto of \<^verbatim>\<open>supervisor/src/veto.rs\<close>: a gate held while any of its \<open>N\<close>
  contributors asserts it. Its abstract state is the set of asserting contributors.
\<close>

section \<open>The gate\<close>

record veto_gate =
  bits :: u32
  seq :: u32
  changed :: signal

definition veto_new :: veto_gate where
  "veto_new = \<lparr>bits = 0, seq = 0, changed = []\<rparr>"

definition contributors :: "veto_gate \<Rightarrow> u32" where
  "contributors g = bits g"

definition is_asserted :: "veto_gate \<Rightarrow> bool" where
  "is_asserted g = (contributors g \<noteq> 0)"

text \<open>A slot beyond the gate's \<open>N\<close> contributors panics: \<open>None\<close>.\<close>

definition veto_mask :: "nat \<Rightarrow> u8 \<Rightarrow> u32 option" where
  "veto_mask N slot = (if unat slot < N then Some (push_bit (unat slot) 1) else None)"

definition flipped :: "veto_gate \<Rightarrow> veto_gate" where
  "flipped g = g\<lparr>seq := seq g + 1, changed := Fire # changed g\<rparr>"

definition assert_slot :: "nat \<Rightarrow> u8 \<Rightarrow> veto_gate \<Rightarrow> (bool \<times> veto_gate) option" where
  "assert_slot N slot g =
     (case veto_mask N slot of
        None \<Rightarrow> None
      | Some m \<Rightarrow>
          (let before = bits g;
               g1 = g\<lparr>bits := before OR m\<rparr>;
               flip = (before = 0)
           in Some (flip, if flip then flipped g1 else g1)))"

definition release_slot :: "nat \<Rightarrow> u8 \<Rightarrow> veto_gate \<Rightarrow> (bool \<times> veto_gate) option" where
  "release_slot N slot g =
     (case veto_mask N slot of
        None \<Rightarrow> None
      | Some m \<Rightarrow>
          (let before = bits g;
               g1 = g\<lparr>bits := before AND NOT m\<rparr>;
               flip = (before = m)
           in Some (flip, if flip then flipped g1 else g1)))"

definition wait_asserted :: "veto_gate \<Rightarrow> veto_gate list \<Rightarrow> veto_gate option" where
  "wait_asserted g later = wait_loop is_asserted g later"

definition wait_released :: "veto_gate \<Rightarrow> veto_gate list \<Rightarrow> veto_gate option" where
  "wait_released g later = wait_loop (\<lambda>g. \<not> is_asserted g) g later"

definition veto_change_token :: "veto_gate \<Rightarrow> u32" where
  "veto_change_token g = seq g"

text \<open>The const assertion behind every \<open>veto\<close> target; \<open>None\<close> is a compile error.\<close>

definition sv_check_veto :: "nat \<Rightarrow> nat \<Rightarrow> unit option" where
  "sv_check_veto N writers = (if writers \<le> N then Some () else None)"

definition is_asserting :: "u8 \<Rightarrow> veto_gate \<Rightarrow> bool" where
  "is_asserting slot g = (contributors g AND push_bit (unat slot) 1 \<noteq> 0)"

section \<open>The abstract gate: a set of holders\<close>

definition holders :: "veto_gate \<Rightarrow> nat set" where
  "holders g = {k. bit (bits g) k}"

lemma bit_mask32: "bit (push_bit j 1 :: u32) k \<longleftrightarrow> k = j \<and> j < 32"
  by (auto simp: bit_simps)

lemma bit_exp32 [simp]: "bit (2 ^ j :: u32) k \<longleftrightarrow> k = j \<and> j < 32"
  by (auto simp: bit_simps)

lemma bits_zero_iff: "bits g = 0 \<longleftrightarrow> holders g = {}"
  unfolding holders_def by (metis (mono_tags) Collect_empty_eq bit_0_eq bit_eqI bot_apply bot_bool_def)

lemma bits_single_iff: "j < 32 \<Longrightarrow> bits g = push_bit j 1 \<longleftrightarrow> holders g = {j}"
  unfolding holders_def by (metis (mono_tags, lifting) Collect_cong bit_eqI bit_mask32 mem_Collect_eq singleton_conv)

lemma is_asserted_holders: "is_asserted g \<longleftrightarrow> holders g \<noteq> {}"
  by (simp add: is_asserted_def contributors_def bits_zero_iff)

lemma is_asserting_holders: "unat slot < 32 \<Longrightarrow> is_asserting slot g \<longleftrightarrow> unat slot \<in> holders g"
  by (auto simp: is_asserting_def contributors_def holders_def and_exp_eq_0_iff_not_bit push_bit_eq_mult)

lemma holders_flipped [simp]: "holders (flipped g) = holders g"
  by (simp add: holders_def flipped_def)

lemma bit_lt32: "bit (w :: u32) k \<Longrightarrow> k < 32"
  by (drule bit_imp_le_length) simp

lemma holders_or: "j < 32 \<Longrightarrow> holders (g\<lparr>bits := bits g OR push_bit j 1\<rparr>) = insert j (holders g)"
  unfolding holders_def by (auto simp: bit_or_iff)

lemma holders_and_not: "j < 32 \<Longrightarrow> holders (g\<lparr>bits := bits g AND NOT (push_bit j 1)\<rparr>) = holders g - {j}"
  unfolding holders_def by (auto simp: bit_and_iff bit_not_iff dest: bit_lt32)

text \<open>
  The invariant: only declared contributors hold the gate, and the transition counter is odd
  exactly while it is held (its wrap at \<open>2^32\<close> keeps the parity).
\<close>

definition veto_inv :: "nat \<Rightarrow> veto_gate \<Rightarrow> bool" where
  "veto_inv N g \<longleftrightarrow> holders g \<subseteq> {..<N} \<and> (odd (unat (seq g)) \<longleftrightarrow> is_asserted g)"

lemma odd_unat_inc: "odd (unat (w + 1 :: u32)) \<longleftrightarrow> even (unat w)"
proof -
  have "unat (w + 1) = (unat w + 1) mod (2 * 2 ^ 31)"
    by (simp add: unat_word_ariths)
  then show ?thesis
    by (simp only: dvd_mod_iff[OF dvd_triv_left]) simp
qed

datatype veto_op = Assert u8 | Release u8

fun veto_op_slot :: "veto_op \<Rightarrow> u8" where
  "veto_op_slot (Assert s) = s"
| "veto_op_slot (Release s) = s"

fun veto_apply :: "nat \<Rightarrow> veto_op \<Rightarrow> veto_gate \<Rightarrow> (bool \<times> veto_gate) option" where
  "veto_apply N (Assert s) g = assert_slot N s g"
| "veto_apply N (Release s) g = release_slot N s g"

fun spec_apply :: "veto_op \<Rightarrow> nat set \<Rightarrow> nat set" where
  "spec_apply (Assert s) H = insert (unat s) H"
| "spec_apply (Release s) H = H - {unat s}"

lemma assert_slot_eq:
  assumes "N \<le> 32" "unat s < N"
  shows "assert_slot N s g = Some (holders g = {},
    (let g1 = g\<lparr>bits := bits g OR push_bit (unat s) 1\<rparr> in if holders g = {} then flipped g1 else g1))"
  using assms unfolding assert_slot_def veto_mask_def by (simp add: Let_def bits_zero_iff)

lemma release_slot_eq:
  assumes "N \<le> 32" "unat s < N"
  shows "release_slot N s g = Some (holders g = {unat s},
    (let g1 = g\<lparr>bits := bits g AND NOT (push_bit (unat s) 1)\<rparr> in
     if holders g = {unat s} then flipped g1 else g1))"
  using assms bits_single_iff[of "unat s" g] unfolding release_slot_def veto_mask_def
  by (simp del: push_bit_of_1 add: Let_def)

lemma veto_apply_spec:
  assumes "N \<le> 32" "unat (veto_op_slot p) < N"
  shows "\<exists>f g'. veto_apply N p g = Some (f, g')
    \<and> holders g' = spec_apply p (holders g)
    \<and> (f \<longleftrightarrow> is_asserted g' \<noteq> is_asserted g)
    \<and> seq g' = (if f then seq g + 1 else seq g)
    \<and> changed g' = (if f then Fire # changed g else changed g)"
proof (cases p)
  case (Assert s)
  define g1 where "g1 = g\<lparr>bits := bits g OR push_bit (unat s) 1\<rparr>"
  have s: "unat s < N" using assms(2) Assert by simp
  have "unat s < 32" using s assms(1) by linarith
  then have H: "holders g1 = insert (unat s) (holders g)"
    unfolding g1_def by (rule holders_or)
  have e: "veto_apply N p g = Some (holders g = {}, if holders g = {} then flipped g1 else g1)"
    using assert_slot_eq[OF assms(1) s, of g] Assert by (simp add: Let_def g1_def del: push_bit_of_1)
  have f: "seq g1 = seq g" "changed g1 = changed g" by (simp_all add: g1_def)
  show ?thesis unfolding e
    by (cases "holders g = {}") (simp_all add: is_asserted_holders H f Assert, auto simp: flipped_def f)
next
  case (Release s)
  define g1 where "g1 = g\<lparr>bits := bits g AND NOT (push_bit (unat s) 1)\<rparr>"
  have s: "unat s < N" using assms(2) Release by simp
  have "unat s < 32" using s assms(1) by linarith
  then have H: "holders g1 = holders g - {unat s}"
    unfolding g1_def by (rule holders_and_not)
  have e: "veto_apply N p g = Some (holders g = {unat s}, if holders g = {unat s} then flipped g1 else g1)"
    using release_slot_eq[OF assms(1) s, of g] Release by (simp add: Let_def g1_def del: push_bit_of_1)
  have f: "seq g1 = seq g" "changed g1 = changed g" by (simp_all add: g1_def)
  show ?thesis unfolding e
  proof (cases "holders g = {unat s}")
    case True
    then show "\<exists>f g'. Some (holders g = {unat s}, if holders g = {unat s} then flipped g1 else g1) = Some (f, g')
      \<and> holders g' = spec_apply p (holders g) \<and> (f \<longleftrightarrow> is_asserted g' \<noteq> is_asserted g)
      \<and> seq g' = (if f then seq g + 1 else seq g)
      \<and> changed g' = (if f then Fire # changed g else changed g)"
      by (simp add: is_asserted_holders H Release, auto simp: flipped_def f)
  next
    case False
    then have "(holders g - {unat s} = {}) = (holders g = {})" by auto
    with False show "\<exists>f g'. Some (holders g = {unat s}, if holders g = {unat s} then flipped g1 else g1) = Some (f, g')
      \<and> holders g' = spec_apply p (holders g) \<and> (f \<longleftrightarrow> is_asserted g' \<noteq> is_asserted g)
      \<and> seq g' = (if f then seq g + 1 else seq g)
      \<and> changed g' = (if f then Fire # changed g else changed g)"
      using f by (auto simp: is_asserted_holders H Release)
  qed
qed

lemma veto_apply_panics: "N \<le> unat (veto_op_slot p) \<Longrightarrow> veto_apply N p g = None"
  by (cases p) (simp_all add: assert_slot_def release_slot_def veto_mask_def)

section \<open>Any history of contributions\<close>

fun veto_run :: "nat \<Rightarrow> veto_op list \<Rightarrow> veto_gate \<Rightarrow> veto_gate option" where
  "veto_run N [] g = Some g"
| "veto_run N (p # ps) g =
     (case veto_apply N p g of None \<Rightarrow> None | Some (_, g') \<Rightarrow> veto_run N ps g')"

text \<open>The last thing contributor \<open>k\<close> did in a history, oldest operation first.\<close>

fun still_held :: "veto_op list \<Rightarrow> nat \<Rightarrow> bool \<Rightarrow> bool" where
  "still_held [] k b = b"
| "still_held (Assert s # ps) k b = still_held ps k (k = unat s \<or> b)"
| "still_held (Release s # ps) k b = still_held ps k (b \<and> k \<noteq> unat s)"

lemma spec_apply_subset:
  "H \<subseteq> {..<N} \<Longrightarrow> unat (veto_op_slot p) < N \<Longrightarrow> spec_apply p H \<subseteq> {..<N}"
  by (cases p) auto

lemma still_held_spec: "still_held (p # ps) k (k \<in> H) = still_held ps k (k \<in> spec_apply p H)"
  by (cases p) simp_all

lemma veto_inv_step:
  assumes "N \<le> 32" "unat (veto_op_slot p) < N" "veto_inv N g" "veto_apply N p g = Some (f, g')"
  shows "veto_inv N g'"
proof -
  have h: "holders g' = spec_apply p (holders g)" and fl: "f \<longleftrightarrow> is_asserted g' \<noteq> is_asserted g"
    and sq: "seq g' = (if f then seq g + 1 else seq g)"
    using veto_apply_spec[OF assms(1,2), of g] assms(4) by auto
  have "odd (unat (seq g')) \<longleftrightarrow> is_asserted g'"
    using assms(3) fl sq odd_unat_inc[of "seq g"] by (cases f) (auto simp: veto_inv_def)
  with assms h spec_apply_subset show ?thesis unfolding veto_inv_def by metis
qed

lemma veto_run_Some:
  assumes "N \<le> 32"
  shows "veto_inv N g \<Longrightarrow> list_all (\<lambda>p. unat (veto_op_slot p) < N) ps \<Longrightarrow>
    \<exists>g'. veto_run N ps g = Some g' \<and> veto_inv N g'
      \<and> (\<forall>k. k \<in> holders g' \<longleftrightarrow> still_held ps k (k \<in> holders g))"
proof (induction ps arbitrary: g)
  case Nil
  then show ?case by simp
next
  case (Cons p ps)
  then have p: "unat (veto_op_slot p) < N" and ps: "list_all (\<lambda>p. unat (veto_op_slot p) < N) ps" by auto
  obtain f g1 where g1: "veto_apply N p g = Some (f, g1)" "holders g1 = spec_apply p (holders g)"
    using veto_apply_spec[OF assms p, of g] by blast
  from Cons.IH[OF veto_inv_step[OF assms p Cons.prems(1) g1(1)] ps]
  obtain g' where g': "veto_run N ps g1 = Some g'" "veto_inv N g'"
    "\<forall>k. k \<in> holders g' \<longleftrightarrow> still_held ps k (k \<in> holders g1)" by blast
  have "\<forall>k. k \<in> holders g' \<longleftrightarrow> still_held (p # ps) k (k \<in> holders g)"
    using g'(3) unfolding g1(2) still_held_spec by blast
  with g' g1(1) show ?case by simp
qed

lemma veto_inv_new: "veto_inv N veto_new"
  by (simp add: veto_inv_def holders_def veto_new_def is_asserted_def contributors_def)

text \<open>C35. Whatever its contributors do, in whatever order, a gate of at most 32 slots never
  panics on a declared slot, holds exactly the contributors whose last operation was an
  assertion, is asserted exactly while there is one, and its change token is odd exactly then,
  so a poller sees every flip.\<close>

theorem veto_holds_while_any_asserts:
  assumes "N \<le> 32" "list_all (\<lambda>p. unat (veto_op_slot p) < N) ps"
  shows "\<exists>g. veto_run N ps veto_new = Some g
    \<and> (\<forall>s. unat s < N \<longrightarrow> is_asserting s g = still_held ps (unat s) False)
    \<and> is_asserted g = (\<exists>k < N. still_held ps k False)
    \<and> odd (unat (veto_change_token g)) = is_asserted g"
proof -
  from veto_run_Some[OF assms(1) veto_inv_new assms(2)] obtain g where
    g: "veto_run N ps veto_new = Some g" "veto_inv N g"
    "\<forall>k. k \<in> holders g \<longleftrightarrow> still_held ps k False"
    by (auto simp: holders_def veto_new_def)
  have "is_asserting s g = still_held ps (unat s) False" if "unat s < N" for s
    using g(3) is_asserting_holders[of s g] that assms(1) by simp
  moreover have "is_asserted g = (\<exists>k < N. still_held ps k False)"
    using g(2,3) unfolding is_asserted_holders veto_inv_def by blast
  moreover have "odd (unat (veto_change_token g)) = is_asserted g"
    using g(2) by (simp add: veto_inv_def veto_change_token_def)
  ultimately show ?thesis using g(1) by blast
qed

theorem veto_holds_while_any_asserts_witness:
  "\<exists>g. veto_run 2 [Assert 0, Assert 1, Release 0] veto_new = Some g
     \<and> is_asserted g \<and> \<not> is_asserting 0 g \<and> odd (unat (veto_change_token g))"
proof -
  from veto_holds_while_any_asserts[of 2 "[Assert 0, Assert 1, Release 0]"] obtain g where
    g: "veto_run 2 [Assert 0, Assert 1, Release 0] veto_new = Some g"
    "\<forall>s. unat s < 2 \<longrightarrow> is_asserting s g = still_held [Assert 0, Assert 1, Release 0] (unat s) False"
    "is_asserted g = (\<exists>k < 2. still_held [Assert 0, Assert 1, Release 0] k False)"
    "odd (unat (veto_change_token g)) = is_asserted g" by auto
  have "\<exists>k < 2. still_held [Assert 0, Assert 1, Release 0] k False"
    by (rule exI[of _ 1]) simp
  with g show ?thesis by (intro exI[of _ g]) simp
qed

end
