(* ===== verification/Coupling.thy ===== *)
theory Coupling
  imports Prelude
begin

text \<open>
  The declared couplings of \<^verbatim>\<open>supervisor/src/lib.rs\<close>: entries of \<open>reads:\<close> and \<open>writes:\<close>
  tables, their identity (the data pointer of the signal), and the compile-time comparison of
  path tails behind \<open>__sv_tail_declared\<close>. A \<open>&str\<close> is the list of its bytes.
\<close>

section \<open>Entries\<close>

text \<open>\<open>'o\<close> is the type of observer functions; \<open>c_point\<close> is the signal's data address.\<close>

record 'o coupling =
  c_name :: string
  c_point :: nat
  c_observe :: "'o option"
  c_beat :: bool
  c_veto :: "u8 option"

definition coupling_new :: "string \<Rightarrow> nat \<Rightarrow> 'o coupling" where
  "coupling_new nm pt = \<lparr>c_name = nm, c_point = pt, c_observe = None, c_beat = False, c_veto = None\<rparr>"

definition mark_veto :: "u8 \<Rightarrow> 'o coupling \<Rightarrow> 'o coupling" where
  "mark_veto slot c = c\<lparr>c_veto := Some slot\<rparr>"

definition mark_observed :: "'o \<Rightarrow> 'o coupling \<Rightarrow> 'o coupling" where
  "mark_observed ob c = c\<lparr>c_observe := Some ob\<rparr>"

definition mark_beat :: "'o coupling \<Rightarrow> 'o coupling" where
  "mark_beat c = c\<lparr>c_beat := True\<rparr>"

definition same_signal :: "'o coupling \<Rightarrow> 'o coupling \<Rightarrow> bool" where
  "same_signal a b = (c_point a = c_point b)"

section \<open>Comparing path tails\<close>

text \<open>The backward scan of \<open>tail_start\<close>; \<open>i\<close> is its loop variable.\<close>

fun tail_scan :: "string \<Rightarrow> nat \<Rightarrow> nat" where
  "tail_scan b i =
     (if 2 \<le> i
      then if b ! (i - 1) = CHR '':'' \<and> b ! (i - 2) = CHR '':'' then i else tail_scan b (i - 1)
      else 0)"

declare tail_scan.simps [simp del]

definition tail_start :: "string \<Rightarrow> nat" where
  "tail_start s = tail_scan s (length s)"

text \<open>The byte loop of \<open>tail_eq\<close>, \<open>n\<close> bytes left to compare from offset \<open>k\<close>.\<close>

fun bytes_eq :: "string \<Rightarrow> nat \<Rightarrow> string \<Rightarrow> nat \<Rightarrow> nat \<Rightarrow> nat \<Rightarrow> bool" where
  "bytes_eq ab ai bb bi k 0 = True"
| "bytes_eq ab ai bb bi k (Suc n) =
     (if ab ! (ai + k) \<noteq> bb ! (bi + k) then False else bytes_eq ab ai bb bi (Suc k) n)"

definition tail_eq :: "string \<Rightarrow> string \<Rightarrow> bool" where
  "tail_eq a b =
     (let ai = tail_start a; bi = tail_start b in
      if length a - ai \<noteq> length b - bi then False
      else bytes_eq a ai b bi 0 (length a - ai))"

fun sv_tail_declared :: "'o coupling list \<Rightarrow> string \<Rightarrow> bool" where
  "sv_tail_declared [] nm = False"
| "sv_tail_declared (c # cs) nm = (if tail_eq (c_name c) nm then True else sv_tail_declared cs nm)"

section \<open>What the scan computes\<close>

text \<open>The reference: what follows the last double colon of a path, the whole path without one.\<close>

fun after_last :: "string \<Rightarrow> string option" where
  "after_last (c # d # r) =
     (case after_last (d # r) of
        Some t \<Rightarrow> Some t
      | None \<Rightarrow> if c = CHR '':'' \<and> d = CHR '':'' then Some r else None)"
| "after_last _ = None"

definition path_tail :: "string \<Rightarrow> string" where
  "path_tail s = (case after_last s of Some t \<Rightarrow> t | None \<Rightarrow> s)"

lemma tail_scan_le: "tail_scan b i \<le> i"
  by (induction b i rule: tail_scan.induct) (subst tail_scan.simps, auto)

lemma tail_scan_Cons:
  "tail_scan (c # s) (Suc i) =
     (if tail_scan s i \<noteq> 0 then Suc (tail_scan s i)
      else if 1 \<le> i \<and> c = CHR '':'' \<and> s ! 0 = CHR '':'' then 2 else 0)"
proof (induction i)
  case 0
  then show ?case by (simp add: tail_scan.simps)
next
  case (Suc i)
  show ?case
  proof (cases "1 \<le> i")
    case True
    then obtain j where j: "i = Suc j" by (cases i) auto
    have "tail_scan (c # s) (Suc (Suc i)) =
        (if s ! i = CHR '':'' \<and> s ! (i - 1) = CHR '':'' then Suc (Suc i) else tail_scan (c # s) (Suc i))"
      using j by (subst tail_scan.simps) simp
    moreover have "tail_scan s (Suc i) =
        (if s ! i = CHR '':'' \<and> s ! (i - 1) = CHR '':'' then Suc i else tail_scan s i)"
      using j by (subst tail_scan.simps) simp
    ultimately show ?thesis using Suc True by (simp only:) auto
  next
    case False
    then have "i = 0" by simp
    then show ?thesis by (simp add: tail_scan.simps[of _ "Suc (Suc 0)"] tail_scan.simps[of _ "Suc 0"])
  qed
qed

lemma tail_start_after_last:
  "(case after_last s of None \<Rightarrow> tail_start s = 0
    | Some t \<Rightarrow> tail_start s \<noteq> 0 \<and> tail_start s \<le> length s \<and> drop (tail_start s) s = t)"
proof (induction s rule: after_last.induct)
  case (1 c d r)
  have "tail_start (c # d # r) = (if tail_start (d # r) \<noteq> 0 then Suc (tail_start (d # r))
      else if c = CHR '':'' \<and> d = CHR '':'' then 2 else 0)"
    unfolding tail_start_def by (simp add: tail_scan_Cons)
  with 1 show ?case by (auto split: option.splits)
qed (simp_all add: tail_start_def tail_scan.simps)

lemma drop_tail_start: "drop (tail_start s) s = path_tail s" and tail_start_le: "tail_start s \<le> length s"
  using tail_start_after_last[of s] by (auto simp: path_tail_def split: option.splits)

lemma bytes_eq_drop:
  "ai + k + n = length a \<Longrightarrow> bi + k + n = length b \<Longrightarrow>
     bytes_eq a ai b bi k n \<longleftrightarrow> drop (ai + k) a = drop (bi + k) b"
proof (induction n arbitrary: k)
  case 0
  then show ?case by simp
next
  case (Suc n)
  then have "drop (ai + k) a = a ! (ai + k) # drop (Suc (ai + k)) a"
    "drop (bi + k) b = b ! (bi + k) # drop (Suc (bi + k)) b"
    by (intro Cons_nth_drop_Suc[symmetric]; simp)+
  then show ?case using Suc.IH[of "Suc k"] Suc.prems by simp
qed

lemma tail_eq_path_tail: "tail_eq a b \<longleftrightarrow> path_tail a = path_tail b"
proof (cases "length a - tail_start a = length b - tail_start b")
  case True
  then show ?thesis
    using bytes_eq_drop[of "tail_start a" 0 "length a - tail_start a" a "tail_start b" b]
      tail_start_le[of a] tail_start_le[of b]
    by (simp add: tail_eq_def Let_def drop_tail_start del: drop_eq_Nil)
next
  case False
  then have "length (path_tail a) \<noteq> length (path_tail b)"
    unfolding drop_tail_start[symmetric] by simp
  with False show ?thesis by (auto simp: tail_eq_def Let_def)
qed

text \<open>
  The const assertion behind a marked entry accepts a name exactly when some entry of the
  table ends in the same path segment, wherever the segments start and whatever either path
  has before its last double colon.
\<close>

theorem tail_declared_by_last_segment:
  "sv_tail_declared table nm \<longleftrightarrow> (\<exists>c \<in> set table. path_tail (c_name c) = path_tail nm)"
  by (induction table nm rule: sv_tail_declared.induct) (auto simp: tail_eq_path_tail)

end
