(* ===== verification/Slots.thy ===== *)
theory Slots
  imports Handle Budget
begin

text \<open>
  The hand-off slots of \<^verbatim>\<open>supervisor/src/lib.rs\<close>: \<open>ResourceSlot\<close>, the \<open>ResourceGate\<close>
  interface it shares with \<open>Budget\<close>, and \<open>SpawnerSlot\<close> with its executor fence. Operations
  that post the global gate event take and return that signal beside the slot.
\<close>

section \<open>Resource slots\<close>

record 'a resource_slot =
  rs_slot :: "'a option"
  rs_filled :: signal

definition rs_new :: "'a resource_slot" where
  "rs_new = \<lparr>rs_slot = None, rs_filled = []\<rparr>"

definition rs_provide :: "'a \<Rightarrow> 'a resource_slot \<times> signal \<Rightarrow> 'a resource_slot \<times> signal" where
  "rs_provide v = (\<lambda>(r, gate_evt).
     (r\<lparr>rs_slot := Some v, rs_filled := Fire # rs_filled r\<rparr>, Fire # gate_evt))"

definition rs_take :: "'a resource_slot \<Rightarrow> 'a option \<times> 'a resource_slot" where
  "rs_take r = (rs_slot r, r\<lparr>rs_slot := None\<rparr>)"

text \<open>The peeks take the value out and put it back under one critical section.\<close>

definition rs_get :: "'a resource_slot \<Rightarrow> 'a option \<times> 'a resource_slot" where
  "rs_get r = (let (v, r1) = rs_take r in (v, r1\<lparr>rs_slot := v\<rparr>))"

definition rs_restore :: "'a \<Rightarrow> 'a resource_slot \<times> signal \<Rightarrow> 'a resource_slot \<times> signal" where
  "rs_restore v = rs_provide v"

definition rs_clear :: "'a resource_slot \<Rightarrow> 'a resource_slot" where
  "rs_clear r = (let (_, r1) = rs_take r in r1\<lparr>rs_filled := Reset # rs_filled r1\<rparr>)"

definition rs_is_filled :: "'a resource_slot \<Rightarrow> bool" where
  "rs_is_filled r = (fst (rs_get r) \<noteq> None)"

text \<open>\<open>wait_take\<close>: take, or wait for the fill signal; one slot state per wake-up.\<close>

fun rs_wait_take :: "'a resource_slot \<Rightarrow> 'a resource_slot list \<Rightarrow> ('a \<times> 'a resource_slot) option" where
  "rs_wait_take r later =
     (case rs_take r of
        (Some v, r1) \<Rightarrow> Some (v, r1)
      | (None, r1) \<Rightarrow>
          (case later of [] \<Rightarrow> None | r2 # rest \<Rightarrow> rs_wait_take r2 rest))"

lemma rs_get_same [simp]: "rs_get r = (rs_slot r, r)"
  by (simp add: rs_get_def rs_take_def)

section \<open>The gate interface\<close>

text \<open>
  What bring-up and teardown rely on: a cleared gate is not filled, and clearing twice is
  clearing once as far as the gate test goes.
\<close>

locale resource_gate =
  fixes filled :: "'g \<Rightarrow> bool" and clear :: "'g \<Rightarrow> 'g"
  assumes clear_empties: "\<not> filled (clear g)"
begin

lemma clear_all: "fold (\<lambda>_. clear) (x # xs) g = g' \<Longrightarrow> \<not> filled g'"
proof (induction xs arbitrary: x g)
  case Nil
  then show ?case using clear_empties by auto
next
  case (Cons y ys)
  then show ?case using Cons.IH[of y "clear g"] by simp
qed

end

interpretation slot_gate: resource_gate rs_is_filled rs_clear
  by unfold_locales (simp add: rs_is_filled_def rs_clear_def rs_take_def)

interpretation budget_gate: resource_gate budget_is_filled budget_clear
  by unfold_locales (simp add: budget_is_filled_def budget_clear_def Let_def)

text \<open>A gate of the graph: a \<open>dyn ResourceGate\<close> is one of the two implementations.\<close>

datatype 'a gate = SlotGate "'a resource_slot" | BudgetGate budget

fun gate_is_filled :: "'a gate \<Rightarrow> bool" where
  "gate_is_filled (SlotGate r) = rs_is_filled r"
| "gate_is_filled (BudgetGate b) = budget_is_filled b"

fun gate_clear :: "'a gate \<Rightarrow> 'a gate" where
  "gate_clear (SlotGate r) = SlotGate (rs_clear r)"
| "gate_clear (BudgetGate b) = BudgetGate (budget_clear b)"

text \<open>\<open>Divisible::release\<close> through a claim; only a budget implements it. \<open>None\<close>: slot out of range.\<close>

fun gate_release :: "u8 \<Rightarrow> 'a gate \<Rightarrow> 'a gate option" where
  "gate_release slot (BudgetGate b) = map_option BudgetGate (budget_release slot b)"
| "gate_release slot (SlotGate r) = Some (SlotGate r)"

interpretation any_gate: resource_gate gate_is_filled gate_clear
proof
  show "\<not> gate_is_filled (gate_clear g)" for g :: "'a gate"
    by (cases g) (simp_all add: slot_gate.clear_empties budget_gate.clear_empties)
qed

text \<open>
  A value provided to a slot is there for exactly one \<open>take\<close>: the gate opens with the
  value, the peeks leave it, the taker gets it and finds the slot empty after, a restore makes
  it available again, and a clear closes the gate on whatever was in it.
\<close>

lemma resource_slot_hand_off:
  "let (r1, ge) = rs_provide v (r, gate_evt) in
     rs_is_filled r1 \<and> rs_get r1 = (Some v, r1) \<and> ge = Fire # gate_evt
     \<and> fst (rs_take r1) = Some v \<and> \<not> rs_is_filled (snd (rs_take r1))
     \<and> fst (rs_take (snd (rs_take r1))) = None
     \<and> fst (rs_take (fst (rs_restore v (snd (rs_take r1), ge)))) = Some v
     \<and> \<not> rs_is_filled (rs_clear r1) \<and> fst (rs_take (rs_clear r1)) = None"
  by (simp add: rs_provide_def rs_restore_def rs_take_def rs_is_filled_def rs_clear_def)

section \<open>Executor slots\<close>

text \<open>
  A \<open>SendSpawner\<close> is a handle of the executor crate, named by a number; the fence is the
  macro's spawn function for it.
\<close>

record spawner_slot =
  sp_slot :: "nat option"
  sp_filled :: signal
  sp_fence :: "(nat \<Rightarrow> spawn_error + unit) option"
  sp_fence_up :: bool
  sp_fence_req :: signal
  sp_passes :: u16

definition sp_new :: spawner_slot where
  "sp_new = \<lparr>sp_slot = None, sp_filled = [], sp_fence = None, sp_fence_up = False,
     sp_fence_req = [], sp_passes = 0\<rparr>"

definition sp_with_fence :: "(nat \<Rightarrow> spawn_error + unit) \<Rightarrow> spawner_slot \<Rightarrow> spawner_slot" where
  "sp_with_fence f s = s\<lparr>sp_fence := Some f\<rparr>"

text \<open>The \<open>if let\<close> chain of \<open>set\<close>: swap the flag, spawn only if it was down, take it back on error.\<close>

definition sp_set :: "nat \<Rightarrow> spawner_slot \<times> signal \<Rightarrow> spawner_slot \<times> signal" where
  "sp_set spawner = (\<lambda>(s, gate_evt).
     (let s1 = s\<lparr>sp_slot := Some spawner\<rparr>;
          s2 = (case sp_fence s1 of
                  None \<Rightarrow> s1
                | Some f \<Rightarrow>
                    (let was = sp_fence_up s1; s' = s1\<lparr>sp_fence_up := True\<rparr> in
                     if was then s'
                     else case f spawner of
                            Inl _ \<Rightarrow> s'\<lparr>sp_fence_up := False\<rparr>
                          | Inr _ \<Rightarrow> s'))
      in (s2\<lparr>sp_filled := Fire # sp_filled s2\<rparr>, Fire # gate_evt)))"

definition sp_get :: "spawner_slot \<Rightarrow> nat option" where
  "sp_get s = sp_slot s"

definition sp_ready :: "spawner_slot \<Rightarrow> spawner_slot list \<Rightarrow> nat option" where
  "sp_ready s later = Option.bind (wait_loop (\<lambda>s. sp_get s \<noteq> None) s later) sp_get"

definition request_pass :: "spawner_slot \<Rightarrow> bool \<times> spawner_slot" where
  "request_pass s =
     (if \<not> sp_fence_up s then (False, s)
      else (True, s\<lparr>sp_fence_req := Fire # sp_fence_req s\<rparr>))"

text \<open>One turn of \<open>__sv_fence_loop\<close>, after its wait returned.\<close>

definition fence_turn :: "spawner_slot \<times> signal \<Rightarrow> spawner_slot \<times> signal" where
  "fence_turn = (\<lambda>(s, gate_evt).
     (s\<lparr>sp_fence_req := Wait # sp_fence_req s, sp_passes := sp_passes s + 1\<rparr>, Fire # gate_evt))"

lemma request_pass_frame [simp]:
  "sp_slot (snd (request_pass s)) = sp_slot s" "sp_passes (snd (request_pass s)) = sp_passes s"
  "sp_fence_up (snd (request_pass s)) = sp_fence_up s" "fst (request_pass s) = sp_fence_up s"
  by (simp_all add: request_pass_def)

lemma inc_u16_neq: "p + 1 \<noteq> p" for p :: u16
  by simp

text \<open>The fence is up exactly when one is declared and its spawn was accepted, now or earlier.\<close>

lemma sp_set_fence_up:
  "sp_fence_up (fst (sp_set sp (s, ge))) \<longleftrightarrow>
     sp_fence_up s \<or> (case sp_fence s of None \<Rightarrow> False | Some f \<Rightarrow> f sp = Inr ())"
  by (auto simp: sp_set_def Let_def split: option.splits sum.splits)

text \<open>A turn of the fence moves the counter off what the requester read, across the \<open>u16\<close> wrap.\<close>

lemma fence_turn_moves: "sp_passes (fst (fence_turn (snd (request_pass s), ge))) \<noteq> sp_passes s"
  by (simp add: fence_turn_def)

end
