(* ===== verification/Graph_Ref.thy ===== *)
theory Graph_Ref
  imports Events
begin

text \<open>
  The binary-wide chain of started graphs, \<^verbatim>\<open>supervisor/src/graph_ref.rs\<close>. A \<open>GraphRef\<close> is a
  static: its address names it, its constant part is the record \<open>graph_ref\<close>, its link and latch
  are entries of the chain's state.
\<close>

record graph_ref =
  gr_nodes :: "nref option list"
  gr_self :: "nref option"

definition graph_ref_new :: "nref option list \<Rightarrow> nref \<Rightarrow> graph_ref" where
  "graph_ref_new ns self = \<lparr>gr_nodes = ns, gr_self = Some self\<rparr>"

definition NO_GRAPH :: graph_ref where
  "NO_GRAPH = \<lparr>gr_nodes = [], gr_self = None\<rparr>"

record chain_state =
  ch_head :: "nat option"
  ch_next :: "nat \<Rightarrow> nat option"
  ch_linked :: "nat \<Rightarrow> bool"

definition chain_new :: chain_state where
  "chain_new = \<lparr>ch_head = None, ch_next = (\<lambda>_. None), ch_linked = (\<lambda>_. False)\<rparr>"

definition register :: "nat \<Rightarrow> chain_state \<Rightarrow> chain_state" where
  "register g c =
     (let was = ch_linked c g; c1 = c\<lparr>ch_linked := (ch_linked c)(g := True)\<rparr> in
      if was then c1
      else c1\<lparr>ch_next := (ch_next c1)(g := ch_head c1), ch_head := Some g\<rparr>)"

text \<open>The iterator: its state is the next reference; one call of \<open>next\<close>.\<close>

definition graphs_next :: "chain_state \<Rightarrow> nat option \<Rightarrow> (nat \<times> nat option) option" where
  "graphs_next c cur = (case cur of None \<Rightarrow> None | Some g \<Rightarrow> Some (g, ch_next c g))"

text \<open>Running it to its end. On a cyclic chain that would not return.\<close>

partial_function (option) graphs_from :: "chain_state \<Rightarrow> nat option \<Rightarrow> nat list option" where
  "graphs_from c cur =
     (case graphs_next c cur of
        None \<Rightarrow> Some []
      | Some (g, nxt) \<Rightarrow> Option.bind (graphs_from c nxt) (\<lambda>gs. Some (g # gs)))"

definition graphs :: "chain_state \<Rightarrow> nat list option" where
  "graphs c = graphs_from c (ch_head c)"

section \<open>The chain is a list\<close>

fun linked_list :: "chain_state \<Rightarrow> nat option \<Rightarrow> nat list \<Rightarrow> bool" where
  "linked_list c cur [] = (cur = None)"
| "linked_list c cur (g # gs) = (cur = Some g \<and> linked_list c (ch_next c g) gs)"

lemma graphs_from_linked: "linked_list c cur gs \<Longrightarrow> graphs_from c cur = Some gs"
proof (induction gs arbitrary: cur)
  case Nil
  then show ?case by (subst graphs_from.simps) (simp add: graphs_next_def)
next
  case (Cons g gs)
  then have "graphs_from c (ch_next c g) = Some gs" "cur = Some g" by simp_all
  then show ?case by (subst graphs_from.simps) (simp add: graphs_next_def)
qed

lemma linked_list_other:
  "g \<notin> set gs \<Longrightarrow> ch_next c' = (ch_next c)(g := x) \<Longrightarrow> linked_list c' cur gs = linked_list c cur gs"
  by (induction gs arbitrary: cur) auto

lemma register_list:
  assumes "linked_list c (ch_head c) gs" "\<And>x. ch_linked c x \<longleftrightarrow> x \<in> set gs"
    and gs'_def: "gs' = (if g \<in> set gs then gs else g # gs)"
  shows "linked_list (register g c) (ch_head (register g c)) gs'"
    and "ch_linked (register g c) h \<longleftrightarrow> h \<in> set gs'"
proof -
  let ?c = "register g c"
  show "ch_linked ?c h \<longleftrightarrow> h \<in> set gs'"
    using assms(2) by (auto simp: register_def Let_def gs'_def)
  show "linked_list ?c (ch_head ?c) gs'"
  proof (cases "g \<in> set gs")
    case True
    have "linked_list ?c cur xs = linked_list c cur xs" for cur xs
      using True assms(2) by (induction xs arbitrary: cur) (simp_all add: register_def Let_def)
    then show ?thesis using True assms(1,2) by (simp add: gs'_def register_def Let_def)
  next
    case False
    then have "linked_list ?c (ch_head c) gs = linked_list c (ch_head c) gs"
      using assms(2) by (intro linked_list_other) (auto simp: register_def Let_def)
    then show ?thesis using False assms(1,2) by (simp add: gs'_def register_def Let_def)
  qed
qed

lemma register_all:
  "linked_list (fold register gs chain_new) (ch_head (fold register gs chain_new)) (remdups (rev gs))
   \<and> (\<forall>g. ch_linked (fold register gs chain_new) g \<longleftrightarrow> g \<in> set gs)"
proof (induction gs rule: rev_induct)
  case (snoc g gs)
  let ?c = "fold register gs chain_new"
  have "linked_list ?c (ch_head ?c) (remdups (rev gs))"
    and "\<And>x. ch_linked ?c x \<longleftrightarrow> x \<in> set (remdups (rev gs))" using snoc by simp_all
  from register_list[OF this refl, where g = g] show ?case by auto
qed (simp add: chain_new_def)

text \<open>
  However often each graph is started, the chain lists every started graph once, the most
  recently first-started one first, and walking it ends: registering twice never makes a cycle
  or loses a graph.
\<close>

theorem graphs_lists_started: "graphs (fold register gs chain_new) = Some (remdups (rev gs))"
  using register_all[of gs] unfolding graphs_def by (blast intro: graphs_from_linked)

end
