(* ===== verification/World.thy ===== *)
theory World
  imports Events Slots Coupling Graph_Ref
begin

text \<open>
  The state the supervisor works on and the parts of its surroundings it calls: the live
  handles, slots, gates and global signals (\<open>world\<close>), the declarations (\<open>node_cfg\<close>), and the
  parameters that stand for other tasks and other crates (\<open>platform\<close>). Then the fan-out of a
  transition, \<open>note\<close>, and the polling loops every bring-up gate is built from.
\<close>

section \<open>Live state\<close>

datatype health_kind = Stale u32 | Recovered

datatype health_event = HealthEvent (he_node: nref) (he_kind: health_kind)

datatype control_op = Activate | Deactivate | Restart

datatype control_command = ControlCommand (cc_node: nref) (cc_op: control_op)

text \<open>
  \<open>w_trace\<close> and \<open>w_awaits\<close> are not in the program: the calls of \<open>note\<close>, newest first, and the
  number of awaits passed. Queues hold what was accepted, newest first.
  \<open>w_cells\<close> are the \<open>Option<Instant>\<close> cells of scaling policies, by address.
\<close>

record world =
  w_now :: nat
  w_h :: "nref \<Rightarrow> task_handle"
  w_slots :: "nat \<Rightarrow> spawner_slot"
  w_gates :: "nat \<Rightarrow> nat gate"
  gate_evt :: signal
  stop_evt :: signal
  scale_req :: signal
  bind_req :: signal
  serving_evt :: waker
  lifecycle_evt :: "lifecycle_event list"
  lifecycle_dropped :: u32
  lifecycle_sink :: "nat option"
  last_crumb :: u32
  health_evt :: "health_event list"
  control_req :: "control_command list"
  w_cells :: "nat \<Rightarrow> nat option"
  w_chain :: chain_state
  w_trace :: "(nref \<times> nat option \<times> transition) list"
  w_awaits :: nat

section \<open>Declarations\<close>

datatype mode = Terminate | Pause | OnDemand

fun mode_as_str :: "mode \<Rightarrow> string" where
  "mode_as_str Terminate = ''terminate''"
| "mode_as_str Pause = ''pause''"
| "mode_as_str OnDemand = ''ondemand''"

type_synonym entry = "(world \<Rightarrow> u32) coupling"

record node_cfg =
  cfg_name :: string
  cfg_mode :: mode
  cfg_spawn :: "(world \<Rightarrow> (spawn_error + unit) \<times> world) option"
  spawn_slot :: "nat option"
  resource_gates :: "nat list"
  provides :: "nat list"
  claims :: "(nat \<times> u8) list"
  ready_deps :: "nref list"
  slot_timeout :: nat
  ack_timeout :: nat
  beat_timeout :: "nat option"
  beat_window :: u8
  ready_on_write :: bool
  reads :: "entry list list"
  writes :: "entry list list"
  bound_deps :: "nref list"
  cfg_graph :: "nref option list"
  shelled :: bool
  enabled_if :: "(world \<Rightarrow> bool) option"
  restart_budget :: "(u16 \<times> nat) option"

definition SLOT_READY_TIMEOUT :: "time_api \<Rightarrow> nat" where
  "SLOT_READY_TIMEOUT T = from_millis T 100"

definition SHUTDOWN_ACK_TIMEOUT_MS :: nat where "SHUTDOWN_ACK_TIMEOUT_MS = 2000"

definition READY_PROBE_DIVISOR :: nat where "READY_PROBE_DIVISOR = 8"

definition cfg_new ::
  "time_api \<Rightarrow> string \<Rightarrow> mode \<Rightarrow> (world \<Rightarrow> (spawn_error + unit) \<times> world) option \<Rightarrow> node_cfg" where
  "cfg_new T nm md sp =
     \<lparr>cfg_name = nm, cfg_mode = md, cfg_spawn = sp, spawn_slot = None, resource_gates = [],
      provides = [], claims = [], ready_deps = [], slot_timeout = SLOT_READY_TIMEOUT T,
      ack_timeout = from_millis T SHUTDOWN_ACK_TIMEOUT_MS, beat_timeout = None, beat_window = 1,
      ready_on_write = False, reads = [], writes = [], bound_deps = [], cfg_graph = [],
      shelled = False, enabled_if = None, restart_budget = None\<rparr>"

definition with_enabled_if :: "(world \<Rightarrow> bool) \<Rightarrow> node_cfg \<Rightarrow> node_cfg" where
  "with_enabled_if en c = c\<lparr>enabled_if := Some en\<rparr>"

definition with_restart_budget :: "u16 \<Rightarrow> nat \<Rightarrow> node_cfg \<Rightarrow> node_cfg" where
  "with_restart_budget mx win c = c\<lparr>restart_budget := Some (if mx = 0 then 1 else mx, win)\<rparr>"

definition with_shell :: "node_cfg \<Rightarrow> node_cfg" where
  "with_shell c = c\<lparr>shelled := True\<rparr>"

definition with_executor :: "nat \<Rightarrow> node_cfg \<Rightarrow> node_cfg" where
  "with_executor s c = c\<lparr>spawn_slot := Some s\<rparr>"

definition with_resources :: "nat list \<Rightarrow> node_cfg \<Rightarrow> node_cfg" where
  "with_resources gs c = c\<lparr>resource_gates := gs\<rparr>"

definition with_provides :: "nat list \<Rightarrow> node_cfg \<Rightarrow> node_cfg" where
  "with_provides gs c = c\<lparr>provides := gs\<rparr>"

definition with_claims :: "(nat \<times> u8) list \<Rightarrow> node_cfg \<Rightarrow> node_cfg" where
  "with_claims cl c = c\<lparr>claims := cl\<rparr>"

definition with_ready_deps :: "nref list \<Rightarrow> node_cfg \<Rightarrow> node_cfg" where
  "with_ready_deps ds c = c\<lparr>ready_deps := ds\<rparr>"

definition with_slot_timeout :: "nat \<Rightarrow> node_cfg \<Rightarrow> node_cfg" where
  "with_slot_timeout t c = c\<lparr>slot_timeout := t\<rparr>"

definition with_ack_timeout :: "nat \<Rightarrow> node_cfg \<Rightarrow> node_cfg" where
  "with_ack_timeout t c = c\<lparr>ack_timeout := t\<rparr>"

definition with_beat_timeout :: "nat \<Rightarrow> node_cfg \<Rightarrow> node_cfg" where
  "with_beat_timeout t c = c\<lparr>beat_timeout := Some t\<rparr>"

definition with_beat_window :: "u8 \<Rightarrow> node_cfg \<Rightarrow> node_cfg" where
  "with_beat_window sweeps c = c\<lparr>beat_window := (if sweeps = 0 then 1 else sweeps)\<rparr>"

definition with_ready_on_write :: "node_cfg \<Rightarrow> node_cfg" where
  "with_ready_on_write c = c\<lparr>ready_on_write := True\<rparr>"

definition with_reads :: "entry list list \<Rightarrow> node_cfg \<Rightarrow> node_cfg" where
  "with_reads r c = c\<lparr>reads := r\<rparr>"

definition with_writes :: "entry list list \<Rightarrow> node_cfg \<Rightarrow> node_cfg" where
  "with_writes r c = c\<lparr>writes := r\<rparr>"

definition with_bound_deps :: "nref list \<Rightarrow> node_cfg \<Rightarrow> node_cfg" where
  "with_bound_deps ds c = c\<lparr>bound_deps := ds\<rparr>"

definition with_graph :: "nref option list \<Rightarrow> node_cfg \<Rightarrow> node_cfg" where
  "with_graph g c = c\<lparr>cfg_graph := g\<rparr>"

section \<open>What the code calls\<close>

text \<open>
  \<open>p_env k\<close> is everything other tasks, interrupts and the clock do during the \<open>k\<close>-th await;
  between two awaits nothing else acts. The queues belong to \<^verbatim>\<open>embassy_sync\<close>: whether a
  \<open>try_send\<close> finds one full is an answer of the platform. \<open>p_sink\<close> is the application's
  lifecycle callback. \<open>p_sig_ready\<close> says whether a poll of an embassy \<open>Signal\<close> with the given
  history of calls is ready; only a wait that looks at nothing but its signal asks.
  \<open>p_task_id\<close> is the id the executor gives the supervisor's own task.
\<close>

record platform =
  p_cfg :: "nref \<Rightarrow> node_cfg"
  p_time :: time_api
  p_env :: "nat \<Rightarrow> world \<Rightarrow> world"
  p_lifecycle_full :: "world \<Rightarrow> bool"
  p_health_full :: "world \<Rightarrow> bool"
  p_control_full :: "world \<Rightarrow> bool"
  p_sink :: "nat \<Rightarrow> lifecycle_event \<Rightarrow> world \<Rightarrow> world"
  p_sig_ready :: "signal \<Rightarrow> bool"
  p_task_id :: u32

text \<open>One await: the ghost fields are out of anyone's reach.\<close>

definition await :: "platform \<Rightarrow> world \<Rightarrow> world" where
  "await P w = (p_env P (w_awaits w) w)\<lparr>w_trace := w_trace w, w_awaits := Suc (w_awaits w)\<rparr>"

lemma await_ghost [simp]: "w_trace (await P w) = w_trace w" "w_awaits (await P w) = Suc (w_awaits w)"
  by (simp_all add: await_def)

text \<open>
  The result of an async function run with a number of loop rounds: \<open>Pending\<close> is out of
  rounds, still waiting.
\<close>

datatype 'a run = Ready 'a | Panicked | Pending

text \<open>
  A pass of a loop: go on with the state, return out of the function, or panic. \<open>each\<close> is a
  \<open>for\<close> loop whose body may do any of the three.
\<close>

datatype ('r, 's) flow = Go 's | Return 'r 's | Panic

fun each :: "('a \<Rightarrow> 's \<Rightarrow> ('r, 's) flow) \<Rightarrow> 'a list \<Rightarrow> 's \<Rightarrow> ('r, 's) flow" where
  "each f [] s = Go s"
| "each f (x # xs) s =
     (case f x s of Go t \<Rightarrow> each f xs t | Return r t \<Rightarrow> Return r t | Panic \<Rightarrow> Panic)"

fun flow_then :: "('r, 's) flow \<Rightarrow> ('s \<Rightarrow> ('r, 's) flow) \<Rightarrow> ('r, 's) flow" where
  "flow_then (Go s) k = k s"
| "flow_then (Return r s) k = Return r s"
| "flow_then Panic k = Panic"

text \<open>A flow that does not panic and keeps \<open>I\<close> on the way on and \<open>R\<close> on the way out.\<close>

fun flow_ok :: "('s \<Rightarrow> bool) \<Rightarrow> ('r \<Rightarrow> 's \<Rightarrow> bool) \<Rightarrow> ('r, 's) flow \<Rightarrow> bool" where
  "flow_ok I R (Go s) = I s"
| "flow_ok I R (Return r s) = R r s"
| "flow_ok I R Panic = False"

text \<open>The same, a panic allowed.\<close>

fun flow_safe :: "('s \<Rightarrow> bool) \<Rightarrow> ('r \<Rightarrow> 's \<Rightarrow> bool) \<Rightarrow> ('r, 's) flow \<Rightarrow> bool" where
  "flow_safe I R (Go s) = I s"
| "flow_safe I R (Return r s) = R r s"
| "flow_safe I R Panic = True"

lemma each_ok:
  "(\<And>x s. x \<in> set xs \<Longrightarrow> I s \<Longrightarrow> flow_ok I R (f x s)) \<Longrightarrow> I s \<Longrightarrow> flow_ok I R (each f xs s)"
proof (induction xs arbitrary: s)
  case (Cons x xs)
  then have "flow_ok I R (f x s)" by simp
  then show ?case using Cons by (cases "f x s") simp_all
qed simp

lemma each_safe:
  "(\<And>x s. x \<in> set xs \<Longrightarrow> I s \<Longrightarrow> flow_safe I R (f x s)) \<Longrightarrow> I s \<Longrightarrow> flow_safe I R (each f xs s)"
proof (induction xs arbitrary: s)
  case (Cons x xs)
  then have "flow_safe I R (f x s)" by simp
  then show ?case using Cons by (cases "f x s") simp_all
qed simp

text \<open>The same with the part of the list already done, in order.\<close>

lemma each_ok_prefix:
  assumes "\<And>ys x zs s. xs = ys @ x # zs \<Longrightarrow> I ys s \<Longrightarrow> flow_ok (I (ys @ [x])) R (f x s)" and "I [] s"
  shows "flow_ok (I xs) R (each f xs s)"
proof -
  have "\<And>ys s. xs = ys @ zs \<Longrightarrow> I ys s \<Longrightarrow> flow_ok (I xs) R (each f zs s)" for zs
  proof (induction zs)
    case (Cons x zs)
    from assms(1)[OF Cons.prems] have ok: "flow_ok (I (ys @ [x])) R (f x s)" .
    then show ?case using Cons.IH[of "ys @ [x]"] Cons.prems(1) by (cases "f x s") simp_all
  qed simp
  from this[of "[]" xs s] assms(2) show ?thesis by simp
qed

lemma each_safe_prefix:
  assumes "\<And>ys x zs s. xs = ys @ x # zs \<Longrightarrow> I ys s \<Longrightarrow> flow_safe (I (ys @ [x])) R (f x s)" and "I [] s"
  shows "flow_safe (I xs) R (each f xs s)"
proof -
  have "\<And>ys s. xs = ys @ zs \<Longrightarrow> I ys s \<Longrightarrow> flow_safe (I xs) R (each f zs s)" for zs
  proof (induction zs)
    case (Cons x zs)
    from assms(1)[OF Cons.prems] have ok: "flow_safe (I (ys @ [x])) R (f x s)" .
    then show ?case using Cons.IH[of "ys @ [x]"] Cons.prems(1) by (cases "f x s") simp_all
  qed simp
  from this[of "[]" xs s] assms(2) show ?thesis by simp
qed

lemma flow_ok_then:
  "flow_ok I R m \<Longrightarrow> (\<And>s. I s \<Longrightarrow> flow_ok J R (k s)) \<Longrightarrow> flow_ok J R (flow_then m k)"
  by (cases m) simp_all

lemma flow_safe_then:
  "flow_safe I R m \<Longrightarrow> (\<And>s. I s \<Longrightarrow> flow_safe J R (k s)) \<Longrightarrow> flow_safe J R (flow_then m k)"
  by (cases m) simp_all

section \<open>Handles in the world\<close>

definition on_handle :: "nref \<Rightarrow> (task_handle \<Rightarrow> task_handle) \<Rightarrow> world \<Rightarrow> world" where
  "on_handle n f w = w\<lparr>w_h := (w_h w)(n := f (w_h w n))\<rparr>"

lemma on_handle_sel [simp]:
  "w_h (on_handle n f w) = (w_h w)(n := f (w_h w n))"
  "w_now (on_handle n f w) = w_now w" "w_slots (on_handle n f w) = w_slots w"
  "w_gates (on_handle n f w) = w_gates w" "w_trace (on_handle n f w) = w_trace w"
  "w_awaits (on_handle n f w) = w_awaits w" "lifecycle_sink (on_handle n f w) = lifecycle_sink w"
  "stop_evt (on_handle n f w) = stop_evt w" "bind_req (on_handle n f w) = bind_req w"
  "serving_evt (on_handle n f w) = serving_evt w" "gate_evt (on_handle n f w) = gate_evt w"
  "scale_req (on_handle n f w) = scale_req w" "health_evt (on_handle n f w) = health_evt w"
  "lifecycle_evt (on_handle n f w) = lifecycle_evt w" "w_cells (on_handle n f w) = w_cells w"
  by (simp_all add: on_handle_def)

section \<open>Global signals and queues\<close>

definition request_scale :: "world \<Rightarrow> world" where
  "request_scale w = w\<lparr>scale_req := Fire # scale_req w\<rparr>"

definition sv_gate_event :: "world \<Rightarrow> world" where
  "sv_gate_event w = w\<lparr>gate_evt := Fire # gate_evt w\<rparr>"

definition notify_bind :: "world \<Rightarrow> world" where
  "notify_bind w = w\<lparr>bind_req := Fire # bind_req w\<rparr>"

definition notify_serving :: "world \<Rightarrow> world" where
  "notify_serving w = w\<lparr>serving_evt := Wake # serving_evt w\<rparr>"

definition try_request_control :: "platform \<Rightarrow> nref \<Rightarrow> control_op \<Rightarrow> world \<Rightarrow> bool \<times> world" where
  "try_request_control P n op w =
     (if p_control_full P w then (False, w)
      else (True, w\<lparr>control_req := ControlCommand n op # control_req w\<rparr>))"

definition emit_health :: "platform \<Rightarrow> health_event \<Rightarrow> world \<Rightarrow> world" where
  "emit_health P ev w =
     (if p_health_full P w then w else w\<lparr>health_evt := ev # health_evt w\<rparr>)"

definition set_lifecycle_sink :: "nat \<Rightarrow> world \<Rightarrow> world" where
  "set_lifecycle_sink s w = w\<lparr>lifecycle_sink := Some s\<rparr>"

definition emit_lifecycle :: "platform \<Rightarrow> lifecycle_event \<Rightarrow> world \<Rightarrow> world" where
  "emit_lifecycle P ev w =
     (let w1 = (case lifecycle_sink w of
                  None \<Rightarrow> w
                | Some s \<Rightarrow> (p_sink P s ev w)\<lparr>w_trace := w_trace w, w_awaits := w_awaits w\<rparr>)
      in if p_lifecycle_full P w1 then w1\<lparr>lifecycle_dropped := lifecycle_dropped w1 + 1\<rparr>
         else w1\<lparr>lifecycle_evt := ev # lifecycle_evt w1\<rparr>)"

section \<open>Recording a transition\<close>

definition note_transition :: "platform \<Rightarrow> nref \<Rightarrow> nat option \<Rightarrow> transition \<Rightarrow> world \<Rightarrow> world" where
  "note_transition P n slot t w =
     (let phase = transition_phase t;
          w1 = on_handle n (\<lambda>h. h\<lparr>crumb := crumb_code phase\<rparr>) w;
          w2 = w1\<lparr>last_crumb := crumb_encode phase (crumb_slot slot),
                  w_trace := (n, slot, t) # w_trace w1\<rparr>
      in case transition_kind t of
           None \<Rightarrow> w2
         | Some k \<Rightarrow> emit_lifecycle P (LifecycleEvent n k) w2)"

lemma emit_lifecycle_ghost [simp]:
  "w_trace (emit_lifecycle P ev w) = w_trace w" "w_awaits (emit_lifecycle P ev w) = w_awaits w"
  by (simp_all add: emit_lifecycle_def Let_def split: option.splits)

lemma note_ghost [simp]:
  "w_trace (note_transition P n slot t w) = (n, slot, t) # w_trace w" "w_awaits (note_transition P n slot t w) = w_awaits w"
  by (simp_all add: note_transition_def Let_def split: option.splits)

text \<open>
  The documented duty of a lifecycle sink: it is a quick callback on the supervisor's own task
  and drives nothing itself, so handles, gates, slots and the clock are as they were.
\<close>

definition quiet_sink :: "platform \<Rightarrow> bool" where
  "quiet_sink P \<longleftrightarrow> (\<forall>s ev w. w_h (p_sink P s ev w) = w_h w \<and> w_now (p_sink P s ev w) = w_now w
     \<and> w_slots (p_sink P s ev w) = w_slots w \<and> w_gates (p_sink P s ev w) = w_gates w)"

lemma emit_lifecycle_quiet:
  assumes "quiet_sink P"
  shows "w_h (emit_lifecycle P ev w) = w_h w" "w_now (emit_lifecycle P ev w) = w_now w"
    "w_slots (emit_lifecycle P ev w) = w_slots w" "w_gates (emit_lifecycle P ev w) = w_gates w"
  using assms by (simp_all add: emit_lifecycle_def quiet_sink_def Let_def split: option.splits)

lemma note_quiet:
  assumes "quiet_sink P"
  shows "w_h (note_transition P n slot t w) = (w_h w)(n := (w_h w n)\<lparr>crumb := crumb_code (transition_phase t)\<rparr>)"
    "w_now (note_transition P n slot t w) = w_now w" "w_slots (note_transition P n slot t w) = w_slots w"
    "w_gates (note_transition P n slot t w) = w_gates w"
  using emit_lifecycle_quiet[OF assms] by (simp_all add: note_transition_def Let_def split: option.splits)


section \<open>The statics at boot\<close>

definition world_new :: world where
  "world_new =
     \<lparr>w_now = 0, w_h = (\<lambda>_. handle_new False), w_slots = (\<lambda>_. sp_new), w_gates = (\<lambda>_. SlotGate rs_new),
      gate_evt = [], stop_evt = [], scale_req = [], bind_req = [], serving_evt = [],
      lifecycle_evt = [], lifecycle_dropped = 0, lifecycle_sink = None, last_crumb = 0,
      health_evt = [], control_req = [], w_cells = (\<lambda>_. None), w_chain = chain_new, w_trace = [], w_awaits = 0\<rparr>"

lemma world_new_trace: "w_trace world_new = []"
  by (simp add: world_new_def)

text \<open>A platform for concrete runs: one tick a millisecond, nothing else running, roomy queues.\<close>

definition plain_time :: time_api where
  "plain_time = \<lparr>as_millis = id, from_millis = id\<rparr>"

definition plain_platform :: "(nref \<Rightarrow> node_cfg) \<Rightarrow> platform" where
  "plain_platform C =
     \<lparr>p_cfg = C, p_time = plain_time, p_env = (\<lambda>_ w. w), p_lifecycle_full = (\<lambda>_. False),
      p_health_full = (\<lambda>_. False), p_control_full = (\<lambda>_. False), p_sink = (\<lambda>_ _ w. w),
      p_sig_ready = (\<lambda>s. s \<noteq> [] \<and> hd s = Fire), p_task_id = 1\<rparr>"

definition plain_cfg :: node_cfg where
  "plain_cfg = cfg_new plain_time ''n'' Terminate (Some (\<lambda>w. (Inr (), w)))"

end
