(* ===== verification/Node.thy ===== *)
theory Node
  imports World
begin

text \<open>
  The methods of \<open>TaskNode\<close> in \<^verbatim>\<open>supervisor/src/lib.rs\<close>: the task side of the stop
  protocol with fault injection, readiness, liveness and epochs. \<open>C\<close> gives the declaration of
  the node at an address. A method that may panic (a claim naming a slot its budget does not
  have) returns \<open>None\<close> for the panic.
\<close>

section \<open>Declarations read back\<close>

definition crumb_of :: "nref \<Rightarrow> world \<Rightarrow> crumb_phase" where
  "crumb_of n w = (case crumb_from_u8 (crumb (w_h w n)) of Some p \<Rightarrow> p | None \<Rightarrow> CpIdle)"

definition entries :: "node_cfg \<Rightarrow> bool \<Rightarrow> entry list" where
  "entries c is_write = concat (if is_write then writes c else reads c)"

definition has_entry :: "node_cfg \<Rightarrow> entry \<Rightarrow> bool \<Rightarrow> bool" where
  "has_entry c sig is_write = list_ex (\<lambda>e. same_signal e sig) (entries c is_write)"

section \<open>Stop requests as the task sees them\<close>

definition fault_of :: "time_api \<Rightarrow> task_handle \<Rightarrow> fault" where
  "fault_of T h = fault_decode T (Handle.fault h) (hog_ms h)"

definition shutdown_requested :: "time_api \<Rightarrow> task_handle \<Rightarrow> bool" where
  "shutdown_requested T h = (if fault_of T h = Wedge then False else flag SHUTDOWN h)"

text \<open>
  One poll of the shutdown race: register with the fault waker, hide the request under a
  wedge, then the flag, then the latched signal. \<open>ready\<close> is what polling the signal answers.
\<close>

definition poll_shutdown :: "time_api \<Rightarrow> bool \<Rightarrow> task_handle \<Rightarrow> bool \<times> task_handle" where
  "poll_shutdown T ready h =
     (let h1 = h\<lparr>fault_waker := Register # fault_waker h\<rparr> in
      if fault_of T h1 = Wedge then (False, h1)
      else if flag SHUTDOWN h1 then (True, h1)
      else (ready, h1\<lparr>shutdown_wake := Wait # shutdown_wake h1\<rparr>))"

text \<open>
  What \<open>wait_shutdown\<close> does in one wake-up: each turn of its loop registers, looks again and
  polls the signal. \<open>ans\<close> holds the answers of the polls, an exhausted list answers pending.
  \<open>False\<close> is parked.
\<close>

fun poll_wait_shutdown :: "time_api \<Rightarrow> bool list \<Rightarrow> task_handle \<Rightarrow> bool \<times> task_handle" where
  "poll_wait_shutdown T ans h =
     (if shutdown_requested T h then (True, h)
      else let h1 = h\<lparr>fault_waker := Register # fault_waker h\<rparr> in
        if shutdown_requested T h1 then (True, h1)
        else let h2 = h1\<lparr>shutdown_wake := Wait # shutdown_wake h1\<rparr> in
          (case ans of
             True # rest \<Rightarrow> poll_wait_shutdown T rest h2
           | _ \<Rightarrow> (False, h2)))"

declare poll_wait_shutdown.simps [simp del]

section \<open>Acknowledging a stop\<close>

definition settle_dropped :: "nref \<Rightarrow> world \<Rightarrow> world" where
  "settle_dropped n w =
     (let w1 = on_handle n (\<lambda>h. let h1 = flag_set DROPPED (flag_clear RUNNING h) in
                 h1\<lparr>dropped_wake := Fire # dropped_wake h1\<rparr>) w;
          w2 = w1\<lparr>stop_evt := Fire # stop_evt w1\<rparr>
      in notify_serving (notify_bind w2))"

fun release_claim_list :: "(nat \<times> u8) list \<Rightarrow> world \<Rightarrow> world option" where
  "release_claim_list [] w = Some w"
| "release_claim_list ((b, slot) # cs) w =
     (case gate_release slot (w_gates w b) of
        None \<Rightarrow> None
      | Some g \<Rightarrow> release_claim_list cs (w\<lparr>w_gates := (w_gates w)(b := g)\<rparr>))"

definition release_claims :: "platform \<Rightarrow> nref \<Rightarrow> world \<Rightarrow> world option" where
  "release_claims P n w = release_claim_list (claims (p_cfg P n)) w"

definition clear_gates :: "nat list \<Rightarrow> world \<Rightarrow> world" where
  "clear_gates gs w = fold (\<lambda>g w. w\<lparr>w_gates := (w_gates w)(g := gate_clear (w_gates w g))\<rparr>) gs w"

definition release_provided :: "platform \<Rightarrow> nref \<Rightarrow> world \<Rightarrow> world option" where
  "release_provided P n w =
     (if cfg_mode (p_cfg P n) \<noteq> Pause
      then release_claims P n (clear_gates (provides (p_cfg P n)) w)
      else Some w)"

text \<open>
  \<open>wedge_swallows\<close> races a \<open>clear_fault\<close> on another context. The three arguments are what that
  context does at the three points where it can get in between: before the pending bits are
  set, before the fault is read again, before the bits are taken back.
\<close>

record races =
  rc_set :: "world \<Rightarrow> world"
  rc_recheck :: "world \<Rightarrow> world"
  rc_undo :: "world \<Rightarrow> world"

definition no_race :: races where
  "no_race = \<lparr>rc_set = id, rc_recheck = id, rc_undo = id\<rparr>"

definition wedge_swallows :: "platform \<Rightarrow> races \<Rightarrow> u16 \<Rightarrow> nref \<Rightarrow> world \<Rightarrow> bool \<times> world" where
  "wedge_swallows P r bits n w =
     (if fault_of (p_time P) (w_h w n) = Wedge
      then let w1 = rc_recheck r (on_handle n (flag_set bits) (rc_set r w)) in
           if fault_of (p_time P) (w_h w1 n) = Wedge then (True, w1)
           else let w2 = rc_undo r w1;
                    prev = flags (w_h w2 n);
                    w3 = on_handle n (flag_clear bits) w2
                in (prev AND PENDING_ACK = 0, w3)
      else (False, w))"

definition ack_dropped :: "platform \<Rightarrow> races \<Rightarrow> nref \<Rightarrow> world \<Rightarrow> world option" where
  "ack_dropped P r n w =
     (case release_provided P n w of
        None \<Rightarrow> None
      | Some w1 \<Rightarrow>
          (let (swallowed, w2) = wedge_swallows P r PENDING_ACK n w1 in
           Some (if swallowed then w2 else settle_dropped n w2)))"

definition mark_exited :: "platform \<Rightarrow> races \<Rightarrow> nref \<Rightarrow> world \<Rightarrow> world option" where
  "mark_exited P r n w =
     (case release_provided P n w of
        None \<Rightarrow> None
      | Some w1 \<Rightarrow>
          (let (swallowed, w2) = wedge_swallows P r (PENDING_EXIT OR PENDING_ACK) n w1 in
           Some (if swallowed then w2
                 else settle_dropped n (on_handle n (flag_set COMPLETED) w2))))"

definition mark_lost_resource :: "platform \<Rightarrow> races \<Rightarrow> nref \<Rightarrow> world \<Rightarrow> world option" where
  "mark_lost_resource P r n w = mark_exited P r n w"

section \<open>Fault injection\<close>

definition replay_swallowed :: "nref \<Rightarrow> world \<Rightarrow> world" where
  "replay_swallowed n w =
     (let pending = flags (w_h w n);
          w1 = on_handle n (flag_clear (PENDING_ACK OR PENDING_EXIT)) w
      in if pending AND PENDING_ACK \<noteq> 0
         then let w2 = (if pending AND PENDING_EXIT \<noteq> 0 then on_handle n (flag_set COMPLETED) w1 else w1)
              in settle_dropped n w2
         else w1)"

definition wake_fault :: "nref \<Rightarrow> world \<Rightarrow> world" where
  "wake_fault n w = on_handle n (\<lambda>h. h\<lparr>fault_waker := Wake # fault_waker h\<rparr>) w"

definition clear_fault :: "nref \<Rightarrow> world \<Rightarrow> world" where
  "clear_fault n w =
     wake_fault n (replay_swallowed n (on_handle n (\<lambda>h. h\<lparr>fault := 0\<rparr>) w))"

definition inject :: "platform \<Rightarrow> fault \<Rightarrow> nref \<Rightarrow> world \<Rightarrow> (inject_error + unit) \<times> world" where
  "inject P f n w =
     (if f = NoFault then (Inr (), clear_fault n w)
      else if f \<noteq> Wedge \<and> \<not> shelled (p_cfg P n) then (Inl NoShell, w)
      else let (code, ms) = fault_encode (p_time P) f;
               w1 = on_handle n (\<lambda>h. h\<lparr>hog_ms := ms, fault := code\<rparr>) w;
               w2 = (if f \<noteq> Wedge then replay_swallowed n w1 else w1)
           in (Inr (), wake_fault n w2))"

section \<open>Readiness\<close>

definition set_ready :: "nref \<Rightarrow> world \<Rightarrow> world" where
  "set_ready n w =
     (let w1 = on_handle n (\<lambda>h. let h1 = flag_set READY h in
                 h1\<lparr>ready_wake := Fire # ready_wake h1\<rparr>) w
      in request_scale (notify_bind (notify_serving (sv_gate_event w1))))"

definition clear_ready :: "nref \<Rightarrow> world \<Rightarrow> world" where
  "clear_ready n w = notify_bind (on_handle n (flag_clear READY) w)"

definition ready_deps_ok :: "platform \<Rightarrow> nref \<Rightarrow> world \<Rightarrow> bool" where
  "ready_deps_ok P n w = list_all (\<lambda>d. is_ready (w_h w d)) (ready_deps (p_cfg P n))"

section \<open>Liveness\<close>

text \<open>The wrapping sum of the observed beat counts, and whether any entry contributes.\<close>

fun beat_sum :: "entry list \<Rightarrow> world \<Rightarrow> u32 \<times> bool \<Rightarrow> u32 \<times> bool" where
  "beat_sum [] w acc = acc"
| "beat_sum (e # es) w (mark, any) =
     (if \<not> c_beat e then beat_sum es w (mark, any)
      else case c_observe e of
             None \<Rightarrow> beat_sum es w (mark, any)
           | Some ob \<Rightarrow> beat_sum es w (mark + ob w, True))"

definition poll_observed_writes :: "platform \<Rightarrow> nref \<Rightarrow> world \<Rightarrow> bool \<times> world" where
  "poll_observed_writes P n w =
     (let (mark, any) = beat_sum (entries (p_cfg P n) True) w (0, False) in
      if any then (write_mark (w_h w n) \<noteq> mark, on_handle n (\<lambda>h. h\<lparr>write_mark := mark\<rparr>) w)
      else (False, w))"

definition seed_write_mark :: "platform \<Rightarrow> nref \<Rightarrow> world \<Rightarrow> world" where
  "seed_write_mark P n w =
     on_handle n (\<lambda>h. h\<lparr>write_mark := fst (beat_sum (entries (p_cfg P n) True) w (0, False))\<rparr>) w"

definition report_status :: "string \<Rightarrow> nref \<Rightarrow> world \<Rightarrow> world" where
  "report_status st n w = on_handle n (\<lambda>h. h\<lparr>status := Some st\<rparr>) w"

definition ticks_since_beat :: "nref \<Rightarrow> world \<Rightarrow> u32 \<times> world" where
  "ticks_since_beat n w =
     (let now = ticks32 (w_now w);
          w1 = (if pending_beat (w_h w n)
                then on_handle n (\<lambda>h. h\<lparr>pending_beat := False, last_beat := now\<rparr>) w else w)
      in (now - last_beat (w_h w1 n), w1))"

definition ticks_until_check :: "platform \<Rightarrow> nref \<Rightarrow> world \<Rightarrow> nat option \<times> world" where
  "ticks_until_check P n w =
     (case beat_timeout (p_cfg P n) of
        None \<Rightarrow> (None, w)
      | Some budget \<Rightarrow>
          if is_detached (w_h w n) \<or> \<not> is_running (w_h w n) then (Some budget, w)
          else if ready_on_write (p_cfg P n) \<and> \<not> is_ready (w_h w n)
          then (Some (max (budget div READY_PROBE_DIVISOR) 1), w)
          else let (t, w1) = ticks_since_beat n w; remaining = budget - unat t in
               (Some (if remaining = 0 then max (budget div 2) 1 else remaining), w1))"

definition is_stale :: "nat \<Rightarrow> nref \<Rightarrow> world \<Rightarrow> bool \<times> world" where
  "is_stale max_age n w =
     (if is_running (w_h w n)
      then let (t, w1) = ticks_since_beat n w in (max_age < unat t, w1)
      else (False, w))"

section \<open>Running, busy, parked\<close>

definition set_running :: "platform \<Rightarrow> bool \<Rightarrow> nref \<Rightarrow> world \<Rightarrow> world" where
  "set_running P running n w =
     (let w1 = on_handle n (flag_put RUNNING running) w in
      if running
      then let w2 = seed_write_mark P n (on_handle n (\<lambda>h. h\<lparr>last_beat := ticks32 (w_now w1)\<rparr>) w1)
           in on_handle n (\<lambda>h. h\<lparr>pending_beat := False, status := None, epoch := epoch h + 1,
                                  epoch_wake := Fire # epoch_wake h\<rparr>) w2
      else w1)"

definition mark_busy :: "nref \<Rightarrow> world \<Rightarrow> world" where
  "mark_busy n w = (let w1 = on_handle n (snd \<circ> flag_swap BUSY True) w in
     if \<not> fst (flag_swap BUSY True (w_h w n)) then request_scale w1 else w1)"

definition mark_idle :: "nref \<Rightarrow> world \<Rightarrow> world" where
  "mark_idle n w = (let w1 = on_handle n (snd \<circ> flag_swap BUSY False) w in
     if fst (flag_swap BUSY False (w_h w n)) then request_scale w1 else w1)"

text \<open>\<open>__sv_park\<close> up to its first wait; then one wake-up's test.\<close>

definition sv_park :: "nref \<Rightarrow> world \<Rightarrow> world" where
  "sv_park n w = sv_gate_event (on_handle n (flag_set IDLE) w)"

definition sv_park_done :: "nref \<Rightarrow> world list \<Rightarrow> world \<Rightarrow> world option" where
  "sv_park_done n later w = wait_loop (\<lambda>w. \<not> flag IDLE (w_h w n)) (sv_park n w) later"

definition wait_ready :: "nref \<Rightarrow> world \<Rightarrow> world list \<Rightarrow> world option" where
  "wait_ready n w later = wait_loop (\<lambda>w. is_ready (w_h w n)) w later"

definition wait_epoch_change :: "nref \<Rightarrow> u32 \<Rightarrow> world \<Rightarrow> world list \<Rightarrow> u32 option" where
  "wait_epoch_change n seen w later =
     map_option (\<lambda>w. epoch (w_h w n)) (wait_loop (\<lambda>w. epoch (w_h w n) \<noteq> seen) w later)"

section \<open>Flags after each method\<close>

lemma settle_dropped_handle:
  "w_h (settle_dropped n w) n = (let h1 = flag_set DROPPED (flag_clear RUNNING (w_h w n)) in
     h1\<lparr>dropped_wake := Fire # dropped_wake h1\<rparr>)"
  by (simp add: settle_dropped_def notify_serving_def notify_bind_def Let_def)

lemma settle_dropped_other: "m \<noteq> n \<Longrightarrow> w_h (settle_dropped n w) m = w_h w m"
  by (simp add: settle_dropped_def notify_serving_def notify_bind_def Let_def)

lemma settle_dropped_bits [flag_simps]:
  "bit (flags (w_h (settle_dropped n w) n)) k \<longleftrightarrow> k = 1 \<or> bit (flags (w_h w n)) k \<and> k \<noteq> 2"
  by (auto simp: settle_dropped_handle Let_def flag_simps)

lemma settle_dropped_frame [simp]:
  "w_gates (settle_dropped n w) = w_gates w" "w_now (settle_dropped n w) = w_now w"
  "w_slots (settle_dropped n w) = w_slots w" "w_trace (settle_dropped n w) = w_trace w"
  "gate_evt (settle_dropped n w) = gate_evt w"
  by (simp_all add: settle_dropped_def notify_serving_def notify_bind_def Let_def)

lemma settle_dropped_stop_evt: "stop_evt (settle_dropped n w) = Fire # stop_evt w"
  by (simp add: settle_dropped_def notify_serving_def notify_bind_def Let_def)

lemma clear_gates_h [simp]: "w_h (clear_gates gs w) = w_h w" "w_now (clear_gates gs w) = w_now w"
  "stop_evt (clear_gates gs w) = stop_evt w" "w_trace (clear_gates gs w) = w_trace w"
  by (induction gs arbitrary: w) (simp_all add: clear_gates_def)

lemma release_claim_list_h:
  "release_claim_list cs w = Some w1 \<Longrightarrow>
     w_h w1 = w_h w \<and> w_now w1 = w_now w \<and> stop_evt w1 = stop_evt w \<and> w_trace w1 = w_trace w
     \<and> w_awaits w1 = w_awaits w \<and> w_slots w1 = w_slots w"
  by (induction cs w rule: release_claim_list.induct) (auto split: option.splits)

lemma release_provided_h:
  "release_provided P n w = Some w1 \<Longrightarrow>
     w_h w1 = w_h w \<and> w_now w1 = w_now w \<and> stop_evt w1 = stop_evt w \<and> w_trace w1 = w_trace w"
  by (auto simp: release_provided_def release_claims_def split: if_splits dest!: release_claim_list_h)

section \<open>No acknowledgement is lost to a wedge\<close>

text \<open>
  The clearing context has two atomic steps: the swap of the fault word, and the replay with
  its wake. \<open>race_step p1 p2 k\<close> runs, at point \<open>k\<close> of the acknowledging task, the first if
  \<open>p1 = k\<close> and the second if \<open>p2 = k\<close>. Points 1 to 3 are those of \<open>races\<close>, 0 is before the
  acknowledgement and 4 after it.
\<close>

definition race_step :: "nat \<Rightarrow> nat \<Rightarrow> nref \<Rightarrow> nat \<Rightarrow> world \<Rightarrow> world" where
  "race_step p1 p2 n k w =
     (let w1 = (if p1 = k then on_handle n (\<lambda>h. h\<lparr>fault := 0\<rparr>) w else w)
      in if p2 = k then wake_fault n (replay_swallowed n w1) else w1)"

definition race_at :: "nat \<Rightarrow> nat \<Rightarrow> nref \<Rightarrow> races" where
  "race_at p1 p2 n = \<lparr>rc_set = race_step p1 p2 n 1, rc_recheck = race_step p1 p2 n 2,
     rc_undo = race_step p1 p2 n 3\<rparr>"

lemma race_both_is_clear_fault: "race_step k k n k w = clear_fault n w"
  by (simp add: race_step_def clear_fault_def Let_def)

text \<open>
  The schedules: the swap before or after any step of the acknowledgement that can see it, the
  replay anywhere later. A swap after the second look is a swap after the acknowledgement, and
  one before the first look leaves no point 1 to 3.
\<close>

definition schedules :: "(nat \<times> nat) set" where
  "schedules = {(0,0), (0,4), (1,1), (1,2), (1,3), (1,4), (2,2), (2,3), (2,4), (4,4)}"

definition ack_against_clear ::
  "platform \<Rightarrow> bool \<Rightarrow> nat \<Rightarrow> nat \<Rightarrow> nref \<Rightarrow> world \<Rightarrow> world option" where
  "ack_against_clear P exits p1 p2 n w =
     map_option (race_step p1 p2 n 4)
       ((if exits then mark_exited else ack_dropped) P (race_at p1 p2 n) n (race_step p1 p2 n 0 w))"

lemma fault_zero: "Handle.fault h = 0 \<Longrightarrow> fault_of T h \<noteq> Wedge"
  by (simp add: fault_of_def fault_decode_def)

section \<open>Claims name slots their budgets have\<close>

fun gate_fits :: "u8 \<Rightarrow> 'a gate \<Rightarrow> bool" where
  "gate_fits slot (BudgetGate b) = (unat slot < length (wants b) \<and> unat slot < length (grants b))"
| "gate_fits slot (SlotGate r) = True"

definition claims_fit :: "platform \<Rightarrow> nref \<Rightarrow> world \<Rightarrow> bool" where
  "claims_fit P n w = (\<forall>(b, slot) \<in> set (claims (p_cfg P n)). gate_fits slot (w_gates w b))"

lemma gate_release_fits:
  assumes "gate_fits slot g"
  obtains g' where "gate_release slot g = Some g'" "\<And>s. gate_fits s g' \<longleftrightarrow> gate_fits s g"
  using assms by (cases g) (auto simp: budget_release_def)

lemma gate_clear_fits [simp]: "gate_fits s (gate_clear g) \<longleftrightarrow> gate_fits s g"
  by (cases g) (simp_all add: budget_clear_def)

lemma clear_gates_fits [simp]: "gate_fits s (w_gates (clear_gates gs w) b) \<longleftrightarrow> gate_fits s (w_gates w b)"
  by (induction gs arbitrary: w) (simp_all add: clear_gates_def)

lemma release_claim_list_fits:
  "\<forall>(b, slot) \<in> set cs. gate_fits slot (w_gates w b) \<Longrightarrow>
     \<exists>w1. release_claim_list cs w = Some w1 \<and> (\<forall>s b. gate_fits s (w_gates w1 b) \<longleftrightarrow> gate_fits s (w_gates w b))"
proof (induction cs w rule: release_claim_list.induct)
  case (2 b slot cs w)
  from 2(2) have "gate_fits slot (w_gates w b)" by simp
  then obtain g where g: "gate_release slot (w_gates w b) = Some g"
    "\<And>s. gate_fits s g \<longleftrightarrow> gate_fits s (w_gates w b)" by (rule gate_release_fits) auto
  have "\<forall>(b', slot) \<in> set cs. gate_fits slot (w_gates (w\<lparr>w_gates := (w_gates w)(b := g)\<rparr>) b')"
    using 2(2) g(2) by fastforce
  from 2(1)[OF g(1) this] show ?case using g by auto
qed simp

lemma release_claims_fits:
  "claims_fit P n w \<Longrightarrow> \<exists>w1. release_claims P n w = Some w1
     \<and> (\<forall>s b. gate_fits s (w_gates w1 b) \<longleftrightarrow> gate_fits s (w_gates w b))"
  unfolding claims_fit_def release_claims_def by (rule release_claim_list_fits)

lemma release_provided_fits:
  "claims_fit P n w \<Longrightarrow> \<exists>w1. release_provided P n w = Some w1"
  using release_claims_fits[of P n "clear_gates (provides (p_cfg P n)) w"]
  by (auto simp: release_provided_def claims_fit_def)

lemma race_step_gates [simp]: "w_gates (race_step p1 p2 n k w) = w_gates w"
  by (simp add: race_step_def wake_fault_def replay_swallowed_def settle_dropped_def
      notify_serving_def notify_bind_def Let_def)

text \<open>What the acknowledgement protocol can see of a handle.\<close>

type_synonym ack_view = "bool \<times> bool \<times> bool \<times> bool \<times> bool \<times> u8 \<times> signal"

definition ack_view :: "task_handle \<Rightarrow> ack_view" where
  "ack_view h = (bit (flags h) 1, bit (flags h) 2, bit (flags h) 4, bit (flags h) 10,
     bit (flags h) 11, Handle.fault h, dropped_wake h)"

lemma flags_and_bit:
  "flags h AND PENDING_ACK = 0 \<longleftrightarrow> \<not> bit (flags h) 10"
  "flags h AND PENDING_EXIT = 0 \<longleftrightarrow> \<not> bit (flags h) 11"
  for h :: task_handle
  using flag_bit(11,12)[of h] by (auto simp: flag_def)

fun view_settle :: "ack_view \<Rightarrow> ack_view" where
  "view_settle (d, r, c, a, e, f, k) = (True, False, c, a, e, f, Fire # k)"

fun view_replay :: "ack_view \<Rightarrow> ack_view" where
  "view_replay (d, r, c, a, e, f, k) =
     (if a then view_settle (d, r, c \<or> e, False, False, f, k) else (d, r, c, False, False, f, k))"

lemma view_settle_dropped:
  "ack_view (w_h (settle_dropped n w) n) = view_settle (ack_view (w_h w n))"
  by (simp add: ack_view_def settle_dropped_bits) (simp add: settle_dropped_handle Let_def)

lemma view_set_completed:
  "ack_view (flag_set COMPLETED h) =
     (case ack_view h of (d, r, c, a, e, f, k) \<Rightarrow> (d, r, True, a, e, f, k))"
  by (simp add: ack_view_def flag_simps)

lemma view_replay_swallowed:
  "ack_view (w_h (replay_swallowed n w) n) = view_replay (ack_view (w_h w n))"
  by (auto simp: replay_swallowed_def Let_def flags_and_bit view_settle_dropped view_set_completed)
    (auto simp: ack_view_def flag_simps bit_or_iff)


fun view_swap :: "ack_view \<Rightarrow> ack_view" where
  "view_swap (d, r, c, a, e, f, k) = (d, r, c, a, e, 0, k)"

definition view_race :: "nat \<Rightarrow> nat \<Rightarrow> nat \<Rightarrow> ack_view \<Rightarrow> ack_view" where
  "view_race p1 p2 k v = (let v1 = (if p1 = k then view_swap v else v) in
     if p2 = k then view_replay v1 else v1)"

lemma view_race_step: "ack_view (w_h (race_step p1 p2 n k w) n) = view_race p1 p2 k (ack_view (w_h w n))"
proof -
  have wake: "ack_view (w_h (wake_fault n w) n) = ack_view (w_h w n)" for w
    by (simp add: wake_fault_def ack_view_def)
  have swap: "ack_view (h\<lparr>fault := 0\<rparr>) = view_swap (ack_view h)" for h
    by (simp add: ack_view_def)
  show ?thesis
    by (simp add: race_step_def view_race_def Let_def wake view_replay_swallowed swap)
qed

lemma wedge_iff: "fault_of T h = Wedge \<longleftrightarrow> Handle.fault h = 2"
  by (simp add: fault_of_def fault_decode_def)

text \<open>The acknowledgement on views: \<open>x\<close> tells an exit from a plain acknowledgement.\<close>

fun view_pend :: "bool \<Rightarrow> ack_view \<Rightarrow> ack_view" where
  "view_pend x (d, r, c, a, e, f, k) = (d, r, c, True, e \<or> x, f, k)"

fun view_unpend :: "bool \<Rightarrow> ack_view \<Rightarrow> bool \<times> ack_view" where
  "view_unpend x (d, r, c, a, e, f, k) = (\<not> a, d, r, c, False, e \<and> \<not> x, f, k)"

fun view_fault :: "ack_view \<Rightarrow> u8" where
  "view_fault (d, r, c, a, e, f, k) = f"

fun view_complete :: "bool \<Rightarrow> ack_view \<Rightarrow> ack_view" where
  "view_complete x (d, r, c, a, e, f, k) = (d, r, c \<or> x, a, e, f, k)"

definition view_ack :: "bool \<Rightarrow> nat \<Rightarrow> nat \<Rightarrow> ack_view \<Rightarrow> ack_view" where
  "view_ack x p1 p2 v =
     (let (swallowed, v') =
        (if view_fault v = 2
         then let v1 = view_race p1 p2 2 (view_pend x (view_race p1 p2 1 v)) in
              if view_fault v1 = 2 then (True, v1) else view_unpend x (view_race p1 p2 3 v1)
         else (False, v))
      in if swallowed then v' else view_settle (view_complete x v'))"

lemma view_fault_fault: "view_fault (ack_view h) = Handle.fault h"
  by (simp add: ack_view_def)

definition pend_bits :: "bool \<Rightarrow> u16" where
  "pend_bits x = (if x then PENDING_EXIT OR PENDING_ACK else PENDING_ACK)"

lemma view_set_pending: "ack_view (flag_set (pend_bits x) h) = view_pend x (ack_view h)"
  by (auto simp: ack_view_def flag_simps bit_or_iff pend_bits_def)

lemma view_clear_pending:
  "view_unpend x (ack_view h) =
     (flags h AND PENDING_ACK = 0, ack_view (flag_clear (pend_bits x) h))"
  by (auto simp: ack_view_def flag_simps bit_or_iff flags_and_bit pend_bits_def)

lemma view_wedge_swallows:
  "map_prod id (\<lambda>w. ack_view (w_h w n)) (wedge_swallows P (race_at p1 p2 n) (pend_bits x) n w) =
   (let v = ack_view (w_h w n) in
    if view_fault v = 2
    then let v1 = view_race p1 p2 2 (view_pend x (view_race p1 p2 1 v)) in
         if view_fault v1 = 2 then (True, v1) else view_unpend x (view_race p1 p2 3 v1)
    else (False, v))"
proof -
  let ?w1 = "race_step p1 p2 n 2 (on_handle n (flag_set (pend_bits x)) (race_step p1 p2 n 1 w))"
  have v1: "ack_view (w_h ?w1 n) = view_race p1 p2 2 (view_pend x (view_race p1 p2 1 (ack_view (w_h w n))))"
    by (simp only: view_race_step on_handle_sel fun_upd_same view_set_pending)
  have v3: "ack_view (w_h (race_step p1 p2 n 3 ?w1) n) = view_race p1 p2 3 (ack_view (w_h ?w1 n))"
    by (rule view_race_step)
  show ?thesis
    unfolding wedge_swallows_def race_at_def Let_def races.simps wedge_iff
      v1[symmetric] v3[symmetric] view_clear_pending view_fault_fault
    by simp
qed

lemma view_ack_dropped:
  assumes "(if x then mark_exited else ack_dropped) P (race_at p1 p2 n) n w = Some w'"
  shows "ack_view (w_h w' n) = view_ack x p1 p2 (ack_view (w_h w n))"
proof -
  from assms obtain w1 where w1: "release_provided P n w = Some w1"
    by (cases x) (auto simp: mark_exited_def ack_dropped_def split: option.splits)
  then have h: "w_h w1 = w_h w" using release_provided_h by blast
  obtain sw w2 where sw: "wedge_swallows P (race_at p1 p2 n) (pend_bits x) n w1 = (sw, w2)" by force
  have "w' = (if sw then w2 else settle_dropped n (if x then on_handle n (flag_set COMPLETED) w2 else w2))"
    using assms w1 sw by (cases x) (auto simp: mark_exited_def ack_dropped_def pend_bits_def)
  then have "ack_view (w_h w' n) = (let v = ack_view (w_h w2 n) in if sw then v else view_settle (view_complete x v))"
    by (cases "ack_view (w_h w2 n)") (simp add: view_settle_dropped view_set_completed Let_def)
  moreover have "(sw, ack_view (w_h w2 n)) = map_prod id (\<lambda>w. ack_view (w_h w n))
      (wedge_swallows P (race_at p1 p2 n) (pend_bits x) n w1)"
    by (simp add: sw)
  ultimately show ?thesis
    unfolding view_wedge_swallows h view_ack_def Let_def by (auto split: prod.splits)
qed


text \<open>
  C6. A wedge holds an acknowledgement back without losing it. Whatever way a concurrent
  \<open>clear_fault\<close> interleaves with an acknowledging or exiting task, the node ends up dropped, not
  running, completed exactly if it exited, with no pending bit left and exactly one firing of
  its acknowledgement signal: the supervisor neither misses the stop nor sees it twice.
\<close>

theorem wedge_loses_no_ack:
  assumes "(p1, p2) \<in> schedules" and "Handle.fault (w_h w n) = 2"
    and "\<not> flag PENDING_ACK (w_h w n)" and "\<not> flag PENDING_EXIT (w_h w n)"
    and "claims_fit P n w"
  shows "\<exists>w'. ack_against_clear P x p1 p2 n w = Some w'
    \<and> has_dropped (w_h w' n) \<and> \<not> is_running (w_h w' n)
    \<and> has_exited (w_h w' n) = (has_exited (w_h w n) \<or> x)
    \<and> \<not> flag PENDING_ACK (w_h w' n) \<and> \<not> flag PENDING_EXIT (w_h w' n)
    \<and> dropped_wake (w_h w' n) = Fire # dropped_wake (w_h w n)"
proof -
  let ?w0 = "race_step p1 p2 n 0 w"
  have "claims_fit P n ?w0" using assms(5) by (simp add: claims_fit_def)
  then obtain w1 where "release_provided P n ?w0 = Some w1" using release_provided_fits by blast
  then obtain w2 where w2: "(if x then mark_exited else ack_dropped) P (race_at p1 p2 n) n ?w0 = Some w2"
    by (cases x) (auto simp: mark_exited_def ack_dropped_def case_prod_beta)
  let ?v = "ack_view (w_h w n)"
  have v: "ack_view (w_h (race_step p1 p2 n 4 w2) n) =
      view_race p1 p2 4 (view_ack x p1 p2 (view_race p1 p2 0 ?v))"
    by (simp add: view_race_step view_ack_dropped[OF w2])
  obtain d r c k where dv: "?v = (d, r, c, False, False, 2, k)" "c = has_exited (w_h w n)"
    "k = dropped_wake (w_h w n)"
    using assms(2-4) by (auto simp: ack_view_def flag_simps reader_defs)
  have "view_race p1 p2 4 (view_ack x p1 p2 (view_race p1 p2 0 (d, r, c, False, False, 2, k))) =
      (True, False, c \<or> x, False, False, 0, Fire # k)"
    using assms(1) unfolding schedules_def
    by (elim insertE emptyE; cases x; simp add: view_race_def view_ack_def)
  with v dv w2 show ?thesis
    by (auto simp: ack_against_clear_def ack_view_def flag_simps reader_defs)
qed


theorem wedge_loses_no_ack_witness:
  "\<exists>w'. ack_against_clear (plain_platform (\<lambda>_. plain_cfg)) True 1 3 7
       (on_handle 7 (\<lambda>h. h\<lparr>fault := 2\<rparr>) world_new) = Some w'
     \<and> has_dropped (w_h w' 7) \<and> has_exited (w_h w' 7) \<and> dropped_wake (w_h w' 7) = [Fire]"
proof -
  let ?w = "on_handle 7 (\<lambda>h. h\<lparr>fault := 2\<rparr>) world_new" and ?P = "plain_platform (\<lambda>_. plain_cfg)"
  have s: "(1, 3) \<in> schedules" by (simp add: schedules_def)
  have f: "Handle.fault (w_h ?w 7) = 2" by simp
  have a: "\<not> flag PENDING_ACK (w_h ?w 7)" "\<not> flag PENDING_EXIT (w_h ?w 7)"
    by (simp_all add: flag_simps world_new_def handle_new_def)
  have c: "claims_fit ?P 7 ?w" by (simp add: claims_fit_def plain_platform_def plain_cfg_def cfg_new_def)
  from wedge_loses_no_ack[OF s f a c, of True] show ?thesis
    by (auto simp: world_new_def handle_new_def)
qed

end
