(* ===== verification/Pool.thy ===== *)
theory Pool
  imports Node
begin

text \<open>
  Elastic pools, \<^verbatim>\<open>supervisor/src/pool.rs\<close>: the load snapshot, the \<open>DeferredShrink\<close> policy
  and the decision of an \<open>ElasticPool\<close>. A \<open>&dyn Pool\<close> is the record of its methods. The
  policy's cell lives in the world, under its address.
\<close>

section \<open>Snapshot and policy\<close>

record pool_stats =
  running :: u8
  busy :: u8
  st_min :: u8
  st_max :: u8

definition idle :: "pool_stats \<Rightarrow> u8" where
  "idle s = sat_sub (running s) (busy s)"

datatype scale_action = NoScale | Grow | Shrink

text \<open>\<open>DeferredShrink::decide\<close> on its cell; the result carries the cell after.\<close>

definition deferred_shrink_decide ::
  "nat \<Rightarrow> pool_stats \<Rightarrow> nat \<Rightarrow> nat option \<Rightarrow> scale_action \<times> nat option" where
  "deferred_shrink_decide cooldown s now pending =
     (if idle s = 0 \<and> running s < st_max s then (Grow, None)
      else if 2 \<le> idle s \<and> st_min s < running s
      then case pending of
             None \<Rightarrow> (NoScale, Some (now + cooldown))
           | Some deadline \<Rightarrow>
               if deadline \<le> now
               then (Shrink, if 3 \<le> idle s then Some (now + cooldown) else None)
               else (NoScale, Some deadline)
      else (NoScale, None))"

section \<open>The pool\<close>

datatype pool_action = NoPoolAction | StartMember nref | StopMember nref

record elastic_pool =
  ep_nodes :: "nref list"
  ep_min :: u8
  ep_max :: u8

definition member_index :: "elastic_pool \<Rightarrow> nref \<Rightarrow> nat option" where
  "member_index p n = (if n \<in> set (ep_nodes p)
     then Some (length (takeWhile (\<lambda>m. m \<noteq> n) (ep_nodes p))) else None)"

text \<open>
  The fold counts in \<open>u8\<close>. Its additions panic on overflow in a debug build and wrap in a
  release build; a pool has at most 255 members, below which they do neither.
\<close>

definition count_member :: "world \<Rightarrow> nref \<Rightarrow> u8 \<times> u8 \<Rightarrow> u8 \<times> u8" where
  "count_member w n = (\<lambda>(r, b).
     if is_running (w_h w n) then (r + 1, b + (if is_busy (w_h w n) then 1 else 0)) else (r, b))"

definition pool_stats_of :: "elastic_pool \<Rightarrow> world \<Rightarrow> pool_stats" where
  "pool_stats_of p w =
     (let (r, b) = fold (count_member w) (ep_nodes p) (0, 0)
      in \<lparr>running = r, busy = b, st_min = ep_min p, st_max = ep_max p\<rparr>)"

definition may_start :: "platform \<Rightarrow> world \<Rightarrow> nref \<Rightarrow> bool" where
  "may_start P w n = (cfg_mode (p_cfg P n) = OnDemand \<and> \<not> is_running (w_h w n)
     \<and> \<not> is_disabled (w_h w n) \<and> \<not> is_collateral (w_h w n))"

definition may_stop :: "platform \<Rightarrow> world \<Rightarrow> nref \<Rightarrow> bool" where
  "may_stop P w n = (cfg_mode (p_cfg P n) = OnDemand \<and> is_running (w_h w n) \<and> \<not> is_busy (w_h w n))"

text \<open>A policy decides from the snapshot, the instant and its own state in the world.\<close>

definition elastic_evaluate ::
  "(pool_stats \<Rightarrow> nat \<Rightarrow> world \<Rightarrow> scale_action \<times> world) \<Rightarrow> platform \<Rightarrow> elastic_pool \<Rightarrow> nat
     \<Rightarrow> world \<Rightarrow> pool_action \<times> world" where
  "elastic_evaluate decide P p now w =
     (let (act, w1) = decide (pool_stats_of p w) now w in
      case act of
        Grow \<Rightarrow> (case find (may_start P w1) (ep_nodes p) of
                   Some n \<Rightarrow> StartMember n | None \<Rightarrow> NoPoolAction, w1)
      | Shrink \<Rightarrow> (case find (may_stop P w1) (ep_nodes p) of
                     Some n \<Rightarrow> StopMember n | None \<Rightarrow> NoPoolAction, w1)
      | NoScale \<Rightarrow> (NoPoolAction, w1))"

text \<open>\<open>DeferredShrink\<close> as the policy of a pool: its cell is at address \<open>a\<close>.\<close>

definition deferred_shrink ::
  "nat \<Rightarrow> nat \<Rightarrow> pool_stats \<Rightarrow> nat \<Rightarrow> world \<Rightarrow> scale_action \<times> world" where
  "deferred_shrink a cooldown s now w =
     (let (act, cell) = deferred_shrink_decide cooldown s now (w_cells w a)
      in (act, w\<lparr>w_cells := (w_cells w)(a := cell)\<rparr>))"

text \<open>The object-safe interface.\<close>

record pool =
  pool_evaluate :: "nat \<Rightarrow> world \<Rightarrow> pool_action \<times> world"
  pool_deferred :: "world \<Rightarrow> nat option"
  pool_members :: "nref list"

definition deferred_pool :: "platform \<Rightarrow> nat \<Rightarrow> nat \<Rightarrow> elastic_pool \<Rightarrow> pool" where
  "deferred_pool P a cooldown p =
     \<lparr>pool_evaluate = elastic_evaluate (deferred_shrink a cooldown) P p,
      pool_deferred = (\<lambda>w. w_cells w a), pool_members = ep_nodes p\<rparr>"

section \<open>Counting\<close>

definition n_running :: "elastic_pool \<Rightarrow> world \<Rightarrow> nat" where
  "n_running p w = length (filter (\<lambda>n. is_running (w_h w n)) (ep_nodes p))"

definition n_idle :: "elastic_pool \<Rightarrow> world \<Rightarrow> nat" where
  "n_idle p w = length (filter (\<lambda>n. is_running (w_h w n) \<and> \<not> is_busy (w_h w n)) (ep_nodes p))"

lemma fold_count_member:
  "length ns + unat r \<le> 255 \<Longrightarrow> length ns + unat b \<le> 255 \<Longrightarrow>
   (let (r', b') = fold (count_member w) ns (r, b) in
      unat r' = unat r + length (filter (\<lambda>n. is_running (w_h w n)) ns)
      \<and> unat b' = unat b + length (filter (\<lambda>n. is_running (w_h w n) \<and> is_busy (w_h w n)) ns))"
proof (induction ns arbitrary: r b)
  case Nil
  then show ?case by simp
next
  case (Cons n ns)
  have "unat (x + 1) = unat x + 1" if "unat x < 255" for x :: u8
    using that by (simp add: unat_word_ariths)
  with Cons.prems Cons.IH[of "fst (count_member w n (r, b))" "snd (count_member w n (r, b))"]
  show ?case by (auto simp: count_member_def Let_def split: prod.splits if_splits)
qed

lemma filter_split: "length (filter P xs) = length (filter (\<lambda>x. P x \<and> Q x) xs) + length (filter (\<lambda>x. P x \<and> \<not> Q x) xs)"
  by (induction xs) auto

lemma pool_stats_counts:
  assumes "length (ep_nodes p) \<le> 255"
  shows "unat (running (pool_stats_of p w)) = n_running p w"
    and "unat (idle (pool_stats_of p w)) = n_idle p w"
proof -
  obtain r b where rb: "fold (count_member w) (ep_nodes p) (0, 0) = (r, b)" by force
  from fold_count_member[of "ep_nodes p" 0 0 w] assms rb
  have "unat r = n_running p w"
    "unat b = length (filter (\<lambda>n. is_running (w_h w n) \<and> is_busy (w_h w n)) (ep_nodes p))"
    by (auto simp: n_running_def)
  then show "unat (running (pool_stats_of p w)) = n_running p w"
    "unat (idle (pool_stats_of p w)) = n_idle p w"
    using filter_split[of "\<lambda>n. is_running (w_h w n)" "ep_nodes p" "\<lambda>n. is_busy (w_h w n)"]
    by (simp_all add: pool_stats_of_def rb idle_def unat_sat_sub n_running_def n_idle_def)
qed


section \<open>Properties\<close>


definition two_members :: elastic_pool where
  "two_members = \<lparr>ep_nodes = [1, 2], ep_min = 0, ep_max = 2\<rparr>"


text \<open>A policy evaluated over time: the actions of a sequence of (snapshot, instant) pairs.\<close>

fun ds_run :: "nat \<Rightarrow> nat option \<Rightarrow> (pool_stats \<times> nat) list \<Rightarrow> scale_action list" where
  "ds_run cd cell [] = []"
| "ds_run cd cell ((s, t) # es) =
     (let (act, cell') = deferred_shrink_decide cd s t cell in act # ds_run cd cell' es)"

definition surplus :: "pool_stats \<Rightarrow> bool" where
  "surplus s \<longleftrightarrow> 2 \<le> idle s \<and> st_min s < running s"

lemma decide_cell:
  assumes "deferred_shrink_decide cd s t cell = (act, cell')"
  shows "act = Shrink \<Longrightarrow> surplus s \<and> (\<exists>d. cell = Some d \<and> d \<le> t)"
    and "cell' = Some d \<Longrightarrow> surplus s \<and> (d = t + cd \<or> cell = Some d \<and> act \<noteq> Shrink)"
  using assms by (auto simp: deferred_shrink_decide_def surplus_def split: if_splits option.splits)

text \<open>What a cell holding a deadline remembers of the evaluations \<open>past\<close>, newest first.\<close>

definition armed_by :: "nat \<Rightarrow> nat \<Rightarrow> ((pool_stats \<times> nat) \<times> scale_action) list \<Rightarrow> bool" where
  "armed_by cd d past \<longleftrightarrow> (\<exists>j < length past. snd (fst (past ! j)) + cd = d
     \<and> (\<forall>k \<le> j. surplus (fst (fst (past ! k)))) \<and> (\<forall>k < j. snd (past ! k) \<noteq> Shrink))"

lemma armed_by_now: "surplus s \<Longrightarrow> armed_by cd (t + cd) (((s, t), act) # past)"
  unfolding armed_by_def by (rule exI[of _ 0]) simp

lemma armed_by_keep:
  assumes "armed_by cd d past" "surplus s" "act \<noteq> Shrink"
  shows "armed_by cd d (((s, t), act) # past)"
proof -
  from assms(1) obtain j where j: "j < length past" "snd (fst (past ! j)) + cd = d"
    "\<forall>k \<le> j. surplus (fst (fst (past ! k)))" "\<forall>k < j. snd (past ! k) \<noteq> Shrink"
    unfolding armed_by_def by blast
  let ?p = "((s, t), act) # past"
  have "surplus (fst (fst (?p ! k)))" if "k \<le> Suc j" for k
    using that j(3) assms(2) by (cases k) auto
  moreover have "snd (?p ! k) \<noteq> Shrink" if "k < Suc j" for k
    using that j(4) assms(3) by (cases k) auto
  ultimately show ?thesis unfolding armed_by_def using j(1,2) by (intro exI[of _ "Suc j"]) simp
qed

lemma ds_run_armed:
  assumes "\<forall>d. cell = Some d \<longrightarrow> armed_by cd d past"
    and "i < length es" and "ds_run cd cell es ! i = Shrink"
  shows "\<exists>d \<le> snd (es ! i). surplus (fst (es ! i))
    \<and> armed_by cd d (rev (zip (take i es) (ds_run cd cell es)) @ past)"
  using assms
proof (induction es arbitrary: cell past i)
  case Nil
  then show ?case by simp
next
  case (Cons e es)
  obtain s t where e: "e = (s, t)" by force
  obtain act cell' where d: "deferred_shrink_decide cd s t cell = (act, cell')" by force
  note dc = decide_cell[OF d]
  show ?case
  proof (cases i)
    case 0
    then have "act = Shrink" using Cons.prems(3) e d by simp
    then show ?thesis using dc(1) Cons.prems(1) e 0 by auto
  next
    case (Suc i')
    have arm: "\<forall>d. cell' = Some d \<longrightarrow> armed_by cd d (((s, t), act) # past)"
    proof (intro allI impI)
      fix d assume "cell' = Some d"
      from dc(2)[OF this] Cons.prems(1) show "armed_by cd d (((s, t), act) # past)"
        using armed_by_now armed_by_keep by blast
    qed
    have run: "ds_run cd cell (e # es) = act # ds_run cd cell' es" by (simp add: e d)
    from Cons.IH[OF arm, of i'] Cons.prems(2,3) Suc
    show ?thesis by (simp add: d e)
  qed
qed

text \<open>
  Shrinking is deferred for the whole cooldown: when an evaluation shrinks the pool, some
  earlier evaluation was at least the cooldown before it, every evaluation from that one on
  saw at least two idle members above the minimum, and none strictly in between shrank. So a
  burst that uses the spare member restarts the wait, and successive shrinks are a cooldown apart.
\<close>

theorem shrink_waits_for_cooldown:
  assumes "i < length es" and "ds_run cd None es ! i = Shrink"
  shows "\<exists>j < i. snd (es ! j) + cd \<le> snd (es ! i)
    \<and> (\<forall>k. j \<le> k \<and> k \<le> i \<longrightarrow> surplus (fst (es ! k)))
    \<and> (\<forall>k. j < k \<and> k < i \<longrightarrow> ds_run cd None es ! k \<noteq> Shrink)"
proof -
  let ?acts = "ds_run cd None es"
  have len: "length (ds_run cd cell es) = length es" for cell
    by (induction es arbitrary: cell) (auto simp: split: prod.splits)
  let ?past = "rev (zip (take i es) ?acts)"
  from ds_run_armed[of None cd "[]" i es] assms obtain d where
    d: "d \<le> snd (es ! i)" "surplus (fst (es ! i))" "armed_by cd d ?past" by auto
  have plen: "length ?past = i" using assms(1) len by simp
  have nth: "?past ! k = (es ! (i - Suc k), ?acts ! (i - Suc k))" if "k < i" for k
    using that plen assms(1) len by (simp add: rev_nth)
  from d(3) obtain j where j: "j < i" "snd (fst (?past ! j)) + cd = d"
    "\<forall>k \<le> j. surplus (fst (fst (?past ! k)))" "\<forall>k < j. snd (?past ! k) \<noteq> Shrink"
    unfolding armed_by_def plen by blast
  have "surplus (fst (es ! k))" if "i - Suc j \<le> k" "k \<le> i" for k
  proof (cases "k = i")
    case False
    then show ?thesis using that j(1) j(3)[THEN spec[of _ "i - Suc k"]] nth[of "i - Suc k"] by (auto simp: le_diff_conv)
  qed (use d in simp)
  moreover have "?acts ! k \<noteq> Shrink" if "i - Suc j < k" "k < i" for k
    using that j(4)[THEN spec[of _ "i - Suc k"]] nth[of "i - Suc k"] j(1) by auto
  moreover have "snd (es ! (i - Suc j)) + cd \<le> snd (es ! i)" using d(1) j(1,2) nth[of j] by simp
  ultimately show ?thesis using j(1) by (intro exI[of _ "i - Suc j"]) auto
qed


definition spare_two :: "(pool_stats \<times> nat) list" where
  "spare_two = map (Pair \<lparr>running = 3, busy = 1, st_min = 1, st_max = 4\<rparr>) [10, 12, 15]"

theorem shrink_waits_for_cooldown_witness:
  "ds_run 5 None spare_two ! 2 = Shrink \<and> (\<exists>j < 2. snd (spare_two ! j) + 5 \<le> 15)"
proof -
  have r: "ds_run 5 None spare_two ! 2 = Shrink" by code_simp
  have l: "2 < length spare_two" by (simp add: spare_two_def)
  have t: "snd (spare_two ! 2) = 15" by (simp add: spare_two_def)
  show ?thesis using shrink_waits_for_cooldown[OF l r] r t by (elim exE conjE) auto
qed

end
