(* ===== verification/Stop_Wave.thy ===== *)
theory Stop_Wave
  imports Pool Topology "HOL-Library.Code_Target_Numeral"
begin

text \<open>
  The supervisor's teardown engine in \<^verbatim>\<open>supervisor/src/lib.rs\<close>: \<open>stop_nodes\<close> picks slots,
  \<open>stop_wave\<close> signals them dependents first and waits for their acknowledgements. Each
  iteration of its loop is the four passes of the source, followed by the await.
\<close>

section \<open>The supervisor\<close>

record supervisor =
  s_nodes :: "nref option list"
  s_topo :: topology
  s_shape :: u32
  s_pools :: "pool list"
  s_ref :: nat
  s_self :: "nref option"

definition s_size :: "supervisor \<Rightarrow> nat" where
  "s_size S = length (s_nodes S)"

definition s_has :: "supervisor \<Rightarrow> u32 \<Rightarrow> bool" where
  "s_has S b = has (s_shape S) b"

text \<open>
  The order and the rows are arrays of the graph's size, so the reads below are in range for
  every slot; \<open>wf_sup\<close> states it.
\<close>

definition order_iter :: "supervisor \<Rightarrow> nat list" where
  "order_iter S = map (\<lambda>k. unat (the (order_at (s_topo S) k))) [0..<s_size S]"

definition deps_row :: "supervisor \<Rightarrow> nat \<Rightarrow> nat list" where
  "deps_row S j = map unat (the (deps_of (s_topo S) (of_nat j)))"

definition node_at :: "supervisor \<Rightarrow> nat \<Rightarrow> nref option" where
  "node_at S j = s_nodes S ! j"

definition index_of :: "supervisor \<Rightarrow> nref \<Rightarrow> nat option" where
  "index_of S n = find (\<lambda>j. s_nodes S ! j = Some n) [0..<s_size S]"

definition note_verb :: "platform \<Rightarrow> supervisor \<Rightarrow> nref \<Rightarrow> transition \<Rightarrow> world \<Rightarrow> world" where
  "note_verb P S n t w = note_transition P n (index_of S n) t w"

text \<open>
  What the const constructors guarantee: at most 256 slots and, for an ordered topology, one
  row a slot with indices in range and the order of the const sort.
\<close>

definition wf_sup :: "supervisor \<Rightarrow> bool" where
  "wf_sup S \<longleftrightarrow> s_size S \<le> 256 \<and>
     (case s_topo S of
        Flat \<Rightarrow> True
      | Ordered deps ord \<Rightarrow> length deps = s_size S \<and> valid_deps deps \<and> topo_sort_const deps = Some ord)"

lemma wf_sup_order:
  assumes "wf_sup S"
  shows "set (order_iter S) = {..<s_size S}" and "distinct (order_iter S)"
    and "length (order_iter S) = s_size S"
    and "k < s_size S \<Longrightarrow> set (deps_row S (order_iter S ! k)) \<subseteq> set (take k (order_iter S))"
    and "j < s_size S \<Longrightarrow> set (deps_row S j) \<subseteq> {..<s_size S}"
proof -
  have "set (order_iter S) = {..<s_size S} \<and> distinct (order_iter S) \<and> length (order_iter S) = s_size S
    \<and> (\<forall>k < s_size S. set (deps_row S (order_iter S ! k)) \<subseteq> set (take k (order_iter S)))
    \<and> (\<forall>j < s_size S. set (deps_row S j) \<subseteq> {..<s_size S})"
  proof (cases "s_topo S")
    case Flat
    have "unat (of_nat k :: u8) = k" if "k < s_size S" for k
      using that assms by (simp add: wf_sup_def)
    then have "order_iter S = [0..<s_size S]"
      unfolding order_iter_def Flat by (simp add: list_eq_iff_nth_eq)
    then show ?thesis by (auto simp: deps_row_def Flat)
  next
    case (Ordered deps ord)
    then have len: "length deps = s_size S" and N: "s_size S \<le> 256" and v: "valid_deps deps"
      and srt: "topo_sort_const deps = Some ord"
      using assms by (auto simp: wf_sup_def)
    have ts: "length ord = length deps \<and> distinct ord \<and> unat ` set ord = {..<length deps}
      \<and> (\<forall>k < length ord. set (deps ! unat (ord ! k)) \<subseteq> set (take k ord))"
      using topo_sort_result[OF _ srt] valid_deps_rows_fit[OF v] by (simp add: topo_sorted_def)
    have oi: "order_iter S = map unat ord"
      unfolding order_iter_def Ordered using ts len
      by (simp add: list_eq_iff_nth_eq)
    have row: "deps_row S j = map unat (deps ! j)" if "j < s_size S" for j
      using that len N by (simp add: deps_row_def Ordered)
    have "set (deps_row S (order_iter S ! k)) \<subseteq> set (take k (order_iter S))" if "k < s_size S" for k
    proof -
      have k: "k < length ord" using that ts len by simp
      then have "unat (ord ! k) < s_size S" using ts len by (metis imageI lessThan_iff nth_mem)
      moreover have "set (deps ! unat (ord ! k)) \<subseteq> set (take k ord)" using ts k by blast
      ultimately show ?thesis using k by (auto simp: oi row take_map)
    qed
    moreover have "set (deps_row S j) \<subseteq> {..<s_size S}" if "j < s_size S" for j
    proof -
      have "deps ! j \<in> set deps" using that len by simp
      then show ?thesis using v that len by (auto simp: row valid_deps_def)
    qed
    ultimately show ?thesis
      using ts len by (auto simp: oi distinct_map inj_on_def dest: word_unat_eq_iff[THEN iffD2])
  qed
  then show "set (order_iter S) = {..<s_size S}" "distinct (order_iter S)"
    "length (order_iter S) = s_size S"
    "k < s_size S \<Longrightarrow> set (deps_row S (order_iter S ! k)) \<subseteq> set (take k (order_iter S))"
    "j < s_size S \<Longrightarrow> set (deps_row S j) \<subseteq> {..<s_size S}"
    by blast+
qed


section \<open>The wave\<close>

definition UNSIGNALED :: u32 where "UNSIGNALED = - 1"

text \<open>\<open>first_err\<close> is the source's \<open>Result\<close>: \<open>None\<close> is \<open>Ok(())\<close>.\<close>

record stop_state =
  sw_world :: world
  sw_resolved :: "bool list"
  sw_signaled :: "u32 list"
  sw_first_err :: "node_fault option"
  sw_progress :: bool
  sw_deadline :: "nat option"

type_synonym stop_flow = "(node_fault + unit, stop_state) flow"

definition err_result :: "node_fault option \<Rightarrow> node_fault + unit" where
  "err_result e = (case e of None \<Rightarrow> Inr () | Some f \<Rightarrow> Inl f)"

text \<open>Milliseconds since the wave's start, capped below the sentinel.\<close>

definition elapsed_ms :: "platform \<Rightarrow> nat \<Rightarrow> world \<Rightarrow> nat" where
  "elapsed_ms P ep w = as_millis (p_time P) (w_now w - ep)"

definition stamp_ms :: "platform \<Rightarrow> nat \<Rightarrow> world \<Rightarrow> u32" where
  "stamp_ms P ep w = of_nat (min (elapsed_ms P ep w) (unat UNSIGNALED - 1))"

text \<open>Pass 1: signal every chosen slot whose chosen dependents are all resolved.\<close>

definition held :: "supervisor \<Rightarrow> bool list \<Rightarrow> bool list \<Rightarrow> nat \<Rightarrow> bool" where
  "held S chosen resolved j =
     list_ex (\<lambda>k. chosen ! k \<and> \<not> resolved ! k \<and> j \<in> set (deps_row S k)) [0..<s_size S]"

definition signal_slot :: "platform \<Rightarrow> supervisor \<Rightarrow> bool list \<Rightarrow> nat \<Rightarrow> nat \<Rightarrow> stop_state \<Rightarrow> stop_flow" where
  "signal_slot P S chosen ep j st =
     (if \<not> chosen ! j \<or> sw_resolved st ! j \<or> sw_signaled st ! j \<noteq> UNSIGNALED then Go st
      else if held S chosen (sw_resolved st) j then Go st
      else case node_at S j of
             None \<Rightarrow> Panic
           | Some n \<Rightarrow>
               (let w1 = note_transition P n (Some j) StopRequested (on_handle n signal_shutdown (sw_world st))
                in Go (st\<lparr>sw_world := w1, sw_signaled := (sw_signaled st)[j := stamp_ms P ep w1]\<rparr>)))"

text \<open>Pass 2: resolve every chosen slot whose node has acknowledged.\<close>

definition resolve_slot :: "platform \<Rightarrow> supervisor \<Rightarrow> bool list \<Rightarrow> nat \<Rightarrow> stop_state \<Rightarrow> stop_flow" where
  "resolve_slot P S chosen j st =
     (if \<not> chosen ! j \<or> sw_resolved st ! j then Go st
      else case node_at S j of
             None \<Rightarrow> Panic
           | Some n \<Rightarrow>
               if has_dropped (w_h (sw_world st) n)
               then let w1 = set_running P False n (sw_world st);
                        w2 = note_transition P n (Some j) (acked (w_h w1 n)) w1
                    in Go (st\<lparr>sw_world := w2, sw_resolved := (sw_resolved st)[j := True],
                              sw_progress := True\<rparr>)
               else Go st)"

definition all_resolved :: "supervisor \<Rightarrow> bool list \<Rightarrow> bool list \<Rightarrow> bool" where
  "all_resolved S chosen resolved = list_all (\<lambda>j. \<not> chosen ! j \<or> resolved ! j) [0..<s_size S]"

text \<open>Pass 3: what is overdue faults; what is not sets the deadline of the wait.\<close>

definition timeout_slot ::
  "platform \<Rightarrow> supervisor \<Rightarrow> bool list \<Rightarrow> bool \<Rightarrow> nat \<Rightarrow> nat \<Rightarrow> nat \<Rightarrow> stop_state \<Rightarrow> stop_flow" where
  "timeout_slot P S chosen keep_going ep now_ms j st =
     (if \<not> chosen ! j \<or> sw_resolved st ! j \<or> sw_signaled st ! j = UNSIGNALED then Go st
      else case node_at S j of
             None \<Rightarrow> Panic
           | Some n \<Rightarrow>
               (let due_ms = unat (sw_signaled st ! j) + as_millis (p_time P) (ack_timeout (p_cfg P n)) in
                if now_ms < due_ms
                then let due = ep + from_millis (p_time P) due_ms
                     in Go (st\<lparr>sw_deadline := Some (case sw_deadline st of None \<Rightarrow> due | Some d \<Rightarrow> min d due)\<rparr>)
                else case (if s_has S SHAPE_CLAIMS then release_claims P n (sw_world st)
                           else Some (sw_world st)) of
                       None \<Rightarrow> Panic
                     | Some w1 \<Rightarrow>
                         (let w2 = note_transition P n (Some j) (Faulted ShutdownTimeout) w1;
                              f = NodeFault n ShutdownTimeout;
                              st1 = st\<lparr>sw_world := w2\<rparr>
                          in if \<not> keep_going then Return (Inl f) st1
                             else Go (st1\<lparr>sw_first_err :=
                                            (case sw_first_err st1 of None \<Rightarrow> Some f | Some e \<Rightarrow> Some e),
                                          sw_resolved := (sw_resolved st1)[j := True],
                                          sw_progress := True\<rparr>))))"

text \<open>
  One iteration. After the passes the wave returns, goes round again at once, or waits for a
  stop event or the deadline.
\<close>

definition stop_round :: "platform \<Rightarrow> supervisor \<Rightarrow> bool list \<Rightarrow> bool \<Rightarrow> nat \<Rightarrow> stop_state \<Rightarrow> stop_flow" where
  "stop_round P S chosen keep_going ep st0 =
     flow_then (each (signal_slot P S chosen ep) (rev (order_iter S)) st0) (\<lambda>st1.
     flow_then (each (resolve_slot P S chosen) (rev (order_iter S)) (st1\<lparr>sw_progress := False\<rparr>)) (\<lambda>st2.
       if all_resolved S chosen (sw_resolved st2) then Return (err_result (sw_first_err st2)) st2
       else if sw_progress st2 then Go st2
       else flow_then (each (timeout_slot P S chosen keep_going ep (elapsed_ms P ep (sw_world st2)))
                         (rev (order_iter S)) (st2\<lparr>sw_deadline := None\<rparr>)) (\<lambda>st3.
              if sw_progress st3 then Go st3
              else case sw_deadline st3 of
                     None \<Rightarrow> Panic
                   | Some d \<Rightarrow>
                       (let w = sw_world st3 in
                        Go (st3\<lparr>sw_world := await P (w\<lparr>stop_evt := Wait # stop_evt w\<rparr>)\<rparr>)))))"

fun stop_rounds :: "nat \<Rightarrow> platform \<Rightarrow> supervisor \<Rightarrow> bool list \<Rightarrow> bool \<Rightarrow> nat \<Rightarrow> stop_state
     \<Rightarrow> (node_fault + unit) run \<times> world" where
  "stop_rounds 0 P S chosen keep_going ep st = (Pending, sw_world st)"
| "stop_rounds (Suc fuel) P S chosen keep_going ep st =
     (case stop_round P S chosen keep_going ep st of
        Go st' \<Rightarrow> stop_rounds fuel P S chosen keep_going ep st'
      | Return r st' \<Rightarrow> (Ready r, sw_world st')
      | Panic \<Rightarrow> (Panicked, sw_world st))"

definition stop_start :: "supervisor \<Rightarrow> world \<Rightarrow> stop_state" where
  "stop_start S w =
     \<lparr>sw_world = w, sw_resolved = replicate (s_size S) False,
      sw_signaled = replicate (s_size S) UNSIGNALED, sw_first_err = None,
      sw_progress = False, sw_deadline = None\<rparr>"

definition stop_wave :: "nat \<Rightarrow> platform \<Rightarrow> supervisor \<Rightarrow> bool list \<Rightarrow> bool \<Rightarrow> world
     \<Rightarrow> (node_fault + unit) run \<times> world" where
  "stop_wave fuel P S chosen keep_going w =
     stop_rounds fuel P S chosen keep_going (w_now w) (stop_start S w)"

text \<open>
  \<open>stop_nodes\<close> asks a closure about every occupied slot, dependents first. The closure may
  write flags: it is a function on the world.
\<close>

type_synonym selector = "nat \<Rightarrow> nref \<Rightarrow> world \<Rightarrow> bool \<times> world"

fun select_slots :: "supervisor \<Rightarrow> selector \<Rightarrow> nat list \<Rightarrow> bool list \<times> world \<Rightarrow> bool list \<times> world" where
  "select_slots S sel [] cw = cw"
| "select_slots S sel (j # js) (chosen, w) =
     (case node_at S j of
        None \<Rightarrow> select_slots S sel js (chosen, w)
      | Some n \<Rightarrow>
          (let (yes, w1) = sel j n w
           in select_slots S sel js (if yes then chosen[j := True] else chosen, w1)))"

definition stop_nodes :: "nat \<Rightarrow> platform \<Rightarrow> supervisor \<Rightarrow> selector \<Rightarrow> bool \<Rightarrow> world
     \<Rightarrow> (node_fault + unit) run \<times> world" where
  "stop_nodes fuel P S sel keep_going w =
     (let (chosen, w1) = select_slots S sel (rev (order_iter S)) (replicate (s_size S) False, w)
      in stop_wave fuel P S chosen keep_going w1)"

section \<open>What a wave may record\<close>

text \<open>
  The contract of a stop wave over its trace, newest entry first: a slot is asked to stop at
  most once, only while unresolved and only after every chosen slot that depends on it has
  resolved; it resolves at most once; a missed acknowledgement is reported only for a slot that
  was asked; nothing is recorded about a slot that was not chosen.
\<close>

type_synonym entry_trace = "(nref \<times> nat option \<times> transition) list"

fun resolution :: "transition \<Rightarrow> bool" where
  "resolution Stopped = True"
| "resolution Exited = True"
| "resolution (Faulted ShutdownTimeout) = True"
| "resolution _ = False"

definition asked_in :: "entry_trace \<Rightarrow> nat \<Rightarrow> bool" where
  "asked_in tr j = list_ex (\<lambda>(n, s, t). s = Some j \<and> t = StopRequested) tr"

definition resolved_in :: "entry_trace \<Rightarrow> nat \<Rightarrow> bool" where
  "resolved_in tr j = list_ex (\<lambda>(n, s, t). s = Some j \<and> resolution t) tr"

definition missed :: "entry_trace \<Rightarrow> nref list" where
  "missed tr = map fst (filter (\<lambda>(n, s, t). t = Faulted ShutdownTimeout) tr)"

definition stop_entry :: "supervisor \<Rightarrow> bool list \<Rightarrow> nref \<Rightarrow> nat \<Rightarrow> transition \<Rightarrow> entry_trace \<Rightarrow> bool" where
  "stop_entry S chosen n j t older \<longleftrightarrow>
     j < s_size S \<and> chosen ! j \<and> node_at S j = Some n \<and> \<not> resolved_in older j
     \<and> (t = StopRequested \<and> \<not> asked_in older j
           \<and> list_all (\<lambda>k. chosen ! k \<and> j \<in> set (deps_row S k) \<longrightarrow> resolved_in older k) [0..<s_size S]
        \<or> t = Faulted ShutdownTimeout \<and> asked_in older j
        \<or> t = Stopped \<or> t = Exited)"

fun stop_trace :: "supervisor \<Rightarrow> bool list \<Rightarrow> entry_trace \<Rightarrow> bool" where
  "stop_trace S chosen [] = True"
| "stop_trace S chosen ((n, s, t) # older) =
     ((case s of None \<Rightarrow> False | Some j \<Rightarrow> stop_entry S chosen n j t older) \<and> stop_trace S chosen older)"

lemma asked_in_Cons [simp]:
  "asked_in ((n, s, t) # tr) j \<longleftrightarrow> s = Some j \<and> t = StopRequested \<or> asked_in tr j"
  by (simp add: asked_in_def)

lemma resolved_in_Cons [simp]:
  "resolved_in ((n, s, t) # tr) j \<longleftrightarrow> s = Some j \<and> resolution t \<or> resolved_in tr j"
  by (simp add: resolved_in_def)

lemma missed_Cons [simp]:
  "missed ((n, s, t) # tr) = (if t = Faulted ShutdownTimeout then n # missed tr else missed tr)"
  by (simp add: missed_def)

lemma trace_Nil [simp]: "\<not> asked_in [] j" "\<not> resolved_in [] j" "missed [] = []"
  by (simp_all add: asked_in_def resolved_in_def missed_def)

lemma acked_resolution [simp]: "acked h = Stopped \<or> acked h = Exited"
  "resolution (acked h)" "acked h \<noteq> StopRequested" "acked h \<noteq> Faulted k"
  by (simp_all add: acked_def)

section \<open>The wave keeps its contract\<close>

text \<open>The bookkeeping arrays agree with the trace; the first missed slot is the first error.\<close>

definition stop_rel :: "supervisor \<Rightarrow> bool list \<Rightarrow> stop_state \<Rightarrow> entry_trace \<Rightarrow> bool" where
  "stop_rel S chosen st tr \<longleftrightarrow> stop_trace S chosen tr
     \<and> length (sw_resolved st) = s_size S \<and> length (sw_signaled st) = s_size S
     \<and> (\<forall>j < s_size S. sw_resolved st ! j \<longleftrightarrow> resolved_in tr j)
     \<and> (\<forall>j < s_size S. sw_signaled st ! j \<noteq> UNSIGNALED \<longleftrightarrow> asked_in tr j)
     \<and> (case sw_first_err st of
          None \<Rightarrow> missed tr = []
        | Some f \<Rightarrow> missed tr \<noteq> [] \<and> nf_node f = last (missed tr) \<and> nf_kind f = ShutdownTimeout)"

definition stop_inv :: "supervisor \<Rightarrow> bool list \<Rightarrow> bool \<Rightarrow> entry_trace \<Rightarrow> stop_state \<Rightarrow> bool" where
  "stop_inv S chosen keep_going tr0 st \<longleftrightarrow>
     (\<exists>tr. w_trace (sw_world st) = tr @ tr0 \<and> stop_rel S chosen st tr
        \<and> (\<not> keep_going \<longrightarrow> sw_first_err st = None))"

definition all_done :: "supervisor \<Rightarrow> bool list \<Rightarrow> entry_trace \<Rightarrow> bool" where
  "all_done S chosen tr = list_all (\<lambda>j. \<not> chosen ! j \<or> resolved_in tr j) [0..<s_size S]"

definition stop_result :: "supervisor \<Rightarrow> bool list \<Rightarrow> bool \<Rightarrow> entry_trace \<Rightarrow> node_fault + unit \<Rightarrow> bool" where
  "stop_result S chosen keep_going tr r =
     (case r of
        Inr _ \<Rightarrow> all_done S chosen tr \<and> missed tr = []
      | Inl f \<Rightarrow> nf_kind f = ShutdownTimeout \<and> missed tr \<noteq> [] \<and> nf_node f = last (missed tr)
          \<and> (if keep_going then all_done S chosen tr else missed tr = [nf_node f]))"

definition stop_ret :: "supervisor \<Rightarrow> bool list \<Rightarrow> bool \<Rightarrow> entry_trace
     \<Rightarrow> node_fault + unit \<Rightarrow> stop_state \<Rightarrow> bool" where
  "stop_ret S chosen keep_going tr0 r st \<longleftrightarrow>
     (\<exists>tr. w_trace (sw_world st) = tr @ tr0 \<and> stop_trace S chosen tr \<and> stop_result S chosen keep_going tr r)"

lemma stamp_not_unsignaled [simp]: "stamp_ms P ep w \<noteq> UNSIGNALED"
proof -
  have u: "unat UNSIGNALED = 2 ^ 32 - 1"
    by (simp add: UNSIGNALED_def unat_minus_one_word_aux)
  have "unat (stamp_ms P ep w) < 2 ^ 32 - 1"
    unfolding stamp_ms_def u by (simp add: unat_of_nat)
  with u show ?thesis by auto
qed

lemma set_running_trace [simp]: "w_trace (set_running P r n w) = w_trace w"
  by (simp add: set_running_def seed_write_mark_def Let_def)

lemma signal_slot_safe:
  assumes "j < s_size S" "stop_inv S chosen kg tr0 st"
  shows "flow_safe (stop_inv S chosen kg tr0) R (signal_slot P S chosen ep j st)"
proof (cases "chosen ! j \<and> \<not> sw_resolved st ! j \<and> sw_signaled st ! j = UNSIGNALED
    \<and> \<not> held S chosen (sw_resolved st) j \<and> node_at S j \<noteq> None")
  case False
  then show ?thesis using assms by (auto simp: signal_slot_def)
next
  case True
  then obtain n where n: "node_at S j = Some n" by auto
  from assms(2) obtain tr where tr: "w_trace (sw_world st) = tr @ tr0" "stop_rel S chosen st tr"
    "\<not> kg \<longrightarrow> sw_first_err st = None" by (auto simp: stop_inv_def)
  have free: "list_all (\<lambda>k. chosen ! k \<and> j \<in> set (deps_row S k) \<longrightarrow> resolved_in tr k) [0..<s_size S]"
    using True tr(2) by (auto simp: held_def stop_rel_def list_all_iff list_ex_iff)
  have e: "stop_entry S chosen n j StopRequested tr"
    using assms(1) True n tr(2) free by (auto simp: stop_entry_def stop_rel_def)
  have "stop_rel S chosen (st\<lparr>sw_world := w1, sw_signaled := (sw_signaled st)[j := stamp_ms P ep w1]\<rparr>)
      ((n, Some j, StopRequested) # tr)" for w1
    using tr(2) e assms(1) by (auto simp: stop_rel_def nth_list_update split: option.splits)
  with True n tr show ?thesis
    by (auto simp: signal_slot_def stop_inv_def Let_def)
qed

lemma resolve_slot_safe:
  assumes "j < s_size S" "stop_inv S chosen kg tr0 st"
  shows "flow_safe (stop_inv S chosen kg tr0) R (resolve_slot P S chosen j st)"
proof (cases "chosen ! j \<and> \<not> sw_resolved st ! j \<and> node_at S j \<noteq> None")
  case False
  then show ?thesis using assms by (auto simp: resolve_slot_def)
next
  case True
  then obtain n where n: "node_at S j = Some n" by auto
  from assms(2) obtain tr where tr: "w_trace (sw_world st) = tr @ tr0" "stop_rel S chosen st tr"
    "\<not> kg \<longrightarrow> sw_first_err st = None" by (auto simp: stop_inv_def)
  have e: "stop_entry S chosen n j (acked h) tr" for h
    using assms(1) True n tr(2) acked_resolution(1)[of h] by (auto simp: stop_entry_def stop_rel_def)
  have "stop_rel S chosen (st\<lparr>sw_world := w1, sw_resolved := (sw_resolved st)[j := True], sw_progress := True\<rparr>)
      ((n, Some j, acked h) # tr)" for w1 h
    using tr(2) e assms(1) by (auto simp: stop_rel_def nth_list_update split: option.splits)
  with True n tr show ?thesis
    by (auto simp: resolve_slot_def stop_inv_def Let_def)
qed

lemma release_claims_trace: "release_claims P n w = Some w1 \<Longrightarrow> w_trace w1 = w_trace w"
  unfolding release_claims_def by (drule release_claim_list_h) simp

lemma timeout_slot_safe:
  assumes "j < s_size S" "stop_inv S chosen kg tr0 st"
  shows "flow_safe (stop_inv S chosen kg tr0) (stop_ret S chosen kg tr0) (timeout_slot P S chosen kg ep now j st)"
proof (cases "chosen ! j \<and> \<not> sw_resolved st ! j \<and> sw_signaled st ! j \<noteq> UNSIGNALED \<and> node_at S j \<noteq> None")
  case False
  then show ?thesis using assms by (auto simp: timeout_slot_def)
next
  case True
  then obtain n where n: "node_at S j = Some n" by auto
  from assms(2) obtain tr where tr: "w_trace (sw_world st) = tr @ tr0" "stop_rel S chosen st tr"
    "\<not> kg \<longrightarrow> sw_first_err st = None" by (auto simp: stop_inv_def)
  have e: "stop_entry S chosen n j (Faulted ShutdownTimeout) tr"
    using assms(1) True n tr(2) by (auto simp: stop_entry_def stop_rel_def)
  let ?f = "NodeFault n ShutdownTimeout"
  have go: "stop_inv S chosen kg tr0 (st\<lparr>sw_deadline := d\<rparr>)" for d
    using tr by (auto simp: stop_inv_def stop_rel_def)
  have keep: "kg \<Longrightarrow> w_trace w2 = (n, Some j, Faulted ShutdownTimeout) # tr @ tr0 \<Longrightarrow>
      stop_inv S chosen kg tr0 (st\<lparr>sw_world := w2,
         sw_first_err := (case sw_first_err st of None \<Rightarrow> Some ?f | Some e \<Rightarrow> Some e),
         sw_resolved := (sw_resolved st)[j := True], sw_progress := True\<rparr>)" for w2
    unfolding stop_inv_def using tr(2) e assms(1)
    by (intro exI[of _ "(n, Some j, Faulted ShutdownTimeout) # tr"])
      (auto simp: stop_rel_def nth_list_update split: option.splits)
  have ret: "\<not> kg \<Longrightarrow> w_trace w2 = (n, Some j, Faulted ShutdownTimeout) # tr @ tr0 \<Longrightarrow>
      stop_ret S chosen kg tr0 (Inl ?f) (st\<lparr>sw_world := w2\<rparr>)" for w2
    unfolding stop_ret_def using tr e
    by (intro exI[of _ "(n, Some j, Faulted ShutdownTimeout) # tr"])
      (auto simp: stop_rel_def stop_result_def split: option.splits)
  show ?thesis
    using True n tr(1) keep ret go
    by (auto simp: timeout_slot_def Let_def split: option.splits dest!: release_claims_trace)
qed

lemma stop_inv_world:
  "w_trace w1 = w_trace (sw_world st) \<Longrightarrow>
     stop_inv S chosen kg tr0 (st\<lparr>sw_world := w1\<rparr>) = stop_inv S chosen kg tr0 st"
  "stop_inv S chosen kg tr0 (st\<lparr>sw_progress := b\<rparr>) = stop_inv S chosen kg tr0 st"
  "stop_inv S chosen kg tr0 (st\<lparr>sw_deadline := d\<rparr>) = stop_inv S chosen kg tr0 st"
  by (simp_all add: stop_inv_def stop_rel_def)

lemma all_resolved_done:
  "stop_rel S chosen st tr \<Longrightarrow> all_resolved S chosen (sw_resolved st) = all_done S chosen tr"
  by (auto simp: all_resolved_def all_done_def stop_rel_def list_all_iff)

lemma stop_inv_return:
  assumes "stop_inv S chosen kg tr0 st" "all_resolved S chosen (sw_resolved st)"
  shows "stop_ret S chosen kg tr0 (err_result (sw_first_err st)) st"
proof -
  from assms(1) obtain tr where tr: "w_trace (sw_world st) = tr @ tr0" "stop_rel S chosen st tr"
    "\<not> kg \<longrightarrow> sw_first_err st = None" by (auto simp: stop_inv_def)
  with assms(2) all_resolved_done[OF tr(2)] show ?thesis
    unfolding stop_ret_def
    by (intro exI[of _ tr])
      (auto simp: stop_result_def err_result_def stop_rel_def split: option.splits)
qed

lemma order_in_range: "wf_sup S \<Longrightarrow> j \<in> set (order_iter S) \<Longrightarrow> j < s_size S"
  using wf_sup_order(1) by auto

lemma stop_round_safe:
  assumes wf: "wf_sup S" and "stop_inv S chosen kg tr0 st"
  shows "flow_safe (stop_inv S chosen kg tr0) (stop_ret S chosen kg tr0) (stop_round P S chosen kg ep st)"
  unfolding stop_round_def
proof (rule flow_safe_then)
  show "flow_safe (stop_inv S chosen kg tr0) (stop_ret S chosen kg tr0)
      (each (signal_slot P S chosen ep) (rev (order_iter S)) st)"
    by (rule each_safe) (use wf assms order_in_range signal_slot_safe in auto)
next
  fix st1 assume st1: "stop_inv S chosen kg tr0 st1"
  show "flow_safe (stop_inv S chosen kg tr0) (stop_ret S chosen kg tr0)
      (flow_then (each (resolve_slot P S chosen) (rev (order_iter S)) (st1\<lparr>sw_progress := False\<rparr>)) (\<lambda>st2.
       if all_resolved S chosen (sw_resolved st2) then Return (err_result (sw_first_err st2)) st2
       else if sw_progress st2 then Go st2
       else flow_then (each (timeout_slot P S chosen kg ep (elapsed_ms P ep (sw_world st2)))
                         (rev (order_iter S)) (st2\<lparr>sw_deadline := None\<rparr>)) (\<lambda>st3.
              if sw_progress st3 then Go st3
              else case sw_deadline st3 of
                     None \<Rightarrow> Panic
                   | Some d \<Rightarrow>
                       (let w = sw_world st3 in
                        Go (st3\<lparr>sw_world := await P (w\<lparr>stop_evt := Wait # stop_evt w\<rparr>)\<rparr>)))))"
  proof (rule flow_safe_then)
    show "flow_safe (stop_inv S chosen kg tr0) (stop_ret S chosen kg tr0)
        (each (resolve_slot P S chosen) (rev (order_iter S)) (st1\<lparr>sw_progress := False\<rparr>))"
      by (rule each_safe) (use wf st1 order_in_range resolve_slot_safe stop_inv_world in auto)
  next
    fix st2 assume st2: "stop_inv S chosen kg tr0 st2"
    have pass3: "flow_safe (stop_inv S chosen kg tr0) (stop_ret S chosen kg tr0)
        (each (timeout_slot P S chosen kg ep now) (rev (order_iter S)) (st2\<lparr>sw_deadline := None\<rparr>))" for now
      by (rule each_safe) (use wf st2 order_in_range timeout_slot_safe stop_inv_world in auto)
    show "flow_safe (stop_inv S chosen kg tr0) (stop_ret S chosen kg tr0)
       (if all_resolved S chosen (sw_resolved st2) then Return (err_result (sw_first_err st2)) st2
       else if sw_progress st2 then Go st2
       else flow_then (each (timeout_slot P S chosen kg ep (elapsed_ms P ep (sw_world st2)))
                         (rev (order_iter S)) (st2\<lparr>sw_deadline := None\<rparr>)) (\<lambda>st3.
              if sw_progress st3 then Go st3
              else case sw_deadline st3 of
                     None \<Rightarrow> Panic
                   | Some d \<Rightarrow>
                       (let w = sw_world st3 in
                        Go (st3\<lparr>sw_world := await P (w\<lparr>stop_evt := Wait # stop_evt w\<rparr>)\<rparr>))))"
      using st2 stop_inv_return[OF st2]
      by (auto intro!: flow_safe_then[OF pass3] simp: Let_def stop_inv_world split: option.splits)
  qed
qed

lemma stop_rounds_safe:
  assumes "wf_sup S"
  shows "stop_inv S chosen kg tr0 st \<Longrightarrow> stop_rounds fuel P S chosen kg ep st = (r, w') \<Longrightarrow>
    \<exists>tr. w_trace w' = tr @ tr0 \<and> stop_trace S chosen tr
      \<and> (case r of Ready res \<Rightarrow> stop_result S chosen kg tr res | _ \<Rightarrow> True)"
proof (induction fuel arbitrary: st)
  case 0
  then show ?case by (auto simp: stop_inv_def stop_rel_def)
next
  case (Suc fuel)
  from stop_round_safe[OF assms Suc.prems(1), of P ep] Suc show ?case
    by (cases "stop_round P S chosen kg ep st") (auto simp: stop_ret_def stop_inv_def stop_rel_def)
qed

lemma stop_start_inv: "stop_inv S chosen kg (w_trace w) (stop_start S w)"
  by (auto simp: stop_inv_def stop_rel_def stop_start_def)


section \<open>A concrete wave\<close>

text \<open>Slot 1 depends on slot 0; every task asked to stop acknowledges at the next await.\<close>

definition two_nodes :: supervisor where
  "two_nodes = \<lparr>s_nodes = [Some 10, Some 11], s_topo = Ordered [[], [0]] [0, 1],
     s_shape = SHAPE_ALL, s_pools = [], s_ref = 0, s_self = None\<rparr>"

definition acking_env :: "nat \<Rightarrow> world \<Rightarrow> world" where
  "acking_env k w = fold (\<lambda>n w. if h_shutdown (w_h w n) then settle_dropped n w else w) [10, 11]
     (w\<lparr>w_now := Suc (w_now w)\<rparr>)"

definition acking :: platform where
  "acking = (plain_platform (\<lambda>_. plain_cfg))\<lparr>p_env := acking_env\<rparr>"

lemma wf_two_nodes: "wf_sup two_nodes"
proof -
  have "topo_sort_const [[], [0]] = Some [0, 1]" by code_simp
  then show ?thesis
    by (simp add: wf_sup_def two_nodes_def s_size_def valid_deps_def)
qed

lemma two_nodes_run:
  "map_prod id (map (\<lambda>(n, s, t). (s, t)) \<circ> w_trace) (stop_wave 9 acking two_nodes [True, True] False world_new)
    = (Ready (Inr ()), [(Some 0, Stopped), (Some 0, StopRequested), (Some 1, Stopped), (Some 1, StopRequested)])"
  by code_simp


end
