(* ===== verification/Stop_Live.thy ===== *)
theory Stop_Live
  imports Stop_Wave
begin

text \<open>
  The stop wave of \<^verbatim>\<open>supervisor/src/lib.rs\<close> does not panic and returns: what the code relies
  on of its surroundings, a potential every iteration spends, and the bound on the iterations.
\<close>

section \<open>The wave returns\<close>

text \<open>
  What the code relies on of its surroundings. Budget arrays have a fixed length whoever writes
  them; the clock moves on during an await; milliseconds grow with ticks, and a timeout
  converted to ticks is not shorter than the milliseconds it was given for.
\<close>

definition budgets_keep_size :: "platform \<Rightarrow> bool" where
  "budgets_keep_size P \<longleftrightarrow>
     (\<forall>k w s g. gate_fits s (w_gates (p_env P k w) g) \<longleftrightarrow> gate_fits s (w_gates w g))
     \<and> (\<forall>a ev w s g. gate_fits s (w_gates (p_sink P a ev w) g) \<longleftrightarrow> gate_fits s (w_gates w g))"

definition clock_runs :: "platform \<Rightarrow> bool" where
  "clock_runs P \<longleftrightarrow> (\<forall>k w. w_now w < w_now (p_env P k w))
     \<and> (\<forall>a ev w. w_now (p_sink P a ev w) = w_now w)"

definition time_laws :: "time_api \<Rightarrow> bool" where
  "time_laws T \<longleftrightarrow> mono (as_millis T) \<and> (\<forall>t m. as_millis T t + m \<le> as_millis T (t + from_millis T m))"

definition occupied :: "supervisor \<Rightarrow> bool list \<Rightarrow> bool" where
  "occupied S chosen \<longleftrightarrow> length chosen = s_size S \<and> (\<forall>j < s_size S. chosen ! j \<longrightarrow> node_at S j \<noteq> None)"

definition all_claims_fit :: "platform \<Rightarrow> supervisor \<Rightarrow> world \<Rightarrow> bool" where
  "all_claims_fit P S w \<longleftrightarrow> (\<forall>j < s_size S. \<forall>n. node_at S j = Some n \<longrightarrow> claims_fit P n w)"

lemma all_claims_fit_cong:
  "(\<And>s g. gate_fits s (w_gates w1 g) \<longleftrightarrow> gate_fits s (w_gates w g)) \<Longrightarrow>
     all_claims_fit P S w1 = all_claims_fit P S w"
  by (simp add: all_claims_fit_def claims_fit_def)

lemma note_gate_fits:
  "budgets_keep_size P \<Longrightarrow> gate_fits s (w_gates (note_transition P n slot t w) g) = gate_fits s (w_gates w g)"
  by (auto simp: note_transition_def emit_lifecycle_def budgets_keep_size_def Let_def on_handle_def
      split: option.splits)

lemma note_now: "clock_runs P \<Longrightarrow> w_now (note_transition P n slot t w) = w_now w"
  by (auto simp: note_transition_def emit_lifecycle_def clock_runs_def Let_def on_handle_def
      split: option.splits)

lemma set_running_frame [simp]: "w_now (set_running P r n w) = w_now w"
  "w_gates (set_running P r n w) = w_gates w"
  by (simp_all add: set_running_def seed_write_mark_def Let_def)

section \<open>The potential\<close>

text \<open>
  Ticks until a due time in milliseconds, and per slot what a wave can still spend on it: its
  whole window and one more while it is not asked, what is left of the window after.
\<close>

definition ticks_left :: "time_api \<Rightarrow> nat \<Rightarrow> nat \<Rightarrow> nat" where
  "ticks_left T due t = (LEAST k. due \<le> as_millis T (t + k))"

definition ack_window :: "platform \<Rightarrow> nref \<Rightarrow> nat" where
  "ack_window P n = from_millis (p_time P) (as_millis (p_time P) (ack_timeout (p_cfg P n)))"

definition slot_pot :: "platform \<Rightarrow> supervisor \<Rightarrow> bool list \<Rightarrow> nat \<Rightarrow> stop_state \<Rightarrow> nat \<Rightarrow> nat" where
  "slot_pot P S chosen ep st j =
     (if chosen ! j \<and> \<not> sw_resolved st ! j
      then let n = the (node_at S j) in
           if sw_signaled st ! j = UNSIGNALED then ack_window P n + 2
           else Suc (ticks_left (p_time P)
                  (unat (sw_signaled st ! j) + as_millis (p_time P) (ack_timeout (p_cfg P n)))
                  (w_now (sw_world st) - ep))
      else 0)"

definition stop_pot :: "platform \<Rightarrow> supervisor \<Rightarrow> bool list \<Rightarrow> nat \<Rightarrow> stop_state \<Rightarrow> nat" where
  "stop_pot P S chosen ep st = (\<Sum>j < s_size S. slot_pot P S chosen ep st j)"

lemma ticks_left_reach: "time_laws T \<Longrightarrow> due \<le> as_millis T (t + ticks_left T due t)"
  unfolding ticks_left_def
  by (rule LeastI[of "\<lambda>k. due \<le> as_millis T (t + k)" "from_millis T due"])
    (metis add_leD2 time_laws_def)

lemma ticks_left_le: "due \<le> as_millis T (t + k) \<Longrightarrow> ticks_left T due t \<le> k"
  unfolding ticks_left_def by (rule Least_le)

lemma ticks_left_later:
  assumes "time_laws T"
  shows "ticks_left T due (t + d) \<le> ticks_left T due t - d"
proof (rule ticks_left_le)
  have "t + ticks_left T due t \<le> t + d + (ticks_left T due t - d)" by simp
  then show "due \<le> as_millis T (t + d + (ticks_left T due t - d))"
    using ticks_left_reach[OF assms, of due t] assms unfolding time_laws_def mono_def
    by (meson le_trans)
qed

lemma ticks_left_pos: "as_millis T t < due \<Longrightarrow> time_laws T \<Longrightarrow> 0 < ticks_left T due t"
  using ticks_left_reach[of T due t] by (cases "ticks_left T due t") auto

lemma stamp_le: "unat (stamp_ms P ep w) \<le> elapsed_ms P ep w"
proof -
  have "min (elapsed_ms P ep w) (unat UNSIGNALED - 1) < 2 ^ 32"
    by (simp add: UNSIGNALED_def unat_minus_one_word_aux)
  then show ?thesis by (simp add: stamp_ms_def unat_of_nat)
qed

lemma ticks_left_stamp:
  assumes "time_laws (p_time P)"
  shows "ticks_left (p_time P) (unat (stamp_ms P ep w) + as_millis (p_time P) (ack_timeout (p_cfg P n)))
           (w_now w - ep) \<le> ack_window P n"
proof (rule ticks_left_le)
  have "elapsed_ms P ep w + as_millis (p_time P) (ack_timeout (p_cfg P n))
      \<le> as_millis (p_time P) (w_now w - ep + ack_window P n)"
    using assms unfolding time_laws_def elapsed_ms_def ack_window_def by blast
  then show "unat (stamp_ms P ep w) + as_millis (p_time P) (ack_timeout (p_cfg P n))
      \<le> as_millis (p_time P) (w_now w - ep + ack_window P n)"
    using stamp_le[of P ep w] by linarith
qed

lemma sum_drop:
  fixes f g :: "nat \<Rightarrow> nat"
  assumes "\<And>i. i < n \<Longrightarrow> g i \<le> f i" "j < n" "g j < f j"
  shows "(\<Sum>i < n. g i) < (\<Sum>i < n. f i)"
  using assms by (intro sum_strict_mono_ex1) auto


definition timely :: "platform \<Rightarrow> bool" where
  "timely P \<longleftrightarrow> clock_runs P \<and> time_laws (p_time P)"

definition live_inv :: "platform \<Rightarrow> supervisor \<Rightarrow> bool list \<Rightarrow> bool \<Rightarrow> entry_trace \<Rightarrow> nat \<Rightarrow> stop_state \<Rightarrow> bool" where
  "live_inv P S chosen kg tr0 ep st \<longleftrightarrow> stop_inv S chosen kg tr0 st
     \<and> all_claims_fit P S (sw_world st) \<and> (timely P \<longrightarrow> ep \<le> w_now (sw_world st))"

text \<open>How a pass may move the wave: nothing unresolved, nothing unsignalled, no potential gained.\<close>

definition moves :: "platform \<Rightarrow> supervisor \<Rightarrow> bool list \<Rightarrow> nat \<Rightarrow> stop_state \<Rightarrow> stop_state \<Rightarrow> bool" where
  "moves P S chosen ep st st' \<longleftrightarrow>
     (timely P \<longrightarrow> w_now (sw_world st') = w_now (sw_world st)
        \<and> stop_pot P S chosen ep st' \<le> stop_pot P S chosen ep st
        \<and> (sw_progress st' \<and> \<not> sw_progress st \<longrightarrow> stop_pot P S chosen ep st' < stop_pot P S chosen ep st))
     \<and> (\<forall>i < s_size S. sw_signaled st ! i \<noteq> UNSIGNALED \<longrightarrow> sw_signaled st' ! i \<noteq> UNSIGNALED)
     \<and> (sw_progress st \<longrightarrow> sw_progress st')"

lemma moves_refl [simp]: "moves P S chosen ep st st"
  by (simp add: moves_def)

lemma moves_trans: "moves P S chosen ep a b \<Longrightarrow> moves P S chosen ep b c \<Longrightarrow> moves P S chosen ep a c"
  unfolding moves_def by (cases "sw_progress a"; cases "sw_progress b"; auto)

lemma stop_pot_le:
  assumes "\<And>j. j < s_size S \<Longrightarrow> slot_pot P S chosen ep st' j \<le> slot_pot P S chosen ep st j"
  shows "stop_pot P S chosen ep st' \<le> stop_pot P S chosen ep st"
  unfolding stop_pot_def by (rule sum_mono) (use assms in auto)

lemma stop_inv_len:
  "stop_inv S chosen kg tr0 st \<Longrightarrow> length (sw_resolved st) = s_size S \<and> length (sw_signaled st) = s_size S"
  by (auto simp: stop_inv_def stop_rel_def)

lemma stop_pot_update [simp]:
  "stop_pot P S chosen ep (st\<lparr>sw_deadline := d\<rparr>) = stop_pot P S chosen ep st"
  "stop_pot P S chosen ep (st\<lparr>sw_progress := b\<rparr>) = stop_pot P S chosen ep st"
  by (simp_all add: stop_pot_def slot_pot_def Let_def cong: if_cong)

lemma flow_ok_safe:
  "flow_safe I R m \<Longrightarrow> flow_ok J Q m \<Longrightarrow> flow_ok (\<lambda>s. I s \<and> J s) (\<lambda>r s. R r s \<and> Q r s) m"
  by (cases m) simp_all

lemma live_on_handle: "all_claims_fit P S (on_handle n f w) = all_claims_fit P S w"
  by (simp add: all_claims_fit_def claims_fit_def)

lemma live_note: "budgets_keep_size P \<Longrightarrow> all_claims_fit P S (note_transition P n slot t w) = all_claims_fit P S w"
  by (rule all_claims_fit_cong) (simp add: note_gate_fits)

lemma signal_slot_live:
  assumes "j < s_size S" "live_inv P S chosen kg tr0 ep st" "budgets_keep_size P" "occupied S chosen"
  shows "flow_ok (\<lambda>st'. live_inv P S chosen kg tr0 ep st' \<and> moves P S chosen ep st st'
      \<and> sw_resolved st' = sw_resolved st \<and> sw_progress st' = sw_progress st
      \<and> (chosen ! j \<and> \<not> sw_resolved st ! j \<and> \<not> held S chosen (sw_resolved st) j
           \<longrightarrow> sw_signaled st' ! j \<noteq> UNSIGNALED)) (\<lambda>r s. False)
    (signal_slot P S chosen ep j st)"
proof (cases "chosen ! j \<and> \<not> sw_resolved st ! j \<and> sw_signaled st ! j = UNSIGNALED
    \<and> \<not> held S chosen (sw_resolved st) j")
  case False
  then show ?thesis using assms(2) by (auto simp: signal_slot_def)
next
  case True
  then obtain n where n: "node_at S j = Some n" using assms(1,4) by (auto simp: occupied_def)
  define w1 where "w1 = note_transition P n (Some j) StopRequested (on_handle n signal_shutdown (sw_world st))"
  define st' where "st' = st\<lparr>sw_world := w1, sw_signaled := (sw_signaled st)[j := stamp_ms P ep w1]\<rparr>"
  have res: "signal_slot P S chosen ep j st = Go st'"
    using True n by (simp add: signal_slot_def st'_def w1_def Let_def)
  have inv: "stop_inv S chosen kg tr0 st'"
    using signal_slot_safe[OF assms(1), of chosen kg tr0 st "\<lambda>r s. True" P ep] assms(2)
    by (simp add: res live_inv_def)
  have len: "length (sw_signaled st) = s_size S" using assms(2) stop_inv_len by (auto simp: live_inv_def)
  have fit: "all_claims_fit P S w1"
    using assms(2,3) by (simp add: w1_def live_note live_on_handle live_inv_def)
  have now: "w_now w1 = w_now (sw_world st)" if "timely P"
    using that by (simp add: w1_def note_now timely_def)
  have pot: "stop_pot P S chosen ep st' \<le> stop_pot P S chosen ep st" if T: "timely P"
  proof (rule stop_pot_le)
    fix i assume i: "i < s_size S"
    show "slot_pot P S chosen ep st' i \<le> slot_pot P S chosen ep st i"
    proof (cases "i = j")
      case True
      then show ?thesis
        using \<open>chosen ! j \<and> _\<close> i len n ticks_left_stamp[of P ep w1 n] T
        by (simp add: slot_pot_def st'_def timely_def Let_def)
    next
      case False
      then show ?thesis using T by (simp add: slot_pot_def st'_def now Let_def)
    qed
  qed
  have "moves P S chosen ep st st'"
    unfolding moves_def using pot now assms(1) len by (auto simp: st'_def nth_list_update)
  moreover have "live_inv P S chosen kg tr0 ep st'"
    using inv fit now assms(2) by (auto simp: live_inv_def st'_def)
  ultimately show ?thesis using assms(1) len by (simp add: res st'_def)
qed

lemma slot_pot_resolve:
  assumes "j < s_size S" "length (sw_resolved st) = s_size S" "chosen ! j" "\<not> sw_resolved st ! j"
    and "sw_resolved st' = (sw_resolved st)[j := True]" "sw_signaled st' = sw_signaled st"
    and "w_now (sw_world st') = w_now (sw_world st)"
  shows "stop_pot P S chosen ep st' < stop_pot P S chosen ep st"
  unfolding stop_pot_def
proof (rule sum_drop)
  show "slot_pot P S chosen ep st' i \<le> slot_pot P S chosen ep st i" if "i < s_size S" for i
    using assms that by (auto simp: slot_pot_def nth_list_update Let_def)
  show "slot_pot P S chosen ep st' j < slot_pot P S chosen ep st j"
    using assms by (simp add: slot_pot_def Let_def)
qed (rule assms(1))

lemma resolve_slot_live:
  assumes "j < s_size S" "live_inv P S chosen kg tr0 ep st" "budgets_keep_size P" "occupied S chosen"
  shows "flow_ok (\<lambda>st'. live_inv P S chosen kg tr0 ep st' \<and> moves P S chosen ep st st'
      \<and> (\<not> sw_progress st' \<longrightarrow> sw_resolved st' = sw_resolved st)) (\<lambda>r s. False)
    (resolve_slot P S chosen j st)"
proof (cases "chosen ! j \<and> \<not> sw_resolved st ! j \<and> has_dropped (w_h (sw_world st) (the (node_at S j)))")
  case False
  then show ?thesis using assms by (auto simp: resolve_slot_def occupied_def)
next
  case True
  then obtain n where n: "node_at S j = Some n" using assms(1,4) by (auto simp: occupied_def)
  define w1 where "w1 = set_running P False n (sw_world st)"
  define w2 where "w2 = note_transition P n (Some j) (acked (w_h w1 n)) w1"
  define st' where "st' = st\<lparr>sw_world := w2, sw_resolved := (sw_resolved st)[j := True], sw_progress := True\<rparr>"
  have res: "resolve_slot P S chosen j st = Go st'"
    using True n by (simp add: resolve_slot_def st'_def w1_def w2_def Let_def)
  have inv: "stop_inv S chosen kg tr0 st'"
    using resolve_slot_safe[OF assms(1), of chosen kg tr0 st "\<lambda>r s. True" P] assms(2)
    by (simp add: res live_inv_def)
  have fit: "all_claims_fit P S w2"
    using assms(2,3) by (simp add: w2_def live_note live_inv_def) (simp add: w1_def all_claims_fit_def claims_fit_def)
  have now: "w_now w2 = w_now (sw_world st)" if "timely P"
    using that by (simp add: w1_def w2_def note_now timely_def)
  have "stop_pot P S chosen ep st' < stop_pot P S chosen ep st" if "timely P"
    by (rule slot_pot_resolve[OF assms(1)]) (use True stop_inv_len assms(2) now[OF that] in \<open>auto simp: st'_def live_inv_def\<close>)
  then have "moves P S chosen ep st st'"
    unfolding moves_def using now by (auto simp: st'_def)
  moreover have "live_inv P S chosen kg tr0 ep st'"
    using inv fit now assms(2) by (auto simp: live_inv_def st'_def)
  ultimately show ?thesis by (simp add: res st'_def)
qed


definition due_of :: "platform \<Rightarrow> supervisor \<Rightarrow> stop_state \<Rightarrow> nat \<Rightarrow> nat" where
  "due_of P S st j =
     unat (sw_signaled st ! j) + as_millis (p_time P) (ack_timeout (p_cfg P (the (node_at S j))))"

lemma timeout_slot_live:
  assumes "j < s_size S" "live_inv P S chosen kg tr0 ep st" "budgets_keep_size P" "occupied S chosen"
  shows "flow_ok (\<lambda>st'. live_inv P S chosen kg tr0 ep st' \<and> moves P S chosen ep st st'
      \<and> sw_signaled st' = sw_signaled st \<and> (sw_deadline st \<noteq> None \<longrightarrow> sw_deadline st' \<noteq> None)
      \<and> (\<not> sw_progress st' \<longrightarrow> sw_resolved st' = sw_resolved st
           \<and> (chosen ! j \<and> \<not> sw_resolved st ! j \<and> sw_signaled st ! j \<noteq> UNSIGNALED
                \<longrightarrow> sw_deadline st' \<noteq> None \<and> now_ms < due_of P S st j))) (\<lambda>r s. True)
    (timeout_slot P S chosen kg ep now_ms j st)"
proof (cases "chosen ! j \<and> \<not> sw_resolved st ! j \<and> sw_signaled st ! j \<noteq> UNSIGNALED")
  case False
  then show ?thesis using assms(2) by (auto simp: timeout_slot_def)
next
  case True
  then obtain n where n: "node_at S j = Some n" using assms(1,4) by (auto simp: occupied_def)
  have safe: "flow_safe (stop_inv S chosen kg tr0) (stop_ret S chosen kg tr0) (timeout_slot P S chosen kg ep now_ms j st)"
    using timeout_slot_safe[OF assms(1)] assms(2) by (auto simp: live_inv_def)
  show ?thesis
  proof (cases "now_ms < due_of P S st j")
    case early: True
    then show ?thesis
      using True n assms(2) by (auto simp: timeout_slot_def due_of_def live_inv_def Let_def stop_inv_world moves_def)
  next
    case late: False
    have "claims_fit P n (sw_world st)" using assms(1,2) n by (auto simp: live_inv_def all_claims_fit_def)
    from release_claims_fits[OF this] obtain w0 where w0: "release_claims P n (sw_world st) = Some w0"
      "\<And>s b. gate_fits s (w_gates w0 b) \<longleftrightarrow> gate_fits s (w_gates (sw_world st) b)" by blast
    have "w_now w0 = w_now (sw_world st)"
      using w0(1) release_claim_list_h unfolding release_claims_def by blast
    then obtain w1 where w1:
      "(if s_has S SHAPE_CLAIMS then release_claims P n (sw_world st) else Some (sw_world st)) = Some w1"
      "w_now w1 = w_now (sw_world st)" "\<And>s b. gate_fits s (w_gates w1 b) \<longleftrightarrow> gate_fits s (w_gates (sw_world st) b)"
      using w0 by (cases "s_has S SHAPE_CLAIMS") auto
    define w2 where "w2 = note_transition P n (Some j) (Faulted ShutdownTimeout) w1"
    define st' where "st' = st\<lparr>sw_world := w2,
       sw_first_err := (case sw_first_err st of None \<Rightarrow> Some (NodeFault n ShutdownTimeout) | Some e \<Rightarrow> Some e),
       sw_resolved := (sw_resolved st)[j := True], sw_progress := True\<rparr>"
    have res: "timeout_slot P S chosen kg ep now_ms j st =
        (if \<not> kg then Return (Inl (NodeFault n ShutdownTimeout)) (st\<lparr>sw_world := w2\<rparr>) else Go st')"
      using True n late w1(1) by (simp add: timeout_slot_def due_of_def st'_def w2_def Let_def)
    show ?thesis
    proof (cases kg)
      case False
      then show ?thesis unfolding res by simp
    next
      case kg: True
      have inv: "stop_inv S chosen kg tr0 st'" using safe unfolding res using kg by simp
      have fit: "all_claims_fit P S w2"
        using assms(2,3) all_claims_fit_cong[OF w1(3), of P S] by (simp add: w2_def live_note live_inv_def)
      have now: "w_now w2 = w_now (sw_world st)" if "timely P"
        using that w1(2) by (simp add: w2_def note_now timely_def)
      have "stop_pot P S chosen ep st' < stop_pot P S chosen ep st" if "timely P"
        by (rule slot_pot_resolve[OF assms(1)])
          (use True stop_inv_len assms(2) now[OF that] in \<open>auto simp: st'_def live_inv_def\<close>)
      then have "moves P S chosen ep st st'" unfolding moves_def using now by (auto simp: st'_def)
      moreover have "live_inv P S chosen kg tr0 ep st'"
        using inv fit now assms(2) by (auto simp: live_inv_def st'_def)
      ultimately show ?thesis unfolding res using kg by (simp add: st'_def)
    qed
  qed
qed

lemma free_slot_exists:
  assumes "wf_sup S" "\<not> all_resolved S chosen resolved"
  obtains j where "j < s_size S" "chosen ! j" "\<not> resolved ! j" "\<not> held S chosen resolved j"
proof -
  let ?o = "order_iter S"
  let ?open = "\<lambda>k. k < s_size S \<and> chosen ! (?o ! k) \<and> \<not> resolved ! (?o ! k)"
  have len: "length ?o = s_size S" and st: "set ?o = {..<s_size S}" and d: "distinct ?o"
    using wf_sup_order[OF assms(1)] by auto
  from assms(2) obtain i where i: "i < s_size S" "chosen ! i" "\<not> resolved ! i"
    by (auto simp: all_resolved_def list_all_iff)
  then obtain k0 where "k0 < s_size S" "?o ! k0 = i" using st len by (metis in_set_conv_nth lessThan_iff)
  with i have "?open k0" by simp
  define k where "k = Max {k. ?open k}"
  have fin: "finite {k. ?open k}" by simp
  have k: "?open k" "\<And>k'. ?open k' \<Longrightarrow> k' \<le> k"
    unfolding k_def using Max_in[OF fin] Max_ge[OF fin] \<open>?open k0\<close> by blast+
  have "\<not> held S chosen resolved (?o ! k)"
  proof
    assume "held S chosen resolved (?o ! k)"
    then obtain m where m: "m < s_size S" "chosen ! m" "\<not> resolved ! m" "?o ! k \<in> set (deps_row S m)"
      by (auto simp: held_def list_ex_iff)
    then obtain k' where k': "k' < s_size S" "?o ! k' = m" using st len by (metis in_set_conv_nth lessThan_iff)
    then have "?o ! k \<in> set (take k' ?o)" using wf_sup_order(4)[OF assms(1) k'(1)] m(4) by auto
    then obtain i where "i < k'" "?o ! i = ?o ! k" using k'(1) len by (auto simp: in_set_conv_nth)
    then have "k < k'" using d k(1) k'(1) len by (metis less_trans nth_eq_iff_index_eq)
    moreover have "?open k'" using k' m by simp
    ultimately show False using k(2) by fastforce
  qed
  moreover have "?o ! k < s_size S" using k(1) st len by (metis lessThan_iff nth_mem)
  ultimately show thesis using k(1) that by blast
qed

lemma await_pot:
  assumes T: "timely P" and ep: "ep \<le> w_now (sw_world st)"
    and j: "j < s_size S" "chosen ! j" "\<not> sw_resolved st ! j" "sw_signaled st ! j \<noteq> UNSIGNALED"
    and early: "elapsed_ms P ep (sw_world st) < due_of P S st j"
    and w': "w_now (sw_world st) < w_now w'"
  shows "stop_pot P S chosen ep (st\<lparr>sw_world := w'\<rparr>) < stop_pot P S chosen ep st"
  unfolding stop_pot_def
proof (rule sum_drop)
  have tl: "time_laws (p_time P)" using T by (simp add: timely_def)
  obtain d where d: "w_now w' - ep = (w_now (sw_world st) - ep) + Suc d"
    using w' ep by (metis Nat.diff_add_assoc2 add_Suc_right less_imp_Suc_add)
  have later: "ticks_left (p_time P) due (w_now w' - ep) \<le> ticks_left (p_time P) due (w_now (sw_world st) - ep) - Suc d" for due
    unfolding d by (rule ticks_left_later[OF tl])
  show "slot_pot P S chosen ep (st\<lparr>sw_world := w'\<rparr>) i \<le> slot_pot P S chosen ep st i" if "i < s_size S" for i
    using later[THEN order_trans] by (auto simp: slot_pot_def Let_def)
  have "0 < ticks_left (p_time P) (due_of P S st j) (w_now (sw_world st) - ep)"
    using ticks_left_pos[OF _ tl] early by (simp add: elapsed_ms_def)
  with later[of "due_of P S st j"]
  show "slot_pot P S chosen ep (st\<lparr>sw_world := w'\<rparr>) j < slot_pot P S chosen ep st j"
    using j by (simp add: slot_pot_def Let_def due_of_def)
qed (rule j(1))


lemma pass1_live:
  assumes "wf_sup S" "occupied S chosen" "budgets_keep_size P" "live_inv P S chosen kg tr0 ep st"
  shows "flow_ok (\<lambda>st'. live_inv P S chosen kg tr0 ep st' \<and> moves P S chosen ep st st'
      \<and> sw_resolved st' = sw_resolved st
      \<and> (\<forall>j < s_size S. chosen ! j \<and> \<not> sw_resolved st ! j \<and> \<not> held S chosen (sw_resolved st) j
           \<longrightarrow> sw_signaled st' ! j \<noteq> UNSIGNALED)) (\<lambda>r s. True)
    (each (signal_slot P S chosen ep) (rev (order_iter S)) st)"
proof -
  let ?I = "\<lambda>ys st'. live_inv P S chosen kg tr0 ep st' \<and> moves P S chosen ep st st'
      \<and> sw_resolved st' = sw_resolved st
      \<and> (\<forall>j \<in> set ys. chosen ! j \<and> \<not> sw_resolved st ! j \<and> \<not> held S chosen (sw_resolved st) j
           \<longrightarrow> sw_signaled st' ! j \<noteq> UNSIGNALED)"
  have "flow_ok (?I (rev (order_iter S))) (\<lambda>r s. True) (each (signal_slot P S chosen ep) (rev (order_iter S)) st)"
  proof (rule each_ok_prefix)
    fix ys x zs s assume split: "rev (order_iter S) = ys @ x # zs" and I: "?I ys s"
    have "set (ys @ x # zs) = {..<s_size S}"
      unfolding split[symmetric] using wf_sup_order(1)[OF assms(1)] by simp
    then have x: "x < s_size S" and ys: "\<forall>y \<in> set ys. y < s_size S" by auto
    from I have li: "live_inv P S chosen kg tr0 ep s" by simp
    show "flow_ok (?I (ys @ [x])) (\<lambda>r s. True) (signal_slot P S chosen ep x s)"
      using signal_slot_live[OF x li assms(3,2)] I ys moves_trans[of P S chosen ep st s]
      by (cases "signal_slot P S chosen ep x s") (auto simp: moves_def)
  qed (use assms(4) in auto)
  then show ?thesis
    using wf_sup_order(1)[OF assms(1)]
    by (cases "each (signal_slot P S chosen ep) (rev (order_iter S)) st") auto
qed

lemma pass2_live:
  assumes "wf_sup S" "occupied S chosen" "budgets_keep_size P" "live_inv P S chosen kg tr0 ep st"
  shows "flow_ok (\<lambda>st'. live_inv P S chosen kg tr0 ep st' \<and> moves P S chosen ep st st'
      \<and> (\<not> sw_progress st' \<longrightarrow> sw_resolved st' = sw_resolved st)) (\<lambda>r s. True)
    (each (resolve_slot P S chosen) (rev (order_iter S)) st)"
proof (rule each_ok)
  fix x s assume x: "x \<in> set (rev (order_iter S))"
    and I: "live_inv P S chosen kg tr0 ep s \<and> moves P S chosen ep st s
      \<and> (\<not> sw_progress s \<longrightarrow> sw_resolved s = sw_resolved st)"
  then have x: "x < s_size S" and li: "live_inv P S chosen kg tr0 ep s"
    using order_in_range[OF assms(1)] by auto
  show "flow_ok (\<lambda>st'. live_inv P S chosen kg tr0 ep st' \<and> moves P S chosen ep st st'
      \<and> (\<not> sw_progress st' \<longrightarrow> sw_resolved st' = sw_resolved st)) (\<lambda>r s. True) (resolve_slot P S chosen x s)"
    using resolve_slot_live[OF x li assms(3,2)] I moves_trans[of P S chosen ep st s]
    by (cases "resolve_slot P S chosen x s") (auto simp: moves_def)
qed (use assms(4) in auto)

lemma pass3_live:
  assumes "wf_sup S" "occupied S chosen" "budgets_keep_size P" "live_inv P S chosen kg tr0 ep st"
  shows "flow_ok (\<lambda>st'. live_inv P S chosen kg tr0 ep st' \<and> moves P S chosen ep st st'
      \<and> (\<not> sw_progress st' \<longrightarrow> sw_resolved st' = sw_resolved st \<and> sw_signaled st' = sw_signaled st
          \<and> (\<forall>j < s_size S. chosen ! j \<and> \<not> sw_resolved st ! j \<and> sw_signaled st ! j \<noteq> UNSIGNALED
               \<longrightarrow> sw_deadline st' \<noteq> None \<and> now_ms < due_of P S st j))) (\<lambda>r s. True)
    (each (timeout_slot P S chosen kg ep now_ms) (rev (order_iter S)) st)"
proof -
  let ?I = "\<lambda>ys st'. live_inv P S chosen kg tr0 ep st' \<and> moves P S chosen ep st st'
      \<and> (\<not> sw_progress st' \<longrightarrow> sw_resolved st' = sw_resolved st \<and> sw_signaled st' = sw_signaled st
          \<and> (\<forall>j \<in> set ys. chosen ! j \<and> \<not> sw_resolved st ! j \<and> sw_signaled st ! j \<noteq> UNSIGNALED
               \<longrightarrow> sw_deadline st' \<noteq> None \<and> now_ms < due_of P S st j))"
  have "flow_ok (?I (rev (order_iter S))) (\<lambda>r s. True)
      (each (timeout_slot P S chosen kg ep now_ms) (rev (order_iter S)) st)"
  proof (rule each_ok_prefix)
    fix ys x zs s assume split: "rev (order_iter S) = ys @ x # zs" and I: "?I ys s"
    have "set (ys @ x # zs) = {..<s_size S}"
      unfolding split[symmetric] using wf_sup_order(1)[OF assms(1)] by simp
    then have x: "x < s_size S" by auto
    from I have li: "live_inv P S chosen kg tr0 ep s" by simp
    show "flow_ok (?I (ys @ [x])) (\<lambda>r s. True) (timeout_slot P S chosen kg ep now_ms x s)"
      using timeout_slot_live[OF x li assms(3,2), of now_ms] I moves_trans[of P S chosen ep st s]
      by (cases "timeout_slot P S chosen kg ep now_ms x s") (auto simp: moves_def due_of_def)
  qed (use assms(4) in auto)
  then show ?thesis
    using wf_sup_order(1)[OF assms(1)]
    by (cases "each (timeout_slot P S chosen kg ep now_ms) (rev (order_iter S)) st") auto
qed


lemma await_live:
  assumes "budgets_keep_size P" "live_inv P S chosen kg tr0 ep st"
  defines "w' \<equiv> await P ((sw_world st)\<lparr>stop_evt := Wait # stop_evt (sw_world st)\<rparr>)"
  shows "live_inv P S chosen kg tr0 ep (st\<lparr>sw_world := w'\<rparr>)"
    and "timely P \<Longrightarrow> w_now (sw_world st) < w_now w'"
proof -
  show later: "w_now (sw_world st) < w_now w'" if "timely P"
  proof -
    let ?w = "(sw_world st)\<lparr>stop_evt := Wait # stop_evt (sw_world st)\<rparr>"
    from that have "w_now ?w < w_now (p_env P (w_awaits ?w) ?w)"
      unfolding timely_def clock_runs_def by blast
    then show ?thesis by (simp add: w'_def await_def)
  qed
  have "all_claims_fit P S w' = all_claims_fit P S (sw_world st)"
    by (rule all_claims_fit_cong) (use assms(1) in \<open>simp add: w'_def await_def budgets_keep_size_def\<close>)
  moreover have "stop_inv S chosen kg tr0 (st\<lparr>sw_world := w'\<rparr>)"
    using assms(2) stop_inv_world(1)[of w' st] by (simp add: live_inv_def w'_def)
  ultimately show "live_inv P S chosen kg tr0 ep (st\<lparr>sw_world := w'\<rparr>)"
    using assms(2) later by (auto simp: live_inv_def)
qed

lemma stop_round_live:
  assumes wf: "wf_sup S" and occ: "occupied S chosen" and sz: "budgets_keep_size P"
    and li: "live_inv P S chosen kg tr0 ep st"
  shows "flow_ok (\<lambda>st'. live_inv P S chosen kg tr0 ep st'
      \<and> (timely P \<longrightarrow> stop_pot P S chosen ep st' < stop_pot P S chosen ep st)) (\<lambda>r s. True)
    (stop_round P S chosen kg ep st)"
proof -
  note p1 = pass1_live[OF wf occ sz li]
  show ?thesis
  proof (cases "each (signal_slot P S chosen ep) (rev (order_iter S)) st")
    case (Go st1)
    let ?st1 = "st1\<lparr>sw_progress := False\<rparr>"
    from p1 Go have m1: "live_inv P S chosen kg tr0 ep st1" "moves P S chosen ep st st1"
      "\<forall>j < s_size S. chosen ! j \<and> \<not> sw_resolved st1 ! j \<and> \<not> held S chosen (sw_resolved st1) j
           \<longrightarrow> sw_signaled st1 ! j \<noteq> UNSIGNALED" by auto
    have li1: "live_inv P S chosen kg tr0 ep ?st1" using m1(1) by (simp add: live_inv_def stop_inv_world)
    note p2 = pass2_live[OF wf occ sz li1]
    show ?thesis
    proof (cases "each (resolve_slot P S chosen) (rev (order_iter S)) ?st1")
      case Go2: (Go st2)
      from p2 Go2 have m2: "live_inv P S chosen kg tr0 ep st2" "moves P S chosen ep ?st1 st2"
        "\<not> sw_progress st2 \<longrightarrow> sw_resolved st2 = sw_resolved st1" by auto
      have pot2: "timely P \<Longrightarrow> stop_pot P S chosen ep st2 \<le> stop_pot P S chosen ep st"
        "timely P \<Longrightarrow> sw_progress st2 \<Longrightarrow> stop_pot P S chosen ep st2 < stop_pot P S chosen ep st"
        using m1(2) m2(2) by (auto simp: moves_def)
      show ?thesis
      proof (cases "all_resolved S chosen (sw_resolved st2) \<or> sw_progress st2")
        case True
        then show ?thesis using m2(1) pot2(2) by (auto simp: stop_round_def Go Go2)
      next
        case open2: False
        let ?st2 = "st2\<lparr>sw_deadline := None\<rparr>" and ?now = "elapsed_ms P ep (sw_world st2)"
        have li2: "live_inv P S chosen kg tr0 ep ?st2" using m2(1) by (simp add: live_inv_def stop_inv_world)
        note p3 = pass3_live[OF wf occ sz li2, of ?now]
        obtain j where j: "j < s_size S" "chosen ! j" "\<not> sw_resolved st2 ! j"
          "\<not> held S chosen (sw_resolved st2) j"
          using free_slot_exists[OF wf] open2 by blast
        then have sig: "sw_signaled st2 ! j \<noteq> UNSIGNALED"
          using m1(3) m2(2,3) open2 by (simp add: moves_def)
        show ?thesis
        proof (cases "each (timeout_slot P S chosen kg ep ?now) (rev (order_iter S)) ?st2")
          case Go3: (Go st3)
          from p3 Go3 have m3: "live_inv P S chosen kg tr0 ep st3" "moves P S chosen ep ?st2 st3"
            "\<not> sw_progress st3 \<Longrightarrow> sw_resolved st3 = sw_resolved st2 \<and> sw_signaled st3 = sw_signaled st2
               \<and> sw_deadline st3 \<noteq> None \<and> ?now < due_of P S st2 j"
            using j sig by (auto simp: due_of_def)
          have pot3: "timely P \<Longrightarrow> stop_pot P S chosen ep st3 \<le> stop_pot P S chosen ep st"
            "timely P \<Longrightarrow> sw_progress st3 \<Longrightarrow> stop_pot P S chosen ep st3 < stop_pot P S chosen ep st"
            "timely P \<Longrightarrow> w_now (sw_world st3) = w_now (sw_world st2)"
            using pot2 m3(2) open2 by (auto simp: moves_def)
          show ?thesis
          proof (cases "sw_progress st3")
            case True
            then show ?thesis using open2 m3(1) pot3(2) by (simp add: stop_round_def Go Go2 Go3)
          next
            case False
            then obtain d where d: "sw_deadline st3 = Some d" and s3: "sw_resolved st3 = sw_resolved st2"
              "sw_signaled st3 = sw_signaled st2" "?now < due_of P S st2 j" using m3(3) by auto
            define w' where "w' = await P ((sw_world st3)\<lparr>stop_evt := Wait # stop_evt (sw_world st3)\<rparr>)"
            have res: "stop_round P S chosen kg ep st = Go (st3\<lparr>sw_world := w'\<rparr>)"
              using open2 False d by (simp add: stop_round_def Go Go2 Go3 w'_def Let_def)
            note aw = await_live[OF sz m3(1), folded w'_def]
            have "stop_pot P S chosen ep (st3\<lparr>sw_world := w'\<rparr>) < stop_pot P S chosen ep st3" if T: "timely P"
            proof (rule await_pot[OF T])
              show "elapsed_ms P ep (sw_world st3) < due_of P S st3 j"
                using s3 pot3(3)[OF T] by (simp add: elapsed_ms_def due_of_def)
              show "ep \<le> w_now (sw_world st3)" using m3(1) T by (simp add: live_inv_def)
            qed (use j sig s3 aw(2)[OF T] in auto)
            with aw(1) pot3(1) show ?thesis by (auto simp: res intro: less_le_trans)
          qed
        qed (use p3 open2 in \<open>auto simp: stop_round_def Go Go2\<close>)
      qed
    qed (use p2 in \<open>auto simp: stop_round_def Go\<close>)
  qed (use p1 in \<open>auto simp: stop_round_def\<close>)
qed


lemma stop_rounds_live:
  assumes "wf_sup S" "occupied S chosen" "budgets_keep_size P"
  shows "live_inv P S chosen kg tr0 ep st \<Longrightarrow>
    fst (stop_rounds fuel P S chosen kg ep st) \<noteq> Panicked
    \<and> (timely P \<and> stop_pot P S chosen ep st < fuel
         \<longrightarrow> (\<exists>res w'. stop_rounds fuel P S chosen kg ep st = (Ready res, w')))"
proof (induction fuel arbitrary: st)
  case (Suc fuel)
  show ?case
  proof (cases "stop_round P S chosen kg ep st")
    case (Go st')
    then show ?thesis
      using stop_round_live[OF assms Suc.prems] Suc.IH[of st'] by auto
  qed (use stop_round_live[OF assms Suc.prems] in auto)
qed simp

lemma stop_start_live:
  "all_claims_fit P S w \<Longrightarrow> live_inv P S chosen kg (w_trace w) (w_now w) (stop_start S w)"
  using stop_start_inv[of S chosen kg w] by (simp add: live_inv_def) (simp add: stop_start_def)

text \<open>The rounds a wave may need: every chosen slot's whole window, and two more.\<close>

definition stop_budget :: "platform \<Rightarrow> supervisor \<Rightarrow> bool list \<Rightarrow> nat" where
  "stop_budget P S chosen =
     (\<Sum>j < s_size S. if chosen ! j then ack_window P (the (node_at S j)) + 2 else 0)"

lemma stop_start_pot: "stop_pot P S chosen ep (stop_start S w) = stop_budget P S chosen"
  unfolding stop_pot_def stop_budget_def
  by (rule sum.cong) (simp_all add: slot_pot_def stop_start_def)

text \<open>
  A stop wave over occupied slots never panics, whatever the tasks and the clock do: neither
  of its two \<open>expect\<close>s can fail (the topology being acyclic, an unresolved wave always has a
  signalled slot to wait for), and a claim released on a wedged node's behalf is in range.
\<close>

theorem stop_wave_never_panics:
  assumes "wf_sup S" "occupied S chosen" "budgets_keep_size P" "all_claims_fit P S w"
  shows "fst (stop_wave fuel P S chosen keep_going w) \<noteq> Panicked"
  unfolding stop_wave_def
  using stop_rounds_live[OF assms(1-3) stop_start_live[OF assms(4)]] by blast

text \<open>
  C4. A stop wave returns. With a clock that moves during every await, its loop ends within
  the sum over the chosen slots of their acknowledgement windows and two rounds each, even when
  no task ever acknowledges: no wedge can hang the supervisor.
\<close>

theorem stop_wave_returns:
  assumes "wf_sup S" "occupied S chosen" "budgets_keep_size P" "all_claims_fit P S w"
    and "timely P" "stop_budget P S chosen < fuel"
  shows "\<exists>res w'. stop_wave fuel P S chosen keep_going w = (Ready res, w')"
  unfolding stop_wave_def
  using stop_rounds_live[OF assms(1-3) stop_start_live[OF assms(4)]] assms(5,6)
  by (simp add: stop_start_pot)

section \<open>The same two nodes\<close>

lemma acking_keeps_size: "budgets_keep_size acking"
proof -
  have "w_gates (acking_env k w) = w_gates w" for k w
    by (simp add: acking_env_def)
  then show ?thesis by (simp add: budgets_keep_size_def acking_def plain_platform_def)
qed

lemma acking_timely: "timely acking"
proof -
  have "w_now (acking_env k w) = Suc (w_now w)" for k w
    by (simp add: acking_env_def)
  then show ?thesis
    by (simp add: timely_def clock_runs_def time_laws_def acking_def plain_platform_def plain_time_def mono_def)
qed

lemma two_nodes_facts:
  "occupied two_nodes [True, b]" "all_claims_fit acking two_nodes w"
  by (auto simp: occupied_def two_nodes_def s_size_def node_at_def all_claims_fit_def claims_fit_def
      acking_def plain_platform_def plain_cfg_def cfg_new_def nth_Cons split: nat.splits)

theorem stop_wave_never_panics_witness:
  "fst (stop_wave 2 acking two_nodes [True, True] False world_new) \<noteq> Panicked"
  by (rule stop_wave_never_panics[OF wf_two_nodes two_nodes_facts(1) acking_keeps_size two_nodes_facts(2)])

theorem stop_wave_returns_witness:
  "\<exists>res w'. stop_wave 5000 acking two_nodes [True, True] False world_new = (Ready res, w')"
proof (rule stop_wave_returns[OF wf_two_nodes two_nodes_facts(1) acking_keeps_size two_nodes_facts(2) acking_timely])
  have "ack_window acking n = 2000" for n
    by (simp add: ack_window_def acking_def plain_platform_def plain_cfg_def cfg_new_def plain_time_def
        SHUTDOWN_ACK_TIMEOUT_MS_def)
  then show "stop_budget acking two_nodes [True, True] < 5000"
    by (simp add: stop_budget_def two_nodes_def s_size_def lessThan_Suc numeral_2_eq_2)
qed

end
