(* ===== verification/Start_Wave.thy ===== *)
theory Start_Wave
  imports Stop_Live
begin

text \<open>
  The supervisor's bring-up engine in \<^verbatim>\<open>supervisor/src/lib.rs\<close>: \<open>start_nodes\<close> picks slots and
  brings them up dependencies first, each through its gates, in rounds that block only when no
  slot moved. The branches of the loop body are the branches of \<open>start_slot\<close>, in their order.
\<close>

section \<open>The wave\<close>

definition UNARMED :: u32 where "UNARMED = - 1"

record start_state =
  st_world :: world
  st_pending :: "bool list"
  st_armed :: "u32 list"
  st_first_err :: "node_fault option"
  st_progress :: bool
  st_waiting :: bool
  st_own_pass :: bool

type_synonym start_flow = "(node_fault + unit, start_state) flow"

definition arm_ms :: "platform \<Rightarrow> nat \<Rightarrow> world \<Rightarrow> u32" where
  "arm_ms P ep w = of_nat (min (elapsed_ms P ep w) (unat UNARMED - 1))"

text \<open>The slot is dealt with; the round has moved.\<close>

definition settle_slot :: "nat \<Rightarrow> start_state \<Rightarrow> start_state" where
  "settle_slot j st = st\<lparr>st_pending := (st_pending st)[j := False], st_progress := True\<rparr>"

text \<open>A parked \<open>Pause\<close> instance is resumed in place.\<close>

definition resume_slot :: "platform \<Rightarrow> nref \<Rightarrow> nat \<Rightarrow> world \<Rightarrow> world" where
  "resume_slot P n j w =
     on_handle n (flag_clear BOUND_STOPPED)
       (note_transition P n (Some j) Resumed
         (set_running P True n (on_handle n signal_resume (on_handle n reset w))))"

text \<open>
  The gates in the order the source tries them; the first that is not satisfied decides. A
  bound dependency that is not ready parks an overdue slot instead of faulting it.
\<close>

datatype gate_test = GatesOpen | Blocked fault_kind | ParkOn nref

definition gate_test_of :: "platform \<Rightarrow> supervisor \<Rightarrow> bool \<Rightarrow> nref \<Rightarrow> world \<Rightarrow> gate_test" where
  "gate_test_of P S overdue n w =
     (let c = p_cfg P n;
          unready = (if s_has S SHAPE_READY_DEPS
                     then find (\<lambda>d. \<not> is_ready (w_h w d)) (ready_deps c) else None)
      in if s_has S SHAPE_EXEC_SLOTS
            \<and> (case spawn_slot c of None \<Rightarrow> False | Some s \<Rightarrow> sp_get (w_slots w s) = None)
         then Blocked ExecutorSlotEmpty
         else if s_has S SHAPE_RESOURCES \<and> list_ex (\<lambda>g. \<not> gate_is_filled (w_gates w g)) (resource_gates c)
         then Blocked ResourceMissing
         else case unready of
                Some d \<Rightarrow> if overdue \<and> d \<in> set (bound_deps c) then ParkOn d
                          else Blocked (ReadyDepTimeout d)
              | None \<Rightarrow> if \<not> is_settled (w_h w n) then Blocked (SpawnFailed SpawnBusy) else GatesOpen)"

text \<open>
  The closure \<open>unsatisfied\<close>: still within its budget, wait (\<open>on_wait\<close>); otherwise fault, and
  either abort the wave or give the slot up.
\<close>

definition unsatisfied ::
  "platform \<Rightarrow> bool \<Rightarrow> bool \<Rightarrow> nref \<Rightarrow> nat \<Rightarrow> fault_kind \<Rightarrow> (start_state \<Rightarrow> start_state) \<Rightarrow> start_state \<Rightarrow> start_flow" where
  "unsatisfied P keep_going overdue n j kind on_wait st =
     (if \<not> overdue then Go ((on_wait st)\<lparr>st_waiting := True\<rparr>)
      else let f = NodeFault n kind;
               st1 = st\<lparr>st_world := note_transition P n (Some j) (Faulted kind) (st_world st)\<rparr>
           in if \<not> keep_going then Return (Inl f) st1
              else Go (settle_slot j (st1\<lparr>st_first_err :=
                         (case st_first_err st1 of None \<Rightarrow> Some f | Some e \<Rightarrow> Some e)\<rparr>)))"

text \<open>After a refused spawn: ask the executor of the slot for one pass, or plan a yield.\<close>

definition ask_pass :: "platform \<Rightarrow> nref \<Rightarrow> start_state \<Rightarrow> start_state" where
  "ask_pass P n st =
     (case spawn_slot (p_cfg P n) of
        Some s \<Rightarrow> let w = st_world st in
                  st\<lparr>st_world := w\<lparr>w_slots := (w_slots w)(s := snd (request_pass (w_slots w s)))\<rparr>\<rparr>
      | None \<Rightarrow> st\<lparr>st_own_pass := True\<rparr>)"

text \<open>The call of a spawn function; the ghost fields are not its to write.\<close>

definition call_spawn ::
  "(world \<Rightarrow> (spawn_error + unit) \<times> world) \<Rightarrow> world \<Rightarrow> (spawn_error + unit) \<times> world" where
  "call_spawn spawn w =
     (let (r, w1) = spawn w in (r, w1\<lparr>w_trace := w_trace w, w_awaits := w_awaits w\<rparr>))"

lemma call_spawn_ghost [simp]: "w_trace (snd (call_spawn f w)) = w_trace w"
  "w_awaits (snd (call_spawn f w)) = w_awaits w" "fst (call_spawn f w) = fst (f w)"
  "w_now (snd (call_spawn f w)) = w_now (snd (f w))"
  by (simp_all add: call_spawn_def case_prod_beta Let_def)

text \<open>The spawn attempt, on a handle reset immediately before it.\<close>

definition spawn_slot_now ::
  "platform \<Rightarrow> bool \<Rightarrow> bool \<Rightarrow> nref \<Rightarrow> nat \<Rightarrow> (world \<Rightarrow> (spawn_error + unit) \<times> world) \<Rightarrow> start_state \<Rightarrow> start_flow" where
  "spawn_slot_now P keep_going overdue n j spawn st =
     (let w0 = on_handle n reset (st_world st) in
      case call_spawn spawn w0 of
        (Inl err, w1) \<Rightarrow>
          unsatisfied P keep_going overdue n j (SpawnFailed err) (ask_pass P n) (st\<lparr>st_world := w1\<rparr>)
      | (Inr _, w1) \<Rightarrow>
          (let w2 = on_handle n (flag_clear BOUND_STOPPED)
                      (note_transition P n (Some j) Started (set_running P True n w1))
           in Go (settle_slot j (st\<lparr>st_world := w2\<rparr>))))"

text \<open>An armed slot whose dependencies are dealt with.\<close>

definition try_slot :: "platform \<Rightarrow> supervisor \<Rightarrow> bool \<Rightarrow> nat \<Rightarrow> nref \<Rightarrow> nat \<Rightarrow> start_state \<Rightarrow> start_flow" where
  "try_slot P S keep_going ep n j st =
     (case cfg_spawn (p_cfg P n) of
        None \<Rightarrow>
          (let w1 = note_transition P n (Some j) Started
                      (set_running P True n (on_handle n reset (st_world st)))
           in Go (settle_slot j (st\<lparr>st_world := w1\<rparr>)))
      | Some spawn \<Rightarrow>
          (let overdue = (unat (st_armed st ! j) + as_millis (p_time P) (slot_timeout (p_cfg P n))
                            \<le> elapsed_ms P ep (st_world st))
           in case gate_test_of P S overdue n (st_world st) of
                ParkOn d \<Rightarrow>
                  Go (settle_slot j (st\<lparr>st_world := on_handle n (flag_set BOUND_STOPPED) (st_world st)\<rparr>))
              | Blocked kind \<Rightarrow> unsatisfied P keep_going overdue n j kind id st
              | GatesOpen \<Rightarrow> spawn_slot_now P keep_going overdue n j spawn st))"

definition start_slot :: "platform \<Rightarrow> supervisor \<Rightarrow> bool \<Rightarrow> nat \<Rightarrow> nat \<Rightarrow> start_state \<Rightarrow> start_flow" where
  "start_slot P S keep_going ep j st =
     (if \<not> st_pending st ! j then Go st
      else case node_at S j of
             None \<Rightarrow> Panic
           | Some n \<Rightarrow>
               if list_ex (\<lambda>d. st_pending st ! d) (deps_row S j) then Go (st\<lparr>st_waiting := True\<rparr>)
               else if st_armed st ! j \<noteq> UNARMED then try_slot P S keep_going ep n j st
               else let st1 = st\<lparr>st_armed := (st_armed st)[j := arm_ms P ep (st_world st)]\<rparr> in
                    if s_has S SHAPE_PAUSE \<and> cfg_mode (p_cfg P n) = Pause
                       \<and> has_acked_stop (w_h (st_world st) n)
                    then Go (settle_slot j (st1\<lparr>st_world := resume_slot P n j (st_world st)\<rparr>))
                    else try_slot P S keep_going ep n j
                           (st1\<lparr>st_world := note_transition P n (Some j) Spawning (st_world st)\<rparr>))"

text \<open>The end of the earliest budget of an armed slot still pending; \<open>None\<close> is the panic.\<close>

definition armed_pending :: "supervisor \<Rightarrow> start_state \<Rightarrow> nat list" where
  "armed_pending S st = filter (\<lambda>j. st_pending st ! j \<and> st_armed st ! j \<noteq> UNARMED) (order_iter S)"

definition start_deadline :: "platform \<Rightarrow> supervisor \<Rightarrow> nat \<Rightarrow> start_state \<Rightarrow> nat option" where
  "start_deadline P S ep st =
     (let js = armed_pending S st in
      if js = [] \<or> list_ex (\<lambda>j. node_at S j = None) js then None
      else Some (ep + from_millis (p_time P) (Min (set (map (\<lambda>j. unat (st_armed st ! j)
                        + as_millis (p_time P) (slot_timeout (p_cfg P (the (node_at S j))))) js)))))"

definition start_round :: "platform \<Rightarrow> supervisor \<Rightarrow> bool \<Rightarrow> nat \<Rightarrow> start_state \<Rightarrow> start_flow" where
  "start_round P S keep_going ep st0 =
     flow_then (each (start_slot P S keep_going ep) (order_iter S)
                 (st0\<lparr>st_progress := False, st_waiting := False, st_own_pass := False\<rparr>)) (\<lambda>st.
       if \<not> st_waiting st then Return (err_result (st_first_err st)) st
       else if st_progress st then Go st
       else if st_own_pass st then Go (st\<lparr>st_world := await P (st_world st)\<rparr>)
       else case start_deadline P S ep st of
              None \<Rightarrow> Panic
            | Some d \<Rightarrow>
                (let w = st_world st in
                 Go (st\<lparr>st_world := await P (w\<lparr>gate_evt := Wait # gate_evt w\<rparr>)\<rparr>)))"

fun start_rounds :: "nat \<Rightarrow> platform \<Rightarrow> supervisor \<Rightarrow> bool \<Rightarrow> nat \<Rightarrow> start_state
     \<Rightarrow> (node_fault + unit) run \<times> world" where
  "start_rounds 0 P S keep_going ep st = (Pending, st_world st)"
| "start_rounds (Suc fuel) P S keep_going ep st =
     (case start_round P S keep_going ep st of
        Go st' \<Rightarrow> start_rounds fuel P S keep_going ep st'
      | Return r st' \<Rightarrow> (Ready r, st_world st')
      | Panic \<Rightarrow> (Panicked, st_world st))"

definition start_begin :: "supervisor \<Rightarrow> bool list \<Rightarrow> world \<Rightarrow> start_state" where
  "start_begin S chosen w =
     \<lparr>st_world = w, st_pending = chosen, st_armed = replicate (s_size S) UNARMED,
      st_first_err = None, st_progress = False, st_waiting = False, st_own_pass = False\<rparr>"

definition start_nodes :: "nat \<Rightarrow> platform \<Rightarrow> supervisor \<Rightarrow> selector \<Rightarrow> bool \<Rightarrow> world
     \<Rightarrow> (node_fault + unit) run \<times> world" where
  "start_nodes fuel P S sel keep_going w =
     (let (chosen, w1) = select_slots S sel (order_iter S) (replicate (s_size S) False, w)
      in start_rounds fuel P S keep_going (w_now w1) (start_begin S chosen w1))"

section \<open>What a wave may record\<close>

text \<open>
  The contract over the trace, newest entry first: a slot enters bring-up once (or is resumed),
  reports one outcome, and everything recorded about it comes before anything recorded about a
  chosen slot that depends on it. Only chosen slots appear.
\<close>

fun outcome :: "transition \<Rightarrow> bool" where
  "outcome Started = True"
| "outcome Resumed = True"
| "outcome (Faulted _) = True"
| "outcome _ = False"

definition touched_in :: "entry_trace \<Rightarrow> nat \<Rightarrow> bool" where
  "touched_in tr j = list_ex (\<lambda>(n, s, t). s = Some j) tr"

definition outcome_in :: "entry_trace \<Rightarrow> nat \<Rightarrow> bool" where
  "outcome_in tr j = list_ex (\<lambda>(n, s, t). s = Some j \<and> outcome t) tr"

fun fault_entry :: "nref \<times> nat option \<times> transition \<Rightarrow> node_fault option" where
  "fault_entry (n, s, Faulted k) = Some (NodeFault n k)"
| "fault_entry _ = None"

definition faults :: "entry_trace \<Rightarrow> node_fault list" where
  "faults tr = List.map_filter fault_entry tr"

definition start_entry :: "platform \<Rightarrow> supervisor \<Rightarrow> bool list \<Rightarrow> nref \<Rightarrow> nat \<Rightarrow> transition \<Rightarrow> entry_trace \<Rightarrow> bool" where
  "start_entry P S chosen n j t older \<longleftrightarrow>
     j < s_size S \<and> chosen ! j \<and> node_at S j = Some n \<and> \<not> outcome_in older j
     \<and> list_all (\<lambda>k. chosen ! k \<and> j \<in> set (deps_row S k) \<longrightarrow> \<not> touched_in older k) [0..<s_size S]
     \<and> (case t of
          Spawning \<Rightarrow> \<not> touched_in older j
        | Resumed \<Rightarrow> \<not> touched_in older j \<and> cfg_mode (p_cfg P n) = Pause
        | Started \<Rightarrow> touched_in older j
        | Faulted _ \<Rightarrow> touched_in older j
        | _ \<Rightarrow> False)"

fun start_trace :: "platform \<Rightarrow> supervisor \<Rightarrow> bool list \<Rightarrow> entry_trace \<Rightarrow> bool" where
  "start_trace P S chosen [] = True"
| "start_trace P S chosen ((n, s, t) # older) =
     ((case s of None \<Rightarrow> False | Some j \<Rightarrow> start_entry P S chosen n j t older)
      \<and> start_trace P S chosen older)"

text \<open>A slot dealt with has an outcome, or waits for a bound dependency.\<close>

definition may_park :: "platform \<Rightarrow> supervisor \<Rightarrow> nat \<Rightarrow> bool" where
  "may_park P S j \<longleftrightarrow> s_has S SHAPE_READY_DEPS \<and>
     (\<exists>n d. node_at S j = Some n \<and> d \<in> set (ready_deps (p_cfg P n)) \<and> d \<in> set (bound_deps (p_cfg P n)))"

definition dealt_with :: "platform \<Rightarrow> supervisor \<Rightarrow> entry_trace \<Rightarrow> nat \<Rightarrow> bool" where
  "dealt_with P S tr j \<longleftrightarrow> touched_in tr j \<and> (outcome_in tr j \<or> may_park P S j)"

lemma touched_in_Cons [simp]: "touched_in ((n, s, t) # tr) j \<longleftrightarrow> s = Some j \<or> touched_in tr j"
  by (simp add: touched_in_def)

lemma outcome_in_Cons [simp]:
  "outcome_in ((n, s, t) # tr) j \<longleftrightarrow> s = Some j \<and> outcome t \<or> outcome_in tr j"
  by (simp add: outcome_in_def)

lemma faults_Cons [simp]:
  "faults (e # tr) = (case fault_entry e of None \<Rightarrow> faults tr | Some f \<Rightarrow> f # faults tr)"
  by (simp add: faults_def map_filter_simps split: option.splits)

lemma start_trace_Nil [simp]: "\<not> touched_in [] j" "\<not> outcome_in [] j" "faults [] = []"
  by (simp_all add: touched_in_def outcome_in_def faults_def map_filter_simps)

section \<open>The wave keeps its contract\<close>

definition start_rel :: "platform \<Rightarrow> supervisor \<Rightarrow> bool list \<Rightarrow> start_state \<Rightarrow> entry_trace \<Rightarrow> bool" where
  "start_rel P S chosen st tr \<longleftrightarrow> start_trace P S chosen tr
     \<and> length (st_pending st) = s_size S \<and> length (st_armed st) = s_size S
     \<and> (\<forall>j < s_size S. if st_pending st ! j then chosen ! j \<and> \<not> outcome_in tr j
                        else chosen ! j \<longrightarrow> dealt_with P S tr j)
     \<and> (\<forall>j < s_size S. st_armed st ! j \<noteq> UNARMED \<longleftrightarrow> touched_in tr j)
     \<and> (\<forall>k < s_size S. touched_in tr k \<longrightarrow> (\<forall>d \<in> set (deps_row S k). \<not> st_pending st ! d))
     \<and> (case st_first_err st of None \<Rightarrow> faults tr = [] | Some f \<Rightarrow> faults tr \<noteq> [] \<and> f = last (faults tr))"

definition start_inv :: "platform \<Rightarrow> supervisor \<Rightarrow> bool list \<Rightarrow> bool \<Rightarrow> entry_trace \<Rightarrow> start_state \<Rightarrow> bool" where
  "start_inv P S chosen keep_going tr0 st \<longleftrightarrow>
     (\<exists>tr. w_trace (st_world st) = tr @ tr0 \<and> start_rel P S chosen st tr
        \<and> (\<not> keep_going \<longrightarrow> st_first_err st = None))"

definition start_result :: "platform \<Rightarrow> supervisor \<Rightarrow> bool list \<Rightarrow> bool \<Rightarrow> entry_trace \<Rightarrow> node_fault + unit \<Rightarrow> bool" where
  "start_result P S chosen keep_going tr r =
     (case r of
        Inr _ \<Rightarrow> (\<forall>j < s_size S. chosen ! j \<longrightarrow> dealt_with P S tr j) \<and> faults tr = []
      | Inl f \<Rightarrow> faults tr \<noteq> [] \<and> f = last (faults tr)
          \<and> (if keep_going then \<forall>j < s_size S. chosen ! j \<longrightarrow> dealt_with P S tr j else faults tr = [f]))"

definition start_ret :: "platform \<Rightarrow> supervisor \<Rightarrow> bool list \<Rightarrow> bool \<Rightarrow> entry_trace
     \<Rightarrow> node_fault + unit \<Rightarrow> start_state \<Rightarrow> bool" where
  "start_ret P S chosen keep_going tr0 r st \<longleftrightarrow>
     (\<exists>tr. w_trace (st_world st) = tr @ tr0 \<and> start_trace P S chosen tr \<and> start_result P S chosen keep_going tr r)"

lemma arm_not_unarmed [simp]: "arm_ms P ep w \<noteq> UNARMED"
  using stamp_not_unsignaled[of P ep w] by (simp add: arm_ms_def stamp_ms_def UNARMED_def UNSIGNALED_def)


lemma dealt_with_Cons: "dealt_with P S tr j \<Longrightarrow> dealt_with P S (e # tr) j"
  by (cases e) (auto simp: dealt_with_def)

lemma start_rel_free:
  assumes "start_rel P S chosen st tr" "j < s_size S" "st_pending st ! j" "node_at S j = Some n"
  shows "chosen ! j" "\<not> outcome_in tr j"
    and "list_all (\<lambda>k. chosen ! k \<and> j \<in> set (deps_row S k) \<longrightarrow> \<not> touched_in tr k) [0..<s_size S]"
  using assms by (auto simp: start_rel_def list_all_iff split: if_splits)

text \<open>A slot enters the wave: armed, and on record.\<close>

lemma start_rel_arm:
  assumes rel: "start_rel P S chosen st tr" and j: "j < s_size S" "st_pending st ! j" "node_at S j = Some n"
    and new: "st_armed st ! j = UNARMED" "\<not> list_ex (\<lambda>d. st_pending st ! d) (deps_row S j)" "a \<noteq> UNARMED"
  shows "start_rel P S chosen (st\<lparr>st_armed := (st_armed st)[j := a], st_world := w\<rparr>) ((n, Some j, Spawning) # tr)"
  using rel start_rel_free[OF rel j] j new
  by (auto simp: start_rel_def start_entry_def nth_list_update list_ex_iff dealt_with_Cons split: option.splits)

text \<open>It is dealt with, on record or parked.\<close>

lemma start_rel_resume:
  assumes rel: "start_rel P S chosen st tr" and j: "j < s_size S" "st_pending st ! j" "node_at S j = Some n"
    and new: "st_armed st ! j = UNARMED" "\<not> list_ex (\<lambda>d. st_pending st ! d) (deps_row S j)" "a \<noteq> UNARMED"
    and md: "cfg_mode (p_cfg P n) = Pause"
  shows "start_rel P S chosen (settle_slot j (st\<lparr>st_armed := (st_armed st)[j := a], st_world := w\<rparr>))
     ((n, Some j, Resumed) # tr)"
  using rel start_rel_free[OF rel j] j new md
  by (auto simp: start_rel_def start_entry_def settle_slot_def nth_list_update list_ex_iff dealt_with_Cons
      dealt_with_def split: option.splits)

lemma start_rel_started:
  assumes rel: "start_rel P S chosen st tr" and j: "j < s_size S" "st_pending st ! j" "node_at S j = Some n"
    and old: "st_armed st ! j \<noteq> UNARMED"
  shows "start_rel P S chosen (settle_slot j (st\<lparr>st_world := w\<rparr>)) ((n, Some j, Started) # tr)"
  using rel start_rel_free[OF rel j] j old
  by (auto simp: start_rel_def start_entry_def settle_slot_def nth_list_update dealt_with_Cons
      dealt_with_def split: option.splits)

lemma start_rel_park:
  assumes rel: "start_rel P S chosen st tr" and j: "j < s_size S" "st_pending st ! j" "node_at S j = Some n"
    and old: "st_armed st ! j \<noteq> UNARMED" and park: "may_park P S j"
  shows "start_rel P S chosen (settle_slot j (st\<lparr>st_world := w\<rparr>)) tr"
  using rel j old park
  by (auto simp: start_rel_def settle_slot_def nth_list_update dealt_with_def)

lemma start_rel_fault_trace:
  assumes rel: "start_rel P S chosen st tr" and j: "j < s_size S" "st_pending st ! j" "node_at S j = Some n"
    and old: "st_armed st ! j \<noteq> UNARMED"
  shows "start_trace P S chosen ((n, Some j, Faulted k) # tr)"
  using rel start_rel_free[OF rel j] j old by (auto simp: start_rel_def start_entry_def)

lemma start_rel_fault:
  assumes rel: "start_rel P S chosen st tr" and j: "j < s_size S" "st_pending st ! j" "node_at S j = Some n"
    and old: "st_armed st ! j \<noteq> UNARMED"
  shows "start_rel P S chosen (settle_slot j (st\<lparr>st_world := w,
       st_first_err := (case st_first_err st of None \<Rightarrow> Some (NodeFault n k) | Some e \<Rightarrow> Some e)\<rparr>))
     ((n, Some j, Faulted k) # tr)"
  using rel start_rel_fault_trace[OF rel j old, of k] j old
  by (auto simp: start_rel_def settle_slot_def nth_list_update dealt_with_Cons
      dealt_with_def split: option.splits)

lemma start_inv_flags:
  "start_inv P S chosen kg tr0 (st\<lparr>st_waiting := b\<rparr>) = start_inv P S chosen kg tr0 st"
  "start_inv P S chosen kg tr0 (st\<lparr>st_own_pass := b\<rparr>) = start_inv P S chosen kg tr0 st"
  "start_inv P S chosen kg tr0 (st\<lparr>st_progress := b\<rparr>) = start_inv P S chosen kg tr0 st"
  "w_trace w1 = w_trace (st_world st) \<Longrightarrow>
     start_inv P S chosen kg tr0 (st\<lparr>st_world := w1\<rparr>) = start_inv P S chosen kg tr0 st"
  by (simp_all add: start_inv_def start_rel_def)

lemma ask_pass_inv: "start_inv P S chosen kg tr0 (ask_pass P n st) = start_inv P S chosen kg tr0 st"
  by (auto simp: ask_pass_def start_inv_flags Let_def split: option.splits)

lemma unsatisfied_safe:
  assumes inv: "start_inv P S chosen kg tr0 st" and j: "j < s_size S" "st_pending st ! j" "node_at S j = Some n"
    and old: "st_armed st ! j \<noteq> UNARMED" and wait: "start_inv P S chosen kg tr0 (on_wait st)"
  shows "flow_safe (start_inv P S chosen kg tr0) (start_ret P S chosen kg tr0)
    (unsatisfied P kg overdue n j k on_wait st)"
proof (cases overdue)
  case False
  then show ?thesis using wait by (simp add: unsatisfied_def start_inv_flags)
next
  case True
  from inv obtain tr where tr: "w_trace (st_world st) = tr @ tr0" "start_rel P S chosen st tr"
    "\<not> kg \<longrightarrow> st_first_err st = None" by (auto simp: start_inv_def)
  let ?w = "note_transition P n (Some j) (Faulted k) (st_world st)"
  show ?thesis
  proof (cases kg)
    case kg: True
    have "start_rel P S chosen (settle_slot j (st\<lparr>st_world := ?w,
       st_first_err := (case st_first_err st of None \<Rightarrow> Some (NodeFault n k) | Some e \<Rightarrow> Some e)\<rparr>))
     ((n, Some j, Faulted k) # tr)"
      by (rule start_rel_fault[OF tr(2) j old])
    then show ?thesis
      using True kg tr(1) unfolding unsatisfied_def start_inv_def
      by (auto simp: Let_def settle_slot_def)
  next
    case False
    have "start_trace P S chosen ((n, Some j, Faulted k) # tr)"
      by (rule start_rel_fault_trace[OF tr(2) j old])
    then show ?thesis
      using True False tr unfolding unsatisfied_def start_ret_def
      by (auto simp: Let_def start_result_def start_rel_def intro!: exI[of _ "(n, Some j, Faulted k) # tr"])
  qed
qed

lemma start_inv_started:
  assumes inv: "start_inv P S chosen kg tr0 st" and j: "j < s_size S" "st_pending st ! j" "node_at S j = Some n"
    and old: "st_armed st ! j \<noteq> UNARMED"
    and tr: "w_trace w = (n, Some j, Started) # w_trace (st_world st)"
  shows "start_inv P S chosen kg tr0 (settle_slot j (st\<lparr>st_world := w\<rparr>))"
proof -
  from inv obtain t where t: "w_trace (st_world st) = t @ tr0" "start_rel P S chosen st t"
    "\<not> kg \<longrightarrow> st_first_err st = None" by (auto simp: start_inv_def)
  from start_rel_started[OF t(2) j old, of w] t tr show ?thesis
    by (auto simp: start_inv_def settle_slot_def)
qed

lemma gate_park:
  "gate_test_of P S overdue n w = ParkOn d \<Longrightarrow> node_at S j = Some n \<Longrightarrow> may_park P S j"
  by (auto simp: gate_test_of_def may_park_def Let_def find_Some_iff in_set_conv_nth
      split: if_splits option.splits)

lemma spawn_slot_now_safe:
  assumes inv: "start_inv P S chosen kg tr0 st" and j: "j < s_size S" "st_pending st ! j" "node_at S j = Some n"
    and old: "st_armed st ! j \<noteq> UNARMED"
  shows "flow_safe (start_inv P S chosen kg tr0) (start_ret P S chosen kg tr0)
    (spawn_slot_now P kg overdue n j f st)"
proof -
  obtain r w1 where call: "call_spawn f (on_handle n reset (st_world st)) = (r, w1)" by force
  then have tr: "w_trace w1 = w_trace (st_world st)"
    using call_spawn_ghost(1)[of f "on_handle n reset (st_world st)"] by simp
  have inv1: "start_inv P S chosen kg tr0 (st\<lparr>st_world := w1\<rparr>)" using inv tr by (simp add: start_inv_flags)
  show ?thesis
  proof (cases r)
    case (Inl err)
    have "flow_safe (start_inv P S chosen kg tr0) (start_ret P S chosen kg tr0)
      (unsatisfied P kg overdue n j (SpawnFailed err) (ask_pass P n) (st\<lparr>st_world := w1\<rparr>))"
      by (rule unsatisfied_safe) (use inv1 j old in \<open>auto simp: ask_pass_inv\<close>)
    then show ?thesis by (simp add: spawn_slot_now_def call Inl)
  next
    case (Inr u)
    then show ?thesis
      using start_inv_started[OF inv j old] tr by (simp add: spawn_slot_now_def call Let_def)
  qed
qed

lemma try_slot_safe:
  assumes inv: "start_inv P S chosen kg tr0 st" and j: "j < s_size S" "st_pending st ! j" "node_at S j = Some n"
    and old: "st_armed st ! j \<noteq> UNARMED"
  shows "flow_safe (start_inv P S chosen kg tr0) (start_ret P S chosen kg tr0) (try_slot P S kg ep n j st)"
proof (cases "cfg_spawn (p_cfg P n)")
  case None
  then show ?thesis using start_inv_started[OF inv j old] by (simp add: try_slot_def Let_def)
next
  case (Some f)
  define overdue where "overdue \<longleftrightarrow> unat (st_armed st ! j) + as_millis (p_time P) (slot_timeout (p_cfg P n))
                            \<le> elapsed_ms P ep (st_world st)"
  show ?thesis
  proof (cases "gate_test_of P S overdue n (st_world st)")
    case GatesOpen
    with Some spawn_slot_now_safe[OF inv j old] show ?thesis
      by (simp add: try_slot_def overdue_def)
  next
    case (Blocked k)
    have "flow_safe (start_inv P S chosen kg tr0) (start_ret P S chosen kg tr0)
      (unsatisfied P kg overdue n j k id st)"
      by (rule unsatisfied_safe[OF inv j old]) (simp add: inv)
    with Some Blocked show ?thesis by (simp add: try_slot_def overdue_def)
  next
    case (ParkOn d)
    from inv obtain t where t: "w_trace (st_world st) = t @ tr0" "start_rel P S chosen st t"
      "\<not> kg \<longrightarrow> st_first_err st = None" by (auto simp: start_inv_def)
    from start_rel_park[OF t(2) j old gate_park[OF ParkOn j(3)]] t Some ParkOn show ?thesis
      by (auto simp: try_slot_def overdue_def start_inv_def settle_slot_def)
  qed
qed

lemma start_slot_safe:
  assumes inv: "start_inv P S chosen kg tr0 st" and j: "j < s_size S"
  shows "flow_safe (start_inv P S chosen kg tr0) (start_ret P S chosen kg tr0) (start_slot P S kg ep j st)"
proof (cases "st_pending st ! j \<and> node_at S j \<noteq> None \<and> \<not> list_ex (\<lambda>d. st_pending st ! d) (deps_row S j)")
  case False
  then show ?thesis using inv by (auto simp: start_slot_def start_inv_flags split: option.splits)
next
  case True
  then obtain n where n: "node_at S j = Some n" and p: "st_pending st ! j"
    and free: "\<not> list_ex (\<lambda>d. st_pending st ! d) (deps_row S j)" by auto
  show ?thesis
  proof (cases "st_armed st ! j = UNARMED")
    case False
    then show ?thesis using try_slot_safe[OF inv j p n] True n by (simp add: start_slot_def)
  next
    case new: True
    from inv obtain t where t: "w_trace (st_world st) = t @ tr0" "start_rel P S chosen st t"
      "\<not> kg \<longrightarrow> st_first_err st = None" by (auto simp: start_inv_def)
    let ?a = "arm_ms P ep (st_world st)"
    show ?thesis
    proof (cases "s_has S SHAPE_PAUSE \<and> cfg_mode (p_cfg P n) = Pause \<and> has_acked_stop (w_h (st_world st) n)")
      case True
      then have "cfg_mode (p_cfg P n) = Pause" by simp
      from start_rel_resume[OF t(2) j p n new free arm_not_unarmed this, where w = "resume_slot P n j (st_world st)"] True t n p free new
      show ?thesis
        by (auto simp: start_slot_def Let_def start_inv_def settle_slot_def resume_slot_def)
    next
      case False
      define st1 where "st1 = st\<lparr>st_armed := (st_armed st)[j := ?a],
         st_world := note_transition P n (Some j) Spawning (st_world st)\<rparr>"
      have len: "length (st_armed st) = s_size S" using t(2) by (simp add: start_rel_def)
      from start_rel_arm[OF t(2) j p n new free arm_not_unarmed, where w = "note_transition P n (Some j) Spawning (st_world st)"] t
      have "start_inv P S chosen kg tr0 st1" by (auto simp: start_inv_def st1_def)
      from try_slot_safe[OF this j _ n, where ep = ep] False n p free new j len show ?thesis
        by (auto simp: start_slot_def st1_def Let_def)
    qed
  qed
qed

lemma start_inv_await: "start_inv P S chosen kg tr0 st \<Longrightarrow> w_trace w = w_trace (st_world st) \<Longrightarrow>
    start_inv P S chosen kg tr0 (st\<lparr>st_world := await P w\<rparr>)"
  by (simp add: start_inv_flags)

text \<open>A round that ends with nothing waiting has dealt with every slot.\<close>

lemma start_slot_waits:
  "start_slot P S kg ep j st = Go st' \<Longrightarrow> length (st_pending st) = s_size S \<Longrightarrow> j < s_size S \<Longrightarrow>
     length (st_pending st') = s_size S \<and> (st_waiting st \<longrightarrow> st_waiting st')
     \<and> (st_pending st' ! j \<longrightarrow> st_waiting st')
     \<and> (\<forall>i. i \<noteq> j \<longrightarrow> st_pending st' ! i = st_pending st ! i)
     \<and> (st_pending st' ! j \<longrightarrow> st_pending st ! j)"
  by (auto simp: start_slot_def try_slot_def spawn_slot_now_def unsatisfied_def settle_slot_def
      ask_pass_def Let_def split: if_splits option.splits prod.splits sum.splits gate_test.splits)


lemma start_inv_len: "start_inv P S chosen kg tr0 st \<Longrightarrow> length (st_pending st) = s_size S"
  by (auto simp: start_inv_def start_rel_def)

lemma start_pass_safe:
  assumes wf: "wf_sup S" and inv: "start_inv P S chosen kg tr0 st"
  shows "flow_safe (\<lambda>s. start_inv P S chosen kg tr0 s \<and> (\<forall>j < s_size S. st_pending s ! j \<longrightarrow> st_waiting s))
    (start_ret P S chosen kg tr0)
    (each (start_slot P S kg ep) (order_iter S) (st\<lparr>st_progress := False, st_waiting := False, st_own_pass := False\<rparr>))"
proof -
  let ?I = "\<lambda>ys s. start_inv P S chosen kg tr0 s \<and> (\<forall>j \<in> set ys. st_pending s ! j \<longrightarrow> st_waiting s)"
  have "flow_safe (?I (order_iter S)) (start_ret P S chosen kg tr0)
    (each (start_slot P S kg ep) (order_iter S) (st\<lparr>st_progress := False, st_waiting := False, st_own_pass := False\<rparr>))"
  proof (rule each_safe_prefix)
    fix ys x zs s assume split: "order_iter S = ys @ x # zs" and I: "?I ys s"
    have "set (ys @ x # zs) = {..<s_size S}"
      unfolding split[symmetric] using wf_sup_order(1)[OF wf] by simp
    then have x: "x < s_size S" by auto
    from I have i: "start_inv P S chosen kg tr0 s" by simp
    show "flow_safe (?I (ys @ [x])) (start_ret P S chosen kg tr0) (start_slot P S kg ep x s)"
    proof (cases "start_slot P S kg ep x s")
      case (Go s')
      from start_slot_waits[OF Go start_inv_len[OF i] x] start_slot_safe[OF i x, where ep = ep] I Go
      show ?thesis by auto
    qed (use start_slot_safe[OF i x, where ep = ep] in auto)
  qed (use inv in \<open>simp_all add: start_inv_flags\<close>)
  then show ?thesis
    using wf_sup_order(1)[OF wf]
    by (cases "each (start_slot P S kg ep) (order_iter S) (st\<lparr>st_progress := False, st_waiting := False, st_own_pass := False\<rparr>)") auto
qed

lemma start_inv_return:
  assumes "start_inv P S chosen kg tr0 st" "\<forall>j < s_size S. \<not> st_pending st ! j"
  shows "start_ret P S chosen kg tr0 (err_result (st_first_err st)) st"
  using assms unfolding start_inv_def start_ret_def
  by (auto simp: start_result_def err_result_def start_rel_def split: option.splits)

lemma start_round_safe:
  assumes "wf_sup S" "start_inv P S chosen kg tr0 st"
  shows "flow_safe (start_inv P S chosen kg tr0) (start_ret P S chosen kg tr0) (start_round P S kg ep st)"
  unfolding start_round_def
proof (rule flow_safe_then[OF start_pass_safe[OF assms]])
  fix s assume s: "start_inv P S chosen kg tr0 s \<and> (\<forall>j < s_size S. st_pending s ! j \<longrightarrow> st_waiting s)"
  then show "flow_safe (start_inv P S chosen kg tr0) (start_ret P S chosen kg tr0)
      (if \<not> st_waiting s then Return (err_result (st_first_err s)) s
       else if st_progress s then Go s
       else if st_own_pass s then Go (s\<lparr>st_world := await P (st_world s)\<rparr>)
       else case start_deadline P S ep s of
              None \<Rightarrow> Panic
            | Some d \<Rightarrow>
                (let w = st_world s in
                 Go (s\<lparr>st_world := await P (w\<lparr>gate_evt := Wait # gate_evt w\<rparr>)\<rparr>)))"
    using start_inv_return by (auto simp: Let_def start_inv_flags split: option.splits)
qed

lemma start_rounds_safe:
  assumes "wf_sup S"
  shows "start_inv P S chosen kg tr0 st \<Longrightarrow> start_rounds fuel P S kg ep st = (r, w') \<Longrightarrow>
    \<exists>tr. w_trace w' = tr @ tr0 \<and> start_trace P S chosen tr
      \<and> (case r of Ready res \<Rightarrow> start_result P S chosen kg tr res | _ \<Rightarrow> True)"
proof (induction fuel arbitrary: st)
  case 0
  then show ?case by (auto simp: start_inv_def start_rel_def)
next
  case (Suc fuel)
  from start_round_safe[OF assms Suc.prems(1), where ep = ep] Suc show ?case
    by (cases "start_round P S kg ep st") (auto simp: start_ret_def start_inv_def start_rel_def)
qed

lemma start_begin_inv:
  "length chosen = s_size S \<Longrightarrow> start_inv P S chosen kg (w_trace w) (start_begin S chosen w)"
  by (auto simp: start_inv_def start_rel_def start_begin_def)

lemma select_slots_length:
  "select_slots S sel js (chosen, w) = (chosen', w') \<Longrightarrow> length chosen' = length chosen"
  by (induction S sel js "(chosen, w)" arbitrary: chosen w rule: select_slots.induct)
    (auto split: option.splits prod.splits if_splits)


definition all_slots :: selector where
  "all_slots = (\<lambda>_ _ w. (True, w))"

lemma two_nodes_selected:
  "select_slots two_nodes all_slots (order_iter two_nodes) (replicate (s_size two_nodes) False, world_new)
     = ([True, True], world_new)"
  by (simp add: two_nodes_def order_iter_def s_size_def node_at_def all_slots_def upt_rec)


section \<open>A task is spawned only through open gates\<close>

text \<open>
  The state a spawn function may count on: the executor slot filled, every resource there, every
  ready dependency (other than the node itself) ready, the last instance out of its shell, and
  no trace of it in the flags.
\<close>

definition gates_open :: "platform \<Rightarrow> supervisor \<Rightarrow> nref \<Rightarrow> world \<Rightarrow> bool" where
  "gates_open P S n w =
     (let c = p_cfg P n in
      (s_has S SHAPE_EXEC_SLOTS \<longrightarrow> (case spawn_slot c of None \<Rightarrow> True | Some s \<Rightarrow> sp_get (w_slots w s) \<noteq> None))
      \<and> (s_has S SHAPE_RESOURCES \<longrightarrow> list_all (\<lambda>g. gate_is_filled (w_gates w g)) (resource_gates c))
      \<and> (s_has S SHAPE_READY_DEPS \<longrightarrow> list_all (\<lambda>d. d = n \<or> is_ready (w_h w d)) (ready_deps c))
      \<and> is_settled (w_h w n)
      \<and> \<not> h_shutdown (w_h w n) \<and> \<not> has_dropped (w_h w n) \<and> \<not> has_exited (w_h w n)
      \<and> \<not> is_busy (w_h w n) \<and> \<not> is_ready (w_h w n))"

text \<open>The same platform with spawn functions that do as they please when called any earlier.\<close>

definition rogue :: "supervisor \<Rightarrow> (nref \<Rightarrow> world \<Rightarrow> (spawn_error + unit) \<times> world) \<Rightarrow> platform \<Rightarrow> platform" where
  "rogue S bad P = P\<lparr>p_cfg := (\<lambda>n. (p_cfg P n)\<lparr>cfg_spawn :=
     map_option (\<lambda>f w. if gates_open P S n w then f w else bad n w) (cfg_spawn (p_cfg P n))\<rparr>)\<rparr>"

lemma rogue_cfg [simp]:
  "cfg_mode (p_cfg (rogue S bad P) n) = cfg_mode (p_cfg P n)"
  "spawn_slot (p_cfg (rogue S bad P) n) = spawn_slot (p_cfg P n)"
  "resource_gates (p_cfg (rogue S bad P) n) = resource_gates (p_cfg P n)"
  "ready_deps (p_cfg (rogue S bad P) n) = ready_deps (p_cfg P n)"
  "bound_deps (p_cfg (rogue S bad P) n) = bound_deps (p_cfg P n)"
  "slot_timeout (p_cfg (rogue S bad P) n) = slot_timeout (p_cfg P n)"
  "writes (p_cfg (rogue S bad P) n) = writes (p_cfg P n)"
  "reads (p_cfg (rogue S bad P) n) = reads (p_cfg P n)"
  "p_time (rogue S bad P) = p_time P"
  "cfg_spawn (p_cfg (rogue S bad P) n) =
     map_option (\<lambda>f w. if gates_open P S n w then f w else bad n w) (cfg_spawn (p_cfg P n))"
  by (simp_all add: rogue_def)

lemma rogue_same [simp]:
  "note_transition (rogue S bad P) n slot t w = note_transition P n slot t w"
  "set_running (rogue S bad P) b n w = set_running P b n w"
  "await (rogue S bad P) w = await P w"
  "elapsed_ms (rogue S bad P) ep w = elapsed_ms P ep w"
  "arm_ms (rogue S bad P) ep w = arm_ms P ep w"
  "resume_slot (rogue S bad P) n j w = resume_slot P n j w"
  "gate_test_of (rogue S bad P) S overdue n w = gate_test_of P S overdue n w"
  "unsatisfied (rogue S bad P) kg overdue n j k ow st = unsatisfied P kg overdue n j k ow st"
  "ask_pass (rogue S bad P) n = ask_pass P n"
proof -
  show nt: "note_transition (rogue S bad P) n slot t w = note_transition P n slot t w" for n slot t w
    by (simp add: rogue_def note_transition_def emit_lifecycle_def Let_def split: option.splits)
  show run: "set_running (rogue S bad P) b n w = set_running P b n w" for b n w
    by (simp add: set_running_def seed_write_mark_def entries_def Let_def)
  show "await (rogue S bad P) w = await P w" by (simp add: await_def rogue_def)
  show el: "elapsed_ms (rogue S bad P) ep w = elapsed_ms P ep w" by (simp add: elapsed_ms_def)
  then show "arm_ms (rogue S bad P) ep w = arm_ms P ep w" by (simp add: arm_ms_def)
  show "resume_slot (rogue S bad P) n j w = resume_slot P n j w" by (simp add: resume_slot_def nt run)
  show "gate_test_of (rogue S bad P) S overdue n w = gate_test_of P S overdue n w"
    by (simp add: gate_test_of_def Let_def split: option.splits)
  show "unsatisfied (rogue S bad P) kg overdue n j k ow st = unsatisfied P kg overdue n j k ow st"
    by (simp add: unsatisfied_def nt Let_def)
  show "ask_pass (rogue S bad P) n = ask_pass P n"
    by (rule ext) (simp add: ask_pass_def)
qed

lemma gates_open_at_spawn:
  assumes "gate_test_of P S overdue n w = GatesOpen"
  shows "gates_open P S n (on_handle n reset w)"
  using assms
  by (auto simp: gate_test_of_def gates_open_def Let_def flag_simps reader_defs list_all_iff list_ex_iff
      find_None_iff split: if_splits option.splits)

lemma rogue_start_slot: "start_slot (rogue S bad P) S kg ep j st = start_slot P S kg ep j st"
proof -
  have "try_slot (rogue S bad P) S kg ep n j st = try_slot P S kg ep n j st" for n st
    using gates_open_at_spawn[of P S _ n "st_world st"]
    by (auto simp: try_slot_def spawn_slot_now_def call_spawn_def Let_def split: option.splits gate_test.splits prod.splits sum.splits)
  then show ?thesis by (simp add: start_slot_def Let_def split: option.splits)
qed

lemma rogue_start_rounds: "start_rounds fuel (rogue S bad P) S kg ep st = start_rounds fuel P S kg ep st"
proof (induction fuel arbitrary: st)
  case (Suc fuel)
  have heads: "start_slot (rogue S bad P) S kg ep = start_slot P S kg ep"
    "await (rogue S bad P) = await P" "start_deadline (rogue S bad P) S ep = start_deadline P S ep"
    by (intro ext, simp add: rogue_start_slot start_deadline_def Let_def)+
  have "start_round (rogue S bad P) S kg ep st = start_round P S kg ep st"
    unfolding start_round_def heads ..
  then show ?case by (simp add: Suc split: flow.splits)
qed simp

text \<open>
  C3. A start wave calls a node's spawn function only with the node's gates open: replacing every
  spawn function by one that behaves arbitrarily whenever its executor slot is empty, a
  resource is missing, a ready dependency is not ready, its shell is still finishing or a flag
  of the last instance survives, changes nothing of any run.
\<close>

theorem spawn_only_through_open_gates:
  "start_nodes fuel (rogue S bad P) S sel keep_going w = start_nodes fuel P S sel keep_going w"
  by (simp add: start_nodes_def rogue_start_rounds)

end
