(* ===== verification/Start_Live.thy ===== *)
theory Start_Live
  imports Start_Wave
begin

text \<open>
  The start wave of \<^verbatim>\<open>supervisor/src/lib.rs\<close> does not panic and returns, by the potential of
  the stop wave with the bring-up budget of a slot in the place of its acknowledgement window.
\<close>

section \<open>One slot\<close>

definition start_due :: "platform \<Rightarrow> supervisor \<Rightarrow> start_state \<Rightarrow> nat \<Rightarrow> nat" where
  "start_due P S st j =
     unat (st_armed st ! j) + as_millis (p_time P) (slot_timeout (p_cfg P (the (node_at S j))))"

text \<open>How the body moves the wave at its own slot \<open>j\<close>, and nowhere else.\<close>

definition body_moves :: "supervisor \<Rightarrow> nat \<Rightarrow> start_state \<Rightarrow> start_state \<Rightarrow> bool" where
  "body_moves S j st st' \<longleftrightarrow>
     length (st_pending st') = length (st_pending st) \<and> length (st_armed st') = length (st_armed st)
     \<and> (\<forall>i. i \<noteq> j \<longrightarrow> st_pending st' ! i = st_pending st ! i \<and> st_armed st' ! i = st_armed st ! i)
     \<and> (st_armed st ! j \<noteq> UNARMED \<longrightarrow> st_armed st' ! j = st_armed st ! j)
     \<and> (st_pending st' ! j \<longrightarrow> st_pending st ! j)
     \<and> (st_progress st \<longrightarrow> st_progress st')
     \<and> (\<not> st_progress st' \<longrightarrow> st_pending st' = st_pending st)
     \<and> (st_waiting st' \<longrightarrow> st_waiting st \<or> st_pending st ! j)
     \<and> (st_progress st' \<and> \<not> st_progress st \<longrightarrow> st_pending st ! j \<and> \<not> st_pending st' ! j)
     \<and> (st_pending st' ! j \<and> \<not> list_ex (\<lambda>d. st_pending st ! d) (deps_row S j) \<longrightarrow> st_armed st' ! j \<noteq> UNARMED)"

lemma start_slot_moves:
  assumes "start_slot P S kg ep j st = Go st'" "j < length (st_pending st)" "j < length (st_armed st)"
  shows "body_moves S j st st'"
  using assms
  by (auto simp: start_slot_def try_slot_def spawn_slot_now_def unsatisfied_def settle_slot_def
      ask_pass_def Let_def body_moves_def split: if_splits option.splits prod.splits sum.splits gate_test.splits)

lemma start_slot_no_panic:
  "(st_pending st ! j \<longrightarrow> node_at S j \<noteq> None) \<Longrightarrow> start_slot P S kg ep j st \<noteq> Panic"
  by (auto simp: start_slot_def try_slot_def spawn_slot_now_def unsatisfied_def Let_def
      split: if_splits option.splits prod.splits sum.splits gate_test.splits)

text \<open>A spawn call takes no time of its own.\<close>

definition spawns_instant :: "platform \<Rightarrow> bool" where
  "spawns_instant P \<longleftrightarrow> (\<forall>n f w. cfg_spawn (p_cfg P n) = Some f \<longrightarrow> w_now (snd (f w)) = w_now w)"

definition start_timely :: "platform \<Rightarrow> bool" where
  "start_timely P \<longleftrightarrow> timely P \<and> spawns_instant P"

lemma call_spawn_now:
  "start_timely P \<Longrightarrow> cfg_spawn (p_cfg P n) = Some f \<Longrightarrow> call_spawn f w = (r, w1) \<Longrightarrow> w_now w1 = w_now w"
  using call_spawn_ghost(4)[of f w] by (simp add: start_timely_def spawns_instant_def)

lemma ask_pass_now [simp]: "w_now (st_world (ask_pass P n st)) = w_now (st_world st)"
  by (simp add: ask_pass_def Let_def split: option.splits)

lemma start_note_now: "start_timely P \<Longrightarrow> w_now (note_transition P n s t w) = w_now w"
  by (simp add: note_now start_timely_def timely_def)

lemma start_elapsed_note:
  "start_timely P \<Longrightarrow> elapsed_ms P ep (note_transition P n s t w) = elapsed_ms P ep w"
  by (simp add: elapsed_ms_def start_note_now)

lemma start_slot_time:
  assumes T: "start_timely P" and go: "start_slot P S kg ep j st = Go st'"
    and len: "j < length (st_pending st)" "j < length (st_armed st)"
  shows "w_now (st_world st') = w_now (st_world st)"
    and "st_armed st ! j = UNARMED \<Longrightarrow> st_armed st' ! j \<noteq> UNARMED \<Longrightarrow> st_armed st' ! j = arm_ms P ep (st_world st)"
    and "st_pending st' ! j \<Longrightarrow> \<not> list_ex (\<lambda>d. st_pending st ! d) (deps_row S j) \<Longrightarrow>
      elapsed_ms P ep (st_world st) < start_due P S st' j"
proof -
  show "w_now (st_world st') = w_now (st_world st)"
    using go
    by (auto simp: start_slot_def try_slot_def spawn_slot_now_def unsatisfied_def settle_slot_def Let_def
        start_note_now[OF T] resume_slot_def
        split: if_splits option.splits prod.splits sum.splits gate_test.splits
        dest: call_spawn_now[OF T])
  show "st_armed st ! j = UNARMED \<Longrightarrow> st_armed st' ! j \<noteq> UNARMED \<Longrightarrow> st_armed st' ! j = arm_ms P ep (st_world st)"
    using go len
    by (auto simp: start_slot_def try_slot_def spawn_slot_now_def unsatisfied_def settle_slot_def ask_pass_def Let_def
        split: if_splits option.splits prod.splits sum.splits gate_test.splits)
  show "st_pending st' ! j \<Longrightarrow> \<not> list_ex (\<lambda>d. st_pending st ! d) (deps_row S j) \<Longrightarrow>
      elapsed_ms P ep (st_world st) < start_due P S st' j"
    using go len
    by (auto simp: start_slot_def try_slot_def spawn_slot_now_def unsatisfied_def settle_slot_def ask_pass_def Let_def
        start_due_def start_elapsed_note[OF T]
        split: if_splits option.splits prod.splits sum.splits gate_test.splits)
qed

section \<open>The potential\<close>

definition gate_window :: "platform \<Rightarrow> nref \<Rightarrow> nat" where
  "gate_window P n = from_millis (p_time P) (as_millis (p_time P) (slot_timeout (p_cfg P n)))"

definition pend_pot :: "platform \<Rightarrow> supervisor \<Rightarrow> nat \<Rightarrow> start_state \<Rightarrow> nat \<Rightarrow> nat" where
  "pend_pot P S ep st j =
     (if st_pending st ! j
      then if st_armed st ! j = UNARMED then gate_window P (the (node_at S j)) + 2
           else Suc (ticks_left (p_time P) (start_due P S st j) (w_now (st_world st) - ep))
      else 0)"

definition start_pot :: "platform \<Rightarrow> supervisor \<Rightarrow> nat \<Rightarrow> start_state \<Rightarrow> nat" where
  "start_pot P S ep st = (\<Sum>j < s_size S. pend_pot P S ep st j)"

lemma start_pot_flags [simp]:
  "start_pot P S ep (st\<lparr>st_progress := b\<rparr>) = start_pot P S ep st"
  "start_pot P S ep (st\<lparr>st_waiting := b\<rparr>) = start_pot P S ep st"
  "start_pot P S ep (st\<lparr>st_own_pass := b\<rparr>) = start_pot P S ep st"
  by (simp_all add: start_pot_def pend_pot_def start_due_def cong: if_cong)

lemma ticks_left_arm:
  assumes "time_laws (p_time P)" "st_armed st ! j = arm_ms P ep w"
  shows "ticks_left (p_time P) (start_due P S st j) (w_now w - ep) \<le> gate_window P (the (node_at S j))"
proof (rule ticks_left_le)
  have "arm_ms P ep w = stamp_ms P ep w"
    by (simp add: arm_ms_def stamp_ms_def UNARMED_def UNSIGNALED_def)
  then have "unat (st_armed st ! j) \<le> elapsed_ms P ep w" using stamp_le[of P ep w] assms(2) by simp
  moreover have "elapsed_ms P ep w + as_millis (p_time P) (slot_timeout (p_cfg P n))
      \<le> as_millis (p_time P) (w_now w - ep + gate_window P n)" for n
    using assms unfolding time_laws_def elapsed_ms_def gate_window_def by blast
  ultimately show "start_due P S st j \<le> as_millis (p_time P) (w_now w - ep + gate_window P (the (node_at S j)))"
    unfolding start_due_def using le_trans add_le_mono1 by blast
qed

lemma body_pot:
  assumes T: "start_timely P" and bm: "body_moves S j st st'" and j: "j < s_size S"
    and now: "w_now (st_world st') = w_now (st_world st)"
    and arm: "st_armed st ! j = UNARMED \<Longrightarrow> st_armed st' ! j \<noteq> UNARMED \<Longrightarrow> st_armed st' ! j = arm_ms P ep (st_world st)"
  shows "start_pot P S ep st' \<le> start_pot P S ep st"
    and "st_progress st' \<Longrightarrow> \<not> st_progress st \<Longrightarrow> start_pot P S ep st' < start_pot P S ep st"
proof -
  have tl: "time_laws (p_time P)" using T by (simp add: start_timely_def timely_def)
  have le: "pend_pot P S ep st' i \<le> pend_pot P S ep st i" for i
  proof (cases "i = j")
    case False
    then show ?thesis using bm by (simp add: pend_pot_def body_moves_def now start_due_def)
  next
    case ij: True
    show ?thesis
    proof (cases "st_armed st ! j = UNARMED \<and> st_armed st' ! j \<noteq> UNARMED")
      case True
      then have "ticks_left (p_time P) (start_due P S st' j) (w_now (st_world st) - ep) \<le> gate_window P (the (node_at S j))"
        by (intro ticks_left_arm[OF tl]) (use arm in auto)
      with True bm ij show ?thesis by (simp add: pend_pot_def body_moves_def now)
    next
      case False
      with bm ij show ?thesis by (auto simp: pend_pot_def body_moves_def now start_due_def)
    qed
  qed
  then show "start_pot P S ep st' \<le> start_pot P S ep st" unfolding start_pot_def by (intro sum_mono) auto
  show "start_pot P S ep st' < start_pot P S ep st" if "st_progress st'" "\<not> st_progress st"
    unfolding start_pot_def
  proof (rule sum_drop[where j = j])
    show "pend_pot P S ep st' j < pend_pot P S ep st j"
      using bm that by (simp add: pend_pot_def body_moves_def)
  qed (use le j in auto)
qed

section \<open>One round\<close>

definition pend_inv :: "platform \<Rightarrow> supervisor \<Rightarrow> nat \<Rightarrow> start_state \<Rightarrow> bool" where
  "pend_inv P S ep st \<longleftrightarrow> length (st_pending st) = s_size S \<and> length (st_armed st) = s_size S
     \<and> (\<forall>j < s_size S. st_pending st ! j \<longrightarrow> node_at S j \<noteq> None)
     \<and> (start_timely P \<longrightarrow> ep \<le> w_now (st_world st))"

text \<open>What the slots \<open>ys\<close> of a round did to the state \<open>st0\<close> it began with.\<close>

definition round_inv :: "platform \<Rightarrow> supervisor \<Rightarrow> nat \<Rightarrow> start_state \<Rightarrow> nat list \<Rightarrow> start_state \<Rightarrow> bool" where
  "round_inv P S ep st0 ys s \<longleftrightarrow> pend_inv P S ep s
     \<and> (start_timely P \<longrightarrow> w_now (st_world s) = w_now (st_world st0)
          \<and> start_pot P S ep s \<le> start_pot P S ep st0
          \<and> (st_progress s \<longrightarrow> start_pot P S ep s < start_pot P S ep st0))
     \<and> (\<not> st_progress s \<longrightarrow> st_pending s = st_pending st0
          \<and> (st_waiting s \<longrightarrow> (\<exists>i < s_size S. st_pending st0 ! i))
          \<and> (\<forall>i \<in> set ys. st_pending st0 ! i \<and> \<not> list_ex (\<lambda>d. st_pending st0 ! d) (deps_row S i)
               \<longrightarrow> st_armed s ! i \<noteq> UNARMED
                 \<and> (start_timely P \<longrightarrow> elapsed_ms P ep (st_world st0) < start_due P S s i)))"

lemma round_inv_step:
  assumes x: "x < s_size S" and I: "round_inv P S ep st0 ys s" and np: "\<not> st_progress st0"
  shows "flow_ok (round_inv P S ep st0 (ys @ [x])) (\<lambda>r s. True) (start_slot P S kg ep x s)"
proof (cases "start_slot P S kg ep x s")
  case (Go s')
  have len: "x < length (st_pending s)" "x < length (st_armed s)" using I x by (auto simp: round_inv_def pend_inv_def)
  note bm = start_slot_moves[OF Go len]
  have time: "w_now (st_world s') = w_now (st_world s)" if "start_timely P"
    using start_slot_time(1)[OF that Go len] .
  have pot: "start_pot P S ep s' \<le> start_pot P S ep s"
    "st_progress s' \<Longrightarrow> \<not> st_progress s \<Longrightarrow> start_pot P S ep s' < start_pot P S ep s" if T: "start_timely P"
    using body_pot[OF T bm x time[OF T]] start_slot_time(2)[OF T Go len] by blast+
  have shrink: "st_pending s ! i" if "st_pending s' ! i" for i
    using bm that by (cases "i = x") (auto simp: body_moves_def)
  have l: "length (st_pending s') = length (st_pending s)" "length (st_armed s') = length (st_armed s)"
    using bm by (auto simp: body_moves_def)
  have pi: "pend_inv P S ep s'"
    using I shrink l time unfolding round_inv_def pend_inv_def by metis
  have due: "start_due P S s' i = start_due P S s i" if "st_armed s ! i \<noteq> UNARMED" for i
    using bm that by (cases "i = x") (auto simp: start_due_def body_moves_def)
  have keep: "st_armed s' ! i \<noteq> UNARMED" if "st_armed s ! i \<noteq> UNARMED" for i
    using bm that by (cases "i = x") (auto simp: body_moves_def)
  have el: "elapsed_ms P ep (st_world s) = elapsed_ms P ep (st_world st0)" if "start_timely P"
    using I that by (simp add: round_inv_def elapsed_ms_def)
  have new: "st_armed s' ! x \<noteq> UNARMED \<and> (start_timely P \<longrightarrow> elapsed_ms P ep (st_world st0) < start_due P S s' x)"
    if "\<not> st_progress s'" "st_pending st0 ! x" "\<not> list_ex (\<lambda>d. st_pending st0 ! d) (deps_row S x)"
  proof -
    have "st_pending s' = st_pending s" "st_pending s = st_pending st0"
      using that bm I by (auto simp: body_moves_def round_inv_def)
    then show ?thesis
      using that bm start_slot_time(3)[OF _ Go len] el by (auto simp: body_moves_def)
  qed
  have "round_inv P S ep st0 (ys @ [x]) s'"
    unfolding round_inv_def
  proof (intro conjI impI)
    show "pend_inv P S ep s'" by (rule pi)
  next
    assume T: "start_timely P"
    then show "w_now (st_world s') = w_now (st_world st0)" "start_pot P S ep s' \<le> start_pot P S ep st0"
      using I time pot(1) by (auto simp: round_inv_def intro: le_trans)
    show "start_pot P S ep s' < start_pot P S ep st0" if "st_progress s'"
      using I T pot that by (cases "st_progress s") (auto simp: round_inv_def intro: le_less_trans less_le_trans)
  next
    assume n: "\<not> st_progress s'"
    then have ns: "\<not> st_progress s" using bm by (auto simp: body_moves_def)
    show "st_pending s' = st_pending st0" using n ns bm I by (auto simp: body_moves_def round_inv_def)
    show "\<exists>i < s_size S. st_pending st0 ! i" if "st_waiting s'"
      using that ns n bm I x by (auto simp: body_moves_def round_inv_def)
    show "\<forall>i \<in> set (ys @ [x]). st_pending st0 ! i \<and> \<not> list_ex (\<lambda>d. st_pending st0 ! d) (deps_row S i)
               \<longrightarrow> st_armed s' ! i \<noteq> UNARMED
                 \<and> (start_timely P \<longrightarrow> elapsed_ms P ep (st_world st0) < start_due P S s' i)"
      using I ns new[OF n] keep due unfolding round_inv_def by auto
  qed
  then show ?thesis by (simp add: Go)
next
  case Panic
  then show ?thesis using start_slot_no_panic[of s x S P kg ep] I x by (auto simp: round_inv_def pend_inv_def)
qed simp

lemma first_pending:
  assumes "wf_sup S" "i < s_size S" "pending ! i"
  obtains j where "j < s_size S" "pending ! j" "\<not> list_ex (\<lambda>d. pending ! d) (deps_row S j)"
proof -
  let ?o = "order_iter S"
  have len: "length ?o = s_size S" and st: "set ?o = {..<s_size S}" using wf_sup_order[OF assms(1)] by auto
  obtain k0 where "k0 < s_size S" "?o ! k0 = i" using st len assms(2) by (metis in_set_conv_nth lessThan_iff)
  then have ex: "\<exists>k. k < s_size S \<and> pending ! (?o ! k)" using assms(3) by blast
  define k where "k = (LEAST k. k < s_size S \<and> pending ! (?o ! k))"
  have k: "k < s_size S" "pending ! (?o ! k)" unfolding k_def using LeastI_ex[OF ex] by auto
  have "\<not> pending ! d" if "d \<in> set (deps_row S (?o ! k))" for d
  proof
    assume d: "pending ! d"
    from that wf_sup_order(4)[OF assms(1) k(1)] have "d \<in> set (take k ?o)" by blast
    then obtain m where "m < k" "?o ! m = d"
      using k(1) len by (auto simp: in_set_conv_nth)
    with d k(1) not_less_Least[of m "\<lambda>k. k < s_size S \<and> pending ! (?o ! k)"] show False
      unfolding k_def[symmetric] by auto
  qed
  then have "\<not> list_ex (\<lambda>d. pending ! d) (deps_row S (?o ! k))" by (auto simp: list_ex_iff)
  moreover have "?o ! k < s_size S" using k(1) st len by (metis lessThan_iff nth_mem)
  ultimately show thesis using that k(2) by blast
qed


lemma start_await_pot:
  assumes T: "start_timely P" and ep: "ep \<le> w_now (st_world st)"
    and j: "j < s_size S" "st_pending st ! j" "st_armed st ! j \<noteq> UNARMED"
    and early: "elapsed_ms P ep (st_world st) < start_due P S st j"
    and w': "w_now (st_world st) < w_now w'"
  shows "start_pot P S ep (st\<lparr>st_world := w'\<rparr>) < start_pot P S ep st"
  unfolding start_pot_def
proof (rule sum_drop)
  have tl: "time_laws (p_time P)" using T by (simp add: start_timely_def timely_def)
  obtain d where d: "w_now w' - ep = (w_now (st_world st) - ep) + Suc d"
    using w' ep by (metis Nat.diff_add_assoc2 add_Suc_right less_imp_Suc_add)
  have later: "ticks_left (p_time P) due (w_now w' - ep) \<le> ticks_left (p_time P) due (w_now (st_world st) - ep) - Suc d" for due
    unfolding d by (rule ticks_left_later[OF tl])
  have due: "start_due P S (st\<lparr>st_world := w'\<rparr>) i = start_due P S st i" for i
    by (simp add: start_due_def)
  show "pend_pot P S ep (st\<lparr>st_world := w'\<rparr>) i \<le> pend_pot P S ep st i" if "i < s_size S" for i
    using later[THEN order_trans] by (auto simp: pend_pot_def due)
  have "0 < ticks_left (p_time P) (start_due P S st j) (w_now (st_world st) - ep)"
    using ticks_left_pos[OF _ tl] early by (simp add: elapsed_ms_def)
  with later[of "start_due P S st j"]
  show "pend_pot P S ep (st\<lparr>st_world := w'\<rparr>) j < pend_pot P S ep st j"
    using j by (simp add: pend_pot_def due)
qed (rule j(1))

lemma await_advances: "start_timely P \<Longrightarrow> w_now w < w_now (await P w)"
  by (simp add: start_timely_def timely_def clock_runs_def await_def)

lemma start_round_live:
  assumes wf: "wf_sup S" and pi: "pend_inv P S ep st"
  shows "flow_ok (\<lambda>st'. pend_inv P S ep st' \<and> (start_timely P \<longrightarrow> start_pot P S ep st' < start_pot P S ep st))
    (\<lambda>r s. True) (start_round P S kg ep st)"
proof -
  define st0 where "st0 = st\<lparr>st_progress := False, st_waiting := False, st_own_pass := False\<rparr>"
  have pot0: "start_pot P S ep st0 = start_pot P S ep st" by (simp add: st0_def)
  have "round_inv P S ep st0 [] st0"
    using pi by (simp add: round_inv_def pend_inv_def) (simp add: st0_def pend_inv_def)
  then have pass: "flow_ok (round_inv P S ep st0 (order_iter S)) (\<lambda>r s. True)
      (each (start_slot P S kg ep) (order_iter S) st0)"
  proof (rule each_ok_prefix[rotated])
    fix ys x zs s assume split: "order_iter S = ys @ x # zs" and I: "round_inv P S ep st0 ys s"
    have "set (ys @ x # zs) = {..<s_size S}"
      unfolding split[symmetric] using wf_sup_order(1)[OF wf] by simp
    then have x: "x < s_size S" by auto
    show "flow_ok (round_inv P S ep st0 (ys @ [x])) (\<lambda>r s. True) (start_slot P S kg ep x s)"
      by (rule round_inv_step[OF x I]) (simp add: st0_def)
  qed
  show ?thesis
  proof (cases "each (start_slot P S kg ep) (order_iter S) st0")
    case (Go s)
    with pass have ri: "round_inv P S ep st0 (order_iter S) s" by simp
    then have ps: "pend_inv P S ep s" by (simp add: round_inv_def)
    consider "\<not> st_waiting s" | "st_waiting s" "st_progress s" | "st_waiting s" "\<not> st_progress s" by blast
    then show ?thesis
    proof cases
      case 3
      then obtain i where i: "i < s_size S" "st_pending s ! i" and same: "st_pending s = st_pending st0"
        using ri by (auto simp: round_inv_def)
      from first_pending[OF wf i] obtain j where j: "j < s_size S" "st_pending s ! j"
        "\<not> list_ex (\<lambda>d. st_pending s ! d) (deps_row S j)" by blast
      then have arm: "st_armed s ! j \<noteq> UNARMED"
        and early: "start_timely P \<Longrightarrow> elapsed_ms P ep (st_world s) < start_due P S s j"
        using ri 3 same wf_sup_order(1)[OF wf] by (auto simp: round_inv_def elapsed_ms_def)
      have "j \<in> set (armed_pending S s)" using j arm wf_sup_order(1)[OF wf] by (simp add: armed_pending_def)
      moreover have "\<forall>k \<in> set (armed_pending S s). node_at S k \<noteq> None"
        using ps wf_sup_order(1)[OF wf] by (auto simp: armed_pending_def pend_inv_def)
      moreover have "armed_pending S s \<noteq> []" using \<open>j \<in> _\<close> by auto
      ultimately obtain d where d: "start_deadline P S ep s = Some d"
        by (auto simp: start_deadline_def Let_def list_ex_iff)
      have fin: "pend_inv P S ep (s\<lparr>st_world := await P w\<rparr>)
          \<and> (start_timely P \<longrightarrow> start_pot P S ep (s\<lparr>st_world := await P w\<rparr>) < start_pot P S ep st)"
        if w: "w_now w = w_now (st_world s)" for w
      proof -
        have adv: "w_now (st_world s) < w_now (await P w)" if "start_timely P"
          using await_advances[OF that, of w] w by simp
        have "start_pot P S ep (s\<lparr>st_world := await P w\<rparr>) < start_pot P S ep s" if T: "start_timely P"
          by (rule start_await_pot[OF T _ j(1,2) arm early[OF T] adv[OF T]]) (use ps T in \<open>simp add: pend_inv_def\<close>)
        then show ?thesis using ps ri adv pot0 by (auto simp: pend_inv_def round_inv_def)
      qed
      show ?thesis
        using 3 Go d fin[of "st_world s"] fin[of "(st_world s)\<lparr>gate_evt := Wait # gate_evt (st_world s)\<rparr>"]
        by (simp add: start_round_def st0_def[symmetric] Let_def)
    qed (use Go ri ps pot0 in \<open>auto simp: start_round_def st0_def[symmetric] round_inv_def\<close>)
  qed (use pass in \<open>auto simp: start_round_def st0_def[symmetric]\<close>)
qed

section \<open>The wave\<close>

lemma start_rounds_live:
  assumes "wf_sup S"
  shows "pend_inv P S ep st \<Longrightarrow>
    fst (start_rounds fuel P S kg ep st) \<noteq> Panicked
    \<and> (start_timely P \<and> start_pot P S ep st < fuel
         \<longrightarrow> (\<exists>res w'. start_rounds fuel P S kg ep st = (Ready res, w')))"
proof (induction fuel arbitrary: st)
  case (Suc fuel)
  show ?case
  proof (cases "start_round P S kg ep st")
    case (Go st')
    then show ?thesis
      using start_round_live[OF assms Suc.prems, where kg = kg] Suc.IH[of st'] by auto
  qed (use start_round_live[OF assms Suc.prems, where kg = kg] in auto)
qed simp

lemma occupied_choose:
  "occupied S chosen \<Longrightarrow> node_at S j = Some n \<Longrightarrow> occupied S (if b then chosen[j := True] else chosen)"
  by (cases "j < length chosen")
    (auto simp: occupied_def nth_list_update list_update_beyond split: if_splits)

lemma select_slots_occupied:
  "occupied S chosen \<Longrightarrow> occupied S (fst (select_slots S sel js (chosen, w)))"
proof (induction js arbitrary: chosen w)
  case (Cons j js)
  show ?case
  proof (cases "node_at S j")
    case (Some n)
    obtain yes w1 where "sel j n w = (yes, w1)" by force
    then show ?thesis using Some Cons.IH[OF occupied_choose[OF Cons.prems Some]] by simp
  qed (use Cons in simp)
qed simp

lemma occupied_none: "occupied S (replicate (s_size S) False)"
  by (simp add: occupied_def)

definition start_budget :: "platform \<Rightarrow> supervisor \<Rightarrow> nat" where
  "start_budget P S =
     (\<Sum>j < s_size S. case node_at S j of None \<Rightarrow> 0 | Some n \<Rightarrow> gate_window P n + 2)"

lemma start_begin_pend:
  "occupied S chosen \<Longrightarrow> pend_inv P S (w_now w) (start_begin S chosen w)"
  by (simp add: pend_inv_def start_begin_def occupied_def)

lemma start_begin_pot:
  assumes "occupied S chosen"
  shows "start_pot P S ep (start_begin S chosen w) \<le> start_budget P S"
  unfolding start_pot_def start_budget_def
  by (rule sum_mono) (use assms in \<open>auto simp: pend_pot_def start_begin_def occupied_def split: option.splits\<close>)

text \<open>
  Bringing a graph up never panics: whatever the selection, the tasks, the clock and the
  spawn functions do, none of the three \<open>expect\<close>s of the start wave can fail, because a slot
  whose dependencies are dealt with is always armed before the wave waits.
\<close>

theorem start_nodes_never_panics:
  assumes "wf_sup S"
  shows "fst (start_nodes fuel P S sel keep_going w) \<noteq> Panicked"
proof -
  obtain chosen w1 where sel: "select_slots S sel (order_iter S) (replicate (s_size S) False, w) = (chosen, w1)" by force
  have occ: "occupied S chosen"
    using select_slots_occupied[OF occupied_none, of S sel "order_iter S" w] sel by simp
  show ?thesis
    unfolding start_nodes_def using sel start_rounds_live[OF assms start_begin_pend[OF occ]] by simp
qed

text \<open>
  C5. Bringing a graph up returns: with a clock that moves during every await, the wave ends
  within the sum over the slots of their gate budgets and two rounds each, even when no gate
  ever opens and every spawn is refused.
\<close>

theorem start_nodes_returns:
  assumes "wf_sup S" "start_timely P" "start_budget P S < fuel"
  shows "\<exists>res w'. start_nodes fuel P S sel keep_going w = (Ready res, w')"
proof -
  obtain chosen w1 where sel: "select_slots S sel (order_iter S) (replicate (s_size S) False, w) = (chosen, w1)" by force
  have occ: "occupied S chosen"
    using select_slots_occupied[OF occupied_none, of S sel "order_iter S" w] sel by simp
  have "start_pot P S (w_now w1) (start_begin S chosen w1) < fuel"
    using start_begin_pot[OF occ] assms(3) by (rule le_less_trans)
  then show ?thesis
    unfolding start_nodes_def using sel start_rounds_live[OF assms(1) start_begin_pend[OF occ]] assms(2) by simp
qed

theorem start_nodes_never_panics_witness:
  "fst (start_nodes 3 acking two_nodes all_slots True world_new) \<noteq> Panicked"
  by (rule start_nodes_never_panics[OF wf_two_nodes])

lemma acking_start_timely: "start_timely acking"
proof -
  have "spawns_instant acking"
    by (simp add: spawns_instant_def acking_def plain_platform_def plain_cfg_def cfg_new_def)
  then show ?thesis using acking_timely by (simp add: start_timely_def)
qed

theorem start_nodes_returns_witness:
  "\<exists>res w'. start_nodes 300 acking two_nodes all_slots False world_new = (Ready res, w')"
proof (rule start_nodes_returns[OF wf_two_nodes acking_start_timely])
  have "gate_window acking n = 100" for n
    by (simp add: gate_window_def acking_def plain_platform_def plain_cfg_def cfg_new_def plain_time_def
        SLOT_READY_TIMEOUT_def)
  then show "start_budget acking two_nodes < 300"
    by (simp add: start_budget_def two_nodes_def s_size_def node_at_def lessThan_Suc numeral_2_eq_2)
qed

end
