(* ===== verification/Verbs.thy ===== *)
theory Verbs
  imports Start_Live
begin

text \<open>
  The single-node verbs of \<open>Supervisor\<close> in \<^verbatim>\<open>supervisor/src/lib.rs\<close> and the bounded waits
  they are built from: the gate sequence, the settled spawn, \<open>start_node\<close>, \<open>stop_node\<close> and
  \<open>resume_node\<close>. Every loop takes a number of rounds and is \<open>Pending\<close> when they are used up.
\<close>

section \<open>Bounded waits\<close>

text \<open>
  A loop that looks at a condition until it holds or the deadline has passed. \<open>poll\<close> is what
  a failed look does to the signals before the timer is looked at, \<open>park\<close> what is done to them
  before the await.
\<close>

fun wait_until :: "nat \<Rightarrow> platform \<Rightarrow> (world \<Rightarrow> world) \<Rightarrow> (world \<Rightarrow> world) \<Rightarrow> nat \<Rightarrow> (world \<Rightarrow> bool)
     \<Rightarrow> world \<Rightarrow> bool run \<times> world" where
  "wait_until 0 P poll park deadline cond w = (Pending, w)"
| "wait_until (Suc fuel) P poll park deadline cond w =
     (if cond w then (Ready True, w)
      else let w1 = poll w in
        if deadline \<le> w_now w1 then (Ready False, w1)
        else wait_until fuel P poll park deadline cond (await P (park w1)))"

fun run_then :: "'a run \<times> 's \<Rightarrow> ('a \<Rightarrow> 's \<Rightarrow> 'b run \<times> 's) \<Rightarrow> 'b run \<times> 's" where
  "run_then (Ready a, w) k = k a w"
| "run_then (Panicked, w) k = (Panicked, w)"
| "run_then (Pending, w) k = (Pending, w)"

text \<open>The \<open>?\<close> operator.\<close>

fun run_ok :: "('e + 'a) run \<times> world \<Rightarrow> ('a \<Rightarrow> world \<Rightarrow> ('e + 'b) run \<times> world) \<Rightarrow> ('e + 'b) run \<times> world" where
  "run_ok (Ready (Inr a), w) k = k a w"
| "run_ok (Ready (Inl e), w) k = (Ready (Inl e), w)"
| "run_ok (Panicked, w) k = (Panicked, w)"
| "run_ok (Pending, w) k = (Pending, w)"

definition wait_gate_mark :: "world \<Rightarrow> world" where
  "wait_gate_mark w = w\<lparr>gate_evt := Wait # gate_evt w\<rparr>"

definition wait_gate_until :: "nat \<Rightarrow> platform \<Rightarrow> nat \<Rightarrow> (world \<Rightarrow> bool) \<Rightarrow> world \<Rightarrow> bool run \<times> world" where
  "wait_gate_until fuel P deadline cond w = wait_until fuel P id wait_gate_mark deadline cond w"

text \<open>\<open>with_timeout\<close> around a loop that looks at \<open>cond\<close> and polls a signal.\<close>

definition with_timeout :: "nat \<Rightarrow> platform \<Rightarrow> nat \<Rightarrow> (world \<Rightarrow> world) \<Rightarrow> (world \<Rightarrow> bool) \<Rightarrow> world
     \<Rightarrow> bool run \<times> world" where
  "with_timeout fuel P timeout poll cond w = wait_until fuel P poll id (w_now w + timeout) cond w"

section \<open>The gates of one node\<close>

fun gate_poll_filled :: "'a gate \<Rightarrow> 'a gate" where
  "gate_poll_filled (SlotGate r) = SlotGate (r\<lparr>rs_filled := Wait # rs_filled r\<rparr>)"
| "gate_poll_filled (BudgetGate b) = BudgetGate (b\<lparr>filled := Wait # filled b\<rparr>)"

definition poll_slot :: "nat \<Rightarrow> world \<Rightarrow> world" where
  "poll_slot s w = w\<lparr>w_slots := (w_slots w)(s := (w_slots w s)\<lparr>sp_filled := Wait # sp_filled (w_slots w s)\<rparr>)\<rparr>"

definition poll_gate :: "nat \<Rightarrow> world \<Rightarrow> world" where
  "poll_gate g w = w\<lparr>w_gates := (w_gates w)(g := gate_poll_filled (w_gates w g))\<rparr>"

definition poll_ready :: "nref \<Rightarrow> world \<Rightarrow> world" where
  "poll_ready d w = on_handle d (\<lambda>h. h\<lparr>ready_wake := Wait # ready_wake h\<rparr>) w"

type_synonym outcome_run = "(node_fault + unit) run \<times> world"

definition await_spawn_slot :: "nat \<Rightarrow> platform \<Rightarrow> nref \<Rightarrow> world \<Rightarrow> outcome_run" where
  "await_spawn_slot fuel P n w =
     (case spawn_slot (p_cfg P n) of
        None \<Rightarrow> (Ready (Inr ()), w)
      | Some s \<Rightarrow>
          run_then (with_timeout fuel P (slot_timeout (p_cfg P n)) (poll_slot s)
                     (\<lambda>w. sp_get (w_slots w s) \<noteq> None) w)
            (\<lambda>ok w1. (Ready (if ok then Inr () else Inl (NodeFault n ExecutorSlotEmpty)), w1)))"

fun await_gate_list :: "nat \<Rightarrow> platform \<Rightarrow> nref \<Rightarrow> nat list \<Rightarrow> world \<Rightarrow> outcome_run" where
  "await_gate_list fuel P n [] w = (Ready (Inr ()), w)"
| "await_gate_list fuel P n (g # gs) w =
     run_then (with_timeout fuel P (slot_timeout (p_cfg P n)) (poll_gate g)
                (\<lambda>w. gate_is_filled (w_gates w g)) w)
       (\<lambda>ok w1. if ok then await_gate_list fuel P n gs w1
                else (Ready (Inl (NodeFault n ResourceMissing)), w1))"

definition await_resources :: "nat \<Rightarrow> platform \<Rightarrow> nref \<Rightarrow> world \<Rightarrow> outcome_run" where
  "await_resources fuel P n w = await_gate_list fuel P n (resource_gates (p_cfg P n)) w"

fun await_dep_list :: "nat \<Rightarrow> platform \<Rightarrow> nref \<Rightarrow> nref list \<Rightarrow> world \<Rightarrow> outcome_run" where
  "await_dep_list fuel P n [] w = (Ready (Inr ()), w)"
| "await_dep_list fuel P n (d # ds) w =
     run_then (with_timeout fuel P (slot_timeout (p_cfg P n)) (poll_ready d)
                (\<lambda>w. is_ready (w_h w d)) w)
       (\<lambda>ok w1. if ok then await_dep_list fuel P n ds w1
                else (Ready (Inl (NodeFault n (ReadyDepTimeout d))), w1))"

definition await_ready_deps :: "nat \<Rightarrow> platform \<Rightarrow> nref \<Rightarrow> world \<Rightarrow> outcome_run" where
  "await_ready_deps fuel P n w = await_dep_list fuel P n (ready_deps (p_cfg P n)) w"

definition await_gates :: "nat \<Rightarrow> platform \<Rightarrow> supervisor \<Rightarrow> nref \<Rightarrow> world \<Rightarrow> outcome_run" where
  "await_gates fuel P S n w =
     run_ok (if s_has S SHAPE_EXEC_SLOTS then await_spawn_slot fuel P n w else (Ready (Inr ()), w)) (\<lambda>_ w1.
     run_ok (if s_has S SHAPE_RESOURCES then await_resources fuel P n w1 else (Ready (Inr ()), w1)) (\<lambda>_ w2.
     if s_has S SHAPE_READY_DEPS then await_ready_deps fuel P n w2 else (Ready (Inr ()), w2)))"

section \<open>Spawning once the previous instance has let go\<close>

definition executor_pass :: "nat \<Rightarrow> platform \<Rightarrow> nref \<Rightarrow> nat \<Rightarrow> world \<Rightarrow> unit run \<times> world" where
  "executor_pass fuel P n deadline w =
     (case spawn_slot (p_cfg P n) of
        Some s \<Rightarrow>
          (let seen = sp_passes (w_slots w s);
               (asked, s1) = request_pass (w_slots w s);
               w1 = w\<lparr>w_slots := (w_slots w)(s := s1)\<rparr>
           in if asked
              then run_then (wait_gate_until fuel P deadline (\<lambda>w. sp_passes (w_slots w s) \<noteq> seen) w1)
                     (\<lambda>_ w2. (Ready (), w2))
              else (Ready (), await P (wait_gate_mark w1)))
      | None \<Rightarrow> (Ready (), await P w))"

fun spawn_rounds :: "nat \<Rightarrow> nat \<Rightarrow> platform \<Rightarrow> nref \<Rightarrow> (world \<Rightarrow> (spawn_error + unit) \<times> world) \<Rightarrow> nat
     \<Rightarrow> world \<Rightarrow> (spawn_error + unit) run \<times> world" where
  "spawn_rounds 0 fuel P n spawn deadline w = (Pending, w)"
| "spawn_rounds (Suc rounds) fuel P n spawn deadline w =
     (case call_spawn spawn (on_handle n reset w) of
        (Inr _, w1) \<Rightarrow> (Ready (Inr ()), w1)
      | (Inl err, w1) \<Rightarrow>
          if deadline \<le> w_now w1 then (Ready (Inl err), w1)
          else run_then (executor_pass fuel P n deadline w1)
                 (\<lambda>_ w2. spawn_rounds rounds fuel P n spawn deadline w2))"

definition spawn_settled :: "nat \<Rightarrow> platform \<Rightarrow> nref \<Rightarrow> (world \<Rightarrow> (spawn_error + unit) \<times> world) \<Rightarrow> nat
     \<Rightarrow> world \<Rightarrow> (spawn_error + unit) run \<times> world" where
  "spawn_settled fuel P n spawn deadline w =
     run_then (wait_gate_until fuel P deadline (\<lambda>w. is_settled (w_h w n)) w) (\<lambda>ok w1.
       if \<not> ok then (Ready (Inl SpawnBusy), w1) else spawn_rounds fuel fuel P n spawn deadline w1)"

section \<open>Starting a node\<close>

text \<open>A missing bound dependency parks the node instead of faulting it.\<close>

fun parks_on :: "platform \<Rightarrow> nref \<Rightarrow> fault_kind \<Rightarrow> bool" where
  "parks_on P n (ReadyDepTimeout d) = (d \<in> set (bound_deps (p_cfg P n)))"
| "parks_on P n _ = False"

definition node_up :: "platform \<Rightarrow> supervisor \<Rightarrow> nref \<Rightarrow> world \<Rightarrow> world" where
  "node_up P S n w =
     note_verb P S n Started (on_handle n (flag_clear BOUND_STOPPED) (set_running P True n w))"

definition start_node :: "nat \<Rightarrow> platform \<Rightarrow> supervisor \<Rightarrow> nref \<Rightarrow> world \<Rightarrow> outcome_run" where
  "start_node fuel P S n w =
     (let w1 = note_verb P S n Spawning (on_handle n (flag_clear COLLATERAL) w) in
      case cfg_spawn (p_cfg P n) of
        None \<Rightarrow> (Ready (Inr ()), node_up P S n (on_handle n reset w1))
      | Some spawn \<Rightarrow>
          run_then (await_gates fuel P S n w1) (\<lambda>r w2.
            case r of
              Inl f \<Rightarrow>
                if parks_on P n (nf_kind f)
                then (Ready (Inr ()), on_handle n (flag_set BOUND_STOPPED) w2)
                else (Ready (Inl f), note_verb P S n (Faulted (nf_kind f)) w2)
            | Inr _ \<Rightarrow>
                run_then (spawn_settled fuel P n spawn (w_now w2 + slot_timeout (p_cfg P n)) w2) (\<lambda>r w3.
                  case r of
                    Inl err \<Rightarrow>
                      (let kind = SpawnFailed err
                       in (Ready (Inl (NodeFault n kind)), note_verb P S n (Faulted kind) w3))
                  | Inr _ \<Rightarrow> (Ready (Inr ()), node_up P S n w3))))"

section \<open>Stopping a node\<close>

text \<open>
  \<open>select(wait_dropped(), Timer)\<close>: the first poll looks at the flag, later ones only at the
  signal. \<open>True\<close> is the acknowledgement.
\<close>

fun dropped_rounds :: "nat \<Rightarrow> platform \<Rightarrow> nref \<Rightarrow> nat \<Rightarrow> world \<Rightarrow> bool run \<times> world" where
  "dropped_rounds 0 P n deadline w = (Pending, w)"
| "dropped_rounds (Suc fuel) P n deadline w =
     (let ready = p_sig_ready P (dropped_wake (w_h w n));
          w1 = on_handle n (\<lambda>h. h\<lparr>dropped_wake := Wait # dropped_wake h\<rparr>) w
      in if ready then (Ready True, w1)
         else if deadline \<le> w_now w1 then (Ready False, w1)
         else dropped_rounds fuel P n deadline (await P w1))"

definition await_dropped :: "nat \<Rightarrow> platform \<Rightarrow> nref \<Rightarrow> nat \<Rightarrow> world \<Rightarrow> bool run \<times> world" where
  "await_dropped fuel P n deadline w =
     (if has_dropped (w_h w n) then (Ready True, w) else dropped_rounds fuel P n deadline w)"

definition await_ack :: "nat \<Rightarrow> platform \<Rightarrow> supervisor \<Rightarrow> nref \<Rightarrow> world \<Rightarrow> outcome_run" where
  "await_ack fuel P S n w =
     run_then (await_dropped fuel P n (w_now w + ack_timeout (p_cfg P n)) w) (\<lambda>ok w1.
       if \<not> ok
       then case (if s_has S SHAPE_CLAIMS then release_claims P n w1 else Some w1) of
              None \<Rightarrow> (Panicked, w1)
            | Some w2 \<Rightarrow> (Ready (Inl (NodeFault n ShutdownTimeout)),
                           note_verb P S n (Faulted ShutdownTimeout) w2)
       else let w2 = set_running P False n w1
            in (Ready (Inr ()), note_verb P S n (acked (w_h w2 n)) w2))"

definition shutdown_and_wait :: "nat \<Rightarrow> platform \<Rightarrow> supervisor \<Rightarrow> nref \<Rightarrow> world \<Rightarrow> outcome_run" where
  "shutdown_and_wait fuel P S n w =
     await_ack fuel P S n (note_verb P S n StopRequested (on_handle n signal_shutdown w))"

definition stop_node :: "nat \<Rightarrow> platform \<Rightarrow> supervisor \<Rightarrow> nref \<Rightarrow> world \<Rightarrow> outcome_run" where
  "stop_node fuel P S n w =
     (if \<not> is_running (w_h w n) \<or> is_detached (w_h w n) then (Ready (Inr ()), w)
      else run_ok (shutdown_and_wait fuel P S n w) (\<lambda>_ w1. (Ready (Inr ()), w1)))"

section \<open>Resuming a parked node\<close>

definition resumable :: "platform \<Rightarrow> nref \<Rightarrow> world \<Rightarrow> bool" where
  "resumable P n w =
     (cfg_mode (p_cfg P n) = Pause \<and> \<not> is_disabled (w_h w n) \<and> \<not> is_collateral (w_h w n)
      \<and> \<not> is_detached (w_h w n) \<and> has_acked_stop (w_h w n))"

definition resume_up :: "platform \<Rightarrow> nref \<Rightarrow> world \<Rightarrow> world" where
  "resume_up P n w = set_running P True n (on_handle n signal_resume (on_handle n reset w))"

definition resume_node :: "platform \<Rightarrow> supervisor \<Rightarrow> nref \<Rightarrow> world \<Rightarrow> world" where
  "resume_node P S n w =
     (if \<not> s_has S SHAPE_PAUSE \<or> \<not> resumable P n w then w
      else note_verb P S n Resumed (resume_up P n w))"

definition resume_pausable :: "platform \<Rightarrow> supervisor \<Rightarrow> world \<Rightarrow> world" where
  "resume_pausable P S w =
     (if \<not> s_has S SHAPE_PAUSE then w
      else fold (\<lambda>j w. case node_at S j of
                         None \<Rightarrow> w
                       | Some n \<Rightarrow> if resumable P n w
                                   then note_transition P n (Some j) Resumed (resume_up P n w) else w)
             (order_iter S) w)"

end
