(* ===== verification/Verb_Live.thy ===== *)
theory Verb_Live
  imports Verbs
begin

text \<open>
  What the single-node verbs do: each records its request and one outcome, no loop of theirs
  panics, and each returns within its timeouts when the clock runs.
\<close>

section \<open>Bounded waits\<close>

text \<open>What is done to signals leaves the clock and the trace alone.\<close>

definition calm :: "(world \<Rightarrow> world) \<Rightarrow> bool" where
  "calm f \<longleftrightarrow> (\<forall>w. w_now (f w) = w_now w \<and> w_trace (f w) = w_trace w)"

lemma calmD: "calm f \<Longrightarrow> w_now (f w) = w_now w" "calm f \<Longrightarrow> w_trace (f w) = w_trace w"
  by (simp_all add: calm_def)

lemma calm_polls [simp]:
  "calm id" "calm wait_gate_mark" "calm (poll_slot s)" "calm (poll_gate g)" "calm (poll_ready d)"
  by (simp_all add: calm_def wait_gate_mark_def poll_slot_def poll_gate_def poll_ready_def)

text \<open>
  The shape every run of this file has: it does not panic, adds nothing to the trace, does not
  turn the clock back, and satisfies \<open>Q\<close> when it is ready.
\<close>

fun plain_run :: "platform \<Rightarrow> world \<Rightarrow> ('a \<Rightarrow> world \<Rightarrow> bool) \<Rightarrow> 'a run \<times> world \<Rightarrow> bool" where
  "plain_run P w Q (Ready a, w') \<longleftrightarrow> w_trace w' = w_trace w \<and> (start_timely P \<longrightarrow> w_now w \<le> w_now w') \<and> Q a w'"
| "plain_run P w Q (Pending, w') \<longleftrightarrow> w_trace w' = w_trace w"
| "plain_run P w Q (Panicked, w') \<longleftrightarrow> False"

fun returned :: "'a run \<times> world \<Rightarrow> bool" where
  "returned (Ready a, w) = True"
| "returned _ = False"

lemma plain_run_weaken: "plain_run P w Q r \<Longrightarrow> (\<And>a w'. Q a w' \<Longrightarrow> R a w') \<Longrightarrow> plain_run P w R r"
  by (cases r; cases "fst r") auto

lemma plain_run_then:
  assumes "plain_run P w Q m"
    and "\<And>a w1. Q a w1 \<Longrightarrow> w_trace w1 = w_trace w \<Longrightarrow> plain_run P w1 R (k a w1)"
  shows "plain_run P w R (run_then m k)"
proof (cases m)
  case (Pair r w1)
  show ?thesis
  proof (cases r)
    case (Ready a)
    have "plain_run P w1 R (k a w1)" using assms Pair Ready by simp
    then show ?thesis using assms(1) Pair Ready by (cases "k a w1"; cases "fst (k a w1)") auto
  qed (use assms(1) Pair in auto)
qed

lemma plain_run_ok:
  assumes "plain_run P w Q m"
    and "\<And>a w1. Q (Inr a) w1 \<Longrightarrow> w_trace w1 = w_trace w \<Longrightarrow> plain_run P w1 R (k a w1)"
    and "\<And>e w1. Q (Inl e) w1 \<Longrightarrow> R (Inl e) w1"
  shows "plain_run P w R (run_ok m k)"
proof -
  have "run_ok m k = run_then m (\<lambda>r w1. case r of Inl e \<Rightarrow> (Ready (Inl e), w1) | Inr a \<Rightarrow> k a w1)"
    by (cases "(m, k)" rule: run_ok.cases) simp_all
  moreover have "plain_run P w R (run_then m (\<lambda>r w1. case r of Inl e \<Rightarrow> (Ready (Inl e), w1) | Inr a \<Rightarrow> k a w1))"
    using assms by (intro plain_run_then[OF assms(1)]) (auto split: sum.split)
  ultimately show ?thesis by simp
qed

lemma returned_then:
  "returned m \<Longrightarrow> (\<And>a w1. m = (Ready a, w1) \<Longrightarrow> returned (k a w1)) \<Longrightarrow> returned (run_then m k)"
  by (cases "(m, k)" rule: run_then.cases) simp_all

lemma returned_ok:
  "returned m \<Longrightarrow> (\<And>a w1. m = (Ready (Inr a), w1) \<Longrightarrow> returned (k a w1)) \<Longrightarrow> returned (run_ok m k)"
  by (cases "(m, k)" rule: run_ok.cases) simp_all

lemma returned_ex: "returned m \<longleftrightarrow> (\<exists>a w. m = (Ready a, w))"
  by (cases m; cases "fst m") auto

lemma wait_until_plain:
  assumes "calm poll" "calm park"
  shows "plain_run P w (\<lambda>ok w'. ok \<longrightarrow> cond w') (wait_until fuel P poll park dl cond w)"
proof (induction fuel arbitrary: w)
  case (Suc fuel)
  let ?w = "await P (park (poll w))"
  have t: "w_trace ?w = w_trace w" and n: "start_timely P \<Longrightarrow> w_now w < w_now ?w"
    using calmD[OF assms(1)] calmD[OF assms(2)] await_advances by (auto, metis)
  from Suc[of ?w] have "plain_run P w (\<lambda>ok w'. ok \<longrightarrow> cond w') (wait_until fuel P poll park dl cond ?w)"
    using t n by (cases "wait_until fuel P poll park dl cond ?w"; cases "fst (wait_until fuel P poll park dl cond ?w)") auto
  then show ?case using calmD[OF assms(1)] by (auto simp: Let_def)
qed simp

lemma wait_until_returns:
  assumes "start_timely P" "calm poll" "calm park"
  shows "dl - w_now w < fuel \<Longrightarrow> returned (wait_until fuel P poll park dl cond w)"
proof (induction fuel arbitrary: w)
  case (Suc fuel)
  let ?w = "await P (park (poll w))"
  have "w_now w < w_now ?w"
    using calmD[OF assms(2)] calmD[OF assms(3)] await_advances[OF assms(1)] by metis
  then have "w_now w < dl \<Longrightarrow> dl - w_now ?w < fuel" using Suc.prems by linarith
  then show ?case using Suc.IH calmD[OF assms(2)] by (simp add: Let_def not_le)
qed simp

lemma with_timeout_plain:
  "calm poll \<Longrightarrow> plain_run P w (\<lambda>ok w'. ok \<longrightarrow> cond w') (with_timeout fuel P t poll cond w)"
  unfolding with_timeout_def by (rule wait_until_plain) simp_all

lemma with_timeout_returns:
  "start_timely P \<Longrightarrow> calm poll \<Longrightarrow> t < fuel \<Longrightarrow> returned (with_timeout fuel P t poll cond w)"
  unfolding with_timeout_def by (rule wait_until_returns) simp_all

lemma wait_gate_plain:
  "plain_run P w (\<lambda>ok w'. ok \<longrightarrow> cond w') (wait_gate_until fuel P dl cond w)"
  unfolding wait_gate_until_def by (rule wait_until_plain) simp_all

lemma wait_gate_returns:
  "start_timely P \<Longrightarrow> dl - w_now w < fuel \<Longrightarrow> returned (wait_gate_until fuel P dl cond w)"
  unfolding wait_gate_until_def by (rule wait_until_returns) simp_all

section \<open>Gates and spawn\<close>

text \<open>What a failed gate may report for a node.\<close>

fun gate_fault :: "platform \<Rightarrow> nref \<Rightarrow> fault_kind \<Rightarrow> bool" where
  "gate_fault P n ExecutorSlotEmpty \<longleftrightarrow> spawn_slot (p_cfg P n) \<noteq> None"
| "gate_fault P n ResourceMissing \<longleftrightarrow> resource_gates (p_cfg P n) \<noteq> []"
| "gate_fault P n (ReadyDepTimeout d) \<longleftrightarrow> d \<in> set (ready_deps (p_cfg P n))"
| "gate_fault P n _ \<longleftrightarrow> False"

definition gate_result :: "platform \<Rightarrow> nref \<Rightarrow> node_fault + unit \<Rightarrow> bool" where
  "gate_result P n r = (case r of Inr _ \<Rightarrow> True | Inl f \<Rightarrow> nf_node f = n \<and> gate_fault P n (nf_kind f))"

lemma gate_result_simps [simp]:
  "gate_result P n (Inr u)" "gate_result P n (Inl f) \<longleftrightarrow> nf_node f = n \<and> gate_fault P n (nf_kind f)"
  by (simp_all add: gate_result_def)

lemma await_spawn_slot_plain:
  "plain_run P w (\<lambda>r w'. gate_result P n r) (await_spawn_slot fuel P n w)"
  unfolding await_spawn_slot_def
  by (auto split: option.split intro!: plain_run_then[OF with_timeout_plain])

lemma await_gate_list_plain:
  "set gs \<subseteq> set (resource_gates (p_cfg P n)) \<Longrightarrow>
     plain_run P w (\<lambda>r w'. gate_result P n r) (await_gate_list fuel P n gs w)"
proof (induction gs arbitrary: w)
  case (Cons g gs)
  then show ?case by (auto intro!: plain_run_then[OF with_timeout_plain])
qed simp

lemma await_dep_list_plain:
  "set ds \<subseteq> set (ready_deps (p_cfg P n)) \<Longrightarrow>
     plain_run P w (\<lambda>r w'. gate_result P n r) (await_dep_list fuel P n ds w)"
proof (induction ds arbitrary: w)
  case (Cons g gs)
  then show ?case by (auto intro!: plain_run_then[OF with_timeout_plain])
qed simp

lemma await_gates_plain:
  "plain_run P w (\<lambda>r w'. gate_result P n r) (await_gates fuel P S n w)"
  unfolding await_gates_def await_resources_def await_ready_deps_def
  using await_spawn_slot_plain[of P _ n fuel] await_gate_list_plain[of "resource_gates (p_cfg P n)" P n]
    await_dep_list_plain[of "ready_deps (p_cfg P n)" P n]
  by (intro plain_run_ok[where Q = "\<lambda>r w'. gate_result P n r"]) auto

lemma await_gates_returns:
  assumes "start_timely P" "slot_timeout (p_cfg P n) < fuel"
  shows "returned (await_gates fuel P S n w)"
proof -
  have slot: "returned (await_spawn_slot fuel P n w)" for w
    using assms by (auto simp: await_spawn_slot_def split: option.split
        intro!: returned_then with_timeout_returns)
  have gates: "returned (await_gate_list fuel P n gs w)" for gs w
  proof (induction gs arbitrary: w)
    case (Cons g gs)
    then show ?case using assms by (auto intro!: returned_then with_timeout_returns)
  qed simp
  have deps: "returned (await_dep_list fuel P n ds w)" for ds w
  proof (induction ds arbitrary: w)
    case (Cons g gs)
    then show ?case using assms by (auto intro!: returned_then with_timeout_returns)
  qed simp
  show ?thesis unfolding await_gates_def await_resources_def await_ready_deps_def
    using slot gates deps by (intro returned_ok) auto
qed

lemma slots_calm [simp]: "w_now (w\<lparr>w_slots := x\<rparr>) = w_now w" "w_trace (w\<lparr>w_slots := x\<rparr>) = w_trace w"
  by simp_all

lemma executor_pass_plain: "plain_run P w (\<lambda>_ _. True) (executor_pass fuel P n dl w)"
proof -
  have a: "start_timely P \<longrightarrow> w_now w0 \<le> w_now (await P w0)" for w0
    using await_advances[of P w0] by auto
  show ?thesis
  proof (cases "spawn_slot (p_cfg P n)")
    case None
    then show ?thesis using a by (simp add: executor_pass_def)
  next
    case (Some s)
    let ?w1 = "w\<lparr>w_slots := (w_slots w)(s := snd (request_pass (w_slots w s)))\<rparr>"
    have "plain_run P ?w1 (\<lambda>_ _. True)
      (run_then (wait_gate_until fuel P dl (\<lambda>w'. sp_passes (w_slots w' s) \<noteq> sp_passes (w_slots w s)) ?w1)
        (\<lambda>_ w2. (Ready (), w2)))"
      by (rule plain_run_then[OF wait_gate_plain]) simp
    then have "plain_run P w (\<lambda>_ _. True)
      (run_then (wait_gate_until fuel P dl (\<lambda>w'. sp_passes (w_slots w' s) \<noteq> sp_passes (w_slots w s)) ?w1)
        (\<lambda>_ w2. (Ready (), w2)))" (is "plain_run P w _ ?r")
      by (cases ?r; cases "fst ?r") auto
    then show ?thesis using Some a[of "wait_gate_mark ?w1"]
      by (auto simp: executor_pass_def Let_def case_prod_beta wait_gate_mark_def)
  qed
qed

text \<open>An executor pass waits at least once.\<close>

lemma executor_pass_advances:
  assumes "start_timely P" "w_now w < dl" "dl - w_now w < fuel"
  shows "\<exists>w'. executor_pass fuel P n dl w = (Ready (), w') \<and> w_now w < w_now w'"
proof (cases "spawn_slot (p_cfg P n)")
  case None
  then show ?thesis using await_advances[OF assms(1)] by (simp add: executor_pass_def)
next
  case (Some s)
  let ?w1 = "w\<lparr>w_slots := (w_slots w)(s := snd (request_pass (w_slots w s)))\<rparr>"
  let ?c = "\<lambda>w'. sp_passes (w_slots w' s) \<noteq> sp_passes (w_slots w s)"
  have adv: "w_now w < w_now (await P (wait_gate_mark ?w1))"
    using await_advances[OF assms(1), of "wait_gate_mark ?w1"] by (simp add: wait_gate_mark_def)
  obtain m where m: "fuel = Suc m" using assms(3) by (cases fuel) auto
  have unfold: "wait_gate_until fuel P dl ?c ?w1 = wait_gate_until m P dl ?c (await P (wait_gate_mark ?w1))"
    using assms(2) by (simp add: m wait_gate_until_def Let_def)
  have "returned (wait_gate_until fuel P dl ?c ?w1)" using assms by (intro wait_gate_returns) auto
  moreover have "plain_run P (await P (wait_gate_mark ?w1)) (\<lambda>ok w'. ok \<longrightarrow> ?c w') (wait_gate_until fuel P dl ?c ?w1)"
    unfolding unfold by (rule wait_gate_plain)
  ultimately obtain ok w2 where "wait_gate_until fuel P dl ?c ?w1 = (Ready ok, w2)" "w_now w < w_now w2"
    using adv assms(1) by (fastforce simp: returned_ex)
  then show ?thesis using Some adv by (auto simp: executor_pass_def Let_def case_prod_beta)
qed

lemma spawn_rounds_plain:
  "plain_run P w (\<lambda>_ _. True) (spawn_rounds rounds fuel P n spawn dl w)" if "cfg_spawn (p_cfg P n) = Some spawn"
proof (induction rounds arbitrary: w)
  case (Suc rounds)
  obtain r w1 where c: "call_spawn spawn (on_handle n reset w) = (r, w1)" by fastforce
  have w1: "w_trace w1 = w_trace w" "start_timely P \<Longrightarrow> w_now w1 = w_now w"
    using call_spawn_ghost(1)[of spawn "on_handle n reset w"] c that
    by (auto simp: start_timely_def spawns_instant_def call_spawn_def case_prod_beta)
  have "plain_run P w1 (\<lambda>_ _. True) (run_then (executor_pass fuel P n dl w1)
      (\<lambda>_ w2. spawn_rounds rounds fuel P n spawn dl w2))" (is "plain_run P w1 _ ?r")
    by (rule plain_run_then[OF executor_pass_plain]) (rule Suc)
  then have "plain_run P w (\<lambda>_ _. True) ?r" using w1 by (cases ?r; cases "fst ?r") auto
  then show ?case using c w1 by (auto split: sum.split)
qed simp

lemma spawn_rounds_returns:
  assumes "start_timely P" "cfg_spawn (p_cfg P n) = Some spawn"
  shows "dl - w_now w < rounds \<Longrightarrow> dl - w_now w < fuel \<Longrightarrow>
    returned (spawn_rounds rounds fuel P n spawn dl w)"
proof (induction rounds arbitrary: w)
  case (Suc rounds)
  obtain r w1 where c: "call_spawn spawn (on_handle n reset w) = (r, w1)" by fastforce
  have w1: "w_now w1 = w_now w"
    using c assms by (auto simp: start_timely_def spawns_instant_def call_spawn_def case_prod_beta)
  show ?case
  proof (cases "dl \<le> w_now w1")
    case True
    then show ?thesis using c by (auto split: sum.split)
  next
    case False
    then obtain w2 where p: "executor_pass fuel P n dl w1 = (Ready (), w2)" "w_now w1 < w_now w2"
      using executor_pass_advances[OF assms(1)] Suc.prems w1 by (metis not_le)
    then have "returned (spawn_rounds rounds fuel P n spawn dl w2)"
      using Suc.prems w1 False by (intro Suc.IH) linarith+
    then show ?thesis using c p by (auto split: sum.split)
  qed
qed simp

lemma spawn_settled_plain:
  "cfg_spawn (p_cfg P n) = Some spawn \<Longrightarrow>
     plain_run P w (\<lambda>_ _. True) (spawn_settled fuel P n spawn dl w)"
  unfolding spawn_settled_def by (rule plain_run_then[OF wait_gate_plain]) (auto intro: spawn_rounds_plain)

lemma spawn_settled_returns:
  assumes "start_timely P" "cfg_spawn (p_cfg P n) = Some spawn" "dl - w_now w < fuel"
  shows "returned (spawn_settled fuel P n spawn dl w)"
  unfolding spawn_settled_def
proof (rule returned_then)
  show "returned (wait_gate_until fuel P dl (\<lambda>w. is_settled (w_h w n)) w)"
    using assms by (rule_tac wait_gate_returns)
  fix ok w1 assume "wait_gate_until fuel P dl (\<lambda>w. is_settled (w_h w n)) w = (Ready ok, w1)"
  then have "w_now w \<le> w_now w1"
    using wait_gate_plain[of P w "\<lambda>w. is_settled (w_h w n)" fuel dl] assms(1) by simp
  then show "returned (if \<not> ok then (Ready (Inl SpawnBusy), w1) else spawn_rounds fuel fuel P n spawn dl w1)"
    using spawn_rounds_returns[OF assms(1,2), of dl w1 fuel fuel] assms(3) by (auto dest: diff_le_mono2)
qed

section \<open>Starting one node\<close>

lemma note_verb_trace [simp]:
  "w_trace (note_verb P S n t w) = (n, index_of S n, t) # w_trace w"
  by (simp add: note_verb_def)

lemma set_running_bits [flag_simps]:
  "bit (flags (w_h (set_running P r n w) n)) k \<longleftrightarrow> (if k = 2 then r else bit (flags (w_h w n)) k)"
  by (auto simp: set_running_def seed_write_mark_def Let_def flag_simps)

lemma note_verb_bits:
  "quiet_sink P \<Longrightarrow> bit (flags (w_h (note_verb P S n t w) m)) k \<longleftrightarrow> bit (flags (w_h w m)) k"
  by (simp add: note_verb_def note_quiet)

lemma node_up_facts:
  "w_trace (node_up P S n w) = (n, index_of S n, Started) # w_trace w"
  "quiet_sink P \<Longrightarrow> is_running (w_h (node_up P S n w) n) \<and> \<not> is_bound_stopped (w_h (node_up P S n w) n)"
  by (simp_all add: node_up_def note_verb_bits reader_defs flag_simps)

text \<open>What \<open>start_node\<close> may leave behind: the entries it records, newest first, and the result.\<close>

definition start_node_ok :: "platform \<Rightarrow> supervisor \<Rightarrow> nref \<Rightarrow> world \<Rightarrow> node_fault + unit \<Rightarrow> world \<Rightarrow> bool" where
  "start_node_ok P S n w r w' \<longleftrightarrow> (let i = index_of S n in
     case r of
       Inr _ \<Rightarrow>
         w_trace w' = (n, i, Started) # (n, i, Spawning) # w_trace w
           \<and> is_running (w_h w' n) \<and> \<not> is_bound_stopped (w_h w' n)
         \<or> w_trace w' = (n, i, Spawning) # w_trace w \<and> is_bound_stopped (w_h w' n)
           \<and> set (ready_deps (p_cfg P n)) \<inter> set (bound_deps (p_cfg P n)) \<noteq> {}
     | Inl f \<Rightarrow> nf_node f = n \<and> w_trace w' = (n, i, Faulted (nf_kind f)) # (n, i, Spawning) # w_trace w
         \<and> (gate_fault P n (nf_kind f) \<and> \<not> parks_on P n (nf_kind f) \<or> (\<exists>e. nf_kind f = SpawnFailed e)))"

lemma parks_on_fault: "parks_on P n k \<Longrightarrow> gate_fault P n k \<Longrightarrow>
    set (ready_deps (p_cfg P n)) \<inter> set (bound_deps (p_cfg P n)) \<noteq> {}"
  by (cases k) auto

lemma start_node_returned:
  assumes "start_timely P" "slot_timeout (p_cfg P n) < fuel"
  shows "returned (start_node fuel P S n w)"
proof (cases "cfg_spawn (p_cfg P n)")
  case (Some spawn)
  have "returned (spawn_settled fuel P n spawn (w_now w + slot_timeout (p_cfg P n)) w)" for w
    using assms by (intro spawn_settled_returns Some) auto
  then show ?thesis using Some await_gates_returns[OF assms]
    by (auto simp: start_node_def Let_def split: sum.split intro!: returned_then)
qed (simp add: start_node_def Let_def)

lemma acking_slot_timeout: "slot_timeout (p_cfg acking n) = 100"
  by (simp add: acking_def plain_platform_def plain_cfg_def cfg_new_def SLOT_READY_TIMEOUT_def plain_time_def)

lemma acking_quiet: "quiet_sink acking"
  by (simp add: quiet_sink_def acking_def plain_platform_def)



text \<open>
  \<open>start_node\<close> returns. Every wait inside it is bounded by the node's slot timeout from
  where it starts, so with a running clock the verb ends whatever the gates, the previous
  instance and the executor do.
\<close>

theorem start_node_returns:
  assumes "start_timely P" "slot_timeout (p_cfg P n) < fuel"
  shows "\<exists>res w'. start_node fuel P S n w = (Ready res, w')"
  using start_node_returned[OF assms] by (simp add: returned_ex)

theorem start_node_returns_witness:
  "\<exists>res w'. start_node 101 acking two_nodes 10 world_new = (Ready res, w')"
  by (rule start_node_returns[OF acking_start_timely]) (simp add: acking_slot_timeout)

section \<open>Stopping one node\<close>

lemma dropped_rounds_plain:
  "plain_run P w (\<lambda>ok w'. \<not> ok \<longrightarrow> dl \<le> w_now w') (dropped_rounds fuel P n dl w)"
proof (induction fuel arbitrary: w)
  case (Suc fuel)
  let ?w = "await P (on_handle n (\<lambda>h. h\<lparr>dropped_wake := Wait # dropped_wake h\<rparr>) w)"
  have "start_timely P \<Longrightarrow> w_now w < w_now ?w"
    using await_advances[of P "on_handle n (\<lambda>h. h\<lparr>dropped_wake := Wait # dropped_wake h\<rparr>) w"] by simp
  then have "plain_run P w (\<lambda>ok w'. \<not> ok \<longrightarrow> dl \<le> w_now w') (dropped_rounds fuel P n dl ?w)"
    using Suc[of ?w] by (cases "dropped_rounds fuel P n dl ?w"; cases "fst (dropped_rounds fuel P n dl ?w)") auto
  then show ?case by (auto simp: Let_def)
qed simp

lemma await_dropped_plain:
  "plain_run P w (\<lambda>ok w'. \<not> ok \<longrightarrow> dl \<le> w_now w') (await_dropped fuel P n dl w)"
  using dropped_rounds_plain by (simp add: await_dropped_def)

lemma dropped_rounds_returns:
  "start_timely P \<Longrightarrow> dl - w_now w < fuel \<Longrightarrow> returned (dropped_rounds fuel P n dl w)"
proof (induction fuel arbitrary: w)
  case (Suc fuel)
  let ?w1 = "on_handle n (\<lambda>h. h\<lparr>dropped_wake := Wait # dropped_wake h\<rparr>) w"
  have "w_now w < w_now (await P ?w1)" using await_advances[OF Suc.prems(1), of ?w1] by simp
  then have "w_now w < dl \<Longrightarrow> dl - w_now (await P ?w1) < fuel" using Suc.prems(2) by linarith
  then show ?case using Suc.IH Suc.prems(1) by (simp add: Let_def not_le)
qed simp

text \<open>The results \<open>stop_node\<close> may have on a node it asks to stop.\<close>

definition stop_node_ok :: "platform \<Rightarrow> supervisor \<Rightarrow> nref \<Rightarrow> world \<Rightarrow> node_fault + unit \<Rightarrow> world \<Rightarrow> bool" where
  "stop_node_ok P S n w r w' \<longleftrightarrow> (let i = index_of S n in
     case r of
       Inr _ \<Rightarrow> \<not> is_running (w_h w' n)
         \<and> w_trace w' = (n, i, if has_exited (w_h w' n) then Exited else Stopped) # (n, i, StopRequested) # w_trace w
     | Inl f \<Rightarrow> f = NodeFault n ShutdownTimeout
         \<and> w_trace w' = (n, i, Faulted ShutdownTimeout) # (n, i, StopRequested) # w_trace w
         \<and> w_now w + ack_timeout (p_cfg P n) \<le> w_now w')"

lemma release_claims_now: "release_claims P n w = Some w1 \<Longrightarrow> w_now w1 = w_now w \<and> w_trace w1 = w_trace w"
  by (auto simp: release_claims_def dest!: release_claim_list_h)

lemma note_verb_now: "quiet_sink P \<Longrightarrow> w_now (note_verb P S n t w) = w_now w"
  by (simp add: note_verb_def note_quiet)

lemma acked_note_verb:
  "quiet_sink P \<Longrightarrow> acked (w_h w n) = (if has_exited (w_h (note_verb P S n t w) n) then Exited else Stopped)"
  by (simp add: acked_def has_exited_def flag_bit note_verb_bits)

text \<open>
  C13. One call of \<open>stop_node\<close>: a node that is not running, or that manages itself, is left
  exactly as it was. Otherwise the stop is requested once; \<open>Ok\<close> comes with the node marked down
  and \<open>Stopped\<close> or \<open>Exited\<close> recorded as the task left it, a fault is \<open>ShutdownTimeout\<close> on
  this node, and never before the whole acknowledgement window has passed.
\<close>

theorem stop_node_outcome:
  assumes "quiet_sink P" and "stop_node fuel P S n w = (Ready r, w')"
  shows "if is_running (w_h w n) \<and> \<not> is_detached (w_h w n)
    then stop_node_ok P S n w r w' else r = Inr () \<and> w' = w"
proof (cases "is_running (w_h w n) \<and> \<not> is_detached (w_h w n)")
  case True
  let ?w1 = "note_verb P S n StopRequested (on_handle n signal_shutdown w)"
  let ?d = "await_dropped fuel P n (w_now ?w1 + ack_timeout (p_cfg P n)) ?w1"
  have now: "w_now ?w1 = w_now w" using assms(1) by (simp add: note_verb_now)
  have p: "plain_run P ?w1 (\<lambda>ok w'. \<not> ok \<longrightarrow> w_now ?w1 + ack_timeout (p_cfg P n) \<le> w_now w') ?d"
    by (rule await_dropped_plain)
  have st: "stop_node fuel P S n w = run_ok (await_ack fuel P S n ?w1) (\<lambda>_ w1. (Ready (Inr ()), w1))"
    using True by (simp add: stop_node_def shutdown_and_wait_def)
  then obtain ok w2 where d: "?d = (Ready ok, w2)"
    using assms(2) p by (cases ?d; cases "fst ?d") (auto simp: await_ack_def)
  have r: "(Ready r, w') = run_ok (if \<not> ok
       then case (if s_has S SHAPE_CLAIMS then release_claims P n w2 else Some w2) of
              None \<Rightarrow> (Panicked, w2)
            | Some w2 \<Rightarrow> (Ready (Inl (NodeFault n ShutdownTimeout)),
                           note_verb P S n (Faulted ShutdownTimeout) w2)
       else let w2 = set_running P False n w2
            in (Ready (Inr ()), note_verb P S n (acked (w_h w2 n)) w2)) (\<lambda>_ w1. (Ready (Inr ()), w1))"
    using assms(2) st d by (simp add: await_ack_def)
  show ?thesis
  proof (cases ok)
    case True
    let ?w3 = "set_running P False n w2"
    have "r = Inr ()" "w' = note_verb P S n (acked (w_h ?w3 n)) ?w3" using r True by (simp_all add: Let_def)
    then show ?thesis using p d \<open>is_running (w_h w n) \<and> \<not> is_detached (w_h w n)\<close>
        acked_note_verb[OF assms(1), of ?w3 n S "acked (w_h ?w3 n)"]
      by (simp add: stop_node_ok_def Let_def reader_defs flag_bit note_verb_bits[OF assms(1)] set_running_bits)
  next
    case False
    then show ?thesis using r p d \<open>is_running (w_h w n) \<and> \<not> is_detached (w_h w n)\<close> now
      by (auto simp: stop_node_ok_def Let_def note_verb_now[OF assms(1)] release_claims_now
          split: if_splits option.splits dest: release_claims_now)
  qed
next
  case False
  then show ?thesis using assms(2) by (auto simp: stop_node_def)
qed

text \<open>Whatever runs, budgets keep the slots they have.\<close>

definition same_fits :: "world \<Rightarrow> world \<Rightarrow> bool" where
  "same_fits w w' \<longleftrightarrow> (\<forall>s g. gate_fits s (w_gates w' g) \<longleftrightarrow> gate_fits s (w_gates w g))"

lemma same_fits_claims: "same_fits w w' \<Longrightarrow> claims_fit P n w' = claims_fit P n w"
  by (simp add: same_fits_def claims_fit_def)

lemma same_fits_refl [simp]: "same_fits w w"
  and same_fits_trans: "same_fits w w' \<Longrightarrow> same_fits w' w'' \<Longrightarrow> same_fits w w''"
  by (simp_all add: same_fits_def)

lemma same_fits_await: "budgets_keep_size P \<Longrightarrow> same_fits w (await P w)"
  by (simp add: same_fits_def await_def budgets_keep_size_def)

lemma same_fits_note: "budgets_keep_size P \<Longrightarrow> same_fits w (note_verb P S n t w)"
  by (simp add: same_fits_def note_verb_def note_gate_fits)

lemma same_fits_on_handle [simp]: "same_fits w (on_handle n f w)"
  by (simp add: same_fits_def)

lemma dropped_rounds_fits:
  "budgets_keep_size P \<Longrightarrow> same_fits w (snd (dropped_rounds fuel P n dl w))"
proof (induction fuel arbitrary: w)
  case (Suc fuel)
  let ?w1 = "on_handle n (\<lambda>h. h\<lparr>dropped_wake := Wait # dropped_wake h\<rparr>) w"
  have "same_fits w (await P ?w1)"
    by (rule same_fits_trans[of _ ?w1]) (simp_all add: same_fits_await Suc.prems)
  from same_fits_trans[OF this Suc.IH[OF Suc.prems]] show ?case by (simp add: Let_def)
qed simp

lemma stop_node_returned:
  assumes "start_timely P" "ack_timeout (p_cfg P n) < fuel" "budgets_keep_size P" "claims_fit P n w"
  shows "returned (stop_node fuel P S n w)"
proof -
  let ?d = "\<lambda>w. await_dropped fuel P n (w_now w + ack_timeout (p_cfg P n)) w"
  have d: "returned (?d w)" for w
    using assms dropped_rounds_returns[of P "w_now w + ack_timeout (p_cfg P n)" w fuel n]
    by (simp add: await_dropped_def)
  let ?w1 = "note_verb P S n StopRequested (on_handle n signal_shutdown w)"
  have "same_fits w ?w1"
    by (rule same_fits_trans[OF same_fits_on_handle same_fits_note[OF assms(3)]])
  then have "same_fits w (snd (?d ?w1))"
    using same_fits_trans dropped_rounds_fits[OF assms(3)] by (simp add: await_dropped_def)
  then have "claims_fit P n (snd (?d ?w1))" using assms(4) same_fits_claims by blast
  then have "returned (await_ack fuel P S n ?w1)"
    using d[of ?w1] release_claims_fits[of P n "snd (?d ?w1)"]
    by (auto simp: await_ack_def Let_def intro!: returned_then split: option.splits)
  then show ?thesis
    by (auto simp: stop_node_def shutdown_and_wait_def intro!: returned_ok)
qed

lemma acking_ack_timeout: "ack_timeout (p_cfg acking n) = 2000"
  by (simp add: acking_def plain_platform_def plain_cfg_def cfg_new_def SHUTDOWN_ACK_TIMEOUT_MS_def plain_time_def)

lemma acking_claims: "claims_fit acking n w"
  by (simp add: claims_fit_def acking_def plain_platform_def plain_cfg_def cfg_new_def)

text \<open>Node 10 running.\<close>

definition ten_up :: world where
  "ten_up = on_handle 10 (flag_set RUNNING) world_new"

lemma ten_up_running: "is_running (w_h ten_up 10) \<and> \<not> is_detached (w_h ten_up 10)"
  by (simp add: ten_up_def world_new_def handle_new_def reader_defs flag_simps)

theorem stop_node_outcome_witness:
  "\<exists>r w'. stop_node 3000 acking two_nodes 10 ten_up = (Ready r, w')
     \<and> stop_node_ok acking two_nodes 10 ten_up r w'"
proof -
  have "returned (stop_node 3000 acking two_nodes 10 ten_up)"
    by (rule stop_node_returned[OF acking_start_timely _ acking_keeps_size acking_claims])
      (simp add: acking_ack_timeout)
  then obtain r w' where "stop_node 3000 acking two_nodes 10 ten_up = (Ready r, w')"
    by (auto simp: returned_ex)
  then show ?thesis
    using stop_node_outcome[OF acking_quiet, of 3000 two_nodes 10 ten_up r w'] ten_up_running by simp
qed

text \<open>
  \<open>stop_node\<close> returns within the acknowledgement window of its node, whether or not the
  task ever acknowledges, and does not panic as long as the claims of the node name slots
  their budgets have.
\<close>

theorem stop_node_returns:
  assumes "start_timely P" "ack_timeout (p_cfg P n) < fuel" "budgets_keep_size P" "claims_fit P n w"
  shows "\<exists>res w'. stop_node fuel P S n w = (Ready res, w')"
  using stop_node_returned[OF assms] by (simp add: returned_ex)

theorem stop_node_returns_witness:
  "\<exists>res w'. stop_node 2001 acking two_nodes 10 ten_up = (Ready res, w')"
  by (rule stop_node_returns[OF acking_start_timely _ acking_keeps_size acking_claims])
    (simp add: acking_ack_timeout)

end
