(* ===== verification/Supervisor.thy ===== *)
theory Supervisor
  imports Verb_Live
begin

text \<open>
  The graph-wide verbs of \<open>Supervisor\<close> in \<^verbatim>\<open>supervisor/src/lib.rs\<close>, the queries of
  \<open>Graph\<close>, and the pool driver of \<^verbatim>\<open>supervisor/src/pool.rs\<close>: which slots each verb picks,
  the flags it leaves, and the waves it runs. Sets of slots are arrays of booleans, as in the
  source.
\<close>

section \<open>The graph\<close>

record graph =
  g_nodes :: "nref option list"
  g_topo :: topology
  g_shape :: u32
  g_pools :: "pool list"
  g_ref :: nat
  g_self :: "nref option"

definition supervisor_new :: "graph \<Rightarrow> supervisor" where
  "supervisor_new G = \<lparr>s_nodes = g_nodes G, s_topo = g_topo G, s_shape = g_shape G,
     s_pools = g_pools G, s_ref = g_ref G, s_self = g_self G\<rparr>"

definition graph_index_of :: "graph \<Rightarrow> nref \<Rightarrow> u8 option" where
  "graph_index_of G n =
     map_option of_nat (find (\<lambda>j. g_nodes G ! j = Some n) [0..<length (g_nodes G)])"

definition graph_deps_of :: "graph \<Rightarrow> u8 \<Rightarrow> u8 list option" where
  "graph_deps_of G i = deps_of (g_topo G) i"

definition graph_order :: "graph \<Rightarrow> u8 option list" where
  "graph_order G = map (order_at (g_topo G)) [0..<length (g_nodes G)]"

text \<open>The slots a visitor is called with, in order.\<close>

definition dependents_of :: "graph \<Rightarrow> u8 \<Rightarrow> u8 list" where
  "dependents_of G i =
     map of_nat (filter (\<lambda>j. i \<in> set (the (deps_of (g_topo G) (of_nat j)))) [0..<length (g_nodes G)])"

definition iter_nodes :: "graph \<Rightarrow> (u8 \<times> nref) list" where
  "iter_nodes G = List.map_filter (\<lambda>(i, s). map_option (Pair (of_nat i)) s)
     (enumerate 0 (g_nodes G))"

definition writers_of :: "platform \<Rightarrow> graph \<Rightarrow> entry \<Rightarrow> (u8 \<times> nref) list" where
  "writers_of P G sig = filter (\<lambda>(i, n). has_entry (p_cfg P n) sig True) (iter_nodes G)"

definition readers_of :: "platform \<Rightarrow> graph \<Rightarrow> entry \<Rightarrow> (u8 \<times> nref) list" where
  "readers_of P G sig = filter (\<lambda>(i, n). has_entry (p_cfg P n) sig False) (iter_nodes G)"

text \<open>The lazy iterator \<open>stale_nodes\<close>: looking at a node may grant its pending beat.\<close>

definition node_stale :: "platform \<Rightarrow> nref \<Rightarrow> world \<Rightarrow> bool \<times> world" where
  "node_stale P n w =
     (case beat_timeout (p_cfg P n) of
        None \<Rightarrow> (False, w)
      | Some budget \<Rightarrow> if is_detached (w_h w n) then (False, w) else is_stale budget n w)"

fun stale_next :: "platform \<Rightarrow> nref list \<Rightarrow> world \<Rightarrow> (nref \<times> nref list) option \<times> world" where
  "stale_next P [] w = (None, w)"
| "stale_next P (n # ns) w =
     (let (stale, w1) = node_stale P n w in
      if stale then (Some (n, ns), w1) else stale_next P ns w1)"

definition flatten :: "'a option list \<Rightarrow> 'a list" where
  "flatten xs = List.map_filter id xs"

definition all_fresh :: "platform \<Rightarrow> graph \<Rightarrow> world \<Rightarrow> bool \<times> world" where
  "all_fresh P G w =
     (let (first, w1) = stale_next P (flatten (g_nodes G)) w in (first = None, w1))"

section \<open>Start, teardown, respawn\<close>

definition register_self :: "platform \<Rightarrow> supervisor \<Rightarrow> world \<Rightarrow> world" where
  "register_self P S w =
     (let w1 = w\<lparr>w_chain := register (s_ref S) (w_chain w)\<rparr> in
      case s_self S of
        None \<Rightarrow> w1
      | Some n \<Rightarrow> on_handle n (\<lambda>h. flag_set (RUNNING OR DETACHED) (h\<lparr>task_id := p_task_id P\<rparr>)) w1)"

definition latch_enabled :: "platform \<Rightarrow> nref \<Rightarrow> world \<Rightarrow> world" where
  "latch_enabled P n w =
     (case enabled_if (p_cfg P n) of
        None \<Rightarrow> w
      | Some enabled \<Rightarrow>
          if \<not> is_running (w_h w n) \<and> \<not> is_detached (w_h w n) \<and> \<not> enabled w
          then on_handle n (set_disabled True) w else w)"

definition start_select :: "platform \<Rightarrow> supervisor \<Rightarrow> selector" where
  "start_select P S = (\<lambda>j n w.
     (\<not> (s_has S SHAPE_ON_DEMAND \<and> cfg_mode (p_cfg P n) = OnDemand) \<and> \<not> is_disabled (w_h w n)
      \<and> \<not> is_collateral (w_h w n) \<and> \<not> is_running (w_h w n) \<and> \<not> is_detached (w_h w n), w))"

definition start :: "nat \<Rightarrow> platform \<Rightarrow> supervisor \<Rightarrow> world \<Rightarrow> outcome_run" where
  "start fuel P S w =
     (let w1 = register_self P S w;
          w2 = fold (latch_enabled P) (flatten (s_nodes S)) w1
      in start_nodes fuel P S (start_select P S) False w2)"

definition teardown_select :: selector where
  "teardown_select = (\<lambda>j n w. (is_running (w_h w n) \<and> \<not> is_detached (w_h w n), w))"

definition teardown :: "nat \<Rightarrow> platform \<Rightarrow> supervisor \<Rightarrow> world \<Rightarrow> outcome_run" where
  "teardown fuel P S w = stop_nodes fuel P S teardown_select False w"

definition teardown_continue :: "nat \<Rightarrow> platform \<Rightarrow> supervisor \<Rightarrow> world \<Rightarrow> outcome_run" where
  "teardown_continue fuel P S w = stop_nodes fuel P S teardown_select True w"

definition respawn_select :: "platform \<Rightarrow> selector" where
  "respawn_select P = (\<lambda>j n w.
     (cfg_mode (p_cfg P n) = Terminate \<and> \<not> is_disabled (w_h w n) \<and> \<not> is_collateral (w_h w n)
      \<and> \<not> is_detached (w_h w n) \<and> \<not> is_running (w_h w n), w))"

definition respawn_terminate :: "nat \<Rightarrow> platform \<Rightarrow> supervisor \<Rightarrow> world \<Rightarrow> outcome_run" where
  "respawn_terminate fuel P S w = start_nodes fuel P S (respawn_select P) False w"

section \<open>Control sets\<close>

definition deps_running :: "supervisor \<Rightarrow> nref \<Rightarrow> world \<Rightarrow> bool" where
  "deps_running S n w =
     (case index_of S n of
        Some i \<Rightarrow> list_all (\<lambda>d. case node_at S d of None \<Rightarrow> False | Some m \<Rightarrow> is_running (w_h w m))
                    (deps_row S i)
      | None \<Rightarrow> False)"

definition mark_index :: "supervisor \<Rightarrow> nref \<Rightarrow> bool list \<Rightarrow> bool list" where
  "mark_index S n set0 = (case index_of S n of Some i \<Rightarrow> set0[i := True] | None \<Rightarrow> set0)"

definition seed :: "supervisor \<Rightarrow> nref \<Rightarrow> bool list \<Rightarrow> bool list" where
  "seed S target set0 =
     (let set1 = mark_index S target set0 in
      if s_has S SHAPE_POOLS
      then fold (\<lambda>p s. if target \<in> set (pool_members p) then fold (mark_index S) (pool_members p) s else s)
             (s_pools S) set1
      else set1)"

definition collect_slot :: "supervisor \<Rightarrow> world \<Rightarrow> nat \<Rightarrow> bool list \<Rightarrow> bool list" where
  "collect_slot S w j set0 =
     (if set0 ! j then set0
      else case node_at S j of
             None \<Rightarrow> set0
           | Some n \<Rightarrow>
               if is_detached (w_h w n) then set0
               else if list_ex (\<lambda>d. set0 ! d) (deps_row S j) then set0[j := True] else set0)"

definition collect_dependents :: "supervisor \<Rightarrow> world \<Rightarrow> bool list \<Rightarrow> bool list" where
  "collect_dependents S w set0 = fold (collect_slot S w) (order_iter S) set0"

definition no_slots :: "supervisor \<Rightarrow> bool list" where
  "no_slots S = replicate (s_size S) False"

section \<open>Deactivate and activate\<close>

definition deactivate_select :: "bool list \<Rightarrow> bool list \<Rightarrow> selector" where
  "deactivate_select picked down = (\<lambda>j n w.
     if \<not> down ! j then (False, w)
     else if is_detached (w_h w n) then (False, w)
     else let w1 = on_handle n (if picked ! j then set_disabled True else flag_set COLLATERAL) w
          in (is_running (w_h w1 n), w1))"

definition deactivate :: "nat \<Rightarrow> platform \<Rightarrow> supervisor \<Rightarrow> nref \<Rightarrow> world \<Rightarrow> outcome_run" where
  "deactivate fuel P S target w =
     (let picked = seed S target (no_slots S);
          down = collect_dependents S w picked
      in stop_nodes fuel P S (deactivate_select picked down) False w)"

definition grow_slot :: "supervisor \<Rightarrow> world \<Rightarrow> nat \<Rightarrow> bool list \<Rightarrow> bool list" where
  "grow_slot S w j set0 =
     (if set0 ! j \<and> \<not> (case node_at S j of None \<Rightarrow> False | Some n \<Rightarrow> is_detached (w_h w n))
      then fold (\<lambda>d s. s[d := True]) (deps_row S j) set0 else set0)"

definition collect_dependencies :: "supervisor \<Rightarrow> world \<Rightarrow> bool list \<Rightarrow> bool list" where
  "collect_dependencies S w set0 = fold (grow_slot S w) (rev (order_iter S)) set0"

definition enable_slot :: "supervisor \<Rightarrow> bool list \<Rightarrow> nat \<Rightarrow> world \<Rightarrow> world" where
  "enable_slot S up j w =
     (if up ! j then (case node_at S j of
                        None \<Rightarrow> w
                      | Some n \<Rightarrow> if is_detached (w_h w n) then w else on_handle n (set_disabled False) w)
      else w)"

text \<open>The collateral stops a released node takes back: \<open>held\<close>, \<open>revive\<close> and the world.\<close>

definition revive_slot :: "supervisor \<Rightarrow> nat \<Rightarrow> bool list \<times> bool list \<times> world \<Rightarrow> bool list \<times> bool list \<times> world" where
  "revive_slot S j = (\<lambda>(hold, revive, w).
     case node_at S j of
       None \<Rightarrow> (hold, revive, w)
     | Some n \<Rightarrow>
         if is_detached (w_h w n) then (hold, revive, w)
         else let blocked = list_ex (\<lambda>d. hold ! d) (deps_row S j);
                  held1 = hold[j := blocked \<or> is_disabled (w_h w n)]
              in if \<not> blocked \<and> is_collateral (w_h w n)
                 then let w1 = on_handle n (flag_clear COLLATERAL) w
                      in (held1, revive[j := \<not> is_disabled (w_h w1 n)], w1)
                 else (held1, revive, w))"

definition activate_select :: "platform \<Rightarrow> supervisor \<Rightarrow> bool list \<Rightarrow> bool list \<Rightarrow> selector" where
  "activate_select P S up revive = (\<lambda>j n w.
     if \<not> (up ! j \<or> revive ! j) \<or> is_detached (w_h w n) then (False, w)
     else (\<not> is_running (w_h w n) \<and> \<not> is_collateral (w_h w n)
           \<and> \<not> (s_has S SHAPE_ON_DEMAND \<and> cfg_mode (p_cfg P n) = OnDemand), w))"

definition scale_after :: "supervisor \<Rightarrow> outcome_run \<Rightarrow> outcome_run" where
  "scale_after S r = run_then r (\<lambda>res w. (Ready res, if s_has S SHAPE_POOLS then request_scale w else w))"

definition activate :: "nat \<Rightarrow> platform \<Rightarrow> supervisor \<Rightarrow> nref \<Rightarrow> world \<Rightarrow> outcome_run" where
  "activate fuel P S target w =
     (let up = collect_dependencies S w (seed S target (no_slots S));
          w1 = fold (enable_slot S up) (order_iter S) w;
          (hold, revive, w2) = fold (revive_slot S) (order_iter S) (no_slots S, no_slots S, w1)
      in scale_after S (start_nodes fuel P S (activate_select P S up revive) True w2))"

section \<open>Bound dependencies\<close>

definition is_serving :: "nref \<Rightarrow> world \<Rightarrow> bool" where
  "is_serving n w = (is_running (w_h w n) \<and> is_ready (w_h w n))"

definition bind_down :: "platform \<Rightarrow> supervisor \<Rightarrow> bool list \<Rightarrow> nref \<Rightarrow> world \<Rightarrow> bool" where
  "bind_down P S stopping n w =
     list_ex (\<lambda>d. \<not> is_serving d w
                  \<or> list_ex (\<lambda>k. stopping ! k \<and> node_at S k = Some d) [0..<s_size S])
       (bound_deps (p_cfg P n))"

definition bind_slot :: "platform \<Rightarrow> supervisor \<Rightarrow> world \<Rightarrow> nat \<Rightarrow> bool list \<Rightarrow> bool list" where
  "bind_slot P S w j stopping =
     (case node_at S j of
        None \<Rightarrow> stopping
      | Some n \<Rightarrow> if is_detached (w_h w n) \<or> \<not> is_running (w_h w n) then stopping
                  else stopping[j := bind_down P S stopping n w])"

definition bind_select :: "bool list \<Rightarrow> selector" where
  "bind_select stopping = (\<lambda>j n w.
     if \<not> stopping ! j then (False, w) else (True, on_handle n (flag_set BOUND_STOPPED) w))"

definition bind_returns :: "platform \<Rightarrow> nref \<Rightarrow> world \<Rightarrow> bool" where
  "bind_returns P n w =
     (flag BOUND_STOPPED (w_h w n)
      \<and> \<not> (is_disabled (w_h w n) \<or> is_collateral (w_h w n) \<or> is_detached (w_h w n) \<or> is_running (w_h w n))
      \<and> list_all (\<lambda>d. is_serving d w) (bound_deps (p_cfg P n)))"

fun bind_resume :: "nat \<Rightarrow> platform \<Rightarrow> supervisor \<Rightarrow> nat list \<Rightarrow> world \<Rightarrow> outcome_run" where
  "bind_resume fuel P S [] w = (Ready (Inr ()), w)"
| "bind_resume fuel P S (j # js) w =
     (case node_at S j of
        None \<Rightarrow> bind_resume fuel P S js w
      | Some n \<Rightarrow>
          if \<not> bind_returns P n w then bind_resume fuel P S js w
          else (case cfg_mode (p_cfg P n) of
                  Terminate \<Rightarrow> run_then (start_node fuel P S n w) (\<lambda>_ w1. bind_resume fuel P S js w1)
                | Pause \<Rightarrow>
                    bind_resume fuel P S js
                      (if s_has S SHAPE_PAUSE
                       then on_handle n (flag_clear BOUND_STOPPED)
                              (note_transition P n (Some j) Resumed (resume_up P n w))
                       else w)
                | OnDemand \<Rightarrow>
                    (let w1 = on_handle n (flag_clear BOUND_STOPPED) w
                     in bind_resume fuel P S js (if s_has S SHAPE_POOLS then request_scale w1 else w1))))"

definition apply_bind :: "nat \<Rightarrow> platform \<Rightarrow> supervisor \<Rightarrow> world \<Rightarrow> outcome_run" where
  "apply_bind fuel P S w =
     (if \<not> s_has S SHAPE_BOUND_DEPS then (Ready (Inr ()), w)
      else let stopping = fold (bind_slot P S w) (order_iter S) (no_slots S) in
           run_ok (stop_nodes fuel P S (bind_select stopping) False w)
             (\<lambda>_ w1. bind_resume fuel P S (order_iter S) w1))"

text \<open>\<open>run_binds\<close>: wait for a request, apply it; the first fault ends it.\<close>

fun run_binds :: "nat \<Rightarrow> nat \<Rightarrow> platform \<Rightarrow> supervisor \<Rightarrow> world \<Rightarrow> node_fault run \<times> world" where
  "run_binds 0 fuel P S w = (Pending, w)"
| "run_binds (Suc rounds) fuel P S w =
     run_then (apply_bind fuel P S (await P (w\<lparr>bind_req := Wait # bind_req w\<rparr>))) (\<lambda>r w1.
       case r of Inl e \<Rightarrow> (Ready e, w1) | Inr _ \<Rightarrow> run_binds rounds fuel P S w1)"

section \<open>Restart\<close>

text \<open>The counted window of a target with a restart budget.\<close>

definition restart_window :: "nat \<Rightarrow> u32" where
  "restart_window win = of_nat (min win (unat (- 1 :: u32) div 2))"

definition restart_admit :: "u16 \<Rightarrow> nat \<Rightarrow> u32 \<Rightarrow> task_handle \<Rightarrow> bool \<times> task_handle" where
  "restart_admit mx win now h =
     (let start = restart_window_start h; count = restarts h in
      if count = 0 \<or> restart_window win < now - start
      then (True, h\<lparr>restart_window_start := now, restarts := 1\<rparr>)
      else if mx \<le> count then (False, h)
      else (True, h\<lparr>restarts := count + 1\<rparr>))"

definition restart_gate :: "platform \<Rightarrow> nref \<Rightarrow> world \<Rightarrow> (node_fault + unit) \<times> world" where
  "restart_gate P n w =
     (case restart_budget (p_cfg P n) of
        None \<Rightarrow> (Inr (), w)
      | Some (mx, win) \<Rightarrow>
          (let (ok, h) = restart_admit mx win (ticks32 (w_now w)) (w_h w n) in
           if ok then (Inr (), on_handle n (\<lambda>_. h) w)
           else (Inl (NodeFault n RestartStorm),
                 emit_lifecycle P (LifecycleEvent n (LkFaulted RestartStorm)) w)))"

definition restart_stop_select :: "bool list \<Rightarrow> selector" where
  "restart_stop_select cycle = (\<lambda>j n w.
     (\<not> (\<not> cycle ! j \<or> is_detached (w_h w n) \<or> \<not> is_running (w_h w n)), w))"

definition restart_start_select :: "platform \<Rightarrow> supervisor \<Rightarrow> bool list \<Rightarrow> selector" where
  "restart_start_select P S cycle = (\<lambda>j n w.
     (cycle ! j \<and> \<not> is_detached (w_h w n) \<and> \<not> is_disabled (w_h w n) \<and> \<not> is_collateral (w_h w n)
      \<and> \<not> is_running (w_h w n) \<and> \<not> (s_has S SHAPE_ON_DEMAND \<and> cfg_mode (p_cfg P n) = OnDemand), w))"

definition restart :: "nat \<Rightarrow> platform \<Rightarrow> supervisor \<Rightarrow> nref \<Rightarrow> world \<Rightarrow> outcome_run" where
  "restart fuel P S target w =
     (case restart_gate P target w of
        (Inl e, w1) \<Rightarrow> (Ready (Inl e), w1)
      | (Inr _, w1) \<Rightarrow>
          (let cycle = collect_dependents S w1 (seed S target (no_slots S)) in
           run_ok (stop_nodes fuel P S (restart_stop_select cycle) False w1) (\<lambda>_ w2.
             scale_after S (start_nodes fuel P S (restart_start_select P S cycle) False w2))))"

definition absorb_restart :: "node_fault + unit \<Rightarrow> node_fault + unit" where
  "absorb_restart r =
     (case r of
        Inr _ \<Rightarrow> Inr ()
      | Inl e \<Rightarrow> if nf_kind e = ShutdownTimeout \<or> nf_kind e = RestartStorm then Inl e else Inr ())"

definition apply_control :: "nat \<Rightarrow> platform \<Rightarrow> supervisor \<Rightarrow> control_command \<Rightarrow> world \<Rightarrow> outcome_run" where
  "apply_control fuel P S cmd w =
     (case cc_op cmd of
        Deactivate \<Rightarrow> deactivate fuel P S (cc_node cmd) w
      | Activate \<Rightarrow> activate fuel P S (cc_node cmd) w
      | Restart \<Rightarrow> run_then (restart fuel P S (cc_node cmd) w) (\<lambda>r w1. (Ready (absorb_restart r), w1)))"

section \<open>Driving the pools\<close>

definition pool_act :: "nat \<Rightarrow> platform \<Rightarrow> supervisor \<Rightarrow> pool_action \<Rightarrow> world \<Rightarrow> outcome_run" where
  "pool_act fuel P S act w =
     (case act of
        StartMember n \<Rightarrow>
          if deps_running S n w \<and> ready_deps_ok P n w
          then run_then (start_node fuel P S n w) (\<lambda>_ w1. (Ready (Inr ()), w1))
          else (Ready (Inr ()), w)
      | StopMember n \<Rightarrow> stop_node fuel P S n w
      | NoPoolAction \<Rightarrow> (Ready (Inr ()), w))"

fun drive_pools :: "nat \<Rightarrow> platform \<Rightarrow> supervisor \<Rightarrow> nat \<Rightarrow> pool list \<Rightarrow> nat option \<Rightarrow> world
     \<Rightarrow> (node_fault + nat option) run \<times> world" where
  "drive_pools fuel P S now [] nxt w = (Ready (Inr nxt), w)"
| "drive_pools fuel P S now (p # ps) nxt w =
     (let (act, w1) = pool_evaluate p now w in
      run_ok (pool_act fuel P S act w1) (\<lambda>_ w2.
        drive_pools fuel P S now ps
          (case pool_deferred p w2 of
             None \<Rightarrow> nxt
           | Some d \<Rightarrow> Some (case nxt of None \<Rightarrow> d | Some c \<Rightarrow> min c d)) w2))"

fun run_pools :: "nat \<Rightarrow> nat \<Rightarrow> platform \<Rightarrow> supervisor \<Rightarrow> world \<Rightarrow> node_fault run \<times> world" where
  "run_pools 0 fuel P S w = (Pending, w)"
| "run_pools (Suc rounds) fuel P S w =
     (if \<not> s_has S SHAPE_POOLS then (Pending, w)
      else run_then (drive_pools fuel P S (w_now w) (s_pools S) None w) (\<lambda>r w1.
        case r of
          Inl e \<Rightarrow> (Ready e, w1)
        | Inr _ \<Rightarrow> run_pools rounds fuel P S (await P (w1\<lparr>scale_req := Wait # scale_req w1\<rparr>))))"

end
