(* ===== verification/Control.thy ===== *)
theory Control
  imports Supervisor
begin

text \<open>
  Which slots the control verbs act on. The one-pass walks of the source are compared with the
  closures they stand for, given as inductive predicates over the dependency rows.
\<close>

section \<open>One pass in dependency order\<close>

text \<open>
  A fold over the order that decides each slot from slots before it: an invariant about the
  part already walked, and one step.
\<close>

lemma fold_order:
  assumes "wf_sup S" "I [] s"
    and "\<And>ys j s. j < s_size S \<Longrightarrow> set (deps_row S j) \<subseteq> set ys \<Longrightarrow> j \<notin> set ys \<Longrightarrow> set ys \<subseteq> {..<s_size S}
           \<Longrightarrow> I ys s \<Longrightarrow> I (ys @ [j]) (f j s)"
  shows "I (order_iter S) (fold f (order_iter S) s)"
proof -
  have "k \<le> s_size S \<Longrightarrow> I (take k (order_iter S)) (fold f (take k (order_iter S)) s)" for k
  proof (induction k)
    case (Suc k)
    let ?o = "order_iter S"
    have k: "k < length ?o" using Suc wf_sup_order[OF assms(1)] by simp
    have j: "?o ! k < s_size S" using k wf_sup_order(1)[OF assms(1)] nth_mem by blast
    have "set (deps_row S (?o ! k)) \<subseteq> set (take k ?o)" using wf_sup_order(4)[OF assms(1)] Suc by simp
    moreover have "?o ! k \<notin> set (take k ?o)"
      using wf_sup_order(2)[OF assms(1)] k by (auto simp: in_set_conv_nth nth_eq_iff_index_eq)
    moreover have "set (take k ?o) \<subseteq> {..<s_size S}"
      using wf_sup_order(1)[OF assms(1)] set_take_subset by fastforce
    ultimately show ?case using assms(3)[OF j] Suc k by (simp add: take_Suc_conv_app_nth)
  qed (use assms(2) in simp)
  from this[of "s_size S"] show ?thesis using wf_sup_order(3)[OF assms(1)] by simp
qed

text \<open>The same in reverse: each slot comes after everything that depends on it.\<close>

lemma fold_rev_order:
  assumes "wf_sup S" "I [] s"
    and "\<And>ys j s. j < s_size S \<Longrightarrow> set ys \<subseteq> {..<s_size S} \<Longrightarrow> j \<notin> set ys
           \<Longrightarrow> (\<And>k. k < s_size S \<Longrightarrow> j \<in> set (deps_row S k) \<Longrightarrow> k \<in> set ys)
           \<Longrightarrow> I ys s \<Longrightarrow> I (j # ys) (f j s)"
  shows "I (order_iter S) (fold f (rev (order_iter S)) s)"
proof -
  let ?o = "order_iter S"
  have len: "length ?o = s_size S" using wf_sup_order[OF assms(1)] by simp
  have "k \<le> s_size S \<Longrightarrow> I (drop (s_size S - k) ?o) (fold f (rev (drop (s_size S - k) ?o)) s)" for k
  proof (induction k)
    case 0
    then show ?case using len assms(2) by simp
  next
    case (Suc k)
    let ?i = "s_size S - Suc k"
    have i: "?i < length ?o" "s_size S - k = Suc ?i" using Suc len by auto
    have d: "drop ?i ?o = ?o ! ?i # drop (s_size S - k) ?o" using i by (simp add: Cons_nth_drop_Suc)
    have j: "?o ! ?i < s_size S" using i wf_sup_order(1)[OF assms(1)] nth_mem by blast
    have fresh: "?o ! ?i \<notin> set (drop (s_size S - k) ?o)"
      using wf_sup_order(2)[OF assms(1)] i by (auto simp: in_set_conv_nth nth_eq_iff_index_eq)
    have "m \<in> set (drop (s_size S - k) ?o)" if m: "m < s_size S" "?o ! ?i \<in> set (deps_row S m)" for m
    proof -
      obtain p where p: "p < s_size S" "?o ! p = m"
        using m(1) wf_sup_order(1)[OF assms(1)] len by (metis in_set_conv_nth lessThan_iff)
      have "?o ! ?i \<in> set (take p ?o)" using wf_sup_order(4)[OF assms(1) p(1)] m(2) p(2) by blast
      then have "?i < p"
        using wf_sup_order(2)[OF assms(1)] i(1) by (auto simp: in_set_conv_nth nth_eq_iff_index_eq)
      then show ?thesis using p i len
        by (auto simp: in_set_conv_nth intro!: exI[of _ "p - Suc ?i"])
    qed
    moreover have "set (drop (s_size S - k) ?o) \<subseteq> {..<s_size S}"
      using wf_sup_order(1)[OF assms(1)] set_drop_subset by fastforce
    ultimately show ?case using assms(3)[OF j _ fresh] Suc by (simp add: d)
  qed
  from this[of "s_size S"] show ?thesis by simp
qed

section \<open>Dependents\<close>

text \<open>
  What stopping a set of slots takes with it: the slots themselves, and every managed node
  that depends on a slot taken.
\<close>

inductive taken :: "supervisor \<Rightarrow> world \<Rightarrow> bool list \<Rightarrow> nat \<Rightarrow> bool" for S w base where
  picked: "j < s_size S \<Longrightarrow> base ! j \<Longrightarrow> taken S w base j"
| dependent: "taken S w base d \<Longrightarrow> j < s_size S \<Longrightarrow> node_at S j = Some n \<Longrightarrow> \<not> is_detached (w_h w n)
    \<Longrightarrow> d \<in> set (deps_row S j) \<Longrightarrow> taken S w base j"

inductive_cases taken_elim: "taken S w base j"

lemma taken_range: "taken S w base j \<Longrightarrow> j < s_size S"
  by (auto elim: taken.cases)

definition collect_inv :: "supervisor \<Rightarrow> world \<Rightarrow> bool list \<Rightarrow> nat list \<Rightarrow> bool list \<Rightarrow> bool" where
  "collect_inv S w base ys xs \<longleftrightarrow> length xs = s_size S \<and>
     (\<forall>j < s_size S. xs ! j \<longleftrightarrow> base ! j \<or> j \<in> set ys \<and> taken S w base j)"

lemma collect_slot_inv:
  assumes "j < s_size S" "set (deps_row S j) \<subseteq> set ys" "set ys \<subseteq> {..<s_size S}" "collect_inv S w base ys xs"
  shows "collect_inv S w base (ys @ [j]) (collect_slot S w j xs)"
proof -
  have "xs ! d \<longleftrightarrow> taken S w base d" if "d \<in> set (deps_row S j)" for d
    using that assms taken.picked[of d S base w] by (auto simp: collect_inv_def)
  then have row: "list_ex (\<lambda>d. xs ! d) (deps_row S j) \<longleftrightarrow> (\<exists>d \<in> set (deps_row S j). taken S w base d)"
    by (auto simp: list_ex_iff)
  have "collect_slot S w j xs ! j \<longleftrightarrow> taken S w base j"
  proof
    assume "collect_slot S w j xs ! j"
    then show "taken S w base j"
      using assms row by (fastforce simp: collect_slot_def collect_inv_def split: if_splits option.splits
          intro: taken.intros)
  next
    assume "taken S w base j"
    then show "collect_slot S w j xs ! j"
    proof (cases rule: taken.cases)
      case picked
      then show ?thesis using assms by (simp add: collect_slot_def collect_inv_def)
    next
      case (dependent d n)
      then show ?thesis using assms row by (auto simp: collect_slot_def collect_inv_def)
    qed
  qed
  note at_j = this
  have other: "collect_slot S w j xs ! i = xs ! i" if "i \<noteq> j" for i
    using that by (simp add: collect_slot_def split: option.split)
  have "collect_slot S w j xs ! i \<longleftrightarrow> base ! i \<or> i \<in> set (ys @ [j]) \<and> taken S w base i" if "i < s_size S" for i
  proof (cases "i = j")
    case True
    then show ?thesis using at_j assms(1) taken.picked[of j S base w] by auto
  next
    case False
    then show ?thesis using other[of i] that assms(4) by (simp add: collect_inv_def)
  qed
  moreover have "length (collect_slot S w j xs) = length xs"
    by (simp add: collect_slot_def split: option.split)
  ultimately show ?thesis using assms(4) by (simp add: collect_inv_def)
qed

lemma collect_dependents_taken:
  assumes "wf_sup S" "length base = s_size S"
  shows "length (collect_dependents S w base) = s_size S"
    and "j < s_size S \<Longrightarrow> collect_dependents S w base ! j \<longleftrightarrow> taken S w base j"
proof -
  have "collect_inv S w base (order_iter S) (fold (collect_slot S w) (order_iter S) base)"
  proof (rule fold_order[OF assms(1)])
    show "collect_inv S w base [] base" using assms(2) by (simp add: collect_inv_def)
  qed (rule collect_slot_inv)
  then show "length (collect_dependents S w base) = s_size S"
    and "j < s_size S \<Longrightarrow> collect_dependents S w base ! j \<longleftrightarrow> taken S w base j"
    using wf_sup_order(1)[OF assms(1)]
    by (auto simp: collect_inv_def collect_dependents_def intro: taken.picked)
qed

text \<open>
  C7. One pass over the order finds the whole closure: after \<open>collect_dependents\<close> a slot is in
  the set exactly if it was in it before, or its node is managed and depends, directly or
  through other managed nodes, on a slot that was. A detached node neither joins nor passes the
  stop on.
\<close>

theorem collect_dependents_is_closure:
  assumes "wf_sup S" "length base = s_size S" "j < s_size S"
  shows "collect_dependents S w base ! j \<longleftrightarrow> taken S w base j"
  using collect_dependents_taken[OF assms(1,2)] assms(3) by blast

theorem collect_dependents_is_closure_witness:
  "collect_dependents two_nodes world_new [True, False] ! 1 \<longleftrightarrow> taken two_nodes world_new [True, False] 1"
  by (rule collect_dependents_is_closure[OF wf_two_nodes]) (simp_all add: two_nodes_def s_size_def)

section \<open>Dependencies\<close>

text \<open>What bringing a set of slots up needs: what a managed slot needs is needed too.\<close>

inductive needed :: "supervisor \<Rightarrow> world \<Rightarrow> bool list \<Rightarrow> nat \<Rightarrow> bool" for S w base where
  asked: "j < s_size S \<Longrightarrow> base ! j \<Longrightarrow> needed S w base j"
| dependency: "needed S w base k \<Longrightarrow> \<not> (case node_at S k of None \<Rightarrow> False | Some n \<Rightarrow> is_detached (w_h w n))
    \<Longrightarrow> d \<in> set (deps_row S k) \<Longrightarrow> needed S w base d"

lemma needed_range: "needed S w base j \<Longrightarrow> wf_sup S \<Longrightarrow> j < s_size S"
  by (induction rule: needed.induct) (use wf_sup_order(5) in fastforce)+

definition grow_inv :: "supervisor \<Rightarrow> world \<Rightarrow> bool list \<Rightarrow> nat list \<Rightarrow> bool list \<Rightarrow> bool" where
  "grow_inv S w base ys xs \<longleftrightarrow> length xs = s_size S \<and>
     (\<forall>j < s_size S. xs ! j \<longleftrightarrow> base ! j \<or> (\<exists>k \<in> set ys. needed S w base k \<and> j \<in> set (deps_row S k)
        \<and> \<not> (case node_at S k of None \<Rightarrow> False | Some n \<Rightarrow> is_detached (w_h w n))))"

lemma fold_set_True:
  "length (fold (\<lambda>d s. s[d := True]) ds xs) = length xs"
  "j < length xs \<Longrightarrow> fold (\<lambda>d s. s[d := True]) ds xs ! j \<longleftrightarrow> xs ! j \<or> j \<in> set ds"
proof -
  show "length (fold (\<lambda>d s. s[d := True]) ds xs) = length xs"
    by (induction ds arbitrary: xs) simp_all
  show "j < length xs \<Longrightarrow> fold (\<lambda>d s. s[d := True]) ds xs ! j \<longleftrightarrow> xs ! j \<or> j \<in> set ds"
  proof (induction ds arbitrary: xs)
    case (Cons d ds)
    then show ?case by (cases "d = j") simp_all
  qed simp
qed

lemma grow_slot_inv:
  assumes "wf_sup S" "j < s_size S" "set ys \<subseteq> {..<s_size S}"
    and "\<And>k. k < s_size S \<Longrightarrow> j \<in> set (deps_row S k) \<Longrightarrow> k \<in> set ys" and "grow_inv S w base ys xs"
  shows "grow_inv S w base (j # ys) (grow_slot S w j xs)"
proof -
  have "xs ! j \<longleftrightarrow> needed S w base j"
  proof
    assume "needed S w base j"
    then show "xs ! j"
    proof (cases rule: needed.cases)
      case (dependency k)
      then have "k \<in> set ys" using assms(4) needed_range[OF _ assms(1)] by blast
      then show ?thesis using dependency assms by (auto simp: grow_inv_def)
    qed (use assms in \<open>auto simp: grow_inv_def\<close>)
  next
    assume "xs ! j"
    then show "needed S w base j" using assms by (auto simp: grow_inv_def intro: needed.intros)
  qed
  then show ?thesis using assms
    by (auto simp: grow_inv_def grow_slot_def fold_set_True)
qed

lemma collect_dependencies_needed:
  assumes "wf_sup S" "length base = s_size S"
  shows "length (collect_dependencies S w base) = s_size S"
    and "j < s_size S \<Longrightarrow> collect_dependencies S w base ! j \<longleftrightarrow> needed S w base j"
proof -
  have g: "grow_inv S w base (order_iter S) (fold (grow_slot S w) (rev (order_iter S)) base)"
  proof (rule fold_rev_order[OF assms(1)])
    show "grow_inv S w base [] base" using assms(2) by (simp add: grow_inv_def)
  qed (rule grow_slot_inv[OF assms(1)])
  then show "length (collect_dependencies S w base) = s_size S"
    by (simp add: grow_inv_def collect_dependencies_def)
  show "collect_dependencies S w base ! j \<longleftrightarrow> needed S w base j" if j: "j < s_size S"
  proof
    assume "needed S w base j"
    then show "collect_dependencies S w base ! j"
      using j g wf_sup_order(1)[OF assms(1)] needed_range[OF _ assms(1)]
      by (cases rule: needed.cases) (auto simp: grow_inv_def collect_dependencies_def)
  next
    assume "collect_dependencies S w base ! j"
    then show "needed S w base j"
      using j g by (auto simp: grow_inv_def collect_dependencies_def intro: needed.intros)
  qed
qed

text \<open>
  Activation asks for exactly the dependency closure: one walk in reverse order sets a slot
  if and only if it was asked for, or a slot in the set whose node is not detached depends on it.
\<close>

theorem collect_dependencies_is_closure:
  assumes "wf_sup S" "length base = s_size S" "j < s_size S"
  shows "collect_dependencies S w base ! j \<longleftrightarrow> needed S w base j"
  using collect_dependencies_needed[OF assms(1,2)] assms(3) by blast

theorem collect_dependencies_is_closure_witness:
  "collect_dependencies two_nodes world_new [False, True] ! 0 \<longleftrightarrow> needed two_nodes world_new [False, True] 0"
  by (rule collect_dependencies_is_closure[OF wf_two_nodes]) (simp_all add: two_nodes_def s_size_def)

section \<open>Pools move as one\<close>

lemma nth_set_True: "i < length xs \<Longrightarrow> xs[x := True] ! i \<longleftrightarrow> xs ! i \<or> x = i"
  by (cases "x = i") simp_all

lemma mark_index_nth:
  "i < length xs \<Longrightarrow> mark_index S n xs ! i \<longleftrightarrow> xs ! i \<or> index_of S n = Some i"
  "length (mark_index S n xs) = length xs"
  by (auto simp: mark_index_def nth_set_True split: option.split)

lemma fold_mark_index:
  "length (fold (mark_index S) ns xs) = length xs"
  "i < length xs \<Longrightarrow> fold (mark_index S) ns xs ! i \<longleftrightarrow> xs ! i \<or> (\<exists>n \<in> set ns. index_of S n = Some i)"
proof -
  show "length (fold (mark_index S) ns xs) = length xs"
    by (induction ns arbitrary: xs) (simp_all add: mark_index_nth)
  show "i < length xs \<Longrightarrow> fold (mark_index S) ns xs ! i \<longleftrightarrow> xs ! i \<or> (\<exists>n \<in> set ns. index_of S n = Some i)"
    by (induction ns arbitrary: xs) (auto simp: mark_index_nth)
qed

lemma seed_length [simp]: "length (seed S target xs) = length xs"
proof -
  have "length (fold (\<lambda>p s. if target \<in> set (pool_members p) then fold (mark_index S) (pool_members p) s else s) ps xs)
      = length xs" for ps :: "pool list" and xs
    by (induction ps arbitrary: xs) (simp_all add: fold_mark_index)
  then show ?thesis by (simp add: seed_def Let_def mark_index_nth)
qed

lemma no_slots_simps [simp]: "length (no_slots S) = s_size S" "j < s_size S \<Longrightarrow> \<not> no_slots S ! j"
  by (simp_all add: no_slots_def)

text \<open>The nodes one control command addresses: its target, and its pools when it is a member.\<close>

definition addressed :: "supervisor \<Rightarrow> nref \<Rightarrow> nref \<Rightarrow> bool" where
  "addressed S target m \<longleftrightarrow> m = target \<or> s_has S SHAPE_POOLS
     \<and> (\<exists>p \<in> set (s_pools S). target \<in> set (pool_members p) \<and> m \<in> set (pool_members p))"

text \<open>
  A command on one member of a pool addresses the whole pool: \<open>seed\<close> marks the slot of the
  target and of every node sharing a pool with it, and no other slot.
\<close>

theorem seed_marks_pool:
  assumes "i < s_size S"
  shows "seed S target (no_slots S) ! i \<longleftrightarrow> (\<exists>m. addressed S target m \<and> index_of S m = Some i)"
proof -
  have f: "i < length xs \<Longrightarrow> fold (\<lambda>p s. if target \<in> set (pool_members p) then fold (mark_index S) (pool_members p) s else s) ps xs ! i
     \<longleftrightarrow> xs ! i \<or> (\<exists>p \<in> set ps. target \<in> set (pool_members p) \<and> (\<exists>m \<in> set (pool_members p). index_of S m = Some i))" for ps :: "pool list" and xs
    by (induction ps arbitrary: xs) (auto simp: fold_mark_index)
  show ?thesis using assms
    by (auto simp: seed_def Let_def addressed_def f mark_index_nth)
qed

text \<open>Slots 0 and 1 are one pool.\<close>

definition pooled :: supervisor where
  "pooled = two_nodes\<lparr>s_pools := [\<lparr>pool_evaluate = (\<lambda>_ w. (NoPoolAction, w)), pool_deferred = (\<lambda>_. None),
     pool_members = [10, 11]\<rparr>]\<rparr>"

theorem seed_marks_pool_witness:
  "seed pooled 10 (no_slots pooled) ! 1 \<longleftrightarrow> (\<exists>m. addressed pooled 10 m \<and> index_of pooled m = Some 1)"
  by (rule seed_marks_pool) (simp add: pooled_def two_nodes_def s_size_def)

section \<open>Deactivation\<close>

text \<open>Each node sits in one slot.\<close>

definition unique_nodes :: "supervisor \<Rightarrow> bool" where
  "unique_nodes S \<longleftrightarrow> (\<forall>i j n. i < s_size S \<longrightarrow> j < s_size S \<longrightarrow> node_at S i = Some n \<longrightarrow> node_at S j = Some n \<longrightarrow> i = j)"

text \<open>A selector that looks at and writes only the handle of the node it is asked about.\<close>

definition local_select :: "(nat \<Rightarrow> task_handle \<Rightarrow> bool) \<Rightarrow> (nat \<Rightarrow> task_handle \<Rightarrow> task_handle) \<Rightarrow> selector" where
  "local_select yes upd = (\<lambda>j n w. (yes j (w_h w n), on_handle n (upd j) w))"

lemma select_slots_local:
  assumes "distinct js" "set js \<subseteq> {..<s_size S}" "unique_nodes S" "length xs = s_size S"
    and "select_slots S (local_select yes upd) js (xs, w) = (ys, w1)"
  shows "length ys = s_size S"
    and "w1 = w\<lparr>w_h := w_h w1\<rparr>"
    and "\<And>j n. j < s_size S \<Longrightarrow> node_at S j = Some n \<Longrightarrow>
           w_h w1 n = (if j \<in> set js then upd j (w_h w n) else w_h w n)"
    and "\<And>j. j < s_size S \<Longrightarrow> ys ! j \<longleftrightarrow> xs ! j \<or> j \<in> set js \<and>
           (case node_at S j of None \<Rightarrow> False | Some n \<Rightarrow> yes j (w_h w n))"
proof -
  have "length ys = s_size S \<and> w1 = w\<lparr>w_h := w_h w1\<rparr>
    \<and> (\<forall>j n. j < s_size S \<longrightarrow> node_at S j = Some n \<longrightarrow>
           w_h w1 n = (if j \<in> set js then upd j (w_h w n) else w_h w n))
    \<and> (\<forall>j < s_size S. ys ! j \<longleftrightarrow> xs ! j \<or> j \<in> set js \<and>
           (case node_at S j of None \<Rightarrow> False | Some n \<Rightarrow> yes j (w_h w n)))"
    using assms(1,2,4,5)
  proof (induction js arbitrary: xs w)
    case Nil
    then show ?case by auto
  next
    case (Cons i js)
    show ?case
    proof (cases "node_at S i")
      case None
      then show ?thesis using Cons by auto
    next
      case (Some m)
      let ?w = "on_handle m (upd i) w"
      let ?xs = "if yes i (w_h w m) then xs[i := True] else xs"
      have st: "select_slots S (local_select yes upd) js (?xs, ?w) = (ys, w1)"
        using Cons.prems(4) Some by (simp add: local_select_def)
      have IH: "length ys = s_size S" "w1 = ?w\<lparr>w_h := w_h w1\<rparr>"
        "\<And>j n. j < s_size S \<Longrightarrow> node_at S j = Some n \<Longrightarrow>
           w_h w1 n = (if j \<in> set js then upd j (w_h ?w n) else w_h ?w n)"
        "\<And>j. j < s_size S \<Longrightarrow> ys ! j \<longleftrightarrow> ?xs ! j \<or> j \<in> set js \<and>
           (case node_at S j of None \<Rightarrow> False | Some n \<Rightarrow> yes j (w_h ?w n))"
        using Cons.IH[OF _ _ _ st] Cons.prems by auto
      have i: "i < s_size S" "i \<notin> set js" using Cons.prems by auto
      have uni: "n = m \<longleftrightarrow> j = i" if "j < s_size S" "node_at S j = Some n" for j n
        using that assms(3) i Some by (auto simp: unique_nodes_def)
      have hand: "w_h w1 n = (if j \<in> set (i # js) then upd j (w_h w n) else w_h w n)"
        if "j < s_size S" "node_at S j = Some n" for j n
        using IH(3)[OF that] uni[OF that] i by auto
      have bits: "ys ! j \<longleftrightarrow> xs ! j \<or> j \<in> set (i # js) \<and>
           (case node_at S j of None \<Rightarrow> False | Some n \<Rightarrow> yes j (w_h w n))" if "j < s_size S" for j
        using IH(4)[OF that] uni[OF that] i Some that Cons.prems(3)
        by (cases "j = i"; cases "node_at S j") auto
      have "w1 = w\<lparr>w_h := w_h w1\<rparr>" by (subst IH(2)) (simp add: on_handle_def)
      then show ?thesis using IH(1) hand bits by blast
    qed
  qed
  then show "length ys = s_size S" "w1 = w\<lparr>w_h := w_h w1\<rparr>"
    "\<And>j n. j < s_size S \<Longrightarrow> node_at S j = Some n \<Longrightarrow>
           w_h w1 n = (if j \<in> set js then upd j (w_h w n) else w_h w n)"
    "\<And>j. j < s_size S \<Longrightarrow> ys ! j \<longleftrightarrow> xs ! j \<or> j \<in> set js \<and>
           (case node_at S j of None \<Rightarrow> False | Some n \<Rightarrow> yes j (w_h w n))"
    by blast+
qed

definition latch :: "bool list \<Rightarrow> bool list \<Rightarrow> nat \<Rightarrow> task_handle \<Rightarrow> task_handle" where
  "latch picked down j h =
     (if down ! j \<and> \<not> is_detached h
      then (if picked ! j then set_disabled True h else flag_set COLLATERAL h) else h)"

lemma on_handle_same: "f (w_h w n) = w_h w n \<Longrightarrow> on_handle n f w = w"
  by (simp add: on_handle_def)

lemma on_handle_cong: "f (w_h w n) = g (w_h w n) \<Longrightarrow> on_handle n f w = on_handle n g w"
  by (simp add: on_handle_def)

lemma deactivate_select_local:
  "deactivate_select picked down =
     local_select (\<lambda>j h. down ! j \<and> \<not> is_detached h \<and> is_running h) (latch picked down)"
proof (intro ext)
  fix j n w
  show "deactivate_select picked down j n w =
      local_select (\<lambda>j h. down ! j \<and> \<not> is_detached h \<and> is_running h) (latch picked down) j n w"
  proof (cases "down ! j \<and> \<not> is_detached (w_h w n)")
    case True
    let ?f = "if picked ! j then set_disabled True else flag_set COLLATERAL"
    have "on_handle n (latch picked down j) w = on_handle n ?f w"
      by (rule on_handle_cong) (use True in \<open>simp add: latch_def\<close>)
    moreover have "is_running (w_h (on_handle n ?f w) n) = is_running (w_h w n)"
      by (simp add: reader_defs flag_simps)
    ultimately show ?thesis using True by (simp add: deactivate_select_def local_select_def Let_def)
  next
    case False
    then have "on_handle n (latch picked down j) w = w"
      by (intro on_handle_same) (auto simp: latch_def)
    then show ?thesis using False by (auto simp: deactivate_select_def local_select_def)
  qed
qed

text \<open>
  C8. What \<open>deactivate\<close> does before anything stops: every addressed managed node is latched
  disabled, every other managed node of the closure is marked collateral, no other node of the
  graph is touched; then exactly the running nodes of the closure are stopped, as one wave that
  ends at the first fault.
\<close>

theorem deactivate_latches:
  assumes "wf_sup S" "unique_nodes S"
  shows "\<exists>chosen w1. deactivate fuel P S target w = stop_wave fuel P S chosen False w1
     \<and> w1 = w\<lparr>w_h := w_h w1\<rparr>
     \<and> (\<forall>j n. j < s_size S \<longrightarrow> node_at S j = Some n \<longrightarrow>
          (let goes = taken S w (seed S target (no_slots S)) j \<and> \<not> is_detached (w_h w n) in
           (chosen ! j \<longleftrightarrow> goes \<and> is_running (w_h w n))
           \<and> w_h w1 n = (if goes
                then (if seed S target (no_slots S) ! j then set_disabled True (w_h w n)
                      else flag_set COLLATERAL (w_h w n))
                else w_h w n)))"
proof -
  let ?seed = "seed S target (no_slots S)"
  let ?down = "collect_dependents S w ?seed"
  have down: "?down ! j \<longleftrightarrow> taken S w ?seed j" if "j < s_size S" for j
    by (rule collect_dependents_taken(2)[OF assms(1) _ that]) simp
  obtain ys w1 where sel: "select_slots S (deactivate_select ?seed ?down) (rev (order_iter S)) (no_slots S, w) = (ys, w1)"
    by fastforce
  have rng: "distinct (rev (order_iter S))" "set (rev (order_iter S)) = {..<s_size S}"
    using wf_sup_order[OF assms(1)] by simp_all
  note loc = select_slots_local[OF rng(1) _ assms(2) no_slots_simps(1) sel[unfolded deactivate_select_local]]
  have h: "w_h w1 n = latch ?seed ?down j (w_h w n)" and c: "ys ! j \<longleftrightarrow> ?down ! j \<and> \<not> is_detached (w_h w n) \<and> is_running (w_h w n)"
    if "j < s_size S" "node_at S j = Some n" for j n
    using loc(3,4) that rng(2) by auto
  show ?thesis
  proof (intro exI[of _ ys] exI[of _ w1] conjI allI impI)
    show "deactivate fuel P S target w = stop_wave fuel P S ys False w1"
      using sel by (simp add: deactivate_def stop_nodes_def no_slots_def Let_def)
    show "w1 = w\<lparr>w_h := w_h w1\<rparr>" using loc(2) rng(2) by simp
  qed (use h c down in \<open>simp add: latch_def Let_def\<close>)
qed

lemma unique_two_nodes: "unique_nodes two_nodes"
  by (auto simp: unique_nodes_def two_nodes_def s_size_def node_at_def less_Suc_eq)

lemma two_nodes_slots [simp]: "s_size two_nodes = 2" "node_at two_nodes 0 = Some 10"
  "index_of two_nodes 10 = Some 0"
  by (simp_all add: index_of_def two_nodes_def s_size_def node_at_def upt_rec)

lemma two_nodes_seed: "seed two_nodes 10 (no_slots two_nodes) ! 0"
  using mark_index_nth(1)[of 0 "no_slots two_nodes" two_nodes 10]
  by (simp add: seed_def Let_def) (simp add: two_nodes_def)

theorem deactivate_latches_witness:
  "\<exists>chosen w1. deactivate 9 acking two_nodes 10 ten_up = stop_wave 9 acking two_nodes chosen False w1
     \<and> w_h w1 10 = set_disabled True (w_h ten_up 10) \<and> chosen ! 0"
proof -
  have t: "taken two_nodes ten_up (seed two_nodes 10 (no_slots two_nodes)) 0"
    by (rule taken.picked) (simp_all add: two_nodes_seed)
  obtain chosen w1 where "deactivate 9 acking two_nodes 10 ten_up = stop_wave 9 acking two_nodes chosen False w1"
    and r: "\<forall>j n. j < s_size two_nodes \<longrightarrow> node_at two_nodes j = Some n \<longrightarrow>
          (let goes = taken two_nodes ten_up (seed two_nodes 10 (no_slots two_nodes)) j \<and> \<not> is_detached (w_h ten_up n) in
           (chosen ! j \<longleftrightarrow> goes \<and> is_running (w_h ten_up n))
           \<and> w_h w1 n = (if goes
                then (if seed two_nodes 10 (no_slots two_nodes) ! j then set_disabled True (w_h ten_up n)
                      else flag_set COLLATERAL (w_h ten_up n))
                else w_h ten_up n))"
    using deactivate_latches[OF wf_two_nodes unique_two_nodes, of 9 acking 10 ten_up] by blast
  moreover have "w_h w1 10 = set_disabled True (w_h ten_up 10) \<and> chosen ! 0"
    using r[rule_format, of 0 10] t ten_up_running two_nodes_seed by (simp add: Let_def)
  ultimately show ?thesis by blast
qed

section \<open>Activation\<close>

lemma select_slots_fold:
  "snd (select_slots S (local_select yes upd) js (xs, w)) =
     fold (\<lambda>j w. case node_at S j of None \<Rightarrow> w | Some n \<Rightarrow> on_handle n (upd j) w) js w"
  by (induction js arbitrary: xs w) (simp_all add: local_select_def split: option.split)

definition enable :: "bool list \<Rightarrow> nat \<Rightarrow> task_handle \<Rightarrow> task_handle" where
  "enable up j h = (if up ! j \<and> \<not> is_detached h then set_disabled False h else h)"

lemma enable_slot_local:
  "enable_slot S up j w = (case node_at S j of None \<Rightarrow> w | Some n \<Rightarrow> on_handle n (enable up j) w)"
proof (cases "node_at S j")
  case (Some n)
  show ?thesis
  proof (cases "up ! j \<and> \<not> is_detached (w_h w n)")
    case True
    then have "on_handle n (enable up j) w = on_handle n (set_disabled False) w"
      by (intro on_handle_cong) (simp add: enable_def)
    then show ?thesis using True Some by (simp add: enable_slot_def)
  next
    case False
    then have "on_handle n (enable up j) w = w" by (intro on_handle_same) (auto simp: enable_def)
    then show ?thesis using False Some by (auto simp: enable_slot_def)
  qed
qed (simp add: enable_slot_def)

lemma enable_handles:
  assumes "wf_sup S" "unique_nodes S" "j < s_size S" "node_at S j = Some n"
  shows "w_h (fold (enable_slot S up) (order_iter S) w) n = enable up j (w_h w n)"
proof -
  have rng: "distinct (order_iter S)" "set (order_iter S) = {..<s_size S}"
    using wf_sup_order[OF assms(1)] by simp_all
  obtain ys w1 where sel: "select_slots S (local_select (\<lambda>_ _. False) (enable up)) (order_iter S) (no_slots S, w) = (ys, w1)"
    by fastforce
  then have "fold (enable_slot S up) (order_iter S) w = w1"
    using select_slots_fold[of S "\<lambda>_ _. False" "enable up" "order_iter S" "no_slots S" w]
    by (simp add: enable_slot_local[abs_def])
  then show ?thesis using select_slots_local(3)[OF rng(1) _ assms(2) no_slots_simps(1) sel assms(3,4)] rng(2) assms(3)
    by simp
qed

text \<open>
  What keeps a node collateral: it, or something it needs, is still deactivated after the
  activation has enabled what it asked for.
\<close>

inductive held_down :: "supervisor \<Rightarrow> world \<Rightarrow> bool list \<Rightarrow> nat \<Rightarrow> bool" for S w base where
  disabled: "j < s_size S \<Longrightarrow> node_at S j = Some n \<Longrightarrow> \<not> is_detached (w_h w n)
    \<Longrightarrow> is_disabled (w_h w n) \<Longrightarrow> \<not> needed S w base j \<Longrightarrow> held_down S w base j"
| above: "held_down S w base d \<Longrightarrow> j < s_size S \<Longrightarrow> node_at S j = Some n \<Longrightarrow> \<not> is_detached (w_h w n)
    \<Longrightarrow> d \<in> set (deps_row S j) \<Longrightarrow> held_down S w base j"

definition held_above :: "supervisor \<Rightarrow> world \<Rightarrow> bool list \<Rightarrow> nat \<Rightarrow> bool" where
  "held_above S w base j \<longleftrightarrow> (\<exists>d \<in> set (deps_row S j). held_down S w base d)"

lemma held_down_iff:
  "j < s_size S \<Longrightarrow> node_at S j = Some n \<Longrightarrow> \<not> is_detached (w_h w n) \<Longrightarrow>
     held_down S w base j \<longleftrightarrow> held_above S w base j \<or> is_disabled (w_h w n) \<and> \<not> needed S w base j"
  unfolding held_above_def by (subst held_down.simps) auto

lemma held_down_managed:
  "held_down S w base j \<Longrightarrow> \<exists>n. node_at S j = Some n \<and> \<not> is_detached (w_h w n)"
  by (auto elim: held_down.cases)

text \<open>A handle before the walk, and after the walk has passed its slot.\<close>

definition released :: "supervisor \<Rightarrow> world \<Rightarrow> bool list \<Rightarrow> nat \<Rightarrow> task_handle \<Rightarrow> task_handle" where
  "released S w base j h =
     (if is_detached h then h
      else let h1 = (if needed S w base j then set_disabled False h else h) in
           if is_collateral h \<and> \<not> held_above S w base j then flag_clear COLLATERAL h1 else h1)"

definition revives :: "supervisor \<Rightarrow> world \<Rightarrow> bool list \<Rightarrow> nat \<Rightarrow> bool" where
  "revives S w base j \<longleftrightarrow> (case node_at S j of None \<Rightarrow> False | Some n \<Rightarrow>
     \<not> is_detached (w_h w n) \<and> is_collateral (w_h w n) \<and> \<not> held_down S w base j)"

definition revive_inv ::
  "supervisor \<Rightarrow> world \<Rightarrow> bool list \<Rightarrow> bool list \<Rightarrow> nat list \<Rightarrow> bool list \<times> bool list \<times> world \<Rightarrow> bool" where
  "revive_inv S w base up ys = (\<lambda>(hold, revive, v).
     length hold = s_size S \<and> length revive = s_size S
     \<and> (\<forall>j < s_size S. hold ! j \<longleftrightarrow> j \<in> set ys \<and> held_down S w base j)
     \<and> (\<forall>j < s_size S. revive ! j \<longleftrightarrow> j \<in> set ys \<and> revives S w base j)
     \<and> (\<forall>j < s_size S. \<forall>n. node_at S j = Some n \<longrightarrow>
          w_h v n = (if j \<in> set ys then released S w base j (w_h w n) else enable up j (w_h w n))))"

lemma enable_bits:
  "is_detached (enable up j h) = is_detached h" "is_collateral (enable up j h) = is_collateral h"
  "is_disabled (enable up j h) \<longleftrightarrow> is_disabled h \<and> \<not> (up ! j \<and> \<not> is_detached h)"
  by (simp_all add: enable_def reader_defs flag_simps)

lemma revive_slot_inv:
  assumes "unique_nodes S" "j < s_size S" "set (deps_row S j) \<subseteq> set ys" "j \<notin> set ys" "set ys \<subseteq> {..<s_size S}"
    and up: "\<And>j. j < s_size S \<Longrightarrow> up ! j \<longleftrightarrow> needed S w base j"
    and inv: "revive_inv S w base up ys st"
  shows "revive_inv S w base up (ys @ [j]) (revive_slot S j st)"
proof -
  obtain hold revive v where st: "st = (hold, revive, v)" by (cases st)
  note inv' = inv[unfolded st revive_inv_def prod.case]
  show ?thesis
  proof (cases "node_at S j")
    case None
    then have "\<not> held_down S w base j" "\<not> revives S w base j"
      using held_down_managed[of S w base j] by (auto simp: revives_def)
    then show ?thesis using inv' None assms(2) unfolding st revive_inv_def revive_slot_def
      by (auto simp: less_Suc_eq)
  next
    case (Some n)
    have hv: "w_h v n = enable up j (w_h w n)" using inv' Some assms(2,4) by auto
    have uni: "m = n \<longleftrightarrow> i = j" if "i < s_size S" "node_at S i = Some m" for i m
      using that assms(1,2) Some by (auto simp: unique_nodes_def)
    show ?thesis
    proof (cases "is_detached (w_h w n)")
      case True
      then have "\<not> held_down S w base j" "\<not> revives S w base j"
        using held_down_managed[of S w base j] Some by (auto simp: revives_def)
      moreover have "released S w base j (w_h w n) = enable up j (w_h w n)"
        using True by (simp add: released_def enable_def)
      moreover have "revive_slot S j st = st"
        using Some True by (simp add: st revive_slot_def hv enable_bits)
      ultimately show ?thesis using inv' uni Some hv by (auto simp: st revive_inv_def)
    next
      case False
      have blocked: "list_ex (\<lambda>d. hold ! d) (deps_row S j) \<longleftrightarrow> held_above S w base j"
      proof -
        have "hold ! d \<longleftrightarrow> held_down S w base d" if "d \<in> set (deps_row S j)" for d
          using that inv' assms(3,5) by (meson lessThan_iff subsetD)
        then show ?thesis by (auto simp: list_ex_iff held_above_def)
      qed
      have hd: "held_down S w base j \<longleftrightarrow> held_above S w base j \<or> is_disabled (w_h v n)"
        using held_down_iff[of j S n w base] False Some assms(2) up by (auto simp: hv enable_bits)
      let ?go = "\<not> held_above S w base j \<and> is_collateral (w_h w n)"
      have rev: "revives S w base j \<longleftrightarrow> ?go \<and> \<not> is_disabled (w_h v n)"
        using False Some hd by (auto simp: revives_def)
      have rel: "released S w base j (w_h w n) = (if ?go then flag_clear COLLATERAL (w_h v n) else w_h v n)"
        using False up[OF assms(2)] by (simp add: released_def hv enable_def Let_def)
      have dis: "is_disabled (flag_clear COLLATERAL h) = is_disabled h" for h
        by (simp add: reader_defs flag_simps)
      show ?thesis
      proof (cases ?go)
        case True
        then have "revive_slot S j st = (hold[j := held_down S w base j],
            revive[j := revives S w base j], on_handle n (flag_clear COLLATERAL) v)"
          using Some False blocked hd rev by (simp add: st revive_slot_def hv enable_bits Let_def dis)
        then show ?thesis using inv' assms(2,4) uni rel True Some
          by (auto simp: revive_inv_def nth_list_update)
      next
        case go: False
        then have "revive_slot S j st = (hold[j := held_down S w base j], revive, v)"
          using Some False blocked hd by (auto simp: st revive_slot_def hv enable_bits Let_def)
        then show ?thesis using inv' assms(2,4) uni rel go rev Some
          by (auto simp: revive_inv_def nth_list_update)
      qed
    qed
  qed
qed

text \<open>
  C9. What \<open>activate\<close> does before anything starts: the latch of every managed node in the
  dependency closure is cleared; a collateral mark is taken back exactly where nothing below
  the node is still deactivated, so activating one branch never revives a node that another
  deactivated branch holds down; and the start wave is offered the closure and the revived
  nodes.
\<close>

theorem activate_releases:
  assumes "wf_sup S" "unique_nodes S" and base_def: "base = seed S target (no_slots S)"
  shows "\<exists>up revive w2. activate fuel P S target w = scale_after S (start_nodes fuel P S (activate_select P S up revive) True w2)
     \<and> (\<forall>j n. j < s_size S \<longrightarrow> node_at S j = Some n \<longrightarrow>
          (up ! j \<longleftrightarrow> needed S w base j) \<and> (revive ! j \<longleftrightarrow> revives S w base j)
          \<and> w_h w2 n = released S w base j (w_h w n))"
proof -
  let ?up = "collect_dependencies S w base"
  let ?w1 = "fold (enable_slot S ?up) (order_iter S) w"
  have up: "?up ! j \<longleftrightarrow> needed S w base j" if "j < s_size S" for j
    by (rule collect_dependencies_needed(2)[OF assms(1) _ that]) (simp add: base_def)
  obtain hold revive w2 where r: "fold (revive_slot S) (order_iter S) (no_slots S, no_slots S, ?w1) = (hold, revive, w2)"
    by (metis prod_cases3)
  have "revive_inv S w base ?up (order_iter S) (fold (revive_slot S) (order_iter S) (no_slots S, no_slots S, ?w1))"
  proof (rule fold_order[OF assms(1), where I = "revive_inv S w base ?up"])
    show "revive_inv S w base ?up [] (no_slots S, no_slots S, ?w1)"
      using enable_handles[OF assms(1,2)] by (simp add: revive_inv_def)
  qed (rule revive_slot_inv[OF assms(2)]; (assumption | rule up)+)
  then have inv: "revive_inv S w base ?up (order_iter S) (hold, revive, w2)" using r by simp
  show ?thesis
  proof (rule exI[of _ ?up], rule exI[of _ revive], rule exI[of _ w2], rule conjI)
    show "activate fuel P S target w = scale_after S (start_nodes fuel P S (activate_select P S ?up revive) True w2)"
      using r by (simp add: activate_def base_def Let_def)
  qed (use inv up wf_sup_order(1)[OF assms(1)] in \<open>auto simp: revive_inv_def\<close>)
qed

theorem activate_releases_witness:
  "\<exists>up revive w2. activate 9 acking two_nodes 10 world_new
      = scale_after two_nodes (start_nodes 9 acking two_nodes (activate_select acking two_nodes up revive) True w2)
     \<and> w_h w2 10 = released two_nodes world_new (seed two_nodes 10 (no_slots two_nodes)) 0 (w_h world_new 10)"
proof -
  obtain up revive w2 where "activate 9 acking two_nodes 10 world_new
      = scale_after two_nodes (start_nodes 9 acking two_nodes (activate_select acking two_nodes up revive) True w2)"
    and "\<forall>j n. j < s_size two_nodes \<longrightarrow> node_at two_nodes j = Some n \<longrightarrow>
          (up ! j \<longleftrightarrow> needed two_nodes world_new (seed two_nodes 10 (no_slots two_nodes)) j)
          \<and> (revive ! j \<longleftrightarrow> revives two_nodes world_new (seed two_nodes 10 (no_slots two_nodes)) j)
          \<and> w_h w2 n = released two_nodes world_new (seed two_nodes 10 (no_slots two_nodes)) j (w_h world_new n)"
    using activate_releases[OF wf_two_nodes unique_two_nodes refl, where P = acking and target = 10 and fuel = 9 and w = world_new] by blast
  then show ?thesis using two_nodes_slots by (metis zero_less_numeral)
qed

end
