(* ===== verification/Bind.thy ===== *)
theory Bind
  imports Control
begin

text \<open>
  The reaction to bound dependencies, \<open>apply_bind\<close>: which running nodes lose a provider, and
  what is marked and stopped before anything is brought back.
\<close>

text \<open>
  A running managed node is let down when one of its bound dependencies is not serving, or sits
  in this graph and is let down itself.
\<close>

inductive let_down :: "platform \<Rightarrow> supervisor \<Rightarrow> world \<Rightarrow> nat \<Rightarrow> bool" for P S w where
  not_serving: "j < s_size S \<Longrightarrow> node_at S j = Some n \<Longrightarrow> \<not> is_detached (w_h w n) \<Longrightarrow> is_running (w_h w n)
    \<Longrightarrow> d \<in> set (bound_deps (p_cfg P n)) \<Longrightarrow> \<not> is_serving d w \<Longrightarrow> let_down P S w j"
| provider: "let_down P S w k \<Longrightarrow> node_at S k = Some d \<Longrightarrow> j < s_size S \<Longrightarrow> node_at S j = Some n
    \<Longrightarrow> \<not> is_detached (w_h w n) \<Longrightarrow> is_running (w_h w n) \<Longrightarrow> d \<in> set (bound_deps (p_cfg P n))
    \<Longrightarrow> let_down P S w j"

inductive_cases let_down_elim: "let_down P S w j"

text \<open>The graph macro takes \<open>bound\<close> as a mark on an entry of \<open>deps:\<close>.\<close>

definition bound_in_rows :: "platform \<Rightarrow> supervisor \<Rightarrow> bool" where
  "bound_in_rows P S \<longleftrightarrow> (\<forall>j k n d. j < s_size S \<longrightarrow> k < s_size S \<longrightarrow> node_at S j = Some n
     \<longrightarrow> d \<in> set (bound_deps (p_cfg P n)) \<longrightarrow> node_at S k = Some d \<longrightarrow> k \<in> set (deps_row S j))"

lemma let_down_range: "let_down P S w j \<Longrightarrow> j < s_size S"
  by (auto elim: let_down.cases)

definition bind_inv :: "platform \<Rightarrow> supervisor \<Rightarrow> world \<Rightarrow> nat list \<Rightarrow> bool list \<Rightarrow> bool" where
  "bind_inv P S w ys xs \<longleftrightarrow> length xs = s_size S
     \<and> (\<forall>j < s_size S. xs ! j \<longleftrightarrow> j \<in> set ys \<and> let_down P S w j)"

lemma bind_slot_inv:
  assumes "bound_in_rows P S" "j < s_size S" "set (deps_row S j) \<subseteq> set ys" "j \<notin> set ys"
    "set ys \<subseteq> {..<s_size S}" "bind_inv P S w ys xs"
  shows "bind_inv P S w (ys @ [j]) (bind_slot P S w j xs)"
proof -
  have len: "length xs = s_size S" and xs: "\<And>i. i < s_size S \<Longrightarrow> xs ! i \<longleftrightarrow> i \<in> set ys \<and> let_down P S w i"
    using assms(6) by (simp_all add: bind_inv_def)
  have at_j: "bind_slot P S w j xs ! j \<longleftrightarrow> let_down P S w j"
  proof (cases "node_at S j")
    case None
    then show ?thesis using assms(2,4) xs by (auto simp: bind_slot_def elim: let_down_elim)
  next
    case (Some n)
    show ?thesis
    proof (cases "is_detached (w_h w n) \<or> \<not> is_running (w_h w n)")
      case True
      then show ?thesis using Some assms(2,4) xs by (auto simp: bind_slot_def elim: let_down_elim)
    next
      case False
      have "let_down P S w j" if "bind_down P S xs n w"
      proof -
        from that obtain d where d: "d \<in> set (bound_deps (p_cfg P n))"
          and c: "\<not> is_serving d w \<or> (\<exists>k < s_size S. xs ! k \<and> node_at S k = Some d)"
          unfolding bind_down_def list_ex_iff by (metis atLeastLessThan_iff set_upt)
        from c show ?thesis
        proof
          assume "\<exists>k < s_size S. xs ! k \<and> node_at S k = Some d"
          then obtain k where "k < s_size S" "let_down P S w k" "node_at S k = Some d" using xs by blast
          then show ?thesis using let_down.provider[of P S w k d j n] assms(2) Some False d by blast
        qed (use let_down.not_serving[of j S n w d P] assms(2) Some False d in blast)
      qed
      moreover have "bind_down P S xs n w" if "let_down P S w j"
        using that
      proof (cases rule: let_down.cases)
        case (not_serving m d)
        then show ?thesis using Some by (auto simp: bind_down_def list_ex_iff)
      next
        case (provider k d m)
        have k: "k < s_size S" using let_down_range[OF provider(1)] .
        then have "k \<in> set ys" using assms(1,2,3) provider Some unfolding bound_in_rows_def by blast
        then show ?thesis using provider Some k xs by (fastforce simp: bind_down_def list_ex_iff)
      qed
      ultimately show ?thesis using Some False assms(2) len by (auto simp: bind_slot_def)
    qed
  qed
  have other: "bind_slot P S w j xs ! i = xs ! i" if "i \<noteq> j" for i
    using that by (simp add: bind_slot_def split: option.split)
  have "bind_slot P S w j xs ! i \<longleftrightarrow> i \<in> set (ys @ [j]) \<and> let_down P S w i" if "i < s_size S" for i
    using at_j other[of i] xs[OF that] by (cases "i = j") auto
  moreover have "length (bind_slot P S w j xs) = s_size S"
    using len by (simp add: bind_slot_def split: option.split)
  ultimately show ?thesis by (simp add: bind_inv_def)
qed

lemma bind_fold:
  assumes "wf_sup S" "bound_in_rows P S"
  shows "length (fold (bind_slot P S w) (order_iter S) (no_slots S)) = s_size S"
    and "j < s_size S \<Longrightarrow> fold (bind_slot P S w) (order_iter S) (no_slots S) ! j \<longleftrightarrow> let_down P S w j"
proof -
  have "bind_inv P S w (order_iter S) (fold (bind_slot P S w) (order_iter S) (no_slots S))"
  proof (rule fold_order[OF assms(1), where I = "bind_inv P S w"])
    show "bind_inv P S w [] (no_slots S)" by (simp add: bind_inv_def)
  qed (rule bind_slot_inv[OF assms(2)])
  then show "length (fold (bind_slot P S w) (order_iter S) (no_slots S)) = s_size S"
    and "j < s_size S \<Longrightarrow> fold (bind_slot P S w) (order_iter S) (no_slots S) ! j \<longleftrightarrow> let_down P S w j"
    using wf_sup_order(1)[OF assms(1)] by (simp_all add: bind_inv_def)
qed

lemma bind_select_local:
  "bind_select stopping = local_select (\<lambda>j h. stopping ! j) (\<lambda>j h. if stopping ! j then flag_set BOUND_STOPPED h else h)"
proof (intro ext)
  fix j n w
  show "bind_select stopping j n w
      = local_select (\<lambda>j h. stopping ! j) (\<lambda>j h. if stopping ! j then flag_set BOUND_STOPPED h else h) j n w"
    by (cases "stopping ! j") (simp_all add: bind_select_def local_select_def on_handle_same)
qed

text \<open>
  C11. One reaction to a change of readiness: exactly the nodes that are let down, directly or
  through providers of this graph that are let down with them, are marked \<open>BOUND_STOPPED\<close> and
  stopped as one wave, dependents first; no other handle of the graph is touched before the
  wave; a fault of the wave ends the reaction, otherwise the resume pass follows.
\<close>

theorem apply_bind_stops:
  assumes "wf_sup S" "unique_nodes S" "bound_in_rows P S" "s_has S SHAPE_BOUND_DEPS"
  shows "\<exists>chosen w1. apply_bind fuel P S w
        = run_ok (stop_wave fuel P S chosen False w1) (\<lambda>_ w2. bind_resume fuel P S (order_iter S) w2)
     \<and> length chosen = s_size S \<and> w1 = w\<lparr>w_h := w_h w1\<rparr>
     \<and> (\<forall>j < s_size S. chosen ! j \<longleftrightarrow> let_down P S w j)
     \<and> (\<forall>j n. j < s_size S \<longrightarrow> node_at S j = Some n \<longrightarrow>
          w_h w1 n = (if let_down P S w j then flag_set BOUND_STOPPED (w_h w n) else w_h w n))"
proof -
  let ?stop = "fold (bind_slot P S w) (order_iter S) (no_slots S)"
  note stop = bind_fold[OF assms(1,3)]
  obtain ys w1 where sel: "select_slots S (bind_select ?stop) (rev (order_iter S)) (no_slots S, w) = (ys, w1)"
    by fastforce
  have rng: "distinct (rev (order_iter S))" "set (rev (order_iter S)) = {..<s_size S}"
    using wf_sup_order[OF assms(1)] by simp_all
  note loc = select_slots_local[OF rng(1) _ assms(2) no_slots_simps(1) sel[unfolded bind_select_local]]
  have occ: "let_down P S w j \<Longrightarrow> \<exists>n. node_at S j = Some n" for j
    by (auto elim: let_down_elim)
  show ?thesis
  proof (intro exI[of _ ys] exI[of _ w1] conjI allI impI)
    show "apply_bind fuel P S w
        = run_ok (stop_wave fuel P S ys False w1) (\<lambda>_ w2. bind_resume fuel P S (order_iter S) w2)"
      using sel assms(4) by (simp add: apply_bind_def stop_nodes_def no_slots_def Let_def)
    show "length ys = s_size S" "w1 = w\<lparr>w_h := w_h w1\<rparr>" using loc(1,2) rng(2) by simp_all
    show "ys ! j \<longleftrightarrow> let_down P S w j" if "j < s_size S" for j
      using loc(4)[OF _ that] rng(2) stop(2)[OF that] occ[of j] that by (cases "node_at S j") auto
    show "w_h w1 n = (if let_down P S w j then flag_set BOUND_STOPPED (w_h w n) else w_h w n)"
      if "j < s_size S" "node_at S j = Some n" for j n
      using loc(3)[OF _ that] rng(2) stop(2)[OF that(1)] that(1) by simp
  qed
qed

text \<open>Slot 1 is bound to slot 0.\<close>

definition bound_pair :: platform where
  "bound_pair = acking\<lparr>p_cfg := (\<lambda>n. if n = 11 then with_bound_deps [10] plain_cfg else plain_cfg)\<rparr>"

theorem apply_bind_stops_witness:
  "\<exists>chosen w1. apply_bind 9 bound_pair two_nodes ten_up
      = run_ok (stop_wave 9 bound_pair two_nodes chosen False w1)
          (\<lambda>_ w2. bind_resume 9 bound_pair two_nodes (order_iter two_nodes) w2)
     \<and> (chosen ! 1 \<longleftrightarrow> let_down bound_pair two_nodes ten_up 1)"
proof -
  have "bound_in_rows bound_pair two_nodes"
    by (auto simp: bound_in_rows_def bound_pair_def with_bound_deps_def plain_cfg_def cfg_new_def
        node_at_def two_nodes_def s_size_def deps_row_def less_Suc_eq)
  moreover have "s_has two_nodes SHAPE_BOUND_DEPS"
    by (simp add: s_has_def two_nodes_def has_def SHAPE_ALL_def SHAPE_BOUND_DEPS_def)
  ultimately show ?thesis
    using apply_bind_stops[OF wf_two_nodes unique_two_nodes, of bound_pair 9 ten_up] two_nodes_slots(1)
    by (metis one_less_numeral_iff semiring_norm(76))
qed

end
