(* ===== verification/Restart.thy ===== *)
theory Restart
  imports Control
begin

text \<open>
  The restart budget: how many restarts of one target a run of requests admits, what a refused
  one leaves untouched, and where the truncated clock shows through.
\<close>

section \<open>A run of requests\<close>

text \<open>The times of the admitted requests; only the supervisor task writes the two counters.\<close>

fun admitted :: "u16 \<Rightarrow> nat \<Rightarrow> nat list \<Rightarrow> task_handle \<Rightarrow> nat list" where
  "admitted mx win [] h = []"
| "admitted mx win (t # ts) h =
     (case restart_admit mx win (ticks32 t) h of
        (ok, h1) \<Rightarrow> if ok then t # admitted mx win ts h1 else admitted mx win ts h1)"

fun after_requests :: "u16 \<Rightarrow> nat \<Rightarrow> nat list \<Rightarrow> task_handle \<Rightarrow> task_handle" where
  "after_requests mx win [] h = h"
| "after_requests mx win (t # ts) h = after_requests mx win ts (snd (restart_admit mx win (ticks32 t) h))"

lemma admitted_append:
  "admitted mx win (ts @ us) h = admitted mx win ts h @ admitted mx win us (after_requests mx win ts h)"
  by (induction ts arbitrary: h) (auto split: prod.splits)

lemma admitted_subset: "set (admitted mx win ts h) \<subseteq> set ts"
  by (induction ts arbitrary: h) (auto split: prod.splits)

abbreviation window_len :: "nat \<Rightarrow> nat" where
  "window_len win \<equiv> unat (restart_window win)"

lemma ticks32_diff: "t \<le> u \<Longrightarrow> unat (ticks32 u - ticks32 t) = (u - t) mod 2 ^ 32"
proof -
  assume "t \<le> u"
  then have "ticks32 u - ticks32 t = of_nat (u - t)" by (simp add: ticks32_def of_nat_diff)
  then show ?thesis by (simp add: unat_of_nat)
qed

lemma inc_below: "unat x < unat y \<Longrightarrow> unat (x + 1) = unat x + 1" for x y :: u16
  by unat_arith

text \<open>While the window that opened at \<open>r\<close> is open, only what is left of it is admitted.\<close>

lemma admitted_in_window:
  assumes "\<forall>t \<in> set ts. r \<le> t \<and> t \<le> r + window_len win"
  shows "restart_window_start h = ticks32 r \<Longrightarrow> restarts h \<noteq> 0 \<Longrightarrow>
    length (admitted mx win ts h) \<le> unat mx - unat (restarts h)"
  using assms
proof (induction ts arbitrary: h)
  case (Cons t ts)
  have "unat (ticks32 t - ticks32 r) \<le> window_len win"
    using Cons.prems(3) ticks32_diff[of r t] le_trans[OF mod_less_eq_dividend, of "t - r" "window_len win" "2 ^ 32"]
    by auto
  then have open_yet: "\<not> restart_window win < ticks32 t - restart_window_start h"
    using Cons.prems(1) by (simp add: word_less_nat_alt)
  show ?case
  proof (cases "mx \<le> restarts h")
    case True
    then have "restart_admit mx win (ticks32 t) h = (False, h)"
      using open_yet Cons.prems(2) by (simp add: restart_admit_def Let_def)
    then show ?thesis using Cons by simp
  next
    case False
    then have lt: "unat (restarts h) < unat mx" by (simp add: word_le_nat_alt)
    then have inc: "unat (restarts h + 1) = unat (restarts h) + 1"
by (rule inc_below)
    have "restart_admit mx win (ticks32 t) h = (True, h\<lparr>restarts := restarts h + 1\<rparr>)"
      using open_yet Cons.prems(2) False by (simp add: restart_admit_def Let_def)
    moreover have "restarts h + 1 \<noteq> 0" using inc by auto
    ultimately show ?thesis using Cons.IH[of "h\<lparr>restarts := restarts h + 1\<rparr>"] Cons.prems inc lt by simp
  qed
qed simp

lemma admitted_short:
  assumes "1 \<le> mx"
  shows "sorted ts \<Longrightarrow> \<forall>t \<in> set ts. a \<le> t \<and> t \<le> a + window_len win \<Longrightarrow>
    length (admitted mx win ts h) \<le> unat mx - unat (restarts h) + unat mx"
proof (induction ts arbitrary: h)
  case (Cons t ts)
  have mx: "1 \<le> unat mx" using assms by (simp add: word_le_nat_alt)
  consider (fresh) "restarts h = 0 \<or> restart_window win < ticks32 t - restart_window_start h"
    | (refused) "\<not> (restarts h = 0 \<or> restart_window win < ticks32 t - restart_window_start h)" "mx \<le> restarts h"
    | (counted) "\<not> (restarts h = 0 \<or> restart_window win < ticks32 t - restart_window_start h)" "\<not> mx \<le> restarts h"
    by blast
  then show ?case
  proof cases
    case fresh
    let ?h = "h\<lparr>restart_window_start := ticks32 t, restarts := 1\<rparr>"
    have "length (admitted mx win ts ?h) \<le> unat mx - unat (restarts ?h)"
      by (rule admitted_in_window[where r = t]) (use Cons.prems in fastforce)+
    then show ?thesis using fresh mx by (simp add: restart_admit_def Let_def)
  next
    case refused
    then show ?thesis using Cons by (simp add: restart_admit_def Let_def)
  next
    case counted
    then have lt: "unat (restarts h) < unat mx" by (simp add: word_le_nat_alt)
    then have inc: "unat (restarts h + 1) = unat (restarts h) + 1"
      by (rule inc_below)
    then show ?thesis using counted lt Cons.IH[of "h\<lparr>restarts := restarts h + 1\<rparr>"] Cons.prems
      by (simp add: restart_admit_def Let_def)
  qed
qed simp

text \<open>
  C27. The restart budget holds over any stretch of time, not only over the windows the code
  happens to open: whatever the requests, of those inside an interval as long as the window at
  most twice the maximum are admitted, also across the wrap of the 32-bit tick counter.
\<close>

theorem restart_budget_bounds:
  assumes "sorted ts" "1 \<le> mx"
  shows "length (filter (\<lambda>t. a \<le> t \<and> t \<le> a + window_len win) (admitted mx win ts h)) \<le> 2 * unat mx"
proof -
  let ?in = "\<lambda>t. a \<le> t \<and> t \<le> a + window_len win"
  let ?pre = "takeWhile (\<lambda>t. t < a) ts" and ?rest = "dropWhile (\<lambda>t. t < a) ts"
  let ?mid = "takeWhile (\<lambda>t. t \<le> a + window_len win) ?rest"
  let ?post = "dropWhile (\<lambda>t. t \<le> a + window_len win) ?rest"
  have split: "ts = ?pre @ ?mid @ ?post" by simp
  have s: "sorted ?rest" "sorted ?mid"
    using assms(1) by (metis sorted_append takeWhile_dropWhile_id)+
  have pre: "\<forall>t \<in> set ?pre. t < a" by (auto dest: set_takeWhileD)
  have rest: "\<forall>t \<in> set ?rest. a \<le> t"
  proof (cases "?rest")
    case (Cons x xs)
    then have "a \<le> x" by (metis hd_dropWhile list.sel(1) list.simps(3) not_less)
    then show ?thesis using s(1) Cons by auto
  qed (metis empty_iff list.set(1))
  have post: "\<forall>t \<in> set ?post. a + window_len win < t"
  proof (cases "?post")
    case (Cons x xs)
    then have "a + window_len win < x" by (metis hd_dropWhile list.sel(1) list.simps(3) not_less)
    moreover have "sorted ?post" using s(1) by (metis sorted_append takeWhile_dropWhile_id)
    ultimately show ?thesis using Cons by auto
  qed (metis empty_iff list.set(1))
  have mid: "\<forall>t \<in> set ?mid. ?in t"
    using rest by (auto dest: set_takeWhileD)
  let ?h = "after_requests mx win ?pre h"
  have "filter ?in (admitted mx win ts h) = filter ?in (admitted mx win ?mid ?h)"
  proof -
    have "admitted mx win ts h = admitted mx win ?pre h @ admitted mx win ?mid ?h
        @ admitted mx win ?post (after_requests mx win ?mid ?h)"
      by (subst split) (simp only: admitted_append)
    moreover have "filter ?in (admitted mx win ?pre h) = []"
      using admitted_subset[of mx win ?pre h] pre by (fastforce simp: filter_empty_conv)
    moreover have "filter ?in (admitted mx win ?post g) = []" for g
      using admitted_subset[of mx win ?post g] post by (fastforce simp: filter_empty_conv)
    ultimately show ?thesis by simp
  qed
  also have "length \<dots> \<le> length (admitted mx win ?mid ?h)" by (rule length_filter_le)
  also have "\<dots> \<le> unat mx - unat (restarts ?h) + unat mx" by (rule admitted_short[OF assms(2) s(2) mid])
  finally show ?thesis by simp
qed

theorem restart_budget_bounds_witness:
  "length (filter (\<lambda>t. 5 \<le> t \<and> t \<le> 5 + window_len 10) (admitted 2 10 [0, 1, 5, 12, 13, 14] (handle_new False)))
     \<le> 2 * unat (2 :: u16)"
  by (rule restart_budget_bounds) simp_all

section \<open>What a refusal leaves alone\<close>

text \<open>
  A restart beyond the budget stops nothing and starts nothing: the verb returns
  \<open>RestartStorm\<close> on its target at once, the handles, gates, slots and clock are as they were,
  nothing is recorded as stopping, and only the lifecycle event reports it.
\<close>

theorem restart_storm_touches_nothing:
  assumes "quiet_sink P" "restart_budget (p_cfg P n) = Some (mx, win)"
    and "restarts (w_h w n) \<noteq> 0" "mx \<le> restarts (w_h w n)"
    and "ticks32 (w_now w) - restart_window_start (w_h w n) \<le> restart_window win"
  shows "\<exists>w'. restart fuel P S n w = (Ready (Inl (NodeFault n RestartStorm)), w')
    \<and> w_h w' = w_h w \<and> w_slots w' = w_slots w \<and> w_gates w' = w_gates w \<and> w_now w' = w_now w
    \<and> w_trace w' = w_trace w
    \<and> w' = emit_lifecycle P (LifecycleEvent n (LkFaulted RestartStorm)) w"
proof -
  have "(restart_window win < ticks32 (w_now w) - restart_window_start (w_h w n)) = False"
    using assms(5) by auto
  then have "restart_gate P n w = (Inl (NodeFault n RestartStorm),
      emit_lifecycle P (LifecycleEvent n (LkFaulted RestartStorm)) w)"
    using assms(2-4) by (simp only: restart_gate_def restart_admit_def Let_def) simp
  then show ?thesis using emit_lifecycle_quiet[OF assms(1)] by (simp add: restart_def)
qed

text \<open>Node 10 may restart once in 1000 ticks, and has.\<close>

definition budgeted :: platform where
  "budgeted = acking\<lparr>p_cfg := (\<lambda>_. with_restart_budget 1 1000 plain_cfg)\<rparr>"

definition ten_restarted :: world where
  "ten_restarted = on_handle 10 (\<lambda>h. h\<lparr>restarts := 1\<rparr>) ten_up"

theorem restart_storm_touches_nothing_witness:
  "\<exists>w'. restart 9 budgeted two_nodes 10 ten_restarted = (Ready (Inl (NodeFault 10 RestartStorm)), w')
     \<and> w_h w' = w_h ten_restarted"
proof -
  have "quiet_sink budgeted" by (simp add: quiet_sink_def budgeted_def acking_def plain_platform_def)
  moreover have "restart_budget (p_cfg budgeted 10) = Some (1, 1000)"
    by (simp add: budgeted_def with_restart_budget_def)
  moreover have "restarts (w_h ten_restarted 10) = 1" "restart_window_start (w_h ten_restarted 10) = 0"
    "w_now ten_restarted = 0"
    by (simp_all add: ten_restarted_def ten_up_def world_new_def handle_new_def flag_set_def)
  ultimately show ?thesis
    using restart_storm_touches_nothing[of budgeted 10 1 1000 ten_restarted 9 two_nodes]
    by (auto simp: ticks32_def restart_window_def)
qed

section \<open>The truncated clock\<close>

text \<open>
  A restart after the window has closed opens a new one, as long as the tick counter has
  not come round: with less than \<open>2 ^ 32\<close> ticks since the window opened at \<open>r\<close>.
\<close>

theorem restart_window_reopens:
  assumes "restart_window_start h = ticks32 r" "r + window_len win < t" "t < r + 2 ^ 32"
  shows "restart_admit mx win (ticks32 t) h = (True, h\<lparr>restart_window_start := ticks32 t, restarts := 1\<rparr>)"
proof -
  have "unat (ticks32 t - ticks32 r) = t - r" using assms(2,3) ticks32_diff[of r t] by simp
  then have "restart_window win < ticks32 t - restart_window_start h"
    using assms(1,2) by (simp add: word_less_nat_alt)
  then show ?thesis by (simp add: restart_admit_def Let_def)
qed

theorem restart_window_reopens_witness:
  "restart_admit 1 1000 (ticks32 1001) (w_h ten_restarted 10)
     = (True, (w_h ten_restarted 10)\<lparr>restart_window_start := ticks32 1001, restarts := 1\<rparr>)"
  by (rule restart_window_reopens[of _ 0])
    (simp_all add: ten_restarted_def ten_up_def world_new_def handle_new_def flag_set_def ticks32_def restart_window_def
      unat_minus_one_word_aux)

text \<open>
  After \<open>2 ^ 32\<close> ticks the closed window looks open again: a target that used its budget
  once is refused a restart that comes a full turn of the counter later, although its window
  closed long before.
\<close>

theorem restart_window_wraps:
  assumes "restart_window_start h = ticks32 r" "restarts h \<noteq> 0" "mx \<le> restarts h"
  shows "restart_admit mx win (ticks32 (r + 2 ^ 32)) h = (False, h)"
proof -
  have "ticks32 (r + 2 ^ 32) = ticks32 r" by (simp add: ticks32_def word_of_nat_eq_iff take_bit_eq_mod)
  then show ?thesis using assms by (simp add: restart_admit_def Let_def)
qed

theorem restart_window_wraps_witness:
  "\<not> fst (restart_admit 1 1000 (ticks32 (0 + 2 ^ 32)) (w_h ten_restarted 10))"
  by (subst restart_window_wraps[of _ 0])
    (simp_all add: ten_restarted_def ten_up_def world_new_def handle_new_def flag_set_def ticks32_def)

end
