(* ===== verification/Control_Live.thy ===== *)
theory Control_Live
  imports Bind Restart
begin

text \<open>
  Every control command ends: the composition of the waves' own bounds with what the verbs do
  around them.
\<close>

text \<open>Rounds enough for any wave over the graph, and for any single-node wait of it.\<close>

definition control_budget :: "platform \<Rightarrow> supervisor \<Rightarrow> nat" where
  "control_budget P S = stop_budget P S (replicate (s_size S) True) + start_budget P S
     + (\<Sum>s \<leftarrow> s_nodes S. case s of None \<Rightarrow> 0 | Some n \<Rightarrow> slot_timeout (p_cfg P n))"

lemma control_budget_bounds:
  "stop_budget P S (replicate (s_size S) True) \<le> control_budget P S" "start_budget P S \<le> control_budget P S"
  "node_at S j = Some n \<Longrightarrow> j < s_size S \<Longrightarrow> slot_timeout (p_cfg P n) \<le> control_budget P S"
proof -
  show "stop_budget P S (replicate (s_size S) True) \<le> control_budget P S" "start_budget P S \<le> control_budget P S"
    by (simp_all add: control_budget_def)
  let ?f = "\<lambda>s. case s of None \<Rightarrow> 0 | Some n \<Rightarrow> slot_timeout (p_cfg P n)"
  assume "node_at S j = Some n" "j < s_size S"
  then have "Some n \<in> set (s_nodes S)" by (metis node_at_def nth_mem s_size_def)
  then have "?f (Some n) \<in> set (map ?f (s_nodes S))" unfolding set_map by (rule imageI)
  then have "?f (Some n) \<le> sum_list (map ?f (s_nodes S))" by (rule member_le_sum_list) simp
  then show "slot_timeout (p_cfg P n) \<le> control_budget P S" by (simp add: control_budget_def)
qed

lemma stop_budget_le: "stop_budget P S chosen \<le> stop_budget P S (replicate (s_size S) True)"
  unfolding stop_budget_def by (rule sum_mono) simp

lemma stop_wave_returned:
  assumes "wf_sup S" "occupied S chosen" "budgets_keep_size P" "all_claims_fit P S w" "timely P"
    "control_budget P S < fuel"
  shows "returned (stop_wave fuel P S chosen kg w)"
proof -
  have "stop_budget P S chosen < fuel"
    using stop_budget_le control_budget_bounds(1) assms(6) by (meson le_less_trans le_trans)
  then show ?thesis
    using stop_rounds_live[OF assms(1-3) stop_start_live[OF assms(4)]] assms(5)
    unfolding stop_wave_def by (simp add: stop_start_pot returned_ex)
qed

text \<open>A selector that writes no gate.\<close>

definition gateless :: "selector \<Rightarrow> bool" where
  "gateless sel \<longleftrightarrow> (\<forall>j n w. w_gates (snd (sel j n w)) = w_gates w)"

lemma select_slots_gates:
  "gateless sel \<Longrightarrow> w_gates (snd (select_slots S sel js (xs, w))) = w_gates w"
proof (induction js arbitrary: xs w)
  case (Cons j js)
  show ?case
  proof (cases "node_at S j")
    case (Some n)
    obtain yes w1 where s: "sel j n w = (yes, w1)" by force
    moreover have "w_gates w1 = w_gates w" using Cons.prems s by (metis gateless_def snd_conv)
    ultimately show ?thesis using Some Cons by simp
  qed (use Cons in simp)
qed simp

lemma stop_nodes_returned:
  assumes "wf_sup S" "budgets_keep_size P" "all_claims_fit P S w" "timely P" "control_budget P S < fuel"
    "gateless sel"
  shows "returned (stop_nodes fuel P S sel kg w)"
proof -
  obtain xs w1 where s: "select_slots S sel (rev (order_iter S)) (replicate (s_size S) False, w) = (xs, w1)"
    by fastforce
  have "occupied S xs" using select_slots_occupied[OF occupied_none] s by (metis fst_conv)
  moreover have "w_gates w1 = w_gates w" using select_slots_gates[OF assms(6)] s by (metis snd_conv)
  then have "all_claims_fit P S w1" using assms(3) all_claims_fit_cong[of w1 w] by simp
  ultimately show ?thesis using s stop_wave_returned assms by (simp add: stop_nodes_def)
qed

lemma start_nodes_returned:
  assumes "wf_sup S" "start_timely P" "control_budget P S < fuel"
  shows "returned (start_nodes fuel P S sel kg w)"
proof -
  obtain chosen w1 where s: "select_slots S sel (order_iter S) (replicate (s_size S) False, w) = (chosen, w1)"
    by force
  then have occ: "occupied S chosen" using select_slots_occupied[OF occupied_none] by (metis fst_conv)
  have "start_budget P S < fuel" using control_budget_bounds(2) assms(3) by (rule le_less_trans)
  then have "start_pot P S (w_now w1) (start_begin S chosen w1) < fuel"
    using start_begin_pot[OF occ] by (rule le_less_trans[rotated])
  then show ?thesis
    unfolding start_nodes_def using s start_rounds_live[OF assms(1) start_begin_pend[OF occ]] assms(2)
    by (simp add: returned_ex)
qed

lemma gateless_selects [simp]:
  "gateless (deactivate_select a b)" "gateless teardown_select" "gateless (bind_select a)"
  "gateless (restart_stop_select a)"
  by (auto simp: gateless_def deactivate_select_def teardown_select_def bind_select_def
      restart_stop_select_def Let_def)

lemma bind_resume_returned:
  assumes "wf_sup S" "start_timely P" "control_budget P S < fuel"
  shows "set js \<subseteq> {..<s_size S} \<Longrightarrow> returned (bind_resume fuel P S js w)"
proof (induction js arbitrary: w)
  case (Cons j js)
  have st: "returned (start_node fuel P S n w)" if "node_at S j = Some n" for n w
    using start_node_returned[OF assms(2)] control_budget_bounds(3)[OF that, of P] Cons.prems assms(3) by auto
  show ?case
    using Cons st by (auto simp: Let_def split: option.split mode.split intro!: returned_then)
qed simp

lemma restart_returned:
  assumes "wf_sup S" "start_timely P" "budgets_keep_size P" "all_claims_fit P S w" "control_budget P S < fuel"
  shows "returned (restart fuel P S n w)"
proof -
  have t: "timely P" using assms(2) by (simp add: start_timely_def)
  have "all_claims_fit P S (on_handle n f w)" for f using assms(4) by (simp add: live_on_handle)
  then show ?thesis
    using stop_nodes_returned[OF assms(1,3) _ t assms(5)] start_nodes_returned[OF assms(1,2,5)] assms(4)
    by (auto simp: restart_def restart_gate_def scale_after_def Let_def split: option.split prod.split
        intro!: returned_ok returned_then)
qed

text \<open>
  C10. Every control command ends, whatever the tasks it addresses do: with a running clock,
  budgets that keep their slots and claims in range, activate, deactivate and restart return a
  result after at most the rounds of \<open>control_budget\<close>, a bound computed from the declared
  timeouts. None of them can panic or hang the supervisor.
\<close>

theorem apply_control_returns:
  assumes "wf_sup S" "start_timely P" "budgets_keep_size P" "all_claims_fit P S w" "control_budget P S < fuel"
  shows "\<exists>res w'. apply_control fuel P S cmd w = (Ready res, w')"
proof -
  have t: "timely P" using assms(2) by (simp add: start_timely_def)
  have "returned (deactivate fuel P S n w)" for n
    using stop_nodes_returned[OF assms(1,3,4) t assms(5)] by (simp add: deactivate_def Let_def)
  moreover have "returned (activate fuel P S n w)" for n
    using start_nodes_returned[OF assms(1,2,5)]
    by (auto simp: activate_def scale_after_def Let_def split: prod.split intro!: returned_then)
  ultimately have "returned (apply_control fuel P S cmd w)"
    using restart_returned[OF assms]
    by (auto simp: apply_control_def split: control_op.split intro!: returned_then)
  then show ?thesis by (simp add: returned_ex)
qed

lemma two_nodes_budget: "control_budget acking two_nodes < 5000"
proof -
  have "ack_window acking n = 2000" "gate_window acking n = 100" for n
    by (simp_all add: ack_window_def gate_window_def acking_ack_timeout acking_slot_timeout)
      (simp_all add: acking_def plain_platform_def plain_time_def)
  then have "stop_budget acking two_nodes (replicate (s_size two_nodes) True) = 4004"
    and "start_budget acking two_nodes = 204"
    by (simp_all add: stop_budget_def start_budget_def lessThan_Suc numeral_2_eq_2)
      (simp_all add: two_nodes_def node_at_def)
  then show ?thesis by (simp add: control_budget_def) (simp add: two_nodes_def acking_slot_timeout)
qed

theorem apply_control_returns_witness:
  "\<exists>res w'. apply_control 5000 acking two_nodes (ControlCommand 10 Restart) ten_up = (Ready res, w')"
  by (rule apply_control_returns[OF wf_two_nodes acking_start_timely acking_keeps_size two_nodes_facts(2) two_nodes_budget])

text \<open>
  The reaction to bound dependencies ends under the same conditions: the stop wave, and the
  restarts and resumes after it, none of which can keep the supervisor waiting past its timeouts.
\<close>

theorem apply_bind_returns:
  assumes "wf_sup S" "start_timely P" "budgets_keep_size P" "all_claims_fit P S w" "control_budget P S < fuel"
  shows "\<exists>res w'. apply_bind fuel P S w = (Ready res, w')"
proof -
  have t: "timely P" using assms(2) by (simp add: start_timely_def)
  have "returned (apply_bind fuel P S w)"
    using stop_nodes_returned[OF assms(1,3,4) t assms(5)] bind_resume_returned[OF assms(1,2,5)]
      wf_sup_order(1)[OF assms(1)]
    by (auto simp: apply_bind_def Let_def intro!: returned_ok)
  then show ?thesis by (simp add: returned_ex)
qed

theorem apply_bind_returns_witness:
  "\<exists>res w'. apply_bind 5000 acking two_nodes ten_up = (Ready res, w')"
  by (rule apply_bind_returns[OF wf_two_nodes acking_start_timely acking_keeps_size two_nodes_facts(2) two_nodes_budget])

end
