(* ===== verification/Monitor.thy ===== *)
theory Monitor
  imports Control
begin

text \<open>
  The liveness monitor of \<^verbatim>\<open>supervisor/src/lib.rs\<close>: the sleep until the next check, the look
  at one node with its strike counter, and the loop.
\<close>

section \<open>The sweep\<close>

text \<open>The shortest time until a check; asking a node may grant its pending beat.\<close>

fun next_check :: "platform \<Rightarrow> nref list \<Rightarrow> world \<Rightarrow> nat option \<times> world" where
  "next_check P [] w = (None, w)"
| "next_check P (n # ns) w =
     (let (t, w1) = ticks_until_check P n w;
          (rest, w2) = next_check P ns w1
      in (case t of
            None \<Rightarrow> rest
          | Some a \<Rightarrow> Some (case rest of None \<Rightarrow> a | Some b \<Rightarrow> min a b), w2))"

text \<open>Observed writes beat on behalf of the task.\<close>

definition beat_on_write :: "platform \<Rightarrow> supervisor \<Rightarrow> nref \<Rightarrow> world \<Rightarrow> world" where
  "beat_on_write P S n w =
     (if s_has S SHAPE_OBSERVED
      then let (moved, w1) = poll_observed_writes P n w in
           if moved
           then let w2 = on_handle n beat w1 in
                if ready_on_write (p_cfg P n) \<and> \<not> is_ready (w_h w2 n) then set_ready n w2 else w2
           else w1
      else w)"

definition strike_window :: "node_cfg \<Rightarrow> u8" where
  "strike_window c = (if beat_window c = 0 then 1 else beat_window c)"

definition put_strikes :: "nref \<Rightarrow> u8 \<Rightarrow> world \<Rightarrow> world" where
  "put_strikes n k w = on_handle n (\<lambda>h. h\<lparr>stale_strikes := k\<rparr>) w"

text \<open>The event a stale or a fresh look reports, if any, and the counter it leaves.\<close>

definition late_look :: "platform \<Rightarrow> nref \<Rightarrow> world \<Rightarrow> health_kind option \<times> world" where
  "late_look P n w =
     (let window = strike_window (p_cfg P n); strikes = stale_strikes (w_h w n) in
      if strikes < window
      then let strikes1 = strikes + 1; w1 = put_strikes n strikes1 w in
           if strikes1 = window
           then let (t, w2) = ticks_since_beat n w1 in (Some (Stale t), w2)
           else (None, w1)
      else (None, w))"

definition fresh_look :: "platform \<Rightarrow> nref \<Rightarrow> world \<Rightarrow> health_kind option \<times> world" where
  "fresh_look P n w =
     (let had = stale_strikes (w_h w n); w1 = put_strikes n 0 w in
      (if strike_window (p_cfg P n) \<le> had then Some Recovered else None, w1))"

definition monitor_look :: "platform \<Rightarrow> supervisor \<Rightarrow> nref \<Rightarrow> world \<Rightarrow> health_kind option \<times> world" where
  "monitor_look P S n w =
     (case beat_timeout (p_cfg P n) of
        None \<Rightarrow> (None, w)
      | Some budget \<Rightarrow>
          if is_detached (w_h w n) \<or> \<not> is_running (w_h w n) then (None, put_strikes n 0 w)
          else let (stale, w1) = is_stale budget n (beat_on_write P S n w) in
               if stale then late_look P n w1 else fresh_look P n w1)"

definition monitor_node :: "platform \<Rightarrow> supervisor \<Rightarrow> nref \<Rightarrow> world \<Rightarrow> world" where
  "monitor_node P S n w =
     (case monitor_look P S n w of
        (None, w1) \<Rightarrow> w1
      | (Some k, w1) \<Rightarrow> emit_health P (HealthEvent n k) w1)"

definition monitor_idle :: "platform \<Rightarrow> supervisor \<Rightarrow> bool" where
  "monitor_idle P S \<longleftrightarrow> \<not> s_has S SHAPE_BEATS
     \<or> \<not> list_ex (\<lambda>n. beat_timeout (p_cfg P n) \<noteq> None) (flatten (s_nodes S))"

text \<open>The loop never returns: after the given rounds it is still at it, in this state.\<close>

definition monitor_sleep :: "platform \<Rightarrow> supervisor \<Rightarrow> world \<Rightarrow> nat \<times> world" where
  "monitor_sleep P S w =
     (let (t, w1) = next_check P (flatten (s_nodes S)) w
      in (case t of None \<Rightarrow> 1 | Some k \<Rightarrow> k, w1))"

fun monitor :: "nat \<Rightarrow> platform \<Rightarrow> supervisor \<Rightarrow> world \<Rightarrow> world" where
  "monitor 0 P S w = w"
| "monitor (Suc rounds) P S w =
     (if monitor_idle P S then w
      else let (sleep, w1) = monitor_sleep P S w
           in monitor rounds P S (fold (monitor_node P S) (flatten (s_nodes S)) (await P w1)))"

section \<open>Hysteresis\<close>

text \<open>What one look finds.\<close>

datatype sight = Down | Fresh | Late

definition sight_of :: "platform \<Rightarrow> supervisor \<Rightarrow> nat \<Rightarrow> nref \<Rightarrow> world \<Rightarrow> sight" where
  "sight_of P S budget n w =
     (if is_detached (w_h w n) \<or> \<not> is_running (w_h w n) then Down
      else if fst (is_stale budget n (beat_on_write P S n w)) then Late else Fresh)"

text \<open>
  The looks at one node, newest first, each after whatever \<open>e\<close> the rest of the system did since
  the last one; with each look what it found and what it reported.
\<close>

fun looks :: "platform \<Rightarrow> supervisor \<Rightarrow> nat \<Rightarrow> nref \<Rightarrow> (world \<Rightarrow> world) list \<Rightarrow> world
     \<Rightarrow> (sight \<times> health_kind option) list \<times> world" where
  "looks P S budget n [] w = ([], w)"
| "looks P S budget n (e # es) w =
     (let (log, w1) = looks P S budget n es w;
          w2 = e w1; (ev, w3) = monitor_look P S n w2
      in ((sight_of P S budget n w2, ev) # log, w3))"

text \<open>How many of the last looks in a row were late.\<close>

fun streak :: "sight list \<Rightarrow> nat" where
  "streak (Late # xs) = Suc (streak xs)"
| "streak _ = 0"

text \<open>
  The rule: late once the streak reaches the window, recovered at the first fresh look after a
  streak that reached it.
\<close>

fun expected :: "nat \<Rightarrow> sight list \<Rightarrow> health_kind option \<Rightarrow> bool" where
  "expected window [] ev = (ev = None)"
| "expected window (Late # older) ev = ((ev \<noteq> None \<longleftrightarrow> streak (Late # older) = window) \<and> ev \<noteq> Some Recovered)"
| "expected window (Fresh # older) ev = (ev = (if window \<le> streak older then Some Recovered else None))"
| "expected window (Down # older) ev = (ev = None)"

fun all_expected :: "nat \<Rightarrow> (sight \<times> health_kind option) list \<Rightarrow> bool" where
  "all_expected window [] = True"
| "all_expected window ((s, ev) # log) = (expected window (s # map fst log) ev \<and> all_expected window log)"

lemma beat_sum_frame: "stale_strikes (w_h (beat_on_write P S n w) n) = stale_strikes (w_h w n)"
  by (auto simp: beat_on_write_def poll_observed_writes_def set_ready_def request_scale_def notify_bind_def
      notify_serving_def sv_gate_event_def beat_def flag_set_def Let_def split: prod.split)

lemma ticks_since_beat_frame: "ticks_since_beat n w = (t, w1) \<Longrightarrow> stale_strikes (w_h w1 n) = stale_strikes (w_h w n)"
  by (auto simp: ticks_since_beat_def Let_def)

lemma is_stale_frame: "is_stale b n w = (s, w1) \<Longrightarrow> stale_strikes (w_h w1 n) = stale_strikes (w_h w n)"
  by (auto simp: is_stale_def split: if_splits prod.splits dest: ticks_since_beat_frame)

lemma strike_window_pos: "0 < unat (strike_window c)"
  by (simp add: strike_window_def unat_gt_0)

lemma monitor_look_step:
  assumes "beat_timeout (p_cfg P n) = Some budget" "monitor_look P S n w = (ev, w1)"
    "unat (stale_strikes (w_h w n)) = min (unat (strike_window (p_cfg P n))) (streak older)"
  shows "expected (unat (strike_window (p_cfg P n))) (sight_of P S budget n w # older) ev
    \<and> unat (stale_strikes (w_h w1 n))
        = min (unat (strike_window (p_cfg P n))) (streak (sight_of P S budget n w # older))"
proof (cases "sight_of P S budget n w")
  case Down
  then show ?thesis using assms(1,2)
    by (auto simp: sight_of_def monitor_look_def put_strikes_def split: if_splits)
next
  case Fresh
  obtain st v where st: "is_stale budget n (beat_on_write P S n w) = (st, v)" by fastforce
  have "stale_strikes (w_h v n) = stale_strikes (w_h w n)"
    using is_stale_frame[OF st] beat_sum_frame by metis
  then show ?thesis using assms Fresh st
    by (auto simp: sight_of_def monitor_look_def fresh_look_def put_strikes_def word_le_nat_alt Let_def
        split: if_splits)
next
  case Late
  obtain st v where st: "is_stale budget n (beat_on_write P S n w) = (st, v)" by fastforce
  have eq: "stale_strikes (w_h v n) = stale_strikes (w_h w n)"
    using is_stale_frame[OF st] beat_sum_frame by metis
  let ?win = "strike_window (p_cfg P n)"
  have look: "(ev, w1) = late_look P n v" using assms(1,2) Late st
    by (auto simp: sight_of_def monitor_look_def split: if_splits)
  show ?thesis
  proof (cases "stale_strikes (w_h v n) < ?win")
    case True
    then have inc: "unat (stale_strikes (w_h v n) + 1) = Suc (streak older)" and lt: "streak older < unat ?win"
      using assms(3) eq by (unat_arith, simp add: word_less_nat_alt)
    then have full: "stale_strikes (w_h v n) + 1 = ?win \<longleftrightarrow> Suc (streak older) = unat ?win"
      by (metis word_unat_eq_iff)
    show ?thesis
    proof (cases "stale_strikes (w_h v n) + 1 = ?win")
      case eqw: True
      obtain t u where t: "ticks_since_beat n (put_strikes n ?win v) = (t, u)" by fastforce
      have "stale_strikes (w_h u n) = ?win" using ticks_since_beat_frame[OF t] by (simp add: put_strikes_def)
      then show ?thesis using look True eqw t full Late by (simp add: late_look_def Let_def)
    next
      case False
      then show ?thesis using look True full inc lt Late by (simp add: late_look_def Let_def put_strikes_def)
    qed
  next
    case False
    then have "unat ?win \<le> streak older" using assms(3) eq by (simp add: word_less_nat_alt)
    then show ?thesis using look False Late assms(3) eq by (simp add: late_look_def Let_def)
  qed
qed

lemma looks_expected:
  assumes "beat_timeout (p_cfg P n) = Some budget"
    and "\<forall>e \<in> set es. \<forall>w. stale_strikes (w_h (e w) n) = stale_strikes (w_h w n)"
    and "stale_strikes (w_h w n) = 0"
  shows "looks P S budget n es w = (log, w1) \<Longrightarrow>
    all_expected (unat (strike_window (p_cfg P n))) log
    \<and> unat (stale_strikes (w_h w1 n)) = min (unat (strike_window (p_cfg P n))) (streak (map fst log))"
  using assms(2)
proof (induction es arbitrary: log w1)
  case (Cons e es)
  obtain log0 v where l: "looks P S budget n es w = (log0, v)" by fastforce
  obtain ev u where m: "monitor_look P S n (e v) = (ev, u)" by fastforce
  have "unat (stale_strikes (w_h (e v) n)) = min (unat (strike_window (p_cfg P n))) (streak (map fst log0))"
    using Cons.IH[OF l] Cons.prems(2) by simp
  from monitor_look_step[OF assms(1) m this] show ?case using Cons l m by auto
qed (use assms(3) in simp)


text \<open>A node with a budget of 5 ticks that never beats, looked at every 4 ticks.\<close>

definition policed :: platform where
  "policed = acking\<lparr>p_cfg := (\<lambda>_. with_beat_window 2 (with_beat_timeout 5 plain_cfg))\<rparr>"


section \<open>A stall reported twice\<close>

lemma all_expected_nth:
  "all_expected window log \<Longrightarrow> i < length log \<Longrightarrow> expected window (map fst (drop i log)) (snd (log ! i))"
proof (induction window log arbitrary: i rule: all_expected.induct)
  case (2 window s ev log)
  then show ?case by (cases i) auto
qed simp

lemma streak_late: "streak (replicate k Late @ xs) = k + streak xs"
  by (induction k) simp_all

text \<open>
  A node reported stale that is stopped and started again is reported stale a second time
  with no \<open>Recovered\<close> between: going down clears the strikes without a word.
\<close>

theorem stale_twice_without_recovery:
  assumes "beat_timeout (p_cfg P n) = Some budget" "k = unat (strike_window (p_cfg P n))"
    and "\<forall>e \<in> set es. \<forall>w. stale_strikes (w_h (e w) n) = stale_strikes (w_h w n)"
    and "stale_strikes (w_h w n) = 0"
    and log: "fst (looks P S budget n es w) = log" "map fst log = replicate k Late @ Down # replicate k Late"
  shows "(\<exists>t. snd (log ! 0) = Some (Stale t)) \<and> (\<exists>t. snd (log ! Suc k) = Some (Stale t))
    \<and> Some Recovered \<notin> snd ` set log"
proof -
  obtain w1 where l: "looks P S budget n es w = (log, w1)" using log(1) by (metis prod.collapse)
  have exp: "all_expected k log" using looks_expected[OF assms(1,3,4) l] assms(2) by simp
  have k: "0 < k" using assms(2) strike_window_pos by simp
  have len: "length log = Suc (2 * k)" using arg_cong[OF log(2), of length] by simp
  have at0: "expected k (replicate k Late @ Down # replicate k Late) (snd (log ! 0))"
    using all_expected_nth[OF exp, of 0] len log(2) by simp
  have "map fst (drop (Suc k) log) = replicate k Late"
    by (simp add: drop_map[symmetric] log(2))
  then have atk: "expected k (replicate k Late) (snd (log ! Suc k))"
    using all_expected_nth[OF exp, of "Suc k"] len k by simp
  have stale: "\<exists>t. ev = Some (Stale t)" if "expected k (replicate k Late @ xs) ev" "streak xs = 0" for ev xs
  proof -
    obtain m where m: "k = Suc m" using k by (cases k) auto
    have "streak (replicate m Late @ xs) = m" using that(2) by (simp add: streak_late)
    then have "ev \<noteq> None \<and> ev \<noteq> Some Recovered" using that(1) m by simp
    then show ?thesis by (cases ev) (auto, metis health_kind.exhaust)
  qed
  have "snd (log ! i) \<noteq> Some Recovered" if i: "i < length log" for i
  proof -
    have e: "expected k (drop i (map fst log)) (snd (log ! i))"
      using all_expected_nth[OF exp i] by (simp add: drop_map)
    have "drop i (map fst log) = map fst log ! i # drop (Suc i) (map fst log)"
      using i by (metis Cons_nth_drop_Suc length_map)
    moreover have "map fst log ! i \<noteq> Fresh" using i len by (simp add: log(2) nth_append nth_Cons')
    ultimately show ?thesis using e by (cases "map fst log ! i") auto
  qed
  then have "Some Recovered \<notin> snd ` set log" by (auto simp: in_set_conv_nth) (metis snd_conv)
  then show ?thesis using stale[OF at0] stale[of "[]"] atk by simp
qed

text \<open>Late, stopped, and late again.\<close>

definition late_down_late :: "(world \<Rightarrow> world) list" where
  "late_down_late = [\<lambda>w. (on_handle 10 (flag_set RUNNING) w)\<lparr>w_now := 20\<rparr>,
     on_handle 10 (flag_clear RUNNING), \<lambda>w. w\<lparr>w_now := 10\<rparr>]"

definition strict :: platform where
  "strict = acking\<lparr>p_cfg := (\<lambda>_. with_beat_timeout 5 plain_cfg)\<rparr>"

theorem stale_twice_without_recovery_witness:
  "\<exists>t u. map snd (fst (looks strict two_nodes 5 10 late_down_late ten_up)) = [Some (Stale t), None, Some (Stale u)]"
proof -
  let ?log = "fst (looks strict two_nodes 5 10 late_down_late ten_up)"
  have cfg: "p_cfg strict n = with_beat_timeout 5 plain_cfg" for n by (simp add: strict_def)
  have win: "unat (strike_window (p_cfg strict n)) = 1" for n
    by (simp add: cfg strike_window_def with_beat_timeout_def plain_cfg_def cfg_new_def)
  have ob: "beat_on_write strict two_nodes n w = w" for n w
    by (simp add: beat_on_write_def poll_observed_writes_def entries_def cfg with_beat_timeout_def plain_cfg_def cfg_new_def)
  have log: "map fst ?log = [Late, Down, Late]" and len: "length ?log = 3"
    by (simp_all add: late_down_late_def sight_of_def monitor_look_def ob cfg with_beat_timeout_def
        is_stale_def ticks_since_beat_def late_look_def put_strikes_def Let_def reader_defs flag_bit flag_simps
        ten_up_def world_new_def handle_new_def ticks32_def strike_window_def plain_cfg_def cfg_new_def)
  have "(\<exists>t. snd (?log ! 0) = Some (Stale t)) \<and> (\<exists>t. snd (?log ! Suc 1) = Some (Stale t))
      \<and> Some Recovered \<notin> snd ` set ?log"
  proof (rule stale_twice_without_recovery[where P = strict and n = 10 and budget = 5 and es = late_down_late])
    show "beat_timeout (p_cfg strict 10) = Some 5" by (simp add: cfg with_beat_timeout_def)
    show "1 = unat (strike_window (p_cfg strict 10))" by (simp add: win)
    show "\<forall>e \<in> set late_down_late. \<forall>w. stale_strikes (w_h (e w) 10) = stale_strikes (w_h w 10)"
      by (simp add: late_down_late_def)
    show "stale_strikes (w_h ten_up 10) = 0" by (simp add: ten_up_def world_new_def handle_new_def)
    show "map fst ?log = replicate 1 Late @ Down # replicate 1 Late" by (simp only: log) simp
  qed (rule refl)
  moreover have "snd (?log ! 1) = None"
    by (simp add: late_down_late_def sight_of_def monitor_look_def ob cfg with_beat_timeout_def
        is_stale_def ticks_since_beat_def late_look_def put_strikes_def Let_def reader_defs flag_bit flag_simps
        ten_up_def world_new_def handle_new_def ticks32_def strike_window_def plain_cfg_def cfg_new_def)
  moreover have "map snd ?log = [snd (?log ! 0), snd (?log ! 1), snd (?log ! 2)]"
    using len by (auto simp: numeral_3_eq_3 numeral_2_eq_2 length_Suc_conv)
  ultimately show ?thesis by (auto simp: numeral_2_eq_2)
qed

end
