(* ===== verification/Shell.thy ===== *)
theory Shell
  imports Control
begin

text \<open>
  The futures wrapped around a worker in \<^verbatim>\<open>supervisor/src/lib.rs\<close>: \<open>Injected\<close>,
  \<open>RunCancellable\<close> and \<open>RunPausable\<close>, one poll each, and the resident shell's park. The worker
  is a parameter: \<open>step f w\<close> polls the worker state \<open>f\<close> and is \<open>Inl\<close> the state it is pending
  in or \<open>Inr\<close> its output. A dropped worker is \<open>None\<close>.
\<close>

type_synonym ('f, 'o) worker = "'f \<Rightarrow> world \<Rightarrow> ('f + 'o) \<times> world"

datatype 'a poll = Wake_Me | Done 'a

section \<open>Injected faults\<close>

record hog_state =
  hog_expires :: nat
  hog_bound :: nat

record 'f injected =
  inj_inner :: "'f option"
  inj_hog :: "hog_state option"

definition injected_new :: "'f \<Rightarrow> 'f injected" where
  "injected_new f = \<lparr>inj_inner = Some f, inj_hog = None\<rparr>"

definition HOG_GRACE :: "time_api \<Rightarrow> nat" where
  "HOG_GRACE T = from_millis T 250"

text \<open>The busy spin: whatever else runs meanwhile, until the clock has reached the deadline.\<close>

fun spin_until :: "nat \<Rightarrow> platform \<Rightarrow> nat \<Rightarrow> world \<Rightarrow> world option" where
  "spin_until 0 P deadline w = None"
| "spin_until (Suc fuel) P deadline w =
     (if w_now w < deadline then spin_until fuel P deadline (await P w) else Some w)"

definition take_fault :: "u8 \<Rightarrow> nref \<Rightarrow> world \<Rightarrow> world" where
  "take_fault code n w = on_handle n (\<lambda>h. if Handle.fault h = code then h\<lparr>fault := 0\<rparr> else h) w"

definition poll_inner :: "('f, 'o) worker \<Rightarrow> 'f injected \<Rightarrow> world \<Rightarrow> 'o option poll \<times> 'f injected \<times> world" where
  "poll_inner step s w =
     (case inj_inner s of
        None \<Rightarrow> (Wake_Me, s, w)
      | Some f \<Rightarrow>
          (case step f w of
             (Inr out, w1) \<Rightarrow> (Done (Some out), s\<lparr>inj_inner := None\<rparr>, w1)
           | (Inl f1, w1) \<Rightarrow> (Wake_Me, s\<lparr>inj_inner := Some f1\<rparr>, w1)))"

definition poll_shutdown_wake :: "platform \<Rightarrow> nref \<Rightarrow> world \<Rightarrow> bool \<times> world" where
  "poll_shutdown_wake P n w =
     (p_sig_ready P (shutdown_wake (w_h w n)),
      on_handle n (\<lambda>h. h\<lparr>shutdown_wake := Wait # shutdown_wake h\<rparr>) w)"

text \<open>The loop of \<open>poll\<close>: each turn looks at the fault afresh.\<close>

fun injected_turns :: "nat \<Rightarrow> platform \<Rightarrow> ('f, 'o) worker \<Rightarrow> nref \<Rightarrow> 'f injected \<Rightarrow> world
     \<Rightarrow> ('o option poll \<times> 'f injected \<times> world) option" where
  "injected_turns 0 P step n s w = None"
| "injected_turns (Suc fuel) P step n s w =
     (case fault_of (p_time P) (w_h w n) of
        Stall \<Rightarrow>
          if \<not> flag SHUTDOWN (w_h w n)
          then let (ready, w1) = poll_shutdown_wake P n w in
               if ready then injected_turns fuel P step n s w1 else Some (Wake_Me, s, w1)
          else Some (poll_inner step s w)
      | Crash \<Rightarrow> Some (Done None, s\<lparr>inj_inner := None\<rparr>, take_fault 3 n w)
      | Hog bound \<Rightarrow>
          (let armed = (case inj_hog s of
                          Some h \<Rightarrow> if hog_bound h = bound then h
                                    else \<lparr>hog_expires = w_now w + HOG_GRACE (p_time P), hog_bound = bound\<rparr>
                        | None \<Rightarrow> \<lparr>hog_expires = w_now w + HOG_GRACE (p_time P), hog_bound = bound\<rparr>)
           in if w_now w < hog_expires armed then Some (Wake_Me, s\<lparr>inj_hog := Some armed\<rparr>, w)
              else map_option (\<lambda>w1. poll_inner step (s\<lparr>inj_hog := None\<rparr>) (take_fault 4 n w1))
                     (spin_until fuel P (w_now w + bound) w))
      | _ \<Rightarrow> Some (poll_inner step s w))"

definition injected_poll :: "nat \<Rightarrow> platform \<Rightarrow> ('f, 'o) worker \<Rightarrow> nref \<Rightarrow> 'f injected \<Rightarrow> world
     \<Rightarrow> ('o option poll \<times> 'f injected \<times> world) option" where
  "injected_poll fuel P step n s w =
     injected_turns fuel P step n s (on_handle n (\<lambda>h. h\<lparr>fault_waker := Register # fault_waker h\<rparr>) w)"

section \<open>The cancellable and the pausable race\<close>

definition poll_stop :: "platform \<Rightarrow> nref \<Rightarrow> world \<Rightarrow> bool \<times> world" where
  "poll_stop P n w =
     (let (stop, h) = poll_shutdown (p_time P) (p_sig_ready P (shutdown_wake (w_h w n))) (w_h w n)
      in (stop, on_handle n (\<lambda>_. h) w))"

record 'f cancellable_future =
  cf_fut :: "'f option"
  cf_ack :: bool

definition run_cancellable :: "'f \<Rightarrow> 'f cancellable_future" where
  "run_cancellable f = \<lparr>cf_fut = Some f, cf_ack = False\<rparr>"

definition run_cancellable_acked :: "'f \<Rightarrow> 'f cancellable_future" where
  "run_cancellable_acked f = \<lparr>cf_fut = Some f, cf_ack = True\<rparr>"

datatype aborted = Aborted

text \<open>Worker first. \<open>Inl\<close> is the pending state, \<open>Inr\<close> the output; \<open>None\<close> a panic in the ack.\<close>

definition poll_worker :: "('f, 'o) worker \<Rightarrow> 'f option \<Rightarrow> world \<Rightarrow> ('f option + 'o) \<times> world" where
  "poll_worker step fut w =
     (case fut of
        None \<Rightarrow> (Inl None, w)
      | Some f \<Rightarrow> (case step f w of (Inr out, w1) \<Rightarrow> (Inr out, w1) | (Inl f1, w1) \<Rightarrow> (Inl (Some f1), w1)))"

definition cancellable_poll :: "platform \<Rightarrow> races \<Rightarrow> ('f, 'o) worker \<Rightarrow> nref \<Rightarrow> 'f cancellable_future \<Rightarrow> world
     \<Rightarrow> ((aborted + 'o) poll \<times> 'f cancellable_future \<times> world) option" where
  "cancellable_poll P r step n s w =
     (case poll_worker step (cf_fut s) w of
        (Inr out, w1) \<Rightarrow> Some (Done (Inr out), s, w1)
      | (Inl fut, w1) \<Rightarrow>
          (let s1 = s\<lparr>cf_fut := fut\<rparr>; (stop, w2) = poll_stop P n w1 in
           if stop
           then let s2 = s1\<lparr>cf_fut := None\<rparr> in
                map_option (\<lambda>w3. (Done (Inl Aborted), s2, w3))
                  (if cf_ack s2 then ack_dropped P r n w2 else Some w2)
           else Some (Wake_Me, s1, w2)))"

record 'f pausable_future =
  pf_fut :: "'f option"
  pf_parked :: bool

definition run_pausable :: "'f \<Rightarrow> 'f pausable_future" where
  "run_pausable f = \<lparr>pf_fut = Some f, pf_parked = False\<rparr>"

datatype resumed = WasResumed

definition poll_resume :: "platform \<Rightarrow> nref \<Rightarrow> 'f pausable_future \<Rightarrow> world
     \<Rightarrow> (resumed + 'o) poll \<times> 'f pausable_future \<times> world" where
  "poll_resume P n s w =
     (if p_sig_ready P (resume_wake (w_h w n)) then Done (Inl WasResumed) else Wake_Me, s,
      on_handle n (\<lambda>h. h\<lparr>resume_wake := Wait # resume_wake h\<rparr>) w)"

definition pausable_poll :: "platform \<Rightarrow> races \<Rightarrow> ('f, 'o) worker \<Rightarrow> nref \<Rightarrow> 'f pausable_future \<Rightarrow> world
     \<Rightarrow> ((resumed + 'o) poll \<times> 'f pausable_future \<times> world) option" where
  "pausable_poll P r step n s w =
     (if pf_parked s then Some (poll_resume P n s w)
      else case poll_worker step (pf_fut s) w of
             (Inr out, w1) \<Rightarrow> Some (Done (Inr out), s, w1)
           | (Inl fut, w1) \<Rightarrow>
               (let s1 = s\<lparr>pf_fut := fut\<rparr>; (stop, w2) = poll_stop P n w1 in
                if \<not> stop then Some (Wake_Me, s1, w2)
                else map_option (\<lambda>w3. poll_resume P n (s1\<lparr>pf_fut := None, pf_parked := True\<rparr>) w3)
                       (ack_dropped P r n w2)))"

section \<open>The resident shell's park\<close>

text \<open>\<open>__sv_park\<close> after its first two steps (\<open>sv_park\<close>): one wake-up. \<open>True\<close>: it leaves.\<close>

fun park_turns :: "nat \<Rightarrow> platform \<Rightarrow> nref \<Rightarrow> world \<Rightarrow> bool \<times> world" where
  "park_turns 0 P n w = (False, w)"
| "park_turns (Suc fuel) P n w =
     (if \<not> flag IDLE (w_h w n) then (True, w)
      else let ready = p_sig_ready P (resume_wake (w_h w n));
               w1 = on_handle n (\<lambda>h. h\<lparr>resume_wake := Wait # resume_wake h\<rparr>) w
           in if ready then park_turns fuel P n w1 else (False, w1))"

section \<open>What a stop does to a running worker\<close>

text \<open>A stop the task can see: requested, or its signal ready, and not hidden by a wedge.\<close>

definition stop_visible :: "platform \<Rightarrow> nref \<Rightarrow> world \<Rightarrow> bool" where
  "stop_visible P n w \<longleftrightarrow> fault_of (p_time P) (w_h w n) \<noteq> Wedge
     \<and> (h_shutdown (w_h w n) \<or> p_sig_ready P (shutdown_wake (w_h w n)))"

lemma poll_stop_visible: "fst (poll_stop P n w) \<longleftrightarrow> stop_visible P n w"
  by (auto simp: poll_stop_def poll_shutdown_def stop_visible_def reader_defs flag_def fault_of_def Let_def)

lemma poll_stop_gates [simp]: "w_gates (snd (poll_stop P n w)) = w_gates w"
  by (auto simp: poll_stop_def split: prod.split)

lemma poll_stop_fault: "fault_of (p_time P) (w_h (snd (poll_stop P n w)) n) = fault_of (p_time P) (w_h w n)"
  by (auto simp: poll_stop_def poll_shutdown_def fault_of_def Let_def)

lemma poll_stop_resume: "resume_wake (w_h (snd (poll_stop P n w)) n) = resume_wake (w_h w n)"
  by (auto simp: poll_stop_def poll_shutdown_def Let_def)

lemma ack_dropped_plain:
  assumes "ack_dropped P no_race n w = Some w1" "fault_of (p_time P) (w_h w n) \<noteq> Wedge"
  shows "has_dropped (w_h w1 n)" "\<not> is_running (w_h w1 n)" "resume_wake (w_h w1 n) = resume_wake (w_h w n)"
proof -
  obtain v where v: "release_provided P n w = Some v" "w1 = settle_dropped n v"
    using assms by (auto simp: ack_dropped_def wedge_swallows_def no_race_def dest: release_provided_h
        split: option.splits if_splits)
  have "w_h v = w_h w" using release_provided_h[OF v(1)] by simp
  then show "has_dropped (w_h w1 n)" "\<not> is_running (w_h w1 n)" "resume_wake (w_h w1 n) = resume_wake (w_h w n)"
    using v(2) by (simp_all add: reader_defs flag_bit settle_dropped_handle Let_def flag_simps)
qed


text \<open>A worker that is never done.\<close>

definition idler :: "(unit, unit) worker" where
  "idler f w = (Inl f, w)"

lemma acking_ack: "ack_dropped acking no_race 10 w = Some (settle_dropped 10 w)"
  if "Handle.fault (w_h w 10) = 0"
  using that by (simp add: ack_dropped_def release_provided_def release_claims_def clear_gates_def
      wedge_swallows_def fault_zero acking_def plain_platform_def plain_cfg_def cfg_new_def)

definition ten_asked :: world where
  "ten_asked = on_handle 10 signal_shutdown ten_up"

lemma ten_asked_facts:
  "Handle.fault (w_h ten_asked 10) = 0" "stop_visible acking 10 ten_asked" "resume_wake (w_h ten_asked 10) = []"
proof -
  show f: "Handle.fault (w_h ten_asked 10) = 0" "resume_wake (w_h ten_asked 10) = []"
    by (simp_all add: ten_asked_def signal_shutdown_def ten_up_def world_new_def handle_new_def)
  show "stop_visible acking 10 ten_asked"
    using fault_zero[OF f(1)] by (simp add: stop_visible_def reader_defs flag_bit)
      (simp add: ten_asked_def flag_simps)
qed


section \<open>Stall\<close>

text \<open>
  A stalled worker is out of reach until a stop is asked for: the poll ends pending, with
  the worker untouched and never run, whatever the worker would have done; and once the stop is
  asked for, the stall no longer holds it back.
\<close>

theorem stall_holds_until_stop:
  assumes "fault_of (p_time P) (w_h w n) = Stall"
  defines "w0 \<equiv> on_handle n (\<lambda>h. h\<lparr>fault_waker := Register # fault_waker h\<rparr>) w"
  shows "injected_poll (Suc fuel) P step n s w =
    (if h_shutdown (w_h w n) then Some (poll_inner step s w0)
     else if p_sig_ready P (shutdown_wake (w_h w n)) then injected_turns fuel P step n s (snd (poll_shutdown_wake P n w0))
     else Some (Wake_Me, s, snd (poll_shutdown_wake P n w0)))"
proof -
  have "fault_of (p_time P) (w_h w0 n) = Stall" using assms(1) by (simp add: w0_def fault_of_def)
  moreover have "flag SHUTDOWN (w_h w0 n) = h_shutdown (w_h w n)"
    by (simp add: w0_def reader_defs flag_bit)
  ultimately show ?thesis
    by (simp add: injected_poll_def w0_def[symmetric] poll_shutdown_wake_def) (simp add: w0_def)
qed

text \<open>The same node under an injected stall.\<close>

definition ten_stalled :: world where
  "ten_stalled = on_handle 10 (\<lambda>h. h\<lparr>fault := 1\<rparr>) ten_up"

theorem stall_holds_until_stop_witness:
  "\<exists>w'. injected_poll 1 acking idler 10 (injected_new ()) ten_stalled = Some (Wake_Me, injected_new (), w')"
proof -
  have f: "fault_of (p_time acking) (w_h ten_stalled 10) = Stall"
    by (simp add: fault_of_def fault_decode_def ten_stalled_def)
  have "\<not> h_shutdown (w_h ten_stalled 10)" "shutdown_wake (w_h ten_stalled 10) = []"
    by (simp_all add: ten_stalled_def ten_up_def world_new_def handle_new_def reader_defs flag_bit flag_simps)
  then show ?thesis
    using stall_holds_until_stop[OF f, of 0 idler "injected_new ()"]
    by (simp add: acking_def plain_platform_def)
qed

section \<open>A start that is taken for a resume\<close>

text \<open>The documented behaviour of \<open>Signal\<close>: latched by \<open>signal\<close> until the next ready poll.\<close>

definition latching :: "platform \<Rightarrow> bool" where
  "latching P \<longleftrightarrow> (\<forall>s. p_sig_ready P (Fire # s) \<and> \<not> p_sig_ready P (Wait # s) \<and> \<not> p_sig_ready P (Reset # s))"

text \<open>
  The start signal of a resident shell can outlive the start. When the next activation is
  started after the shell has published that it is idle and before it waits, the shell leaves
  its park on the flag and the signal stays latched; a \<open>run_pausable\<close> worker of that activation
  then takes it for a resume: asked to pause, it acknowledges and goes on running in the same
  poll, with no one having resumed it.
\<close>

theorem early_start_is_a_stale_resume:
  assumes "latching P"
    and w2: "w2 = on_handle n sv_start (sv_park n w)"
    and later: "resume_wake (w_h w3 n) = resume_wake (w_h w2 n)"
    and pending: "pf_fut s = Some f" "\<not> pf_parked s" "step f w3 = (Inl f1, w3)"
    and asked: "stop_visible P n w3" and ack: "\<forall>v. release_provided P n v \<noteq> None"
  shows "park_turns (Suc fuel) P n w2 = (True, w2)
    \<and> (\<exists>s' w4. pausable_poll P no_race step n s w3 = Some (Done (Inl WasResumed), s', w4)
           \<and> has_dropped (w_h w4 n) \<and> \<not> is_running (w_h w4 n))"
proof
  show "park_turns (Suc fuel) P n w2 = (True, w2)"
    by (simp add: w2 flag_bit flag_simps)
  obtain v where v: "poll_stop P n w3 = (True, v)"
    using poll_stop_visible[of P n w3] asked by (cases "poll_stop P n w3") auto
  then have vf: "fault_of (p_time P) (w_h v n) \<noteq> Wedge" "resume_wake (w_h v n) = resume_wake (w_h w3 n)"
    using poll_stop_fault[of P n w3] poll_stop_resume[of P n w3] asked by (auto simp: stop_visible_def)
  obtain u where "release_provided P n v = Some u" using ack by blast
  then obtain w5 where a: "ack_dropped P no_race n v = Some w5"
    by (cases "wedge_swallows P no_race PENDING_ACK n u") (auto simp: ack_dropped_def)
  note d = ack_dropped_plain[OF a vf(1)]
  have "\<exists>r. resume_wake (w_h w2 n) = Fire # r" by (simp add: w2 sv_start_def Let_def)
  then have "p_sig_ready P (resume_wake (w_h w5 n))"
    using d(3) vf(2) later assms(1) by (auto simp: latching_def)
  then show "\<exists>s' w4. pausable_poll P no_race step n s w3 = Some (Done (Inl WasResumed), s', w4)
           \<and> has_dropped (w_h w4 n) \<and> \<not> is_running (w_h w4 n)"
    using d pending v a by (simp add: pausable_poll_def poll_worker_def poll_resume_def reader_defs flag_bit)
qed

lemma acking_latching: "latching acking"
  by (simp add: latching_def acking_def plain_platform_def)

lemma acking_releases: "release_provided acking n v \<noteq> None"
  using release_provided_fits[OF acking_claims] by (metis option.simps(3))

text \<open>Node 10 restarted that way, and then asked to pause.\<close>

definition ten_restarting :: world where
  "ten_restarting = on_handle 10 sv_start (sv_park 10 ten_up)"

definition ten_pausing :: world where
  "ten_pausing = on_handle 10 signal_shutdown ten_restarting"

theorem early_start_is_a_stale_resume_witness:
  "\<exists>s' w4. pausable_poll acking no_race idler 10 (run_pausable ()) ten_pausing = Some (Done (Inl WasResumed), s', w4)
     \<and> \<not> is_running (w_h w4 10)"
proof -
  have r: "resume_wake (w_h ten_pausing 10) = resume_wake (w_h ten_restarting 10)"
    by (simp add: ten_pausing_def signal_shutdown_def)
  have "Handle.fault (w_h ten_pausing 10) = 0"
    by (simp add: ten_pausing_def ten_restarting_def sv_start_def sv_park_def sv_gate_event_def
        signal_shutdown_def ten_up_def world_new_def handle_new_def Let_def)
  from fault_zero[OF this] have v: "stop_visible acking 10 ten_pausing"
    by (simp add: stop_visible_def reader_defs flag_bit) (simp add: ten_pausing_def flag_simps)
  show ?thesis
    using early_start_is_a_stale_resume[OF acking_latching ten_restarting_def r _ _ _ v, where
        s = "run_pausable ()" and step = idler and f = "()" and ?f1.0 = "()" and fuel = 0] acking_releases
    by (auto simp: run_pausable_def idler_def)
qed

end
