(* ===== verification/Trace.thy ===== *)
theory Trace
  imports Control
begin

text \<open>
  The trace recorders, \<^verbatim>\<open>supervisor/src/trace.rs\<close>: the executor table, the hooks the
  executor calls, nested accounting, and the queries. A hook runs to its end before the next
  one on the same core. \<open>G\<close> gives the constant part of a graph reference.
\<close>

section \<open>State\<close>

definition MAX_EXECUTORS :: nat where "MAX_EXECUTORS = 4"
definition MAX_CORES :: nat where "MAX_CORES = 2"

record executor_slot =
  ex_id :: u32
  current_task_id :: u32
  current_begin :: u32
  ex_idle :: bool
  idle_since :: u32
  idle_ticks :: u32
  ex_exec_ticks :: u32
  ex_polls :: u32
  ex_passes :: u32
  stolen_ticks :: u32

definition FREE_SLOT :: executor_slot where
  "FREE_SLOT = \<lparr>ex_id = 0, current_task_id = 0, current_begin = 0, ex_idle = False, idle_since = 0,
     idle_ticks = 0, ex_exec_ticks = 0, ex_polls = 0, ex_passes = 0, stolen_ticks = 0\<rparr>"

record tracer =
  execs :: "executor_slot list"
  last_slot :: nat
  nest_depth :: "nat list"
  nest_stack :: "nat list list"
  core_id_fn :: "nat option"

definition tracer_new :: tracer where
  "tracer_new = \<lparr>execs = replicate MAX_EXECUTORS FREE_SLOT, last_slot = 0,
     nest_depth = replicate MAX_CORES 0,
     nest_stack = replicate MAX_CORES (replicate MAX_EXECUTORS 0), core_id_fn = None\<rparr>"

text \<open>The registered function is represented by what it answers on the calling core.\<close>

definition set_core_id_fn :: "nat \<Rightarrow> tracer \<Rightarrow> tracer" where
  "set_core_id_fn c tr = tr\<lparr>core_id_fn := Some c\<rparr>"

definition core_id :: "tracer \<Rightarrow> nat" where
  "core_id tr = (case core_id_fn tr of None \<Rightarrow> 0 | Some c \<Rightarrow> min c (MAX_CORES - 1))"

definition on_exec :: "nat \<Rightarrow> (executor_slot \<Rightarrow> executor_slot) \<Rightarrow> tracer \<Rightarrow> tracer" where
  "on_exec i f tr = tr\<lparr>execs := (execs tr)[i := f (execs tr ! i)]\<rparr>"

section \<open>Looking up\<close>

definition task_key :: "nat \<Rightarrow> u32" where
  "task_key addr = of_nat addr"

definition graph_tasks :: "graph_ref \<Rightarrow> nref list" where
  "graph_tasks g = flatten (gr_nodes g) @ (case gr_self g of None \<Rightarrow> [] | Some n \<Rightarrow> [n])"

definition node_for :: "(nat \<Rightarrow> graph_ref) \<Rightarrow> u32 \<Rightarrow> world \<Rightarrow> nref option" where
  "node_for G tid w =
     (if tid = 0 then None
      else case graphs (w_chain w) of
             None \<Rightarrow> None
           | Some gs \<Rightarrow> find (\<lambda>n. task_id (w_h w n) = tid) (concat (map (graph_tasks \<circ> G) gs)))"

text \<open>\<open>slot_for\<close>: the slot of last time, else the one with the id, else a free one.\<close>

definition slot_for :: "u32 \<Rightarrow> tracer \<Rightarrow> nat option \<times> tracer" where
  "slot_for e tr =
     (let xs = execs tr; n = length xs in
      if last_slot tr < n \<and> ex_id (xs ! last_slot tr) = e then (Some (last_slot tr), tr)
      else case find (\<lambda>i. ex_id (xs ! i) = e) [0..<n] of
             Some i \<Rightarrow> (Some i, tr\<lparr>last_slot := i\<rparr>)
           | None \<Rightarrow>
               (case find (\<lambda>i. ex_id (xs ! i) = 0 \<or> ex_id (xs ! i) = e) [0..<n] of
                  Some i \<Rightarrow>
                    (Some i, (if ex_id (xs ! i) = 0 then on_exec i (\<lambda>x. x\<lparr>ex_id := e\<rparr>) tr else tr)\<lparr>last_slot := i\<rparr>)
                | None \<Rightarrow> (None, tr)))"

section \<open>The hooks\<close>

definition now_ticks :: "world \<Rightarrow> u32" where
  "now_ticks w = ticks32 (w_now w)"

definition on_poll_start :: "u32 \<Rightarrow> tracer \<Rightarrow> tracer" where
  "on_poll_start e tr =
     (case slot_for e tr of
        (None, tr1) \<Rightarrow> tr1
      | (Some i, tr1) \<Rightarrow> on_exec i (\<lambda>x. x\<lparr>ex_passes := ex_passes x + 1\<rparr>) tr1)"

definition nest_enter :: "nat \<Rightarrow> tracer \<Rightarrow> tracer" where
  "nest_enter i tr =
     (let core = core_id tr; depth = nest_depth tr ! core;
          tr1 = tr\<lparr>nest_depth := (nest_depth tr)[core := depth + 1]\<rparr>
      in if depth < length (nest_stack tr1 ! core)
         then tr1\<lparr>nest_stack := (nest_stack tr1)[core := (nest_stack tr1 ! core)[depth := i]]\<rparr>
         else tr1)"

definition on_task_exec_begin :: "u32 \<Rightarrow> u32 \<Rightarrow> world \<Rightarrow> tracer \<Rightarrow> tracer" where
  "on_task_exec_begin e tid w tr =
     (case slot_for e tr of
        (None, tr1) \<Rightarrow> tr1
      | (Some i, tr1) \<Rightarrow>
          (let now = now_ticks w;
               tr2 = on_exec i (\<lambda>x.
                 let x1 = (if ex_idle x
                           then x\<lparr>ex_idle := False, idle_ticks := idle_ticks x + (now - idle_since x)\<rparr> else x)
                 in x1\<lparr>current_begin := now, current_task_id := tid\<rparr>) tr1
           in nest_enter i tr2))"

text \<open>Leaving a frame: the depth, and the time stolen from the frame below.\<close>

definition nest_leave :: "u32 \<Rightarrow> tracer \<Rightarrow> tracer" where
  "nest_leave raw tr =
     (let core = core_id tr; cur = nest_depth tr ! core; depth = cur - 1;
          tr1 = (if 0 < cur then tr\<lparr>nest_depth := (nest_depth tr)[core := depth]\<rparr> else tr)
      in if 0 < depth \<and> depth - 1 < length (nest_stack tr1 ! core)
         then let parent = nest_stack tr1 ! core ! (depth - 1) in
              if parent < length (execs tr1)
              then on_exec parent (\<lambda>x. x\<lparr>stolen_ticks := stolen_ticks x + raw\<rparr>) tr1 else tr1
         else tr1)"

definition charge_node :: "u32 \<Rightarrow> task_handle \<Rightarrow> task_handle" where
  "charge_node elapsed h = h\<lparr>exec_ticks := exec_ticks h + elapsed, polls := polls h + 1,
     max_poll_ticks := max (max_poll_ticks h) elapsed\<rparr>"

definition on_task_exec_end :: "(nat \<Rightarrow> graph_ref) \<Rightarrow> u32 \<Rightarrow> u32 \<Rightarrow> world \<Rightarrow> tracer \<Rightarrow> world \<times> tracer" where
  "on_task_exec_end G e tid w tr =
     (case slot_for e tr of
        (None, tr1) \<Rightarrow> (w, tr1)
      | (Some i, tr1) \<Rightarrow>
          (let begin = current_begin (execs tr1 ! i);
               raw = now_ticks w - begin;
               stolen = stolen_ticks (execs tr1 ! i);
               tr2 = on_exec i (\<lambda>x. x\<lparr>current_task_id := 0, stolen_ticks := 0\<rparr>) tr1;
               tr3 = nest_leave raw tr2;
               elapsed = sat_sub raw stolen;
               tr4 = on_exec i (\<lambda>x. x\<lparr>ex_exec_ticks := ex_exec_ticks x + elapsed, ex_polls := ex_polls x + 1\<rparr>) tr3
           in (case node_for G tid w of None \<Rightarrow> w | Some n \<Rightarrow> on_handle n (charge_node elapsed) w, tr4)))"

definition on_executor_idle :: "u32 \<Rightarrow> world \<Rightarrow> tracer \<Rightarrow> tracer" where
  "on_executor_idle e w tr =
     (case slot_for e tr of
        (None, tr1) \<Rightarrow> tr1
      | (Some i, tr1) \<Rightarrow>
          if ex_idle (execs tr1 ! i) then tr1
          else on_exec i (\<lambda>x. x\<lparr>idle_since := now_ticks w, ex_idle := True\<rparr>) tr1)"

definition on_task_end :: "(nat \<Rightarrow> graph_ref) \<Rightarrow> u32 \<Rightarrow> world \<Rightarrow> world" where
  "on_task_end G tid w =
     (case node_for G tid w of
        None \<Rightarrow> w
      | Some n \<Rightarrow> on_handle n (\<lambda>h. if task_id h = tid then h\<lparr>task_id := 0\<rparr> else h) w)"

section \<open>Queries\<close>

record executor_stats =
  es_idle_ticks :: u32
  es_exec_ticks :: u32
  es_polls :: u32
  es_passes :: u32

definition stats_default :: executor_stats where
  "stats_default = \<lparr>es_idle_ticks = 0, es_exec_ticks = 0, es_polls = 0, es_passes = 0\<rparr>"

definition executor_stats_of :: "u32 \<Rightarrow> world \<Rightarrow> tracer \<Rightarrow> executor_stats option" where
  "executor_stats_of e w tr =
     map_option (\<lambda>x. \<lparr>es_idle_ticks = idle_ticks x + (if ex_idle x then now_ticks w - idle_since x else 0),
                     es_exec_ticks = ex_exec_ticks x, es_polls = ex_polls x, es_passes = ex_passes x\<rparr>)
       (find (\<lambda>x. ex_id x = e) (execs tr))"

definition executor_idle_ticks :: "u32 \<Rightarrow> world \<Rightarrow> tracer \<Rightarrow> u32" where
  "executor_idle_ticks e w tr =
     es_idle_ticks (case executor_stats_of e w tr of None \<Rightarrow> stats_default | Some s \<Rightarrow> s)"

definition executors :: "tracer \<Rightarrow> u32 list" where
  "executors tr = map ex_id (execs tr)"

definition current_task :: "(nat \<Rightarrow> graph_ref) \<Rightarrow> u32 \<Rightarrow> world \<Rightarrow> tracer \<Rightarrow> (nref \<times> u32) option" where
  "current_task G e w tr =
     (case find (\<lambda>x. ex_id x = e) (execs tr) of
        None \<Rightarrow> None
      | Some x \<Rightarrow>
          if current_task_id x = 0 then None
          else map_option (\<lambda>n. (n, now_ticks w - current_begin x)) (node_for G (current_task_id x) w))"

definition stalled_task :: "(nat \<Rightarrow> graph_ref) \<Rightarrow> u32 \<Rightarrow> u32 \<Rightarrow> world \<Rightarrow> tracer \<Rightarrow> (nref \<times> u32) option" where
  "stalled_task G e threshold w tr =
     (case current_task G e w tr of
        Some (n, ticks) \<Rightarrow> if threshold \<le> ticks then Some (n, ticks) else None
      | None \<Rightarrow> None)"

section \<open>The table\<close>

text \<open>Four slots, and no executor in two of them.\<close>

definition wf_tracer :: "tracer \<Rightarrow> bool" where
  "wf_tracer tr \<longleftrightarrow> length (execs tr) = MAX_EXECUTORS
     \<and> distinct (filter (\<lambda>i. i \<noteq> 0) (executors tr))
     \<and> length (nest_depth tr) = MAX_CORES \<and> length (nest_stack tr) = MAX_CORES
     \<and> list_all (\<lambda>row. length row = MAX_EXECUTORS) (nest_stack tr)"

lemma find_upt: "find Q [0..<n] = Some i \<Longrightarrow> i < n \<and> Q i" "find Q [0..<n] = None \<longleftrightarrow> (\<forall>i < n. \<not> Q i)"
  by (auto simp: find_Some_iff find_None_iff)

lemma distinct_claim:
  "i < length xs \<Longrightarrow> xs ! i = (0 :: u32) \<Longrightarrow> e \<notin> set xs \<Longrightarrow> distinct (filter (\<lambda>k. k \<noteq> 0) xs)
     \<Longrightarrow> distinct (filter (\<lambda>k. k \<noteq> 0) (xs[i := e]))"
proof -
  assume i: "i < length xs" "xs ! i = 0" and e: "e \<notin> set xs" and d: "distinct (filter (\<lambda>k. k \<noteq> 0) xs)"
  have x: "xs = take i xs @ 0 # drop (Suc i) xs" using i by (metis id_take_nth_drop)
  have d': "distinct (filter (\<lambda>k. k \<noteq> 0) (take i xs @ drop (Suc i) xs))"
    using d by (subst (asm) x) simp
  have "e \<notin> set (take i xs)" "e \<notin> set (drop (Suc i) xs)"
    using e by (meson in_set_takeD in_set_dropD)+
  then show ?thesis using d' i(1) by (auto simp: upd_conv_take_nth_drop)
qed

lemma executors_on_exec: "i < length (execs tr) \<Longrightarrow> executors (on_exec i (\<lambda>x. x\<lparr>ex_id := e\<rparr>) tr) = (executors tr)[i := e]"
  by (simp add: executors_def on_exec_def map_update)

text \<open>
  The executor table: \<open>slot_for\<close> keeps every executor in at most one slot, returns a slot
  that carries the asked id, changes no slot already taken, and fails only when the table is
  full of others.
\<close>

theorem slot_for_sound:
  assumes "wf_tracer tr" "e \<noteq> 0"
  shows "case slot_for e tr of
      (None, tr1) \<Rightarrow> tr1 = tr \<and> e \<notin> set (executors tr) \<and> 0 \<notin> set (executors tr)
    | (Some i, tr1) \<Rightarrow> wf_tracer tr1 \<and> i < MAX_EXECUTORS \<and> ex_id (execs tr1 ! i) = e
        \<and> (\<forall>k < MAX_EXECUTORS. ex_id (execs tr ! k) \<noteq> 0 \<longrightarrow> execs tr1 ! k = execs tr ! k)"
proof -
  let ?xs = "execs tr" and ?n = "length (execs tr)"
  have n: "?n = MAX_EXECUTORS" using assms(1) by (simp add: wf_tracer_def)
  have wl: "wf_tracer (t\<lparr>last_slot := i\<rparr>) = wf_tracer t" for t i by (simp add: wf_tracer_def executors_def)
  consider (last) "last_slot tr < ?n \<and> ex_id (?xs ! last_slot tr) = e"
    | (known) i where "\<not> (last_slot tr < ?n \<and> ex_id (?xs ! last_slot tr) = e)"
        "find (\<lambda>i. ex_id (?xs ! i) = e) [0..<?n] = Some i"
    | (new) i where "\<not> (last_slot tr < ?n \<and> ex_id (?xs ! last_slot tr) = e)"
        "find (\<lambda>i. ex_id (?xs ! i) = e) [0..<?n] = None"
        "find (\<lambda>i. ex_id (?xs ! i) = 0 \<or> ex_id (?xs ! i) = e) [0..<?n] = Some i"
    | (full) "\<not> (last_slot tr < ?n \<and> ex_id (?xs ! last_slot tr) = e)"
        "find (\<lambda>i. ex_id (?xs ! i) = e) [0..<?n] = None"
        "find (\<lambda>i. ex_id (?xs ! i) = 0 \<or> ex_id (?xs ! i) = e) [0..<?n] = None"
    by (cases "find (\<lambda>i. ex_id (?xs ! i) = e) [0..<?n]";
        cases "find (\<lambda>i. ex_id (?xs ! i) = 0 \<or> ex_id (?xs ! i) = e) [0..<?n]") blast+
  then show ?thesis
  proof cases
    case last
    then show ?thesis using assms n by (simp add: slot_for_def Let_def)
  next
    case (known i)
    then show ?thesis using assms n find_upt(1)[OF known(2)] by (auto simp: slot_for_def Let_def wl)
  next
    case (new i)
    have i: "i < ?n" "ex_id (?xs ! i) = 0" and none: "\<forall>k < ?n. ex_id (?xs ! k) \<noteq> e"
      using find_upt(1)[OF new(3)] new(2) by (auto simp: find_upt(2))
    then have "e \<notin> set (executors tr)" by (auto simp: executors_def in_set_conv_nth)
    then have "wf_tracer (on_exec i (\<lambda>x. x\<lparr>ex_id := e\<rparr>) tr)"
      using assms(1) i distinct_claim[of i "executors tr" e]
      by (simp add: wf_tracer_def executors_on_exec) (simp add: on_exec_def executors_def)
    moreover have "slot_for e tr = (Some i, (on_exec i (\<lambda>x. x\<lparr>ex_id := e\<rparr>) tr)\<lparr>last_slot := i\<rparr>)"
      using new i by (auto simp: slot_for_def Let_def)
    ultimately show ?thesis using i n by (auto simp: wl on_exec_def nth_list_update)
  next
    case full
    then have "\<forall>k < ?n. ex_id (?xs ! k) \<noteq> 0 \<and> ex_id (?xs ! k) \<noteq> e" by (simp add: find_upt(2))
    then show ?thesis using full by (auto simp: slot_for_def Let_def executors_def in_set_conv_nth)
  qed
qed

theorem slot_for_sound_witness:
  "case slot_for 7 tracer_new of
      (None, tr1) \<Rightarrow> False
    | (Some i, tr1) \<Rightarrow> wf_tracer tr1 \<and> ex_id (execs tr1 ! i) = 7"
proof -
  have "wf_tracer tracer_new"
    by (simp add: wf_tracer_def tracer_new_def executors_def MAX_EXECUTORS_def MAX_CORES_def FREE_SLOT_def
        eval_nat_numeral)
  moreover have "0 \<in> set (executors tracer_new)"
    by (simp add: tracer_new_def executors_def MAX_EXECUTORS_def FREE_SLOT_def eval_nat_numeral)
  ultimately show ?thesis using slot_for_sound[of tracer_new 7]
    by (auto split: prod.splits option.splits)
qed

end
