(* ===== verification/Trace_Nested.thy ===== *)
theory Trace_Nested
  imports Trace
begin

text \<open>
  Nested accounting: when an interrupt executor preempts a poll, the ticks it takes are its own
  and not the preempted task's. Stated over trees of polls, where a child preempts its parent.
\<close>

section \<open>Trees of polls\<close>

text \<open>
  \<open>Poll e tid cs last\<close>: executor \<open>e\<close> polls task \<open>tid\<close>; each child comes after a number of the
  parent's own ticks, and \<open>last\<close> more follow.
\<close>

datatype poll_tree = Poll u32 u32 "(nat \<times> poll_tree) list" nat

fun duration :: "poll_tree \<Rightarrow> nat" where
  "duration (Poll e tid cs lst) = (\<Sum>(g, c) \<leftarrow> cs. g + duration c) + lst"

fun own_ticks :: "u32 \<Rightarrow> poll_tree \<Rightarrow> nat" where
  "own_ticks k (Poll e tid cs lst) =
     (if k = e then (\<Sum>(g, c) \<leftarrow> cs. g) + lst else 0) + (\<Sum>(g, c) \<leftarrow> cs. own_ticks k c)"

text \<open>Executors are on the table, and none preempts itself.\<close>

fun nests :: "u32 list \<Rightarrow> u32 list \<Rightarrow> poll_tree \<Rightarrow> bool" where
  "nests ids outer (Poll e tid cs lst) \<longleftrightarrow>
     e \<noteq> 0 \<and> e \<in> set ids \<and> e \<notin> set outer \<and> (\<forall>(g, c) \<in> set cs. nests ids (e # outer) c)"

definition pass_ticks :: "nat \<Rightarrow> world \<Rightarrow> world" where
  "pass_ticks k w = w\<lparr>w_now := w_now w + k\<rparr>"

text \<open>The hooks the executors call, in the order of the tree.\<close>

fun run_poll :: "(nat \<Rightarrow> graph_ref) \<Rightarrow> poll_tree \<Rightarrow> world \<times> tracer \<Rightarrow> world \<times> tracer"
  and run_children :: "(nat \<Rightarrow> graph_ref) \<Rightarrow> (nat \<times> poll_tree) list \<Rightarrow> world \<times> tracer \<Rightarrow> world \<times> tracer" where
  "run_poll G (Poll e tid cs lst) (w, tr) =
     (let (w1, tr1) = run_children G cs (w, on_task_exec_begin e tid w tr)
      in on_task_exec_end G e tid (pass_ticks lst w1) tr1)"
| "run_children G [] s = s"
| "run_children G ((g, c) # cs) (w, tr) = run_children G cs (run_poll G c (pass_ticks g w, tr))"

section \<open>The frame of a running poll\<close>

text \<open>
  \<open>path\<close> holds the slots of the polls in progress on the core, innermost first: it is on the
  nesting stack, and no other executor has ticks stolen.
\<close>

definition frame :: "u32 list \<Rightarrow> nat \<Rightarrow> nat list \<Rightarrow> tracer \<Rightarrow> bool" where
  "frame ids core path tr \<longleftrightarrow> executors tr = ids \<and> length ids = 4 \<and> core_id tr = core
     \<and> core < length (nest_depth tr) \<and> core < length (nest_stack tr) \<and> length (nest_stack tr ! core) = 4
     \<and> nest_depth tr ! core = length path \<and> take (length path) (nest_stack tr ! core) = rev path
     \<and> (\<forall>i < 4. i \<notin> set path \<longrightarrow> stolen_ticks (execs tr ! i) = 0)"

definition accounted ::
  "u32 list \<Rightarrow> nat \<Rightarrow> nat list \<Rightarrow> (u32 \<Rightarrow> nat) \<Rightarrow> nat \<Rightarrow> nat \<Rightarrow> world \<times> tracer \<Rightarrow> world \<times> tracer \<Rightarrow> bool" where
  "accounted ids core path own stolen d s s' \<longleftrightarrow>
     frame ids core path (snd s') \<and> w_now (fst s') = w_now (fst s) + d
     \<and> (\<forall>i < 4. ex_exec_ticks (execs (snd s') ! i) = ex_exec_ticks (execs (snd s) ! i) + of_nat (own (ids ! i)))
     \<and> (\<forall>i \<in> set path. current_begin (execs (snd s') ! i) = current_begin (execs (snd s) ! i)
          \<and> stolen_ticks (execs (snd s') ! i) = stolen_ticks (execs (snd s) ! i)
              + (if i = hd path then of_nat stolen else 0))"

lemma frame_length: "frame ids core path tr \<Longrightarrow> length (execs tr) = 4"
  by (auto simp: frame_def executors_def)

lemma on_exec_simps [simp]:
  "nest_depth (on_exec i f tr) = nest_depth tr" "nest_stack (on_exec i f tr) = nest_stack tr"
  "core_id (on_exec i f tr) = core_id tr" "length (execs (on_exec i f tr)) = length (execs tr)"
  "i < length (execs tr) \<Longrightarrow> execs (on_exec i f tr) ! k = (if k = i then f (execs tr ! i) else execs tr ! k)"
  by (auto simp: on_exec_def core_id_def)

lemma executors_on_exec_same:
  "(\<And>x. ex_id (f x) = ex_id x) \<Longrightarrow> executors (on_exec i f tr) = executors tr"
  by (cases "i < length (execs tr)") (auto simp: executors_def on_exec_def map_update list_update_same_conv list_update_beyond)

text \<open>Slots are told apart by their ids.\<close>

definition one_slot :: "u32 list \<Rightarrow> nat \<Rightarrow> u32 \<Rightarrow> bool" where
  "one_slot ids i e \<longleftrightarrow> i < length ids \<and> ids ! i = e \<and> (\<forall>j < length ids. ids ! j = e \<longrightarrow> j = i)"

text \<open>An executor on the table is found in its slot, and only the cache moves.\<close>

lemma slot_for_known:
  assumes "executors tr = ids" "one_slot ids i e"
  shows "\<exists>l. slot_for e tr = (Some i, tr\<lparr>last_slot := l\<rparr>)"
proof -
  let ?n = "length (execs tr)" and ?Q = "\<lambda>j. ex_id (execs tr ! j) = e"
  have len: "?n = length ids" using assms(1) by (auto simp: executors_def)
  have Q: "?Q j \<longleftrightarrow> j = i" if "j < ?n" for j
  proof -
    have "ids ! j = ex_id (execs tr ! j)" using that assms(1)[symmetric] by (simp add: executors_def)
    then show ?thesis using assms(2) that len unfolding one_slot_def by metis
  qed
  have i: "i < ?n" using assms(2) len by (simp add: one_slot_def)
  show ?thesis
  proof (cases "last_slot tr < ?n \<and> ?Q (last_slot tr)")
    case True
    then have "last_slot tr = i" using Q by blast
    then have "slot_for e tr = (Some i, tr\<lparr>last_slot := last_slot tr\<rparr>)"
      using True by (simp add: slot_for_def Let_def)
    then show ?thesis by blast
  next
    case False
    have "find ?Q [0..<?n] = Some i"
    proof (cases "find ?Q [0..<?n]")
      case None
      then show ?thesis using find_upt(2)[of ?Q ?n] Q i by blast
    next
      case (Some m)
      then show ?thesis using find_upt(1)[OF Some] Q by blast
    qed
    then have "slot_for e tr = (Some i, tr\<lparr>last_slot := i\<rparr>)"
      using False by (simp only: slot_for_def Let_def if_False option.case)
    then show ?thesis by blast
  qed
qed

lemma distinct_ids:
  "distinct (filter (\<lambda>k. k \<noteq> 0) ids) \<Longrightarrow> (e :: u32) \<noteq> 0 \<Longrightarrow> i < length ids \<Longrightarrow> j < length ids
    \<Longrightarrow> ids ! i = e \<Longrightarrow> ids ! j = e \<Longrightarrow> i = j"
proof (induction ids arbitrary: i j)
  case (Cons x xs)
  have mem: "m < length xs \<Longrightarrow> xs ! m = e \<Longrightarrow> x = e \<Longrightarrow> False" for m
    using Cons.prems(1,2) by (auto dest: nth_mem)
  show ?case
  proof (cases i)
    case 0
    then show ?thesis using Cons.prems mem[of "j - 1"] by (cases j) auto
  next
    case (Suc m)
    then show ?thesis using Cons mem[of m] by (cases j) (auto split: if_splits)
  qed
qed simp

lemma one_slot_ex:
  assumes "distinct (filter (\<lambda>k. k \<noteq> 0) ids)" "e \<noteq> 0" "e \<in> set ids"
  shows "\<exists>i. one_slot ids i e"
proof -
  obtain i where "i < length ids" "ids ! i = e" using assms(3) by (auto simp: in_set_conv_nth)
  then show ?thesis using distinct_ids[OF assms(1,2)] unfolding one_slot_def by blast
qed

lemma path_short:
  "distinct (i # path) \<Longrightarrow> set (i # path) \<subseteq> {..<4 :: nat} \<Longrightarrow> length path < 4"
  using card_mono[of "{..<4 :: nat}" "set (i # path)"] distinct_card[of "i # path"] by simp

lemma begin_frame:
  assumes fr: "frame ids core path tr" and e: "one_slot ids i e" and p: "distinct (i # path)" "set (i # path) \<subseteq> {..<4}"
    and tr'_def: "tr' = on_task_exec_begin e tid w tr"
  shows "frame ids core (i # path) tr'" and "current_begin (execs tr' ! i) = now_ticks w"
    and "stolen_ticks (execs tr' ! i) = 0"
    and "k < 4 \<Longrightarrow> ex_exec_ticks (execs tr' ! k) = ex_exec_ticks (execs tr ! k)"
    and "k \<noteq> i \<Longrightarrow> current_begin (execs tr' ! k) = current_begin (execs tr ! k)
      \<and> stolen_ticks (execs tr' ! k) = stolen_ticks (execs tr ! k)"
proof -
  have ids: "executors tr = ids" "length ids = 4" using fr by (simp_all add: frame_def)
  obtain l where l: "slot_for e tr = (Some i, tr\<lparr>last_slot := l\<rparr>)"
    using slot_for_known[OF ids(1) e] by blast
  let ?f = "\<lambda>x. let x1 = (if ex_idle x
                 then x\<lparr>ex_idle := False, idle_ticks := idle_ticks x + (now_ticks w - idle_since x)\<rparr> else x)
            in x1\<lparr>current_begin := now_ticks w, current_task_id := tid\<rparr>"
  let ?d = "length path"
  have i4: "i < length (execs tr)" using p(2) frame_length[OF fr] by simp
  have d4: "?d < 4" by (rule path_short[OF p])
  have core: "core_id tr = core" and row: "length (nest_stack tr ! core) = 4" and dep: "nest_depth tr ! core = ?d"
    and cl: "core < length (nest_stack tr)" "core < length (nest_depth tr)"
    and tk: "take ?d (nest_stack tr ! core) = rev path"
    and st0: "\<And>k. k < 4 \<Longrightarrow> k \<notin> set path \<Longrightarrow> stolen_ticks (execs tr ! k) = 0"
    using fr by (simp_all add: frame_def)
  have core': "core_id (tr\<lparr>last_slot := l\<rparr>) = core" using core by (simp add: core_id_def)
  have tr': "tr' = (on_exec i ?f (tr\<lparr>last_slot := l\<rparr>))\<lparr>nest_depth := (nest_depth tr)[core := ?d + 1],
      nest_stack := (nest_stack tr)[core := (nest_stack tr ! core)[?d := i]]\<rparr>"
    unfolding tr'_def on_task_exec_begin_def l using core' dep row d4
    by (simp add: nest_enter_def Let_def)
  have ex: "execs tr' ! k = (if k = i then ?f (execs tr ! i) else execs tr ! k)" for k
    using i4 by (simp add: tr')
  have fs: "stolen_ticks (?f x) = stolen_ticks x" "ex_exec_ticks (?f x) = ex_exec_ticks x"
    "current_begin (?f x) = now_ticks w" for x
    by (simp_all add: Let_def)
  have "executors tr' = ids"
  proof -
    have "executors tr' = executors (on_exec i ?f (tr\<lparr>last_slot := l\<rparr>))" by (simp add: tr' executors_def)
    also have "\<dots> = executors (tr\<lparr>last_slot := l\<rparr>)" by (rule executors_on_exec_same) (simp add: Let_def)
    finally show ?thesis using ids by (simp add: executors_def)
  qed
  moreover have "core_id tr' = core" using core by (simp add: tr' core_id_def on_exec_def)
  moreover have "take (Suc ?d) ((nest_stack tr ! core)[?d := i]) = rev path @ [i]"
    using row d4 tk by (simp add: take_Suc_conv_app_nth)
  moreover have "stolen_ticks (execs tr' ! k) = 0" if "k < 4" "k \<notin> set (i # path)" for k
    using that st0 by (simp add: ex)
  ultimately show "frame ids core (i # path) tr'"
    using ids(2) cl row by (simp add: frame_def) (simp add: tr')
  show "current_begin (execs tr' ! i) = now_ticks w" using fs by (simp add: ex)
  show "stolen_ticks (execs tr' ! i) = 0" using fs st0[of i] p i4 frame_length[OF fr] by (simp add: ex)
  show "k < 4 \<Longrightarrow> ex_exec_ticks (execs tr' ! k) = ex_exec_ticks (execs tr ! k)" using fs by (simp add: ex)
  show "k \<noteq> i \<Longrightarrow> current_begin (execs tr' ! k) = current_begin (execs tr ! k)
      \<and> stolen_ticks (execs tr' ! k) = stolen_ticks (execs tr ! k)" by (simp add: ex)
qed

lemma end_frame:
  assumes fr: "frame ids core (i # path) tr" and e: "one_slot ids i e" and p: "distinct (i # path)" "set (i # path) \<subseteq> {..<4}"
    and raw: "now_ticks w - current_begin (execs tr ! i) = of_nat d" and st: "stolen_ticks (execs tr ! i) = of_nat s"
    and d: "d < 2 ^ 32" "s \<le> d"
    and r: "(w', tr') = on_task_exec_end G e tid w tr"
  shows "frame ids core path tr'" and "w_now w' = w_now w"
    and "k < 4 \<Longrightarrow> ex_exec_ticks (execs tr' ! k) = ex_exec_ticks (execs tr ! k) + (if k = i then of_nat (d - s) else 0)"
    and "k \<in> set path \<Longrightarrow> current_begin (execs tr' ! k) = current_begin (execs tr ! k)
      \<and> stolen_ticks (execs tr' ! k) = stolen_ticks (execs tr ! k) + (if k = hd path then of_nat d else 0)"
proof -
  have ids: "executors tr = ids" "length ids = 4" using fr by (simp_all add: frame_def)
  obtain l where l: "slot_for e tr = (Some i, tr\<lparr>last_slot := l\<rparr>)"
    using slot_for_known[OF ids(1) e] by blast
  let ?d = "length path"
  have len: "length (execs tr) = 4" by (rule frame_length[OF fr])
  have i4: "i < 4" using p(2) by simp
  have d4: "?d < 4" by (rule path_short[OF p])
  have core: "core_id tr = core" and row: "length (nest_stack tr ! core) = 4" and dep: "nest_depth tr ! core = Suc ?d"
    and cl: "core < length (nest_stack tr)" "core < length (nest_depth tr)"
    and tk: "take (Suc ?d) (nest_stack tr ! core) = rev path @ [i]"
    and st0: "\<And>k. k < 4 \<Longrightarrow> k \<notin> set (i # path) \<Longrightarrow> stolen_ticks (execs tr ! k) = 0"
    using fr by (simp_all add: frame_def)
  have tkd: "take ?d (nest_stack tr ! core) = rev path"
    using arg_cong[OF tk, of "take ?d"] by (simp add: min_def)
  let ?t0 = "on_exec i (\<lambda>x. x\<lparr>current_task_id := 0, stolen_ticks := 0\<rparr>) (tr\<lparr>last_slot := l\<rparr>)"
  let ?t1 = "?t0\<lparr>nest_depth := (nest_depth tr)[core := ?d]\<rparr>"
  let ?t2 = "if path = [] then ?t1 else on_exec (hd path) (\<lambda>x. x\<lparr>stolen_ticks := stolen_ticks x + of_nat d\<rparr>) ?t1"
  have hd4: "path \<noteq> [] \<Longrightarrow> hd path < 4" "path \<noteq> [] \<Longrightarrow> hd path \<noteq> i"
    using p by (cases path; auto)+
  have c0: "core_id ?t0 = core" using core by (simp add: core_id_def on_exec_def)
  have leave: "nest_leave (of_nat d) ?t0 = ?t2"
  proof (cases "path = []")
    case True
    then show ?thesis using c0 dep by (simp add: nest_leave_def Let_def)
  next
    case False
    have "nest_stack tr ! core ! (?d - 1) = rev path ! (?d - 1)"
      using False by (simp add: tkd[symmetric])
    also have "\<dots> = hd path" using False by (simp add: rev_nth hd_conv_nth)
    finally have parent: "nest_stack tr ! core ! (?d - 1) = hd path" .
    then show ?thesis using False c0 dep row d4 hd4 len by (simp add: nest_leave_def Let_def)
  qed
  have elapsed: "sat_sub (of_nat d :: u32) (of_nat s) = of_nat (d - s)"
  proof -
    have "unat (of_nat d :: u32) = d" "unat (of_nat s :: u32) = s" using d by (simp_all add: unat_of_nat)
    moreover have "unat (of_nat x :: u32) = x" if "x < 2 ^ 32" for x using that by (simp add: unat_of_nat)
    from this[of "d - s"] have "unat (of_nat (d - s) :: u32) = d - s" using d(1) by linarith
    ultimately show ?thesis by (simp only: word_unat_eq_iff unat_sat_sub)
  qed
  let ?g = "\<lambda>x. x\<lparr>ex_exec_ticks := ex_exec_ticks x + of_nat (d - s), ex_polls := ex_polls x + 1\<rparr>"
  have res: "tr' = on_exec i ?g ?t2" and wn: "w_now w' = w_now w"
    using r leave elapsed raw st i4 len unfolding on_task_exec_end_def l
    by (auto simp: Let_def split: option.splits)
  show "w_now w' = w_now w" by (rule wn)
  have ex: "execs tr' ! k = (let x = (if k = i then ?g ((execs tr ! i)\<lparr>current_task_id := 0, stolen_ticks := 0\<rparr>) else execs tr ! k)
      in if path \<noteq> [] \<and> k = hd path then x\<lparr>stolen_ticks := stolen_ticks x + of_nat d\<rparr> else x)" for k
    using i4 len hd4 by (auto simp: res Let_def)
  have "executors tr' = ids"
  proof -
    have "executors tr' = executors ?t2" unfolding res by (rule executors_on_exec_same) simp
    also have "\<dots> = executors ?t1" by (cases "path = []") (simp_all add: executors_on_exec_same)
    also have "\<dots> = executors (tr\<lparr>last_slot := l\<rparr>)"
      using executors_on_exec_same[of "\<lambda>x. x\<lparr>current_task_id := 0, stolen_ticks := 0\<rparr>" i "tr\<lparr>last_slot := l\<rparr>"]
      by (simp add: executors_def)
    finally show ?thesis using ids by (simp add: executors_def)
  qed
  moreover have "core_id tr' = core" using core by (simp add: res core_id_def on_exec_def)
  moreover have "nest_depth tr' = (nest_depth tr)[core := ?d]" "nest_stack tr' = nest_stack tr"
    by (simp_all add: res)
  moreover have "stolen_ticks (execs tr' ! k) = 0" if "k < 4" "k \<notin> set path" for k
    using that st0[of k] hd_in_set[of path] by (auto simp: ex Let_def)
  ultimately show "frame ids core path tr'" using ids(2) cl row tkd by (simp add: frame_def)
  show "k < 4 \<Longrightarrow> ex_exec_ticks (execs tr' ! k) = ex_exec_ticks (execs tr ! k) + (if k = i then of_nat (d - s) else 0)"
    by (simp add: ex Let_def)
  show "k \<in> set path \<Longrightarrow> current_begin (execs tr' ! k) = current_begin (execs tr ! k)
      \<and> stolen_ticks (execs tr' ! k) = stolen_ticks (execs tr ! k) + (if k = hd path then of_nat d else 0)"
    using p by (auto simp: ex Let_def)
qed

section \<open>Every tick once\<close>

definition children_time :: "(nat \<times> poll_tree) list \<Rightarrow> nat" where
  "children_time cs = (\<Sum>(g, c) \<leftarrow> cs. duration c)"

definition path_ids :: "u32 list \<Rightarrow> nat list \<Rightarrow> u32 list" where
  "path_ids ids path = map (\<lambda>i. ids ! i) path"

lemma children_split: "(\<Sum>(g, c) \<leftarrow> cs. g + duration c) = (\<Sum>(g, c) \<leftarrow> cs. g) + children_time cs"
  by (induction cs) (auto simp: children_time_def)

lemma accounted_trans:
  assumes "accounted ids core path own s d a b" "accounted ids core path own' s' d' b c"
  shows "accounted ids core path (\<lambda>k. own k + own' k) (s + s') (d + d') a c"
  using assms by (auto simp: accounted_def)

lemma accounted_gap:
  "accounted ids core path own s d (pass_ticks g w, tr) b \<Longrightarrow> accounted ids core path own s (g + d) (w, tr) b"
  by (simp add: accounted_def pass_ticks_def)

lemma run_accounted:
  assumes ids: "distinct (filter (\<lambda>k. k \<noteq> 0) ids)"
  shows "nests ids (path_ids ids path) p \<Longrightarrow> distinct path \<Longrightarrow> set path \<subseteq> {..<4} \<Longrightarrow> duration p < 2 ^ 32
      \<Longrightarrow> frame ids core path (snd s)
      \<Longrightarrow> accounted ids core path (\<lambda>k. own_ticks k p) (duration p) (duration p) s (run_poll G p s)"
    and "\<forall>(g, c) \<in> set cs. nests ids (path_ids ids path) c \<Longrightarrow> distinct path \<Longrightarrow> set path \<subseteq> {..<4}
      \<Longrightarrow> (\<Sum>(g, c) \<leftarrow> cs. g + duration c) < 2 ^ 32 \<Longrightarrow> frame ids core path (snd s)
      \<Longrightarrow> accounted ids core path (\<lambda>k. \<Sum>(g, c) \<leftarrow> cs. own_ticks k c) (children_time cs)
            (\<Sum>(g, c) \<leftarrow> cs. g + duration c) s (run_children G cs s)"
proof (induction G p s and G cs s arbitrary: path and path rule: run_poll_run_children.induct)
  case (1 G e tid cs lst w tr)
  have e: "e \<noteq> 0" "e \<in> set ids" "e \<notin> set (path_ids ids path)" using 1(2) by simp_all
  obtain i where i: "one_slot ids i e" using one_slot_ex[OF ids e(1,2)] by blast
  have fr: "frame ids core path tr" using 1(6) by simp
  have len: "length ids = 4" using fr by (simp add: frame_def)
  have ip: "i \<notin> set path" using i e(3) by (auto simp: one_slot_def path_ids_def)
  have p: "distinct (i # path)" "set (i # path) \<subseteq> {..<4}" using ip 1(3,4) i len by (auto simp: one_slot_def)
  let ?tr1 = "on_task_exec_begin e tid w tr"
  let ?gaps = "(\<Sum>(g, c) \<leftarrow> cs. g)"
  note b = begin_frame[OF fr i p refl, where tid = tid and w = w]
  have ids_i: "path_ids ids (i # path) = e # path_ids ids path" using i by (simp add: path_ids_def one_slot_def)
  obtain w1 tr2 where rc: "run_children G cs (w, ?tr1) = (w1, tr2)" by fastforce
  have acc: "accounted ids core (i # path) (\<lambda>k. \<Sum>(g, c) \<leftarrow> cs. own_ticks k c) (children_time cs)
            (\<Sum>(g, c) \<leftarrow> cs. g + duration c) (w, ?tr1) (run_children G cs (w, ?tr1))"
  proof (rule 1(1))
    show "\<forall>(g, c) \<in> set cs. nests ids (path_ids ids (i # path)) c" using 1(2) ids_i by simp
    show "(\<Sum>(g, c) \<leftarrow> cs. g + duration c) < 2 ^ 32" using 1(5) by simp
    show "frame ids core (i # path) (snd (w, ?tr1))" using b(1) by simp
  qed (use p in auto)
  note acc = acc[unfolded rc]
  let ?w2 = "pass_ticks lst w1"
  let ?D = "duration (Poll e tid cs lst)"
  have D: "?D = ?gaps + children_time cs + lst" by (simp add: children_split)
  have now: "w_now ?w2 = w_now w + ?D" using acc by (simp add: accounted_def pass_ticks_def)
  have "current_begin (execs tr2 ! i) = now_ticks w" using acc b(2) by (simp add: accounted_def)
  then have raw: "now_ticks ?w2 - current_begin (execs tr2 ! i) = of_nat ?D"
    using now by (simp add: now_ticks_def ticks32_def)
  have st: "stolen_ticks (execs tr2 ! i) = of_nat (children_time cs)" using acc b(3) by (simp add: accounted_def)
  obtain w3 tr3 where en: "(w3, tr3) = on_task_exec_end G e tid ?w2 tr2" by (metis surj_pair)
  have fr2: "frame ids core (i # path) tr2" using acc by (simp add: accounted_def)
  have "children_time cs \<le> ?D" unfolding D by simp
  note f = end_frame[OF fr2 i p raw st 1(5) this en]
  have own_i: "own_ticks (ids ! k) (Poll e tid cs lst)
      = (\<Sum>(g, c) \<leftarrow> cs. own_ticks (ids ! k) c) + (if k = i then ?D - children_time cs else 0)" if "k < 4" for k
  proof -
    have ki: "ids ! k = e \<longleftrightarrow> k = i" using i that len unfolding one_slot_def by metis
    have "?D - children_time cs = ?gaps + lst" unfolding D by simp
    then show ?thesis by (simp only: own_ticks.simps ki)
  qed
  have "run_poll G (Poll e tid cs lst) (w, tr) = (w3, tr3)" using rc en by simp
  moreover have "accounted ids core path (\<lambda>k. own_ticks k (Poll e tid cs lst)) ?D ?D (w, tr) (w3, tr3)"
    unfolding accounted_def fst_conv snd_conv
  proof (intro conjI allI impI ballI)
    show "frame ids core path tr3" by (rule f(1))
    show "w_now w3 = w_now w + ?D" using f(2) now by simp
    show "ex_exec_ticks (execs tr3 ! k) = ex_exec_ticks (execs tr ! k) + of_nat (own_ticks (ids ! k) (Poll e tid cs lst))"
      if "k < 4" for k
      unfolding own_i[OF that] using f(3)[OF that] b(4)[OF that] acc that
      by (simp add: accounted_def del: duration.simps)
    fix k assume k: "k \<in> set path"
    then have "k \<noteq> i" using ip by auto
    then show "current_begin (execs tr3 ! k) = current_begin (execs tr ! k)"
      and "stolen_ticks (execs tr3 ! k) = stolen_ticks (execs tr ! k) + (if k = hd path then of_nat ?D else 0)"
      using f(4)[OF k] b(5)[of k] acc k by (simp_all add: accounted_def del: duration.simps)
  qed
  ultimately show ?case by simp
next
  case (2 G s)
  then show ?case by (cases s) (simp add: accounted_def children_time_def)
next
  case (3 G g c cs w tr)
  let ?s1 = "run_poll G c (pass_ticks g w, tr)"
  have a: "accounted ids core path (\<lambda>k. own_ticks k c) (duration c) (duration c) (pass_ticks g w, tr) ?s1"
    using 3 by auto
  have "frame ids core path (snd ?s1)" using a by (simp add: accounted_def)
  then have "accounted ids core path (\<lambda>k. \<Sum>(g, c) \<leftarrow> cs. own_ticks k c) (children_time cs)
            (\<Sum>(g, c) \<leftarrow> cs. g + duration c) ?s1 (run_children G cs ?s1)"
    using 3 by auto
  from accounted_trans[OF accounted_gap[OF a] this] show ?case
    by (simp add: children_time_def)
qed

text \<open>
  Nested accounting is exact: running any tree of preemptions among executors of the table,
  none preempting itself, adds to each executor exactly its own ticks, without those of the
  polls that preempted it, and leaves no stolen ticks and no frame behind; the table's counters
  are modulo their 32 bits.
\<close>

theorem nested_accounting_exact:
  assumes "wf_tracer tr" "nests (executors tr) [] p" "duration p < 2 ^ 32"
    and "nest_depth tr ! core_id tr = 0" "\<forall>i < MAX_EXECUTORS. stolen_ticks (execs tr ! i) = 0"
    and "run_poll G p (w, tr) = (w', tr')"
  shows "(\<forall>i < MAX_EXECUTORS. ex_exec_ticks (execs tr' ! i)
            = ex_exec_ticks (execs tr ! i) + of_nat (own_ticks (executors tr ! i) p)
          \<and> stolen_ticks (execs tr' ! i) = 0)
     \<and> nest_depth tr' ! core_id tr' = 0 \<and> w_now w' = w_now w + duration p"
proof -
  have core: "core_id tr < 2" by (simp add: core_id_def MAX_CORES_def min_def split: option.split)
  have "frame (executors tr) (core_id tr) [] tr"
    using assms(1,4,5) core
    by (auto simp: frame_def wf_tracer_def MAX_CORES_def MAX_EXECUTORS_def list_all_length executors_def)
  then have "accounted (executors tr) (core_id tr) [] (\<lambda>k. own_ticks k p) (duration p) (duration p) (w, tr) (w', tr')"
    using run_accounted(1)[of "executors tr" "[]" p "core_id tr" "(w, tr)" G] assms
    by (simp add: path_ids_def wf_tracer_def)
  then show ?thesis by (auto simp: accounted_def frame_def MAX_EXECUTORS_def)
qed

text \<open>Executor 9 preempts executor 7 for five ticks, in the middle of a poll of seven.\<close>

definition two_execs :: tracer where
  "two_execs = tracer_new\<lparr>execs := [FREE_SLOT\<lparr>ex_id := 7\<rparr>, FREE_SLOT\<lparr>ex_id := 9\<rparr>, FREE_SLOT, FREE_SLOT]\<rparr>"

definition preempted :: poll_tree where
  "preempted = Poll 7 1 [(3, Poll 9 2 [] 5)] 4"

theorem nested_accounting_exact_witness:
  "\<exists>w' tr'. run_poll (\<lambda>_. NO_GRAPH) preempted (world_new, two_execs) = (w', tr')
     \<and> ex_exec_ticks (execs tr' ! 0) = 7 \<and> ex_exec_ticks (execs tr' ! 1) = 5"
proof -
  obtain w' tr' where r: "run_poll (\<lambda>_. NO_GRAPH) preempted (world_new, two_execs) = (w', tr')" by fastforce
  have ids: "executors two_execs = [7, 9, 0, 0]"
    by (simp add: two_execs_def executors_def FREE_SLOT_def)
  have "wf_tracer two_execs"
    by (simp add: wf_tracer_def ids) (simp add: two_execs_def tracer_new_def MAX_EXECUTORS_def MAX_CORES_def list_all_length)
  moreover have "nests (executors two_execs) [] preempted" by (simp add: ids preempted_def)
  moreover have "duration preempted < 2 ^ 32" by (simp add: preempted_def)
  moreover have "nest_depth two_execs ! core_id two_execs = 0"
    by (simp add: two_execs_def tracer_new_def core_id_def MAX_CORES_def)
  moreover have "\<forall>i < MAX_EXECUTORS. stolen_ticks (execs two_execs ! i) = 0"
    by (auto simp: two_execs_def FREE_SLOT_def MAX_EXECUTORS_def nth_Cons split: nat.split)
  ultimately have x: "\<forall>i < MAX_EXECUTORS. ex_exec_ticks (execs tr' ! i)
      = ex_exec_ticks (execs two_execs ! i) + of_nat (own_ticks (executors two_execs ! i) preempted)"
    using nested_accounting_exact[OF _ _ _ _ _ r] by blast
  have "ex_exec_ticks (execs tr' ! 0) = 7" "ex_exec_ticks (execs tr' ! 1) = 5"
    using x[unfolded ids, rule_format, of 0] x[unfolded ids, rule_format, of 1]
    by (simp_all add: MAX_EXECUTORS_def preempted_def) (simp_all add: two_execs_def FREE_SLOT_def)
  then show ?thesis using r by blast
qed

end
