(* ===== verification/Signals.thy ===== *)
theory Signals
  imports Node
begin

text \<open>
  Observable signals: the traits and wrappers of \<^verbatim>\<open>supervisor-observe/src/lib.rs\<close>, the stamped
  wrapper of \<^verbatim>\<open>supervisor/src/stamped.rs\<close> and the data verbs of \<^verbatim>\<open>supervisor/src/dataflow.rs\<close>.
  A signal of type \<open>'s\<close> is written by a \<open>put\<close> and read by a \<open>get\<close>, which may count the read.
\<close>

section \<open>Atomics\<close>

definition atomic_put :: "'v \<Rightarrow> 'v \<Rightarrow> 'v" where
  "atomic_put v s = v"

definition atomic_get :: "'v \<Rightarrow> 'v \<times> 'v" where
  "atomic_get s = (s, s)"

text \<open>\<open>as u32\<close> of an unsigned and of a signed integer of any width, and of a boolean.\<close>

definition value_token :: "'a::len word \<Rightarrow> u32" where
  "value_token s = ucast s"

definition signed_token :: "'a::len word \<Rightarrow> u32" where
  "signed_token s = scast s"

definition bool_token :: "bool \<Rightarrow> u32" where
  "bool_token s = (if s then 1 else 0)"

section \<open>Counted\<close>

record 'a counted =
  ct_inner :: 'a
  ct_writes :: u32
  ct_reads :: u32

definition counted_new :: "'a \<Rightarrow> 'a counted" where
  "counted_new v = \<lparr>ct_inner = v, ct_writes = 0, ct_reads = 0\<rparr>"

definition counted_w :: "'a counted \<Rightarrow> 'a counted" where
  "counted_w c = c\<lparr>ct_writes := ct_writes c + 1\<rparr>"

definition counted_r :: "'a counted \<Rightarrow> 'a counted" where
  "counted_r c = c\<lparr>ct_reads := ct_reads c + 1\<rparr>"

definition counted_token :: "'a counted \<Rightarrow> u32" where
  "counted_token c = ct_writes c"

definition counted_put :: "('v \<Rightarrow> 's \<Rightarrow> 's) \<Rightarrow> 'v \<Rightarrow> 's counted \<Rightarrow> 's counted" where
  "counted_put put v c = (let c1 = counted_w c in c1\<lparr>ct_inner := put v (ct_inner c1)\<rparr>)"

definition counted_get :: "('s \<Rightarrow> 'v \<times> 's) \<Rightarrow> 's counted \<Rightarrow> 'v \<times> 's counted" where
  "counted_get get c =
     (let c1 = counted_r c; (v, s) = get (ct_inner c1) in (v, c1\<lparr>ct_inner := s\<rparr>))"

section \<open>Stamped\<close>

record 'a stamped =
  sd_inner :: 'a
  sd_stamp :: u32
  sd_written :: bool

definition stamped_new :: "'a \<Rightarrow> 'a stamped" where
  "stamped_new v = \<lparr>sd_inner = v, sd_stamp = 0, sd_written = False\<rparr>"

definition stamped_w :: "nat \<Rightarrow> 'a stamped \<Rightarrow> 'a stamped" where
  "stamped_w now s = s\<lparr>sd_stamp := ticks32 now, sd_written := True\<rparr>"

definition stamped_age :: "nat \<Rightarrow> 'a stamped \<Rightarrow> nat option" where
  "stamped_age now s =
     (if \<not> sd_written s then None else Some (unat (ticks32 now - sd_stamp s)))"

definition stamped_is_fresh :: "nat \<Rightarrow> nat \<Rightarrow> 'a stamped \<Rightarrow> bool" where
  "stamped_is_fresh now max_age s =
     (case stamped_age now s of None \<Rightarrow> False | Some age \<Rightarrow> age \<le> max_age)"

definition read_fresh :: "nat \<Rightarrow> nat \<Rightarrow> 'a stamped \<Rightarrow> 'a option" where
  "read_fresh now max_age s = (if stamped_is_fresh now max_age s then Some (sd_inner s) else None)"

definition stamped_put :: "('v \<Rightarrow> 's \<Rightarrow> 's) \<Rightarrow> nat \<Rightarrow> 'v \<Rightarrow> 's stamped \<Rightarrow> 's stamped" where
  "stamped_put put now v s = (let s1 = stamped_w now s in s1\<lparr>sd_inner := put v (sd_inner s1)\<rparr>)"

definition stamped_get :: "('s \<Rightarrow> 'v \<times> 's) \<Rightarrow> 's stamped \<Rightarrow> 'v \<times> 's stamped" where
  "stamped_get get s = (let (v, i) = get (sd_inner s) in (v, s\<lparr>sd_inner := i\<rparr>))"

definition stamped_token :: "('s \<Rightarrow> u32) \<Rightarrow> 's stamped \<Rightarrow> u32" where
  "stamped_token token s = token (sd_inner s)"

section \<open>The data verbs of a node\<close>

text \<open>\<open>put\<close> acts on the signal alone; \<open>beat_put\<close> beats first.\<close>

definition node_put :: "('v \<Rightarrow> 's \<Rightarrow> 's) \<Rightarrow> 'v \<Rightarrow> 's \<Rightarrow> 's" where
  "node_put put v s = put v s"

definition beat_put :: "('v \<Rightarrow> 's \<Rightarrow> 's) \<Rightarrow> nref \<Rightarrow> 'v \<Rightarrow> 's \<Rightarrow> world \<Rightarrow> 's \<times> world" where
  "beat_put put n v s w = (let w1 = on_handle n beat w in (put v s, w1))"

definition node_get :: "('s \<Rightarrow> 'v \<times> 's) \<Rightarrow> 's \<Rightarrow> 'v \<times> 's" where
  "node_get get s = get s"

definition node_writer :: "'s \<Rightarrow> 's" where
  "node_writer s = s"

definition beat_writer :: "nref \<Rightarrow> 's \<Rightarrow> world \<Rightarrow> 's \<times> world" where
  "beat_writer n s w = (s, on_handle n beat w)"

definition node_reader :: "'s \<Rightarrow> 's" where
  "node_reader s = s"

text \<open>The contributor slot a node's declaration gives it on a veto gate.\<close>

fun veto_entry :: "entry list \<Rightarrow> entry \<Rightarrow> u8 option" where
  "veto_entry [] sig = None"
| "veto_entry (e # es) sig =
     (case (if same_signal e sig then c_veto e else None) of
        Some k \<Rightarrow> Some k
      | None \<Rightarrow> veto_entry es sig)"

definition node_veto :: "node_cfg \<Rightarrow> entry \<Rightarrow> u8 option" where
  "node_veto c sig = veto_entry (entries c True) sig"

section \<open>The contracts of the traits\<close>

text \<open>\<open>Sink\<close> and \<open>Source\<close>: what is put is got, and getting changes nothing one could get.\<close>

locale signal_cell =
  fixes put :: "'v \<Rightarrow> 's \<Rightarrow> 's" and get :: "'s \<Rightarrow> 'v \<times> 's"
  assumes get_put: "fst (get (put v s)) = v"
    and get_again: "fst (get (snd (get s))) = fst (get s)"
begin

text \<open>An access is \<open>Some\<close> value put or \<open>None\<close>, a get.\<close>

fun access :: "'v option \<Rightarrow> 's \<Rightarrow> 's" where
  "access (Some v) s = put v s"
| "access None s = snd (get s)"

lemma last_put_wins:
  "fst (get (fold access xs s)) = (case filter (\<lambda>x. x \<noteq> None) xs of [] \<Rightarrow> fst (get s) | ys \<Rightarrow> the (last ys))"
proof (induction xs rule: rev_induct)
  case (snoc x xs)
  show ?case
  proof (cases x)
    case None
    then show ?thesis using snoc by (simp add: get_again)
  next
    case (Some v)
    then show ?thesis by (cases "filter (\<lambda>x. x \<noteq> None) xs") (simp_all add: get_put)
  qed
qed simp

end

text \<open>\<open>Observable\<close>: two unequal readings of the token prove a write between them.\<close>

locale observable_cell = signal_cell put get
  for put :: "'v \<Rightarrow> 's \<Rightarrow> 's" and get :: "'s \<Rightarrow> 'v \<times> 's" +
  fixes token :: "'s \<Rightarrow> u32"
  assumes token_get: "token (snd (get s)) = token s"
begin

lemma moved_means_written: "token (fold access xs s) \<noteq> token s \<Longrightarrow> \<exists>x \<in> set xs. x \<noteq> None"
proof (induction xs arbitrary: s)
  case (Cons x xs)
  then show ?case using Cons.IH[of "access x s"] by (cases x) (auto simp: token_get)
qed simp

end

text \<open>What a beat entry needs beyond that: every write advances the token by one.\<close>

locale counting_cell = observable_cell +
  assumes token_put: "token (put v s) = token s + 1"
begin

lemma token_counts: "token (fold access xs s) = token s + of_nat (length (filter (\<lambda>x. x \<noteq> None) xs))"
proof (induction xs arbitrary: s)
  case (Cons x xs)
  then show ?case by (cases x) (simp_all add: token_get token_put)
qed simp

end

interpretation atomic: signal_cell atomic_put atomic_get
  by unfold_locales (simp_all add: atomic_put_def atomic_get_def)

interpretation atomic_word: observable_cell atomic_put atomic_get value_token
  by unfold_locales (simp add: atomic_get_def)

interpretation atomic_signed: observable_cell atomic_put atomic_get signed_token
  by unfold_locales (simp add: atomic_get_def)

interpretation atomic_bool: observable_cell atomic_put atomic_get bool_token
  by unfold_locales (simp add: atomic_get_def)

text \<open>Both wrappers pass the contract on, whatever they wrap.\<close>

lemma counted_cell: "signal_cell put get \<Longrightarrow> counting_cell (counted_put put) (counted_get get) counted_token"
proof -
  assume s: "signal_cell put get"
  show ?thesis
    by unfold_locales
      (simp_all add: counted_put_def counted_get_def counted_w_def counted_r_def counted_token_def Let_def
        case_prod_beta signal_cell.get_put[OF s] signal_cell.get_again[OF s])
qed

lemma stamped_cell:
  "observable_cell put get token \<Longrightarrow>
     observable_cell (stamped_put put now) (stamped_get get) (stamped_token token)"
proof -
  assume c: "observable_cell put get token"
  then have s: "signal_cell put get" by (simp add: observable_cell_def)
  show ?thesis
    by unfold_locales
      (simp_all add: stamped_put_def stamped_get_def stamped_w_def stamped_token_def Let_def case_prod_beta
        signal_cell.get_put[OF s] signal_cell.get_again[OF s] observable_cell.token_get[OF c])
qed

interpretation counted_atomic: counting_cell "counted_put atomic_put" "counted_get atomic_get" counted_token
  by (rule counted_cell) unfold_locales

interpretation stamped_counted: observable_cell
  "stamped_put (counted_put atomic_put) now" "stamped_get (counted_get atomic_get)" "stamped_token counted_token" for now
  by (rule stamped_cell) unfold_locales

section \<open>No write is missed\<close>

text \<open>The entries that feed the heartbeat.\<close>

definition beat_entries :: "node_cfg \<Rightarrow> entry list" where
  "beat_entries c = filter (\<lambda>e. c_beat e \<and> c_observe e \<noteq> None) (entries c True)"

lemma beat_sum_entries:
  "beat_sum es w (m, any) =
     (let bs = filter (\<lambda>e. c_beat e \<and> c_observe e \<noteq> None) es
      in (m + (\<Sum>e\<leftarrow>bs. the (c_observe e) w), any \<or> bs \<noteq> []))"
  by (induction es arbitrary: m any) (auto simp: Let_def ac_simps split: option.splits)

lemma poll_observed_writes_entries:
  "poll_observed_writes P n w =
     (let bs = beat_entries (p_cfg P n); mark = (\<Sum>e\<leftarrow>bs. the (c_observe e) w) in
      if bs = [] then (False, w)
      else (write_mark (w_h w n) \<noteq> mark, on_handle n (\<lambda>h. h\<lparr>write_mark := mark\<rparr>) w))"
  by (simp add: poll_observed_writes_def beat_sum_entries beat_entries_def Let_def)

definition puts :: "'v option list \<Rightarrow> nat" where
  "puts xs = length (filter (\<lambda>x. x \<noteq> None) xs)"

lemma sum_list_of_nat_diff:
  "(\<And>x. x \<in> set xs \<Longrightarrow> f x = g x + of_nat (k x)) \<Longrightarrow>
     sum_list (map f xs) = sum_list (map g xs) + (of_nat (sum_list (map k xs)) :: u32)"
  by (induction xs) (simp_all add: algebra_simps)

text \<open>
  C34. The monitor misses no write of counted signals: between two looks at a node whose beat
  entries observe counted signals, whatever is put and got on each of them, the second look
  reports activity exactly if the puts of all entries together are not a multiple of
  \<open>2 ^ 32\<close>. Rewriting an unchanged value counts, reads do not, and writes to different
  signals never cancel out.
\<close>

theorem beat_sees_every_write:
  assumes ent: "beat_entries (p_cfg P n) \<noteq> []"
    and obs: "\<forall>e \<in> set (beat_entries (p_cfg P n)). c_observe e = Some (\<lambda>w. counted_token (cell e w))"
    and run: "\<forall>e \<in> set (beat_entries (p_cfg P n)). cell e w' = fold counted_atomic.access (ops e) (cell e w)"
    and mark: "write_mark (w_h w' n) = write_mark (w_h (snd (poll_observed_writes P n w)) n)"
  shows "fst (poll_observed_writes P n w')
     \<longleftrightarrow> (\<Sum>e \<leftarrow> beat_entries (p_cfg P n). puts (ops e)) mod 2 ^ 32 \<noteq> 0"
proof -
  let ?bs = "beat_entries (p_cfg P n)"
  let ?mark = "\<lambda>w. (\<Sum>e\<leftarrow>?bs. the (c_observe e) w)"
  have "?mark w' = ?mark w + of_nat (\<Sum>e\<leftarrow>?bs. puts (ops e))"
    by (rule sum_list_of_nat_diff) (simp add: obs run counted_atomic.token_counts puts_def)
  moreover have "write_mark (w_h w' n) = ?mark w"
    using mark ent by (simp add: poll_observed_writes_entries Let_def)
  ultimately have "fst (poll_observed_writes P n w') \<longleftrightarrow> of_nat (\<Sum>e\<leftarrow>?bs. puts (ops e)) \<noteq> (0 :: u32)"
    using ent by (simp add: poll_observed_writes_entries Let_def)
  then show ?thesis by (simp add: word_of_nat_eq_0_iff dvd_eq_mod_eq_0)
qed

definition telemetry :: entry where
  "telemetry = mark_beat (mark_observed (\<lambda>w. counted_token \<lparr>ct_inner = (), ct_writes = last_crumb w, ct_reads = 0\<rparr>)
     (coupling_new ''telemetry'' 1))"

definition telemetry_cell :: "entry \<Rightarrow> world \<Rightarrow> unit counted" where
  "telemetry_cell e w = \<lparr>ct_inner = (), ct_writes = last_crumb w, ct_reads = 0\<rparr>"

definition telemetry_platform :: platform where
  "telemetry_platform = plain_platform (\<lambda>_. with_writes [[telemetry, coupling_new ''plain'' 2]] plain_cfg)"

lemma telemetry_beats: "beat_entries (p_cfg telemetry_platform n) = [telemetry]"
  by (simp add: beat_entries_def entries_def telemetry_platform_def plain_platform_def with_writes_def
      plain_cfg_def cfg_new_def telemetry_def mark_beat_def mark_observed_def coupling_new_def)

theorem beat_sees_every_write_witness:
  "fst (poll_observed_writes telemetry_platform 1 (world_new\<lparr>last_crumb := 2\<rparr>))"
proof -
  let ?w' = "world_new\<lparr>last_crumb := 2\<rparr>"
  have ob: "c_observe telemetry = Some (\<lambda>w. counted_token (telemetry_cell telemetry w))"
    by (simp add: telemetry_def telemetry_cell_def mark_beat_def mark_observed_def)
  have "fst (poll_observed_writes telemetry_platform 1 ?w')
      \<longleftrightarrow> (\<Sum>e \<leftarrow> beat_entries (p_cfg telemetry_platform 1). puts [Some (), Some ()]) mod 2 ^ 32 \<noteq> 0"
  proof (rule beat_sees_every_write[where cell = telemetry_cell and w = world_new])
    show "beat_entries (p_cfg telemetry_platform 1) \<noteq> []" by (simp add: telemetry_beats)
    show "\<forall>e\<in>set (beat_entries (p_cfg telemetry_platform 1)).
       c_observe e = Some (\<lambda>w. counted_token (telemetry_cell e w))" by (simp add: telemetry_beats ob)
    show "\<forall>e\<in>set (beat_entries (p_cfg telemetry_platform 1)).
       telemetry_cell e ?w' = fold counted_atomic.access [Some (), Some ()] (telemetry_cell e world_new)"
      by (simp add: telemetry_beats telemetry_cell_def counted_put_def counted_w_def Let_def world_new_def)
    show "write_mark (w_h ?w' 1) = write_mark (w_h (snd (poll_observed_writes telemetry_platform 1 world_new)) 1)"
      by (simp add: poll_observed_writes_entries telemetry_beats ob telemetry_cell_def counted_token_def
          Let_def world_new_def handle_new_def)
  qed
  then show ?thesis by (simp add: telemetry_beats puts_def)
qed

section \<open>Ages\<close>

definition read_times :: "nat \<Rightarrow> 'v stamped \<Rightarrow> 'v stamped" where
  "read_times k s = ((\<lambda>s. snd (stamped_get atomic_get s)) ^^ k) s"

lemma read_times_id [simp]: "read_times k s = s"
  by (induction k) (simp_all add: read_times_def stamped_get_def atomic_get_def)

lemma ticks32_later: "ticks32 (t + d) - ticks32 t = of_nat d"
  by (simp add: ticks32_def)

text \<open>
  Ages are exact up to \<open>u32::MAX\<close> ticks: a value written at \<open>t\<close> and read \<open>d\<close> ticks later,
  with any reads between, has age \<open>d\<close> modulo \<open>2 ^ 32\<close>, so below the wrap \<open>read_fresh\<close> hands it
  out exactly if \<open>d\<close> is within the limit, and what it hands out is the last value put. A
  signal never written has no age.
\<close>

lemma stamped_age_exact:
  assumes "s' = read_times k (stamped_put atomic_put t v s)"
  shows "stamped_age (t + d) s' = Some (d mod 2 ^ 32)"
    and "d < 2 ^ 32 \<Longrightarrow> read_fresh (t + d) limit s' = (if d \<le> limit then Some v else None)"
    and "stamped_age now (stamped_new v) = None"
  using assms by (simp_all add: stamped_put_def stamped_w_def stamped_age_def read_fresh_def stamped_is_fresh_def
      atomic_put_def stamped_new_def ticks32_later unsigned_of_nat take_bit_eq_mod Let_def)

end
