(* ===== verification/Leased.thy ===== *)
theory Leased
  imports Handle
begin

text \<open>
  The leased values of \<^verbatim>\<open>supervisor/src/data_deps/leased.rs\<close>: one word holds the closed bit and
  the number of live leases. Readers on any core take and drop leases while the producer drains
  and reopens; every atomic operation is one step, and the steps interleave freely.
\<close>

section \<open>The state word\<close>

definition CLOSED :: u32 where "CLOSED = push_bit 31 1"

definition COUNT :: u32 where "COUNT = NOT CLOSED"

record 'a leased =
  ls_inner :: 'a
  ls_state :: u32
  ls_idle :: signal

definition leased_new :: "'a \<Rightarrow> 'a leased" where
  "leased_new v = \<lparr>ls_inner = v, ls_state = 0, ls_idle = []\<rparr>"

definition leases :: "'a leased \<Rightarrow> u32" where
  "leases l = ls_state l AND COUNT"

definition is_drained :: "'a leased \<Rightarrow> bool" where
  "is_drained l = (ls_state l AND CLOSED \<noteq> 0)"

section \<open>The operations, one atomic access at a time\<close>

text \<open>
  A reader: in \<open>lease\<close> with the value it loaded, holding a lease, or in \<open>drop\<close> between the
  subtraction and the signal. \<open>spurious\<close> is the failure \<open>compare_exchange_weak\<close> is allowed.
\<close>

datatype reader = Outside | Loaded u32 | Holding | Leaving

fun reader_step :: "bool \<Rightarrow> 'a leased \<Rightarrow> reader \<Rightarrow> 'a leased \<times> reader" where
  "reader_step spurious l Outside = (l, Loaded (ls_state l))"
| "reader_step spurious l (Loaded cur) =
     (if cur AND CLOSED \<noteq> 0 then (l, Outside)
      else if ls_state l = cur \<and> \<not> spurious then (l\<lparr>ls_state := cur + 1\<rparr>, Holding)
      else (l, Loaded (ls_state l)))"
| "reader_step spurious l Holding =
     (let prev = ls_state l
      in (l\<lparr>ls_state := prev - 1\<rparr>, if prev AND COUNT = 1 then Leaving else Outside))"
| "reader_step spurious l Leaving = (l\<lparr>ls_idle := Fire # ls_idle l\<rparr>, Outside)"

text \<open>
  The producer: \<open>drain\<close> closes, then checks and waits; \<open>reopen\<close>, called on a drained value,
  resets the signal, then opens. \<open>ready\<close> is what polling the signal answers.
\<close>

datatype producer = Serving | Checking | Waiting | Drained | Reopening

definition drain_close :: "'a leased \<Rightarrow> 'a leased" where
  "drain_close l = l\<lparr>ls_state := ls_state l OR CLOSED\<rparr>"

definition reopen_clear :: "'a leased \<Rightarrow> 'a leased" where
  "reopen_clear l = l\<lparr>ls_state := ls_state l AND NOT CLOSED\<rparr>"

fun producer_step :: "(signal \<Rightarrow> bool) \<Rightarrow> 'a leased \<Rightarrow> producer \<Rightarrow> 'a leased \<times> producer" where
  "producer_step ready l Serving = (drain_close l, Checking)"
| "producer_step ready l Checking = (l, if leases l \<noteq> 0 then Waiting else Drained)"
| "producer_step ready l Waiting =
     (l\<lparr>ls_idle := Wait # ls_idle l\<rparr>, if ready (ls_idle l) then Checking else Waiting)"
| "producer_step ready l Drained = (l\<lparr>ls_idle := Reset # ls_idle l\<rparr>, Reopening)"
| "producer_step ready l Reopening = (reopen_clear l, Serving)"

type_synonym 'a lease_system = "'a leased \<times> reader list \<times> producer"

inductive lease_step :: "(signal \<Rightarrow> bool) \<Rightarrow> 'a lease_system \<Rightarrow> 'a lease_system \<Rightarrow> bool"
  for ready where
  reader: "i < length rs \<Longrightarrow> reader_step spurious l (rs ! i) = (l', r) \<Longrightarrow>
     lease_step ready (l, rs, d) (l', rs[i := r], d)"
| producer: "producer_step ready l d = (l', d') \<Longrightarrow> lease_step ready (l, rs, d) (l', rs, d')"

inductive_cases lease_step_elim: "lease_step ready (l, rs, d) s"

inductive lease_reach :: "(signal \<Rightarrow> bool) \<Rightarrow> 'a lease_system \<Rightarrow> 'a lease_system \<Rightarrow> bool"
  for ready s where
  start: "lease_reach ready s s"
| step: "lease_reach ready s t \<Longrightarrow> lease_step ready t u \<Longrightarrow> lease_reach ready s u"

section \<open>The word as a bit and a number\<close>

definition closed :: "u32 \<Rightarrow> bool" where
  "closed s = bit s 31"

definition count :: "u32 \<Rightarrow> nat" where
  "count s = unat s mod 2 ^ 31"

lemma CLOSED_exp: "CLOSED = 2 ^ 31"
  by (simp add: CLOSED_def)

lemma COUNT_mask: "COUNT = mask 31"
  unfolding COUNT_def CLOSED_exp by (simp add: mask_eq_exp_minus_1)

lemma unat_split: "unat s = (if closed s then 2 ^ 31 else 0) + count s"
proof -
  obtain D where D: "unat s div 2 ^ 31 = D" by blast
  have "unat s < 2 * 2 ^ 31" using unsigned_less[of s, where ?'a = nat] by simp
  then have "D < 2" using D by (simp add: div_less_iff_less_mult)
  then have q: "D = 0 \<or> D = 1" by linarith
  have c: "closed s = odd D"
    using bit_iff_odd[of "unat s" 31] D by (simp add: closed_def bit_unsigned_iff)
  have e: "unat s = 2 ^ 31 * D + count s" using D by (metis count_def mult_div_mod_eq)
  show ?thesis using q c e by (elim disjE) simp_all
qed

lemma count_less: "count s < 2 ^ 31"
  by (simp add: count_def)

lemma closed_unat: "closed s \<longleftrightarrow> 2 ^ 31 \<le> unat s"
  using unat_split[of s] count_less[of s] by auto

lemma and_CLOSED: "s AND CLOSED \<noteq> 0 \<longleftrightarrow> closed s"
  using and_exp_eq_0_iff_not_bit[of s 31] unfolding CLOSED_exp closed_def by blast

lemma unat_and_COUNT: "unat (s AND COUNT) = count s"
  by (simp add: COUNT_mask count_def unsigned_take_bit_eq flip: take_bit_eq_mask) (simp add: take_bit_eq_mod)

lemma closed_or [simp]: "closed (s OR CLOSED)"
  by (simp add: closed_def CLOSED_exp bit_simps)

lemma count_or [simp]: "count (s OR CLOSED) = count s"
  unfolding unat_and_COUNT[symmetric] COUNT_def by (simp add: bit.conj_disj_distrib2)

lemma closed_and_not [simp]: "\<not> closed (s AND NOT CLOSED)"
  by (simp add: closed_def CLOSED_exp bit_simps)

lemma count_and_not [simp]: "count (s AND NOT CLOSED) = count s"
  unfolding unat_and_COUNT[symmetric] COUNT_def by (simp add: and.assoc)

lemma add_one:
  assumes "\<not> closed s" "Suc (count s) < 2 ^ 31"
  shows "\<not> closed (s + 1) \<and> count (s + 1) = Suc (count s)"
proof -
  have "unat s = count s" using unat_split[of s] assms(1) by simp
  then have u: "unat (s + 1) = Suc (count s)" using assms(2) by (simp add: unat_word_ariths)
  then show ?thesis using assms(2) by (simp add: closed_unat) (simp add: count_def)
qed

lemma sub_one:
  assumes "0 < count s"
  shows "closed (s - 1) = closed s \<and> count (s - 1) = count s - 1"
proof -
  have "1 \<le> unat s" using assms unat_split[of s] by simp
  then have "unat (s - 1) = unat s - 1" by (simp add: unat_sub word_le_nat_alt)
  then have u: "unat (s - 1) = (if closed s then 2 ^ 31 else 0) + (count s - 1)"
    using assms unat_split[of s] by simp
  moreover have "count s - 1 < 2 ^ 31" using count_less[of s] by simp
  ultimately show ?thesis by (auto simp: closed_unat) (auto simp: count_def)
qed

section \<open>The invariant\<close>

definition holders :: "reader list \<Rightarrow> nat" where
  "holders rs = count_list rs Holding"

lemma holders_le: "holders rs \<le> length rs"
  by (simp add: holders_def count_le_length)

lemma count_list_update:
  "i < length rs \<Longrightarrow> count_list (rs[i := r]) x + (if rs ! i = x then 1 else 0)
     = count_list rs x + (if r = x then 1 else 0)"
proof (induction rs arbitrary: i)
  case (Cons y ys)
  show ?case
  proof (cases i)
    case (Suc k)
    then show ?thesis using Cons.IH[of k] Cons.prems by auto
  qed simp
qed simp

lemmas holders_update = count_list_update[where x = Holding, folded holders_def]

fun lease_inv :: "'a lease_system \<Rightarrow> bool" where
  "lease_inv (l, rs, d) \<longleftrightarrow>
     length rs < 2 ^ 31 \<and> count (ls_state l) = holders rs \<and> (closed (ls_state l) \<longleftrightarrow> d \<noteq> Serving)
     \<and> (d = Drained \<or> d = Reopening \<longrightarrow> holders rs = 0)
     \<and> (d = Waiting \<longrightarrow> 0 < holders rs \<or> Leaving \<in> set rs \<or> (\<exists>h. ls_idle l = Fire # h))"

lemma and_COUNT_iff: "s AND COUNT = w \<longleftrightarrow> count s = unat w"
  by (metis unat_and_COUNT word_eq_iff_unsigned)

lemma drained_iff: "is_drained l \<longleftrightarrow> closed (ls_state l)"
  by (simp add: is_drained_def and_CLOSED)

lemma leases_0_iff: "leases l = 0 \<longleftrightarrow> count (ls_state l) = 0"
  by (simp add: leases_def and_COUNT_iff)

lemma set_update_other: "i < length xs \<Longrightarrow> xs ! i \<noteq> x \<Longrightarrow> x \<in> set xs \<Longrightarrow> x \<in> set (xs[i := y])"
  by (metis in_set_conv_nth length_list_update nth_list_update_neq)

lemma holding_counts: "i < length rs \<Longrightarrow> rs ! i = Holding \<Longrightarrow> 0 < holders rs"
  unfolding holders_def by (metis count_list_0_iff gr0I nth_mem)

text \<open>A reader step that leaves the word alone keeps the invariant.\<close>

lemma reader_quiet:
  assumes "lease_inv (l, rs, d)" "i < length rs" "rs ! i \<noteq> Holding" "r \<noteq> Holding" "ls_state l' = ls_state l"
    "rs ! i = Leaving \<and> ls_idle l' = Fire # ls_idle l \<or> rs ! i \<noteq> Leaving \<and> ls_idle l' = ls_idle l"
  shows "lease_inv (l', rs[i := r], d)"
proof -
  have h: "holders (rs[i := r]) = holders rs" using holders_update[OF assms(2), of r] assms(3,4) by simp
  then show ?thesis using assms set_update_other[OF assms(2), of Leaving r] by auto
qed

lemma reader_keeps:
  assumes inv: "lease_inv (l, rs, d)" and i: "i < length rs" and st: "reader_step spurious l (rs ! i) = (l', r)"
  shows "lease_inv (l', rs[i := r], d)"
proof (cases "rs ! i")
  case Outside
  then show ?thesis using st by (intro reader_quiet[OF inv i]) auto
next
  case Leaving
  then show ?thesis using st by (intro reader_quiet[OF inv i]) auto
next
  case (Loaded cur)
  show ?thesis
  proof (cases "r = Holding")
    case False
    then show ?thesis using st Loaded by (intro reader_quiet[OF inv i]) (auto split: if_splits)
  next
    case True
    then have l': "l' = l\<lparr>ls_state := ls_state l + 1\<rparr>" and op: "\<not> closed (ls_state l)"
      using st Loaded by (auto simp: and_CLOSED split: if_splits)
    have h: "holders (rs[i := r]) = Suc (holders rs)" using holders_update[OF i, of r] Loaded True by simp
    moreover have "Suc (holders rs) \<le> length rs" using h holders_le[of "rs[i := r]"] by simp
    ultimately show ?thesis using inv op add_one[of "ls_state l"] l' by auto
  qed
next
  case Holding
  have c: "0 < count (ls_state l)" using holding_counts[OF i Holding] inv by simp
  have r: "r = (if count (ls_state l) = 1 then Leaving else Outside)"
    and l': "l' = l\<lparr>ls_state := ls_state l - 1\<rparr>" using st Holding by (auto simp: Let_def and_COUNT_iff)
  have h: "Suc (holders (rs[i := r])) = holders rs" using holders_update[OF i, of r] Holding r by simp
  have "Leaving \<in> set (rs[i := r])" if "holders (rs[i := r]) = 0"
    using that h inv r i by (auto intro: set_update_memI)
  then show ?thesis using inv l' h sub_one[OF c] set_update_other[OF i, of Leaving r] Holding by auto
qed

lemma producer_keeps:
  "lease_inv (l, rs, d) \<Longrightarrow> producer_step ready l d = (l', d') \<Longrightarrow>
     (\<And>s. ready (Fire # s)) \<Longrightarrow> lease_inv (l', rs, d')"
  by (cases d) (auto simp: drain_close_def reopen_clear_def leases_0_iff split: if_splits)

lemma step_keeps:
  "lease_step ready s t \<Longrightarrow> (\<And>s. ready (Fire # s)) \<Longrightarrow> lease_inv s \<Longrightarrow> lease_inv t"
  by (induction rule: lease_step.induct) (use reader_keeps producer_keeps in blast)+

lemma reach_keeps:
  "lease_reach ready s t \<Longrightarrow> (\<And>s. ready (Fire # s)) \<Longrightarrow> lease_inv s \<Longrightarrow> lease_inv t"
  by (induction rule: lease_reach.induct) (auto intro: step_keeps)

lemma new_inv: "k < 2 ^ 31 \<Longrightarrow> lease_inv (leased_new v, replicate k Outside, Serving)"
  by (simp add: leased_new_def holders_def count_def closed_def count_list_0_iff)

text \<open>
  C31. Draining, under any interleaving of the atomic steps of fewer than \<open>2 ^ 31\<close> readers with
  the producer: the count is the number of live leases; the value is closed from the drain's
  first step to the end of the reopen, and no step of any reader takes a lease in between, however
  old the value it loaded; when the drain returns no lease is alive; and a drain waiting with no
  lease left and no reader on its way out has the signal that wakes it.
\<close>

theorem drain_waits_for_every_lease:
  assumes "lease_reach ready (leased_new v, replicate k Outside, Serving) (l, rs, d)"
    and "k < 2 ^ 31" and "\<And>s. ready (Fire # s)"
  shows "unat (leases l) = holders rs \<and> (is_drained l \<longleftrightarrow> d \<noteq> Serving)
    \<and> (d \<noteq> Serving \<longrightarrow> (\<forall>spurious r. snd (reader_step spurious l r) \<noteq> Holding))
    \<and> (d = Drained \<longrightarrow> Holding \<notin> set rs)
    \<and> (d = Waiting \<longrightarrow> Holding \<notin> set rs \<longrightarrow> Leaving \<notin> set rs \<longrightarrow> ready (ls_idle l))"
proof -
  have inv: "lease_inv (l, rs, d)" using reach_keeps[OF assms(1) assms(3) new_inv[OF assms(2)]] .
  then have "d = Drained \<longrightarrow> Holding \<notin> set rs" by (auto simp: holders_def count_list_0_iff)
  moreover have "Holding \<notin> set rs \<longrightarrow> holders rs = 0" by (simp add: holders_def)
  moreover have "snd (reader_step spurious l r) \<noteq> Holding" if "closed (ls_state l)" for spurious r
    using that by (cases r) (auto simp: and_CLOSED Let_def)
  ultimately show ?thesis
    using inv assms(3) by (auto simp: leases_def unat_and_COUNT drained_iff)
qed

text \<open>One reader and a drain that has to wait for it.\<close>

definition latched :: "signal \<Rightarrow> bool" where
  "latched s = (case s of Fire # _ \<Rightarrow> True | _ \<Rightarrow> False)"

lemma reach_reader:
  "lease_reach ready s (l, rs, d) \<Longrightarrow> i < length rs \<Longrightarrow> reader_step spurious l (rs ! i) = (l', r) \<Longrightarrow>
     lease_reach ready s (l', rs[i := r], d)"
  by (blast intro: lease_reach.step lease_step.reader)

lemma reach_producer:
  "lease_reach ready s (l, rs, d) \<Longrightarrow> producer_step ready l d = (l', d') \<Longrightarrow> lease_reach ready s (l', rs, d')"
  by (blast intro: lease_reach.step lease_step.producer)

definition drain_story :: "unit leased \<Rightarrow> unit leased" where
  "drain_story l = l\<lparr>ls_state := 2147483648, ls_idle := [Fire]\<rparr>"

theorem drain_waits_for_every_lease_witness:
  "is_drained (drain_story (leased_new ())) \<and> latched (ls_idle (drain_story (leased_new ())))
     \<and> lease_reach latched (leased_new (), [Outside], Serving) (drain_story (leased_new ()), [Outside], Waiting)"
proof -
  let ?S = "(leased_new (), [Outside], Serving) :: unit lease_system"
  let ?l = "\<lambda>s h. \<lparr>ls_inner = (), ls_state = s, ls_idle = h\<rparr>"
  have "lease_reach latched ?S (?l 0 [], [Outside], Serving)"
    using lease_reach.start[of latched ?S] by (simp add: leased_new_def)
  then have "lease_reach latched ?S (?l 0 [], [Loaded 0], Serving)"
    using reach_reader[where i = 0 and rs = "[Outside]"] by fastforce
  then have "lease_reach latched ?S (?l 1 [], [Holding], Serving)"
    using reach_reader[where i = 0 and rs = "[Loaded 0]" and spurious = False] by fastforce
  then have "lease_reach latched ?S (?l (2147483648 + 1) [], [Holding], Checking)"
    by (rule reach_producer) (simp add: drain_close_def CLOSED_def)
  then have "lease_reach latched ?S (?l (2147483648 + 1) [], [Holding], Waiting)"
    by (rule reach_producer) (simp add: leases_def COUNT_def CLOSED_def)
  then have "lease_reach latched ?S (?l 2147483648 [], [Leaving], Waiting)"
    using reach_reader[where i = 0 and rs = "[Holding]"] by (fastforce simp: COUNT_def CLOSED_def)
  then have r: "lease_reach latched ?S (drain_story (leased_new ()), [Outside], Waiting)"
    using reach_reader[where i = 0 and rs = "[Leaving]"] by (fastforce simp: drain_story_def leased_new_def)
  have "is_drained (drain_story (leased_new ())) \<and> latched (ls_idle (drain_story (leased_new ())))"
    using drain_waits_for_every_lease[where k = 1 and v = "()", simplified, OF r] by (simp add: latched_def)
  with r show ?thesis by blast
qed

end
