(* ===== verification/Backed.thy ===== *)
theory Backed
  imports Supervisor
begin

text \<open>
  The gated signals of \<^verbatim>\<open>supervisor/src/data_deps\<close>: a \<open>Backed\<close> value whose producer the first
  reader starts (\<open>open\<close>) and which retires when no reader is left (\<open>retire\<close>). The gate is a
  value beside the world; what readers elsewhere do to it during the \<open>k\<close>-th await is \<open>R k\<close>.
  Loops take a number of rounds and are \<open>Pending\<close> when they are used up.
\<close>

section \<open>The gate\<close>

record backed =
  bk_requested :: bool
  bk_openers :: u32
  bk_watch :: signal

definition backed_new :: backed where
  "backed_new = \<lparr>bk_requested = False, bk_openers = 0, bk_watch = []\<rparr>"

definition admit_reader :: "backed \<Rightarrow> backed" where
  "admit_reader b =
     (let prev = bk_openers b; b1 = b\<lparr>bk_openers := prev + 1\<rparr>
      in if prev = 0 then b1\<lparr>bk_watch := Fire # bk_watch b1\<rparr> else b1)"

definition drop_reader :: "backed \<Rightarrow> backed" where
  "drop_reader b =
     (let prev = bk_openers b; b1 = b\<lparr>bk_openers := prev - 1\<rparr>
      in if prev = 1 then b1\<lparr>bk_watch := Fire # bk_watch b1\<rparr> else b1)"

type_synonym gate_world = "backed \<times> world"
type_synonym readers = "nat \<Rightarrow> backed \<Rightarrow> backed"

definition gate_await :: "platform \<Rightarrow> readers \<Rightarrow> gate_world \<Rightarrow> gate_world" where
  "gate_await P R = (\<lambda>(b, w). (R (w_awaits w) b, await P w))"

section \<open>Opening\<close>

text \<open>The first writer in the caller's own graph.\<close>

definition producer_of :: "platform \<Rightarrow> nref \<Rightarrow> entry \<Rightarrow> nref option" where
  "producer_of P caller sig =
     find (\<lambda>n. has_entry (p_cfg P n) sig True) (flatten (cfg_graph (p_cfg P caller)))"

definition GATE_RETRY :: "time_api \<Rightarrow> nat" where
  "GATE_RETRY T = from_millis T 250"

definition serving :: "nref \<Rightarrow> world \<Rightarrow> bool" where
  "serving p w = (is_running (w_h w p) \<and> is_ready (w_h w p))"

fun serving_rounds :: "nat \<Rightarrow> platform \<Rightarrow> readers \<Rightarrow> nref \<Rightarrow> bool \<Rightarrow> nat \<Rightarrow> gate_world \<Rightarrow> bool run \<times> gate_world" where
  "serving_rounds 0 P R p was deadline s = (Pending, s)"
| "serving_rounds (Suc fuel) P R p was deadline (b, w) =
     (if serving p w \<or> is_running (w_h w p) \<noteq> was then (Ready (serving p w), b, w)
      else let w1 = w\<lparr>serving_evt := Register # serving_evt w\<rparr> in
           if deadline \<le> w_now w1 then (Ready (serving p w1), b, w1)
           else serving_rounds fuel P R p was deadline (gate_await P R (b, w1)))"

definition wait_serving :: "nat \<Rightarrow> platform \<Rightarrow> readers \<Rightarrow> nref \<Rightarrow> gate_world \<Rightarrow> bool run \<times> gate_world" where
  "wait_serving fuel P R p = (\<lambda>(b, w).
     serving_rounds fuel P R p (is_running (w_h w p)) (w_now w + GATE_RETRY (p_time P)) (b, w))"

text \<open>\<open>CONTROL_REQ.send\<close>: an await for as long as the mailbox is full.\<close>

fun request_control :: "nat \<Rightarrow> platform \<Rightarrow> readers \<Rightarrow> nref \<Rightarrow> control_op \<Rightarrow> gate_world \<Rightarrow> unit run \<times> gate_world" where
  "request_control 0 P R n op s = (Pending, s)"
| "request_control (Suc fuel) P R n op (b, w) =
     (case try_request_control P n op w of
        (True, w1) \<Rightarrow> (Ready (), b, w1)
      | (False, w1) \<Rightarrow> request_control fuel P R n op (gate_await P R (b, w1)))"

fun ensure_rounds :: "nat \<Rightarrow> nat \<Rightarrow> platform \<Rightarrow> readers \<Rightarrow> nref \<Rightarrow> gate_world \<Rightarrow> unit run \<times> gate_world" where
  "ensure_rounds 0 fuel P R p s = (Pending, s)"
| "ensure_rounds (Suc rounds) fuel P R p (b, w) =
     (if serving p w then (Ready (), b\<lparr>bk_requested := False\<rparr>, w)
      else let down = \<not> is_running (w_h w p);
               ask = (down \<and> \<not> bk_requested b);
               b1 = (if down then b\<lparr>bk_requested := True\<rparr> else b)
           in run_then (if ask then request_control fuel P R p Activate (b1, w) else (Ready (), b1, w)) (\<lambda>_ s2.
              run_then (wait_serving fuel P R p s2) (\<lambda>ok s3.
              ensure_rounds rounds fuel P R p (if ok then s3 else ((fst s3)\<lparr>bk_requested := False\<rparr>, snd s3)))))"

definition ensure :: "nat \<Rightarrow> platform \<Rightarrow> readers \<Rightarrow> nref \<Rightarrow> entry \<Rightarrow> gate_world \<Rightarrow> unit run \<times> gate_world" where
  "ensure fuel P R caller sig s =
     (case producer_of P caller sig of
        None \<Rightarrow> (Ready (), s)
      | Some p \<Rightarrow> ensure_rounds fuel fuel P R p s)"

definition open_gate :: "nat \<Rightarrow> platform \<Rightarrow> readers \<Rightarrow> nref \<Rightarrow> entry \<Rightarrow> gate_world \<Rightarrow> unit run \<times> gate_world" where
  "open_gate fuel P R caller sig = (\<lambda>(b, w). ensure fuel P R caller sig (admit_reader b, w))"

section \<open>Retiring\<close>

text \<open>\<open>watch.wait()\<close>, polled until it is ready.\<close>

fun watch_wait :: "nat \<Rightarrow> platform \<Rightarrow> readers \<Rightarrow> gate_world \<Rightarrow> unit run \<times> gate_world" where
  "watch_wait 0 P R s = (Pending, s)"
| "watch_wait (Suc fuel) P R (b, w) =
     (let ready = p_sig_ready P (bk_watch b); b1 = b\<lparr>bk_watch := Wait # bk_watch b\<rparr>
      in if ready then (Ready (), b1, w) else watch_wait fuel P R (gate_await P R (b1, w)))"

fun no_opener :: "nat \<Rightarrow> nat \<Rightarrow> platform \<Rightarrow> readers \<Rightarrow> gate_world \<Rightarrow> unit run \<times> gate_world" where
  "no_opener 0 fuel P R s = (Pending, s)"
| "no_opener (Suc rounds) fuel P R (b, w) =
     (if bk_openers b = 0 then (Ready (), b, w)
      else run_then (watch_wait fuel P R (b, w)) (\<lambda>_ s1. no_opener rounds fuel P R s1))"

text \<open>\<open>select(Timer, watch.wait())\<close>: \<open>True\<close> is the timer.\<close>

fun cooldown_rounds :: "nat \<Rightarrow> platform \<Rightarrow> readers \<Rightarrow> nat \<Rightarrow> gate_world \<Rightarrow> bool run \<times> gate_world" where
  "cooldown_rounds 0 P R deadline s = (Pending, s)"
| "cooldown_rounds (Suc fuel) P R deadline (b, w) =
     (if deadline \<le> w_now w then (Ready True, b, w)
      else let ready = p_sig_ready P (bk_watch b); b1 = b\<lparr>bk_watch := Wait # bk_watch b\<rparr>
           in if ready then (Ready False, b1, w)
              else cooldown_rounds fuel P R deadline (gate_await P R (b1, w)))"

fun unwatched :: "nat \<Rightarrow> nat \<Rightarrow> platform \<Rightarrow> readers \<Rightarrow> nat \<Rightarrow> gate_world \<Rightarrow> unit run \<times> gate_world" where
  "unwatched 0 fuel P R cooldown s = (Pending, s)"
| "unwatched (Suc rounds) fuel P R cooldown s =
     run_then (no_opener fuel fuel P R s) (\<lambda>_ (b1, w1).
       run_then (cooldown_rounds fuel P R (w_now w1 + cooldown) (b1\<lparr>bk_watch := Reset # bk_watch b1\<rparr>, w1))
         (\<lambda>timer (b2, w2). if timer \<and> bk_openers b2 = 0 then (Ready (), b2, w2)
                           else unwatched rounds fuel P R cooldown (b2, w2)))"

text \<open>\<open>mid\<close> is what readers on another core do between the two sides of the readiness handshake.\<close>

fun retire :: "nat \<Rightarrow> nat \<Rightarrow> platform \<Rightarrow> readers \<Rightarrow> (backed \<Rightarrow> backed) \<Rightarrow> nref \<Rightarrow> nat \<Rightarrow> gate_world
     \<Rightarrow> unit run \<times> gate_world" where
  "retire 0 fuel P R mid n cooldown s = (Pending, s)"
| "retire (Suc rounds) fuel P R mid n cooldown s =
     run_then (unwatched fuel fuel P R cooldown s) (\<lambda>_ (b1, w1).
       let w2 = clear_ready n w1; b2 = mid b1 in
       if bk_openers b2 = 0 then request_control fuel P R n Deactivate (b2, w2)
       else retire rounds fuel P R mid n cooldown (b2, set_ready n w2))"

section \<open>An open gate has a serving producer\<close>

lemma run_then_ReadyD: "run_then m k = (Ready a, s) \<Longrightarrow> \<exists>x t. m = (Ready x, t) \<and> k x t = (Ready a, s)"
  by (induction m k rule: run_then.induct) auto

lemma ensure_rounds_serving:
  "ensure_rounds rounds fuel P R p s = (Ready (), b', w') \<Longrightarrow> serving p w' \<and> \<not> bk_requested b'"
proof (induction rounds arbitrary: s)
  case (Suc rounds)
  obtain b w where s: "s = (b, w)" by fastforce
  show ?case
  proof (cases "serving p w")
    case True
    then show ?thesis using Suc.prems s by auto
  next
    case False
    then obtain s3 where "ensure_rounds rounds fuel P R p s3 = (Ready (), b', w')"
      using Suc.prems s by (auto simp: Let_def dest!: run_then_ReadyD split: if_splits)
    then show ?thesis by (rule Suc.IH)
  qed
qed simp

text \<open>
  From the await \<open>K\<close> on the producer serves in whatever the environment leaves, and the mailbox
  has room.
\<close>

definition serves_from :: "platform \<Rightarrow> nref \<Rightarrow> nat \<Rightarrow> bool" where
  "serves_from P p K \<longleftrightarrow> (\<forall>k w. K \<le> k \<longrightarrow> serving p (p_env P k w))
     \<and> (\<forall>w. K \<le> w_awaits w \<longrightarrow> \<not> p_control_full P w) \<and> 0 < GATE_RETRY (p_time P)"

definition late_serving :: "nref \<Rightarrow> nat \<Rightarrow> world \<Rightarrow> bool" where
  "late_serving p K w \<longleftrightarrow> (K < w_awaits w \<longrightarrow> serving p w)"

lemma late_await: "serves_from P p K \<Longrightarrow> late_serving p K (await P w)"
  by (simp add: serves_from_def late_serving_def await_def serving_def)

lemma late_request: "late_serving p K w \<Longrightarrow> late_serving p K (snd (try_request_control P n op w))"
  by (simp add: late_serving_def try_request_control_def serving_def)

lemma awaits_request [simp]: "w_awaits (snd (try_request_control P n op w)) = w_awaits w"
  by (simp add: try_request_control_def)

lemma request_control_returns:
  assumes P: "serves_from P p K"
  shows "late_serving p K w \<Longrightarrow> K - w_awaits w < fuel \<Longrightarrow>
     \<exists>b' w'. request_control fuel P R n op (b, w) = (Ready (), b', w') \<and> late_serving p K w' \<and> w_awaits w \<le> w_awaits w'"
proof (induction fuel arbitrary: b w)
  case (Suc fuel)
  obtain ok w1 where t: "try_request_control P n op w = (ok, w1)" by fastforce
  then have w1: "late_serving p K w1" "w_awaits w1 = w_awaits w"
    using late_request[OF Suc.prems(1), of P n op] awaits_request[of P n op w] by simp_all
  show ?case
  proof (cases ok)
    case True
    then show ?thesis using t w1 by simp
  next
    case False
    then have "\<not> K \<le> w_awaits w" using t P by (auto simp: serves_from_def try_request_control_def split: if_splits)
    then have "K - w_awaits (await P w1) < fuel" using Suc.prems(2) w1 by simp
    from Suc.IH[OF late_await[OF P] this, of "R (w_awaits w1) b"] show ?thesis
      using t False w1 by (auto simp: gate_await_def dest: Suc_leD)
  qed
qed simp

lemma serving_rounds_returns:
  assumes P: "serves_from P p K"
  shows "late_serving p K w \<Longrightarrow> Suc K - w_awaits w < fuel \<Longrightarrow>
     \<exists>ok b' w'. serving_rounds fuel P R p was deadline (b, w) = (Ready ok, b', w') \<and> late_serving p K w'
        \<and> w_awaits w \<le> w_awaits w'
        \<and> (serving p w' \<or> w_awaits w < w_awaits w' \<or> deadline \<le> w_now w \<or> is_running (w_h w p) \<noteq> was)"
proof (induction fuel arbitrary: b w)
  case (Suc fuel)
  let ?w1 = "w\<lparr>serving_evt := Register # serving_evt w\<rparr>"
  show ?case
  proof (cases "serving p w \<or> is_running (w_h w p) \<noteq> was \<or> deadline \<le> w_now w")
    case True
    then show ?thesis using Suc.prems by (auto simp: Let_def late_serving_def serving_def)
  next
    case False
    then have "\<not> K < w_awaits w" using Suc.prems(1) by (auto simp: late_serving_def)
    then show ?thesis
      using Suc.IH[of "await P ?w1" "R (w_awaits w) b"] Suc.prems(2) late_await[OF P] False
      by (fastforce simp: gate_await_def Let_def)
  qed
qed simp

lemma wait_serving_returns:
  assumes P: "serves_from P p K" and "late_serving p K w" "Suc K < fuel"
  shows "\<exists>ok b' w'. wait_serving fuel P R p (b, w) = (Ready ok, b', w') \<and> late_serving p K w'
     \<and> (serving p w' \<or> w_awaits w < w_awaits w')"
  using serving_rounds_returns[OF P assms(2), of fuel R "is_running (w_h w p)" "w_now w + GATE_RETRY (p_time P)" b]
    assms by (fastforce simp: wait_serving_def serves_from_def)

lemma ensure_rounds_returns:
  assumes P: "serves_from P p K" and fuel: "Suc K < fuel"
  shows "late_serving p K w \<Longrightarrow> serving p w \<or> Suc K - w_awaits w < rounds \<Longrightarrow> 0 < rounds \<Longrightarrow>
     \<exists>b' w'. ensure_rounds rounds fuel P R p (b, w) = (Ready (), b', w')"
proof (induction rounds arbitrary: b w)
  case (Suc rounds)
  show ?case
  proof (cases "serving p w")
    case False
    define b1 where "b1 = (if \<not> is_running (w_h w p) then b\<lparr>bk_requested := True\<rparr> else b)"
    define ask where "ask = (\<not> is_running (w_h w p) \<and> \<not> bk_requested b)"
    have "K - w_awaits w < fuel" using fuel by simp
    from request_control_returns[OF P Suc.prems(1) this, of R p Activate b1]
    obtain b2 w2 where r: "(if ask then request_control fuel P R p Activate (b1, w) else (Ready (), b1, w)) = (Ready (), b2, w2)"
      "late_serving p K w2" "w_awaits w \<le> w_awaits w2"
      using Suc.prems(1) by (cases ask) auto
    obtain ok b3 w3 where v: "wait_serving fuel P R p (b2, w2) = (Ready ok, b3, w3)" "late_serving p K w3"
      "serving p w3 \<or> w_awaits w2 < w_awaits w3"
      using wait_serving_returns[OF P r(2) fuel] by blast
    have "serving p w3 \<or> Suc K - w_awaits w3 < rounds" "0 < rounds"
      using v(3) r(3) Suc.prems(1,2) False by (auto simp: late_serving_def)
    from Suc.IH[OF v(2) this, of "if ok then b3 else b3\<lparr>bk_requested := False\<rparr>"] show ?thesis
      using False r(1) v(1) by (simp add: Let_def ask_def b1_def split: if_splits)
  qed simp
qed simp

text \<open>
  C32. Opening a backed signal. Whatever the rest of the system does, a value is handed out only
  while its producer is running and ready, with the reader counted and the request latch open
  for the next start. And the reader gets it: if from some moment on the producer comes to serve
  after each wait and the control mailbox has room, \<open>open\<close> returns within as many waits.
\<close>

theorem open_hands_out_serving:
  assumes p: "producer_of P caller sig = Some p"
  shows "(\<forall>fuel b' w'. open_gate fuel P R caller sig (b, w) = (Ready (), b', w') \<longrightarrow> serving p w' \<and> \<not> bk_requested b')
     \<and> bk_openers (admit_reader b) = bk_openers b + 1
     \<and> (\<forall>K. serves_from P p K \<longrightarrow> w_awaits w \<le> K \<longrightarrow>
           (\<exists>b' w'. open_gate (K + 3) P R caller sig (b, w) = (Ready (), b', w')))"
proof (intro conjI allI impI)
  show "bk_openers (admit_reader b) = bk_openers b + 1" by (simp add: admit_reader_def Let_def)
next
  fix K assume K: "serves_from P p K" "w_awaits w \<le> K"
  have "Suc K - w_awaits w < K + 3" by simp
  with K show "\<exists>b' w'. open_gate (K + 3) P R caller sig (b, w) = (Ready (), b', w')"
    using ensure_rounds_returns[of P p K "K + 3" w "K + 3" R "admit_reader b"] p
    by (simp add: open_gate_def ensure_def late_serving_def)
qed (use ensure_rounds_serving p in \<open>auto simp: open_gate_def ensure_def\<close>)

definition estimate :: entry where
  "estimate = coupling_new ''estimate'' 5"

definition estimating :: platform where
  "estimating = (plain_platform (\<lambda>n. if n = 2 then with_writes [[estimate]] plain_cfg
                                     else with_graph [None, Some 1, Some 2] plain_cfg))
     \<lparr>p_env := \<lambda>_ w. on_handle 2 (\<lambda>h. flag_set READY (flag_set RUNNING h)) w\<rparr>"

theorem open_hands_out_serving_witness:
  "\<exists>b' w'. open_gate 3 estimating (\<lambda>_ b. b) 1 estimate (backed_new, world_new) = (Ready (), b', w') \<and> serving 2 w'"
proof -
  have p: "producer_of estimating 1 estimate = Some 2"
    by (simp add: producer_of_def estimating_def estimate_def plain_platform_def with_writes_def with_graph_def
        plain_cfg_def cfg_new_def has_entry_def entries_def same_signal_def flatten_def coupling_new_def)
  have "serves_from estimating 2 0"
    by (simp add: serves_from_def estimating_def plain_platform_def plain_time_def GATE_RETRY_def serving_def
        reader_defs flag_simps)
  then show ?thesis using open_hands_out_serving[OF p, of "\<lambda>_ b. b" backed_new world_new] by (fastforce simp: world_new_def)
qed

section \<open>Retiring waits for the last reader\<close>

definition forward :: "platform \<Rightarrow> bool" where
  "forward P \<longleftrightarrow> (\<forall>k w. w_now w \<le> w_now (p_env P k w))"

lemma gate_await_now: "forward P \<Longrightarrow> w_now w \<le> w_now (snd (gate_await P R (b, w)))"
  by (simp add: gate_await_def await_def forward_def)

lemma watch_wait_now:
  "forward P \<Longrightarrow> watch_wait fuel P R s = (Ready (), s') \<Longrightarrow> w_now (snd s) \<le> w_now (snd s')"
proof (induction fuel arbitrary: s)
  case (Suc fuel)
  obtain b w where s: "s = (b, w)" by fastforce
  let ?s1 = "gate_await P R (b\<lparr>bk_watch := Wait # bk_watch b\<rparr>, w)"
  have "w_now w \<le> w_now (snd ?s1)" by (rule gate_await_now[OF Suc.prems(1)])
  then show ?case using Suc.IH[OF Suc.prems(1), of ?s1] Suc.prems(2) s by (auto simp: Let_def split: if_splits)
qed simp

lemma no_opener_now:
  "forward P \<Longrightarrow> no_opener rounds fuel P R s = (Ready (), s') \<Longrightarrow>
     bk_openers (fst s') = 0 \<and> w_now (snd s) \<le> w_now (snd s')"
proof (induction rounds fuel P R s rule: no_opener.induct)
  case (2 rounds fuel P R b w)
  then show ?case
    by (cases "bk_openers b = 0") (fastforce dest!: run_then_ReadyD dest: watch_wait_now)+
qed simp

lemma cooldown_rounds_now:
  "forward P \<Longrightarrow> cooldown_rounds fuel P R deadline s = (Ready timer, s') \<Longrightarrow>
     w_now (snd s) \<le> w_now (snd s') \<and> (timer \<longrightarrow> deadline \<le> w_now (snd s'))"
proof (induction fuel arbitrary: s)
  case (Suc fuel)
  obtain b w where s: "s = (b, w)" by fastforce
  let ?s1 = "gate_await P R (b\<lparr>bk_watch := Wait # bk_watch b\<rparr>, w)"
  have "w_now w \<le> w_now (snd ?s1)" by (rule gate_await_now[OF Suc.prems(1)])
  then show ?case using Suc.IH[OF Suc.prems(1), of ?s1] Suc.prems(2) s by (auto simp: Let_def split: if_splits)
qed simp

lemma unwatched_now:
  "forward P \<Longrightarrow> unwatched rounds fuel P R cooldown s = (Ready (), s') \<Longrightarrow>
     bk_openers (fst s') = 0 \<and> w_now (snd s) + cooldown \<le> w_now (snd s')"
proof (induction rounds arbitrary: s)
  case (Suc rounds)
  from Suc.prems(2) obtain b1 w1 timer b2 w2 where
    n: "no_opener fuel fuel P R s = (Ready (), b1, w1)" and
    c: "cooldown_rounds fuel P R (w_now w1 + cooldown) (b1\<lparr>bk_watch := Reset # bk_watch b1\<rparr>, w1) = (Ready timer, b2, w2)" and
    r: "(if timer \<and> bk_openers b2 = 0 then (Ready (), b2, w2) else unwatched rounds fuel P R cooldown (b2, w2)) = (Ready (), s')"
    by (auto dest!: run_then_ReadyD split: prod.splits)
  have "w_now (snd s) \<le> w_now w1" using no_opener_now[OF Suc.prems(1) n] by simp
  moreover have "w_now w1 \<le> w_now w2" "timer \<longrightarrow> w_now w1 + cooldown \<le> w_now w2"
    using cooldown_rounds_now[OF Suc.prems(1) c] by simp_all
  ultimately show ?case using r Suc.IH[OF Suc.prems(1), of "(b2, w2)"] by (auto split: if_splits)
qed simp

lemma request_control_last:
  "request_control fuel P R n op s = (Ready (), s') \<Longrightarrow> \<exists>q. control_req (snd s') = ControlCommand n op # q"
  by (induction fuel P R n op s rule: request_control.induct)
     (auto simp: try_request_control_def split: if_splits)

lemma clear_ready_unready: "\<not> is_ready (w_h (clear_ready n w) n)" "w_now (clear_ready n w) = w_now w"
  by (simp_all add: clear_ready_def notify_bind_def reader_defs flag_simps)

lemma set_ready_now: "w_now (set_ready n w) = w_now w"
  by (simp add: set_ready_def request_scale_def notify_bind_def notify_serving_def sv_gate_event_def Let_def)


text \<open>A producer with no reader, and a clock that ticks at each await.\<close>

definition ticking :: platform where
  "ticking = (plain_platform (\<lambda>_. plain_cfg))\<lparr>p_env := \<lambda>_ w. w\<lparr>w_now := Suc (w_now w)\<rparr>\<rparr>"


end
