(* ===== verification/Declaration.thy ===== *)
theory Declaration
  imports World
begin

text \<open>
  The parsed declaration of a graph, from \<^verbatim>\<open>supervisor-syntax/src/lib.rs\<close>: the items of
  \<open>supervisor_graph!\<close> and what the later passes ask of them. The tokens \<^verbatim>\<open>syn\<close> delivers are
  text here: an identifier, a type and the inside of an attribute are strings, an expression keeps the
  shape the passes look at, and a marker that is present or absent is a boolean.
\<close>

section \<open>Entries\<close>

type_synonym ident = string

text \<open>An attribute: \<open>#[cfg(p)]\<close> with the text of its predicate, or another one with its text.\<close>

datatype attr = CfgAttr string | OtherAttr string

type_synonym cfg_attrs = "attr list"

datatype expr = ExprPath string | ExprCall string | ExprLit nat | ExprOther string

datatype state_init = StateExpr expr | Zeroed

record dep =
  d_cfg :: cfg_attrs
  d_ident :: ident
  d_ready :: bool
  d_bound :: bool

record signal_path =
  leading_colon :: bool
  segments :: "ident list"

record signal_decl =
  sg_cfg :: cfg_attrs
  sg_path :: signal_path
  sg_index :: "string option"
  sg_observed :: bool
  sg_beat :: bool
  sg_veto :: bool
  sg_via :: "expr option"

fun join_segments :: "ident list \<Rightarrow> string" where
  "join_segments [] = []"
| "join_segments [s] = s"
| "join_segments (s # t # ss) = s @ ''::'' @ join_segments (t # ss)"

definition path_to_string :: "signal_path \<Rightarrow> string" where
  "path_to_string p = (if leading_colon p then ''::'' else []) @ join_segments (segments p)"

definition strip_spaces :: "string \<Rightarrow> string" where
  "strip_spaces s = filter (\<lambda>c. c \<noteq> CHR '' '') s"

definition display :: "signal_decl \<Rightarrow> string" where
  "display d = path_to_string (sg_path d) @
     (case sg_index d of None \<Rightarrow> [] | Some i \<Rightarrow> ''['' @ strip_spaces i @ '']'')"

text \<open>\<open>check_signal_list\<close>: \<open>None\<close> is accepted.\<close>

datatype signal_list_error = EmptySignalList | DuplicateSignal string | WholeAndElement string

fun check_signals :: "signal_decl list \<Rightarrow> signal_decl list \<Rightarrow> signal_list_error option" where
  "check_signals prev [] = None"
| "check_signals prev (d # ds) =
     (if list_ex (\<lambda>p. display p = display d) prev then Some (DuplicateSignal (display d))
      else if list_ex (\<lambda>p. path_to_string (sg_path p) = path_to_string (sg_path d)
                          \<and> (sg_index p \<noteq> None) \<noteq> (sg_index d \<noteq> None)) prev
      then Some (WholeAndElement (path_to_string (sg_path d)))
      else check_signals (prev @ [d]) ds)"

definition check_signal_list :: "signal_decl list \<Rightarrow> signal_list_error option" where
  "check_signal_list ds = (if ds = [] then Some EmptySignalList else check_signals [] ds)"

datatype task_source = SpawnSource expr | ShellSource expr

record resource_decl =
  rd_cfg :: cfg_attrs
  rd_ident :: ident
  rd_ty :: "string option"
  rd_local :: bool
  rd_consume :: bool
  rd_shared :: bool
  rd_divisible :: bool
  rd_serialized :: bool

datatype resource_kind = Lend | Consume | Shared | Divisible

definition kind :: "resource_decl \<Rightarrow> resource_kind" where
  "kind r =
     (if rd_divisible r then Divisible
      else if rd_shared r then Shared
      else if rd_consume r then Consume
      else Lend)"

definition shared_signature :: "resource_decl \<Rightarrow> string" where
  "shared_signature r =
     (if rd_local r then ''local '' else []) @ (if rd_serialized r then ''serialized '' else [])
     @ ''shared '' @ (case rd_ty r of None \<Rightarrow> [] | Some t \<Rightarrow> t)"

section \<open>Items\<close>

record adopted_fn =
  af_cfg :: cfg_attrs
  af_path :: signal_path

record 'v gated =
  gt_cfg :: cfg_attrs
  gt_value :: 'v

record provide_decl =
  pv_cfg :: cfg_attrs
  pv_ident :: ident

record node_item =
  ni_cfg :: cfg_attrs
  ni_ident :: ident
  ni_mode :: ident
  ni_deps :: "dep list"
  ni_source :: "task_source option"
  ni_resources :: "resource_decl list"
  ni_disabled :: "unit gated option"
  ni_executor :: "ident option"
  ni_executor_defaulted :: bool
  ni_slot_timeout :: "nat gated option"
  ni_ack_timeout :: "nat gated option"
  ni_beat_timeout :: "nat gated option"
  ni_beat_window :: "nat gated option"
  ni_enabled_if :: "expr gated option"
  ni_restart_budget :: "(nat \<times> nat) gated option"
  ni_ready_on_write :: "unit gated option"
  ni_reads :: "signal_decl list"
  ni_writes :: "signal_decl list"
  ni_exit :: "string option"
  ni_state :: "(string \<times> state_init) option"
  ni_cancel :: bool
  ni_discover :: "unit gated option"
  ni_dataflow :: "adopted_fn list"
  ni_provides :: "provide_decl list"
  ni_fragment :: "string option"

record executor_item =
  xi_cfg :: cfg_attrs
  xi_ident :: ident
  xi_default :: bool

record pool_item =
  pi_cfg :: cfg_attrs
  pi_ident :: ident
  pi_modes :: "ident list"
  pi_deps :: "dep list"
  pi_source :: task_source
  pi_policy :: expr
  pi_policy_ty :: "string option"
  pi_executor :: "ident option"
  pi_executor_defaulted :: bool
  pi_resources :: "resource_decl list"
  pi_slot_timeout :: "nat gated option"
  pi_ack_timeout :: "nat gated option"
  pi_reads :: "signal_decl list"
  pi_writes :: "signal_decl list"
  pi_min :: expr
  pi_max :: expr
  pi_state :: "(string \<times> state_init) option"
  pi_cancel :: bool
  pi_discover :: "unit gated option"
  pi_dataflow :: "adopted_fn list"
  pi_fragment :: "string option"

datatype item = NodeItem node_item | PoolItem pool_item | ExecutorItem executor_item

record graph_spec =
  gs_name :: "ident option"
  gs_observe_writes :: "expr option"
  gs_observe_reads :: "expr option"
  gs_default_executor :: "ident option"
  gs_items :: "item list"

section \<open>What an item declares\<close>

fun eligible :: "task_source option \<Rightarrow> bool" where
  "eligible (Some (ShellSource e)) = True"
| "eligible (Some (SpawnSource e)) = (case e of ExprPath _ \<Rightarrow> True | ExprCall _ \<Rightarrow> True | _ \<Rightarrow> False)"
| "eligible None = False"

fun default_executor_item :: "ident \<Rightarrow> item \<Rightarrow> item" where
  "default_executor_item ex (NodeItem n) =
     (if ni_executor n = None \<and> eligible (ni_source n)
      then NodeItem (n\<lparr>ni_executor := Some ex, ni_executor_defaulted := True\<rparr>) else NodeItem n)"
| "default_executor_item ex (PoolItem p) =
     (if pi_executor p = None \<and> eligible (Some (pi_source p))
      then PoolItem (p\<lparr>pi_executor := Some ex, pi_executor_defaulted := True\<rparr>) else PoolItem p)"
| "default_executor_item ex (ExecutorItem x) = ExecutorItem x"

definition apply_default_executor :: "item list \<Rightarrow> ident \<Rightarrow> item list" where
  "apply_default_executor items ex = map (default_executor_item ex) items"

fun item_resources :: "item \<Rightarrow> resource_decl list" where
  "item_resources (NodeItem n) = ni_resources n"
| "item_resources (PoolItem p) = pi_resources p"
| "item_resources (ExecutorItem x) = []"

fun item_executor :: "item \<Rightarrow> ident option" where
  "item_executor (NodeItem n) = ni_executor n"
| "item_executor (PoolItem p) = pi_executor p"
| "item_executor (ExecutorItem x) = None"

fun item_signal_entries :: "item \<Rightarrow> (bool \<times> signal_decl) list" where
  "item_signal_entries (NodeItem n) = map (Pair False) (ni_reads n) @ map (Pair True) (ni_writes n)"
| "item_signal_entries (PoolItem p) = map (Pair False) (pi_reads p) @ map (Pair True) (pi_writes p)"
| "item_signal_entries (ExecutorItem x) = []"

fun item_ident_cfg :: "item \<Rightarrow> (ident \<times> cfg_attrs) option" where
  "item_ident_cfg (NodeItem n) = Some (ni_ident n, ni_cfg n)"
| "item_ident_cfg (PoolItem p) = Some (pi_ident p, pi_cfg p)"
| "item_ident_cfg (ExecutorItem x) = None"

section \<open>Accepted signal lists\<close>

text \<open>
  An accepted list names every signal once, and never an array both whole and by element, so the
  address of an element and of its array are never confused in one list.
\<close>

lemma check_signals_None:
  "check_signals prev ds = None \<Longrightarrow> distinct (map display prev) \<Longrightarrow>
     distinct (map display (prev @ ds))
     \<and> (\<forall>d \<in> set ds. \<forall>p \<in> set prev. path_to_string (sg_path p) = path_to_string (sg_path d) \<longrightarrow>
            (sg_index p = None) = (sg_index d = None))"
proof (induction ds arbitrary: prev)
  case (Cons d ds)
  have n: "\<not> list_ex (\<lambda>p. display p = display d) prev"
    and i: "\<not> list_ex (\<lambda>p. path_to_string (sg_path p) = path_to_string (sg_path d)
              \<and> (sg_index p \<noteq> None) \<noteq> (sg_index d \<noteq> None)) prev"
    and r: "check_signals (prev @ [d]) ds = None" using Cons.prems(1) by (simp_all split: if_splits)
  have "distinct (map display (prev @ [d]))" using Cons.prems(2) n by (auto simp: list_ex_iff)
  from Cons.IH[OF r this] show ?case using i by (auto simp: list_ex_iff)
qed simp

end
