(* ===== verification/Expand.thy ===== *)
theory Expand
  imports Declaration Supervisor
begin

text \<open>
  The planning of \<open>supervisor_graph!\<close> in \<^verbatim>\<open>supervisor-macros/src/lib.rs\<close>: what \<open>expand\<close> accepts,
  the slot every declarer gets in a divisible budget and in a veto gate, the name and dependency
  tables, the shape bits and the graph the tables make. What is emitted for a node is in \<open>Glue\<close> and
  \<open>Emit\<close>; a reference \<open>&NODE\<close> or \<open>&POOL[j]\<close> is the pair of the name and the member. The build
  has every feature on, so the feature gate passes. A \<open>cfg\<close> list is a conjunction of predicates,
  evaluated by the compiler: \<open>holds\<close>.
\<close>

section \<open>Passes that may fail\<close>

fun try_fold :: "('a \<Rightarrow> 's \<Rightarrow> 'e + 's) \<Rightarrow> 'a list \<Rightarrow> 's \<Rightarrow> 'e + 's" where
  "try_fold f [] s = Inr s"
| "try_fold f (x # xs) s = (case f x s of Inl e \<Rightarrow> Inl e | Inr t \<Rightarrow> try_fold f xs t)"

datatype expand_error =
    ShadowsExecutor ident | TakenElsewhere ident | SharedReshaped ident | SerializedSplit ident
  | TooManyClaimants ident | DuplicateResource ident | LocalSplit ident | LocalProvider ident
  | VetoSpelledTwice string string | TooManyVetoes string
  | UnknownExecutor ident | DuplicateName ident | ProvidesUnknown ident | ProvidesPoolSlot ident
  | PoolBoundNotU8 ident | PoolMinAboveMax ident | PoolMaxAboveMembers ident | PoolNeedsTask ident
  | TooManySlots nat | UnknownDep ident | DuplicateDep ident

definition predicates :: "cfg_attrs \<Rightarrow> string list" where
  "predicates attrs = List.map_filter (\<lambda>a. case a of CfgAttr p \<Rightarrow> Some p | OtherAttr _ \<Rightarrow> None) attrs"

lemma predicates_simps [simp]: "predicates [] = []" "predicates (CfgAttr p # as) = p # predicates as"
  "predicates (OtherAttr t # as) = predicates as"
  by (simp_all add: predicates_def List.map_filter_simps)

definition cfg_predicate :: "cfg_attrs \<Rightarrow> string list option" where
  "cfg_predicate attrs = (let preds = predicates attrs in if preds = [] then None else Some preds)"

fun all_preds :: "string list option \<Rightarrow> string list option \<Rightarrow> string list option" where
  "all_preds None None = None"
| "all_preds (Some p) None = Some p"
| "all_preds None (Some p) = Some p"
| "all_preds (Some a) (Some b) = Some (a @ b)"

definition executor_names :: "item list \<Rightarrow> ident list" where
  "executor_names items = map xi_ident (List.map_filter (\<lambda>i. case i of ExecutorItem x \<Rightarrow> Some x | _ \<Rightarrow> None) items)"

fun member_count :: "item \<Rightarrow> nat" where
  "member_count (PoolItem p) = length (pi_modes p)"
| "member_count i = 1"

section \<open>Graph-wide resource slots\<close>

record graph_slot_plan =
  gp_decl :: resource_decl
  gp_sig :: string
  gp_preds :: "string list option list"
  gp_owners :: "ident list"
  gp_executor :: "ident option"
  gp_slots :: nat

record resource_plan =
  shared_plans :: "(ident \<times> graph_slot_plan) list"
  taken_names :: "ident list"
  claim_bases :: "ident \<times> ident \<Rightarrow> u8 option"

definition plan_new :: resource_plan where
  "plan_new = \<lparr>shared_plans = [], taken_names = [], claim_bases = (\<lambda>_. None)\<rparr>"

definition plan_sig :: "resource_decl \<Rightarrow> string" where
  "plan_sig r = (if kind r = Divisible then ''divisible'' else shared_signature r)"

definition put_plan :: "ident \<Rightarrow> graph_slot_plan \<Rightarrow> (ident \<times> graph_slot_plan) list \<Rightarrow> (ident \<times> graph_slot_plan) list" where
  "put_plan key pl ps = map (\<lambda>(k, q). if k = key then (k, pl) else (k, q)) ps"

text \<open>Joining the plan of a slot other items declared, or starting one.\<close>

definition join_plan ::
  "ident \<Rightarrow> ident option \<Rightarrow> string list option \<Rightarrow> resource_decl \<Rightarrow> (ident \<times> graph_slot_plan) list
     \<Rightarrow> expand_error + graph_slot_plan \<times> (ident \<times> graph_slot_plan) list" where
  "join_plan owner exec pred r ps =
     (case map_of ps (rd_ident r) of
        Some pl \<Rightarrow>
          if gp_sig pl \<noteq> plan_sig r then Inl (SharedReshaped (rd_ident r))
          else if rd_serialized r \<and> exec \<noteq> gp_executor pl then Inl (SerializedSplit (rd_ident r))
          else let pl1 = pl\<lparr>gp_preds := gp_preds pl @ [pred], gp_owners := gp_owners pl @ [owner]\<rparr>
               in Inr (pl1, put_plan (rd_ident r) pl1 ps)
      | None \<Rightarrow>
          let pl1 = \<lparr>gp_decl = r, gp_sig = plan_sig r, gp_preds = [pred], gp_owners = [owner],
                     gp_executor = exec, gp_slots = 0\<rparr>
          in Inr (pl1, ps @ [(rd_ident r, pl1)]))"

definition claim_slots ::
  "ident \<Rightarrow> nat \<Rightarrow> resource_decl \<Rightarrow> graph_slot_plan \<Rightarrow> resource_plan \<Rightarrow> expand_error + resource_plan" where
  "claim_slots owner members r pl st =
     (if gp_slots pl < 256 \<and> gp_slots pl + members \<le> 256
      then Inr (st\<lparr>claim_bases := (claim_bases st)((owner, rd_ident r) := Some (of_nat (gp_slots pl))),
                   shared_plans := put_plan (rd_ident r) (pl\<lparr>gp_slots := gp_slots pl + members\<rparr>) (shared_plans st)\<rparr>)
      else Inl (TooManyClaimants (rd_ident r)))"

definition plan_resource ::
  "ident list \<Rightarrow> ident \<Rightarrow> ident option \<Rightarrow> string list option \<Rightarrow> nat \<Rightarrow> resource_decl \<Rightarrow> resource_plan
     \<Rightarrow> expand_error + resource_plan" where
  "plan_resource execs owner exec item_pred members r st =
     (let key = rd_ident r in
      if key \<in> set execs then Inl (ShadowsExecutor key)
      else let pred = all_preds item_pred (cfg_predicate (rd_cfg r)) in
      if kind r = Shared \<or> kind r = Divisible
      then if key \<in> set (taken_names st) then Inl (TakenElsewhere key)
           else case join_plan owner exec pred r (shared_plans st) of
                  Inl e \<Rightarrow> Inl e
                | Inr (pl, ps) \<Rightarrow>
                    let st1 = st\<lparr>shared_plans := ps\<rparr> in
                    if kind r = Divisible then claim_slots owner members r pl st1 else Inr st1
      else if key \<in> set (taken_names st) \<or> key \<in> fst ` set (shared_plans st) then Inl (DuplicateResource key)
      else Inr (st\<lparr>taken_names := taken_names st @ [key]\<rparr>))"

definition plan_item :: "ident list \<Rightarrow> item \<Rightarrow> resource_plan \<Rightarrow> expand_error + resource_plan" where
  "plan_item execs i st =
     (case item_ident_cfg i of
        None \<Rightarrow> Inr st
      | Some (owner, cfg) \<Rightarrow>
          try_fold (plan_resource execs owner (item_executor i) (cfg_predicate cfg) (member_count i))
            (item_resources i) st)"

definition plan_resources :: "item list \<Rightarrow> expand_error + resource_plan" where
  "plan_resources items = try_fold (plan_item (executor_names items)) items plan_new"

section \<open>Executor-local slots\<close>

type_synonym homes = "ident \<Rightarrow> (ident \<times> ident option) option"

definition home_entry :: "ident \<Rightarrow> ident option \<Rightarrow> resource_decl \<Rightarrow> homes \<Rightarrow> expand_error + homes" where
  "home_entry owner exec r h =
     (if \<not> rd_local r then Inr h
      else case h (rd_ident r) of
             Some (first, home) \<Rightarrow> if home \<noteq> exec then Inl (LocalSplit (rd_ident r)) else Inr h
           | None \<Rightarrow> Inr (h(rd_ident r := Some (owner, exec))))"

definition home_item :: "item \<Rightarrow> homes \<Rightarrow> expand_error + homes" where
  "home_item i h =
     (case item_ident_cfg i of
        None \<Rightarrow> Inr h
      | Some (owner, _) \<Rightarrow> try_fold (home_entry owner (item_executor i)) (item_resources i) h)"

definition provider_entry :: "ident option \<Rightarrow> provide_decl \<Rightarrow> homes \<Rightarrow> expand_error + homes" where
  "provider_entry exec p h =
     (case h (pv_ident p) of
        Some (first, home) \<Rightarrow> if home \<noteq> exec then Inl (LocalProvider (pv_ident p)) else Inr h
      | None \<Rightarrow> Inr h)"

definition provider_item :: "item \<Rightarrow> homes \<Rightarrow> expand_error + homes" where
  "provider_item i h =
     (case i of NodeItem n \<Rightarrow> try_fold (provider_entry (ni_executor n)) (ni_provides n) h | _ \<Rightarrow> Inr h)"

definition check_locals :: "item list \<Rightarrow> expand_error + homes" where
  "check_locals items =
     (case try_fold home_item items (\<lambda>_. None) of
        Inl e \<Rightarrow> Inl e
      | Inr h \<Rightarrow> try_fold provider_item items h)"

section \<open>Veto contributors\<close>

record veto_plan =
  vp_total :: nat
  vp_preds :: "string list option list"

record veto_state =
  veto_bases :: "ident \<times> string \<Rightarrow> u8 option"
  veto_plans :: "(string \<times> veto_plan) list"
  veto_stems :: "string \<Rightarrow> string option"

definition veto_new :: veto_state where
  "veto_new = \<lparr>veto_bases = (\<lambda>_. None), veto_plans = [], veto_stems = (\<lambda>_. None)\<rparr>"

definition veto_stem :: "signal_decl \<Rightarrow> string" where
  "veto_stem d =
     (case segments (sg_path d) of
        [] \<Rightarrow> display d
      | segs \<Rightarrow> last segs @ dropWhile (\<lambda>c. c \<noteq> CHR ''['') (display d))"

definition veto_entry_plan :: "ident \<Rightarrow> string list option \<Rightarrow> nat \<Rightarrow> signal_decl \<Rightarrow> veto_state \<Rightarrow> expand_error + veto_state" where
  "veto_entry_plan owner item_pred members d st =
     (let key = display d; stem = veto_stem d in
      if (case veto_stems st stem of Some first \<Rightarrow> first \<noteq> key | None \<Rightarrow> False)
      then Inl (VetoSpelledTwice (the (veto_stems st stem)) key)
      else let stems = (if veto_stems st stem = None then (veto_stems st)(stem := Some key) else veto_stems st);
               pl = (case map_of (veto_plans st) key of Some pl \<Rightarrow> pl | None \<Rightarrow> \<lparr>vp_total = 0, vp_preds = []\<rparr>);
               pl1 = \<lparr>vp_total = vp_total pl + members,
                      vp_preds = vp_preds pl @ [all_preds item_pred (cfg_predicate (sg_cfg d))]\<rparr>
           in if 32 < vp_total pl + members then Inl (TooManyVetoes key)
              else Inr \<lparr>veto_bases = (veto_bases st)((owner, key) := Some (of_nat (vp_total pl))),
                        veto_plans = (if key \<in> fst ` set (veto_plans st)
                                      then map (\<lambda>(k, q). if k = key then (k, pl1) else (k, q)) (veto_plans st)
                                      else veto_plans st @ [(key, pl1)]),
                        veto_stems = stems\<rparr>)"

fun item_writes :: "item \<Rightarrow> signal_decl list" where
  "item_writes (NodeItem n) = ni_writes n"
| "item_writes (PoolItem p) = pi_writes p"
| "item_writes (ExecutorItem x) = []"

definition veto_item :: "item \<Rightarrow> veto_state \<Rightarrow> expand_error + veto_state" where
  "veto_item i st =
     (case item_ident_cfg i of
        None \<Rightarrow> Inr st
      | Some (owner, cfg) \<Rightarrow>
          try_fold (veto_entry_plan owner (cfg_predicate cfg) (member_count i)) (filter sg_veto (item_writes i)) st)"

definition plan_vetoes :: "item list \<Rightarrow> expand_error + veto_state" where
  "plan_vetoes items = try_fold veto_item items veto_new"

section \<open>Names and slots\<close>

text \<open>\<open>SlotRef ident None\<close> is \<open>&NODE\<close>, \<open>SlotRef ident (Some j)\<close> is \<open>&POOL[j]\<close>.\<close>

datatype slot_ref = SlotRef ident "nat option"

record slot =
  sl_cfg_pred :: "string list option"
  sl_reference :: slot_ref
  sl_deps :: "dep list"
  sl_fragment :: "string option"

text \<open>Per resource name the first declaration's \<open>cfg\<close>s, and whether it is a pool's slot array.\<close>

fun resource_cfg_entries :: "item \<Rightarrow> (ident \<times> cfg_attrs \<times> bool) list" where
  "resource_cfg_entries i = map (\<lambda>r. (rd_ident r, rd_cfg r,
       (case i of PoolItem _ \<Rightarrow> True | _ \<Rightarrow> False) \<and> (kind r = Lend \<or> kind r = Consume))) (item_resources i)"

definition resource_cfgs :: "item list \<Rightarrow> ident \<Rightarrow> (cfg_attrs \<times> bool) option" where
  "resource_cfgs items = map_of (concat (map resource_cfg_entries items))"

fun check_provides :: "(ident \<Rightarrow> (cfg_attrs \<times> bool) option) \<Rightarrow> provide_decl list \<Rightarrow> expand_error option" where
  "check_provides cfgs [] = None"
| "check_provides cfgs (p # ps) =
     (case cfgs (pv_ident p) of
        None \<Rightarrow> Some (ProvidesUnknown (pv_ident p))
      | Some (cfg, from_pool) \<Rightarrow>
          if from_pool then Some (ProvidesPoolSlot (pv_ident p)) else check_provides cfgs ps)"

definition node_slot :: "node_item \<Rightarrow> slot" where
  "node_slot n = \<lparr>sl_cfg_pred = cfg_predicate (ni_cfg n), sl_reference = SlotRef (ni_ident n) None,
                  sl_deps = ni_deps n, sl_fragment = ni_fragment n\<rparr>"

definition pool_slots :: "pool_item \<Rightarrow> slot list" where
  "pool_slots p = map (\<lambda>j. \<lparr>sl_cfg_pred = cfg_predicate (pi_cfg p), sl_reference = SlotRef (pi_ident p) (Some j),
                            sl_deps = pi_deps p, sl_fragment = pi_fragment p\<rparr>) [0..<length (pi_modes p)]"

text \<open>The checks of \<open>emit_pool\<close> on what the declaration says; bounds that are not literals are left to rustc.\<close>

definition check_pool :: "pool_item \<Rightarrow> expand_error option" where
  "check_pool p =
     (let bounds = (case (pi_min p, pi_max p) of
                      (ExprLit a, ExprLit b) \<Rightarrow>
                        if 255 < a \<or> 255 < b then Some (PoolBoundNotU8 (pi_ident p))
                        else if b < a then Some (PoolMinAboveMax (pi_ident p))
                        else if length (pi_modes p) < b then Some (PoolMaxAboveMembers (pi_ident p)) else None
                    | _ \<Rightarrow> None);
          spawned = (case pi_source p of SpawnSource _ \<Rightarrow> True | _ \<Rightarrow> False)
      in if bounds \<noteq> None then bounds
         else if pi_resources p \<noteq> [] \<and> spawned then Some (PoolNeedsTask (pi_ident p))
         else if pi_state p \<noteq> None \<and> spawned then Some (PoolNeedsTask (pi_ident p))
         else None)"

record emit_state =
  em_names :: "ident \<Rightarrow> nat option"
  em_slots :: "slot list"

definition known_executor :: "ident list \<Rightarrow> ident option \<Rightarrow> expand_error option" where
  "known_executor execs ex =
     (case ex of None \<Rightarrow> None | Some x \<Rightarrow> if x \<in> set execs then None else Some (UnknownExecutor x))"

definition add_name :: "ident \<Rightarrow> slot list \<Rightarrow> emit_state \<Rightarrow> expand_error + emit_state" where
  "add_name ident sls em =
     (if em_names em ident \<noteq> None then Inl (DuplicateName ident)
      else Inr \<lparr>em_names = (em_names em)(ident := Some (length (em_slots em))), em_slots = em_slots em @ sls\<rparr>)"

definition emit_item :: "item list \<Rightarrow> item \<Rightarrow> emit_state \<Rightarrow> expand_error + emit_state" where
  "emit_item items i em =
     (case i of
        ExecutorItem x \<Rightarrow> Inr em
      | NodeItem n \<Rightarrow>
          (case known_executor (executor_names items) (ni_executor n) of
             Some e \<Rightarrow> Inl e
           | None \<Rightarrow>
               (case add_name (ni_ident n) [node_slot n] em of
                  Inl e \<Rightarrow> Inl e
                | Inr em1 \<Rightarrow> (case check_provides (resource_cfgs items) (ni_provides n) of
                                Some e \<Rightarrow> Inl e | None \<Rightarrow> Inr em1)))
      | PoolItem p \<Rightarrow>
          (case known_executor (executor_names items) (pi_executor p) of
             Some e \<Rightarrow> Inl e
           | None \<Rightarrow> (case check_pool p of
                        Some e \<Rightarrow> Inl e
                      | None \<Rightarrow> add_name (pi_ident p) (pool_slots p) em)))"

definition emit_items :: "item list \<Rightarrow> expand_error + emit_state" where
  "emit_items items = try_fold (emit_item items) items \<lparr>em_names = (\<lambda>_. None), em_slots = []\<rparr>"

section \<open>Dependency tables\<close>

text \<open>A row: the index of each dependency with its \<open>cfg\<close>s.\<close>

fun dep_row :: "(ident \<Rightarrow> nat option) \<Rightarrow> dep list \<Rightarrow> (u8 \<times> cfg_attrs) list \<Rightarrow> expand_error + (u8 \<times> cfg_attrs) list" where
  "dep_row names [] seen = Inr seen"
| "dep_row names (d # ds) seen =
     (case names (d_ident d) of
        None \<Rightarrow> Inl (UnknownDep (d_ident d))
      | Some i \<Rightarrow>
          (let idx = of_nat i in
           if (idx, d_cfg d) \<in> set seen then Inl (DuplicateDep (d_ident d))
           else dep_row names ds (seen @ [(idx, d_cfg d)])))"

fun slot_tables :: "(ident \<Rightarrow> nat option) \<Rightarrow> slot list \<Rightarrow> expand_error + (u8 \<times> cfg_attrs) list list" where
  "slot_tables names [] = Inr []"
| "slot_tables names (sl # sls) =
     (case dep_row names (sl_deps sl) [] of
        Inl e \<Rightarrow> Inl e
      | Inr row \<Rightarrow> (case slot_tables names sls of Inl e \<Rightarrow> Inl e | Inr rows \<Rightarrow> Inr (row # rows)))"

section \<open>Shape bits\<close>

definition claims_bit :: "resource_decl list \<Rightarrow> u32" where
  "claims_bit rs = (if list_ex (\<lambda>r. kind r = Divisible) rs then SHAPE_CLAIMS else 0)"

definition mode_bit :: "ident \<Rightarrow> u32" where
  "mode_bit m = (if m = ''Pause'' then SHAPE_PAUSE else if m = ''OnDemand'' then SHAPE_ON_DEMAND else 0)"

definition dep_bits :: "dep list \<Rightarrow> u32" where
  "dep_bits ds = fold (\<lambda>d b.
     let b1 = (if d_ready d \<or> d_bound d then b OR SHAPE_READY_DEPS else b)
     in if d_bound d then b1 OR SHAPE_BOUND_DEPS else b1) ds 0"

definition observed_bit :: "signal_decl list \<Rightarrow> signal_decl list \<Rightarrow> u32" where
  "observed_bit rs ws = (if list_ex sg_observed (rs @ ws) then SHAPE_OBSERVED else 0)"

definition bit_if :: "bool \<Rightarrow> u32 \<Rightarrow> u32" where
  "bit_if c b = (if c then b else 0)"

fun item_bits :: "item \<Rightarrow> u32" where
  "item_bits (NodeItem n) =
     mode_bit (ni_mode n) OR dep_bits (ni_deps n) OR observed_bit (ni_reads n) (ni_writes n)
     OR bit_if (ni_executor n \<noteq> None) SHAPE_EXEC_SLOTS OR bit_if (ni_resources n \<noteq> []) SHAPE_RESOURCES
     OR claims_bit (ni_resources n) OR bit_if (ni_beat_timeout n \<noteq> None) SHAPE_BEATS
     OR bit_if (ni_ready_on_write n \<noteq> None) SHAPE_OBSERVED"
| "item_bits (PoolItem p) =
     SHAPE_POOLS OR fold (\<lambda>m b. b OR mode_bit m) (pi_modes p) 0 OR dep_bits (pi_deps p)
     OR observed_bit (pi_reads p) (pi_writes p) OR bit_if (pi_executor p \<noteq> None) SHAPE_EXEC_SLOTS
     OR bit_if (pi_resources p \<noteq> []) SHAPE_RESOURCES OR claims_bit (pi_resources p)"
| "item_bits (ExecutorItem x) = 0"

definition shape_bits :: "item list \<Rightarrow> u32" where
  "shape_bits items = fold (\<lambda>i b. b OR item_bits i) items 0"

section \<open>The expansion\<close>

record expansion =
  ex_plan :: resource_plan
  ex_vetoes :: veto_state
  ex_names :: "ident \<Rightarrow> nat option"
  ex_slots :: "slot list"
  ex_rows :: "(u8 \<times> cfg_attrs) list list"
  ex_shape :: u32
  ex_flat :: bool

definition expand :: "item list \<Rightarrow> expand_error + expansion" where
  "expand items =
     (case plan_resources items of Inl e \<Rightarrow> Inl e | Inr pl \<Rightarrow>
      (case check_locals items of Inl e \<Rightarrow> Inl e | Inr _ \<Rightarrow>
      (case plan_vetoes items of Inl e \<Rightarrow> Inl e | Inr vt \<Rightarrow>
      (case emit_items items of Inl e \<Rightarrow> Inl e | Inr em \<Rightarrow>
       if 256 < length (em_slots em) then Inl (TooManySlots (length (em_slots em)))
       else case slot_tables (em_names em) (em_slots em) of
              Inl e \<Rightarrow> Inl e
            | Inr rows \<Rightarrow>
                Inr \<lparr>ex_plan = pl, ex_vetoes = vt, ex_names = em_names em, ex_slots = em_slots em,
                     ex_rows = rows, ex_shape = shape_bits items,
                     ex_flat = list_all (\<lambda>sl. sl_deps sl = []) (em_slots em)\<rparr>))))"

text \<open>
  What rustc makes of the emitted tables: the \<open>cfg\<close>s are evaluated, and the topology's const
  constructor runs. \<open>at\<close> is where the linker puts a node. \<open>None\<close> is a compile error.
\<close>

definition enabled :: "(string \<Rightarrow> bool) \<Rightarrow> string list option \<Rightarrow> bool" where
  "enabled holds p = (case p of None \<Rightarrow> True | Some ps \<Rightarrow> list_all holds ps)"

definition built_nodes :: "(string \<Rightarrow> bool) \<Rightarrow> (slot_ref \<Rightarrow> nref) \<Rightarrow> expansion \<Rightarrow> nref option list" where
  "built_nodes holds at x =
     map (\<lambda>sl. if enabled holds (sl_cfg_pred sl) then Some (at (sl_reference sl)) else None) (ex_slots x)"

definition built_rows :: "(string \<Rightarrow> bool) \<Rightarrow> expansion \<Rightarrow> dep_table" where
  "built_rows holds x = map (\<lambda>row. map fst (filter (\<lambda>(i, cfg). list_all holds (predicates cfg)) row)) (ex_rows x)"

definition built_topology :: "(string \<Rightarrow> bool) \<Rightarrow> expansion \<Rightarrow> topology option" where
  "built_topology holds x = (if ex_flat x then Some Flat else ordered_new (built_rows holds x))"

definition built_graph ::
  "(string \<Rightarrow> bool) \<Rightarrow> (slot_ref \<Rightarrow> nref) \<Rightarrow> pool list \<Rightarrow> nat \<Rightarrow> nref option \<Rightarrow> expansion \<Rightarrow> graph option" where
  "built_graph holds at pools ref self x =
     map_option (\<lambda>t. \<lparr>g_nodes = built_nodes holds at x, g_topo = t, g_shape = ex_shape x,
                      g_pools = pools, g_ref = ref, g_self = self\<rparr>) (built_topology holds x)"

end
