(* ===== verification/Expand_Plan.thy ===== *)
theory Expand_Plan
  imports Expand
begin

text \<open>
  What the planning passes of \<open>expand\<close> guarantee about a declaration they accept: exclusive slots
  have one declarer, budget and veto slots are handed out without overlap and within the width of
  their index, and the shape bits say exactly which features the items use.
\<close>

section \<open>Folding with errors\<close>

lemma try_fold_inv:
  "try_fold f xs s = Inr t \<Longrightarrow> I s \<Longrightarrow> (\<And>x s t. x \<in> set xs \<Longrightarrow> I s \<Longrightarrow> f x s = Inr t \<Longrightarrow> I t) \<Longrightarrow> I t"
proof (induction xs arbitrary: s)
  case (Cons x xs)
  from Cons.prems(1) obtain u where "f x s = Inr u" "try_fold f xs u = Inr t" by (auto split: sum.splits)
  then show ?case using Cons.IH[of u] Cons.prems(2,3) by (metis list.set_intros)
qed simp

lemma try_fold_append:
  "try_fold f (xs @ ys) s = (case try_fold f xs s of Inl e \<Rightarrow> Inl e | Inr t \<Rightarrow> try_fold f ys t)"
  by (induction xs arbitrary: s) (auto split: sum.split)

text \<open>The same with the part of the list already done.\<close>

lemma try_fold_prefix:
  assumes "try_fold f xs s = Inr t" and "I [] s"
    and "\<And>ys x zs s t. xs = ys @ x # zs \<Longrightarrow> I ys s \<Longrightarrow> f x s = Inr t \<Longrightarrow> I (ys @ [x]) t"
  shows "I xs t"
proof -
  have "xs = ys @ zs \<Longrightarrow> I ys s \<Longrightarrow> try_fold f zs s = Inr t \<Longrightarrow> I xs t" for ys zs s
  proof (induction zs arbitrary: ys s)
    case (Cons x zs)
    then show ?case using assms(3)[of ys x zs s] by (auto split: sum.splits)
  qed simp
  then show ?thesis using assms(1,2) by blast
qed

section \<open>Shape bits\<close>

text \<open>What an item makes the supervisor look at.\<close>

fun uses :: "item \<Rightarrow> u32 \<Rightarrow> bool" where
  "uses (NodeItem n) b \<longleftrightarrow>
     b = SHAPE_PAUSE \<and> ni_mode n = ''Pause'' \<or> b = SHAPE_ON_DEMAND \<and> ni_mode n = ''OnDemand''
     \<or> b = SHAPE_READY_DEPS \<and> (\<exists>d \<in> set (ni_deps n). d_ready d \<or> d_bound d)
     \<or> b = SHAPE_BOUND_DEPS \<and> (\<exists>d \<in> set (ni_deps n). d_bound d)
     \<or> b = SHAPE_OBSERVED \<and> ((\<exists>g \<in> set (ni_reads n @ ni_writes n). sg_observed g) \<or> ni_ready_on_write n \<noteq> None)
     \<or> b = SHAPE_EXEC_SLOTS \<and> ni_executor n \<noteq> None \<or> b = SHAPE_RESOURCES \<and> ni_resources n \<noteq> []
     \<or> b = SHAPE_CLAIMS \<and> (\<exists>r \<in> set (ni_resources n). kind r = Divisible)
     \<or> b = SHAPE_BEATS \<and> ni_beat_timeout n \<noteq> None"
| "uses (PoolItem p) b \<longleftrightarrow>
     b = SHAPE_POOLS \<or> b = SHAPE_PAUSE \<and> ''Pause'' \<in> set (pi_modes p)
     \<or> b = SHAPE_ON_DEMAND \<and> ''OnDemand'' \<in> set (pi_modes p)
     \<or> b = SHAPE_READY_DEPS \<and> (\<exists>d \<in> set (pi_deps p). d_ready d \<or> d_bound d)
     \<or> b = SHAPE_BOUND_DEPS \<and> (\<exists>d \<in> set (pi_deps p). d_bound d)
     \<or> b = SHAPE_OBSERVED \<and> (\<exists>g \<in> set (pi_reads p @ pi_writes p). sg_observed g)
     \<or> b = SHAPE_EXEC_SLOTS \<and> pi_executor p \<noteq> None \<or> b = SHAPE_RESOURCES \<and> pi_resources p \<noteq> []
     \<or> b = SHAPE_CLAIMS \<and> (\<exists>r \<in> set (pi_resources p). kind r = Divisible)"
| "uses (ExecutorItem x) b \<longleftrightarrow> False"

definition shape_flags :: "u32 list" where
  "shape_flags = [SHAPE_READY_DEPS, SHAPE_EXEC_SLOTS, SHAPE_RESOURCES, SHAPE_PAUSE, SHAPE_ON_DEMAND,
     SHAPE_BEATS, SHAPE_OBSERVED, SHAPE_BOUND_DEPS, SHAPE_POOLS, SHAPE_CLAIMS]"

lemmas shape_defs = SHAPE_READY_DEPS_def SHAPE_EXEC_SLOTS_def SHAPE_RESOURCES_def SHAPE_PAUSE_def
  SHAPE_ON_DEMAND_def SHAPE_BEATS_def SHAPE_OBSERVED_def SHAPE_BOUND_DEPS_def SHAPE_POOLS_def SHAPE_CLAIMS_def

lemma has_or: "has (a OR b) c \<longleftrightarrow> has a c \<or> has b c"
  by (simp add: has_def bit.conj_disj_distrib2 or_eq_0_iff)

lemma has_0 [simp]: "\<not> has 0 b"
  by (simp add: has_def)

lemma flag_table: "list_all (\<lambda>a. list_all (\<lambda>b. has a b = (a = b)) shape_flags) shape_flags"
  by code_simp

lemma flag_flag: "a \<in> set shape_flags \<Longrightarrow> b \<in> set shape_flags \<Longrightarrow> has a b \<longleftrightarrow> b = a"
  using flag_table by (auto simp: list_all_iff)

lemma shape_flag [simp]:
  "SHAPE_READY_DEPS \<in> set shape_flags" "SHAPE_EXEC_SLOTS \<in> set shape_flags" "SHAPE_RESOURCES \<in> set shape_flags"
  "SHAPE_PAUSE \<in> set shape_flags" "SHAPE_ON_DEMAND \<in> set shape_flags" "SHAPE_BEATS \<in> set shape_flags"
  "SHAPE_OBSERVED \<in> set shape_flags" "SHAPE_BOUND_DEPS \<in> set shape_flags" "SHAPE_POOLS \<in> set shape_flags"
  "SHAPE_CLAIMS \<in> set shape_flags"
  by (simp_all add: shape_flags_def)

lemma has_fold_or: "has (fold (\<lambda>x b. b OR f x) xs a) c \<longleftrightarrow> has a c \<or> (\<exists>x \<in> set xs. has (f x) c)"
  by (induction xs arbitrary: a) (auto simp: has_or)

lemma has_bit_if [simp]: "has (bit_if c a) b \<longleftrightarrow> c \<and> has a b"
  by (simp add: bit_if_def)

lemma dep_bits_or:
  "dep_bits ds = fold (\<lambda>d b. b OR (bit_if (d_ready d \<or> d_bound d) SHAPE_READY_DEPS OR bit_if (d_bound d) SHAPE_BOUND_DEPS)) ds 0"
  unfolding dep_bits_def by (rule fold_cong) (auto simp: bit_if_def Let_def or.assoc fun_eq_iff)

lemma mode_bit_or: "mode_bit m = bit_if (m = ''Pause'') SHAPE_PAUSE OR bit_if (m = ''OnDemand'') SHAPE_ON_DEMAND"
  by (simp add: mode_bit_def bit_if_def)

lemma observed_bit_if: "observed_bit rs ws = bit_if (\<exists>g \<in> set (rs @ ws). sg_observed g) SHAPE_OBSERVED"
  by (auto simp: observed_bit_def bit_if_def list_ex_iff)

lemma claims_bit_if: "claims_bit rs = bit_if (\<exists>r \<in> set rs. kind r = Divisible) SHAPE_CLAIMS"
  by (auto simp: claims_bit_def bit_if_def list_ex_iff)

lemma item_bits_uses:
  assumes "b \<in> set shape_flags"
  shows "has (item_bits i) b \<longleftrightarrow> uses i b"
proof -
  note flags = flag_flag[OF _ assms]
  show ?thesis
  proof (cases i)
    case (NodeItem n)
    then show ?thesis
      by (simp only: item_bits.simps uses.simps has_or has_fold_or dep_bits_or mode_bit_or observed_bit_if
          claims_bit_if has_bit_if has_0 flags shape_flag) blast
  next
    case (PoolItem p)
    then show ?thesis
      by (simp only: item_bits.simps uses.simps has_or has_fold_or dep_bits_or mode_bit_or observed_bit_if
          claims_bit_if has_bit_if has_0 flags shape_flag) blast
  qed simp
qed

text \<open>
  The shape bits are exact: of the ten features the supervisor folds on, a bit is set if and
  only if some item of the declaration uses the feature, so no gate is skipped that a node relies
  on and none is looked at for nothing.
\<close>

theorem shape_bits_exact:
  assumes "b \<in> set shape_flags"
  shows "has (shape_bits items) b \<longleftrightarrow> (\<exists>i \<in> set items. uses i b)"
  by (simp add: shape_bits_def has_fold_or item_bits_uses[OF assms])

text \<open>Declarations for examples.\<close>

definition plain_node :: "ident \<Rightarrow> dep list \<Rightarrow> resource_decl list \<Rightarrow> node_item" where
  "plain_node nm ds rs =
     \<lparr>ni_cfg = [], ni_ident = nm, ni_mode = ''Terminate'', ni_deps = ds, ni_source = Some (ShellSource (ExprPath nm)),
      ni_resources = rs, ni_disabled = None, ni_executor = None, ni_executor_defaulted = False,
      ni_slot_timeout = None, ni_ack_timeout = None, ni_beat_timeout = None, ni_beat_window = None,
      ni_enabled_if = None, ni_restart_budget = None, ni_ready_on_write = None, ni_reads = [], ni_writes = [],
      ni_exit = None, ni_state = None, ni_cancel = False, ni_discover = None, ni_dataflow = [],
      ni_provides = [], ni_fragment = None\<rparr>"

definition plain_pool :: "ident \<Rightarrow> ident list \<Rightarrow> nat \<Rightarrow> nat \<Rightarrow> resource_decl list \<Rightarrow> pool_item" where
  "plain_pool nm modes lo hi rs =
     \<lparr>pi_cfg = [], pi_ident = nm, pi_modes = modes, pi_deps = [],
      pi_source = (if rs = [] then SpawnSource (ExprPath nm) else ShellSource (ExprPath nm)),
      pi_policy = ExprCall ''Policy::new'', pi_policy_ty = None, pi_executor = None, pi_executor_defaulted = False,
      pi_resources = rs, pi_slot_timeout = None, pi_ack_timeout = None, pi_reads = [], pi_writes = [],
      pi_min = ExprLit lo, pi_max = ExprLit hi, pi_state = None, pi_cancel = False, pi_discover = None,
      pi_dataflow = [], pi_fragment = None\<rparr>"

definition budget_entry :: "ident \<Rightarrow> resource_decl" where
  "budget_entry nm = \<lparr>rd_cfg = [], rd_ident = nm, rd_ty = None, rd_local = False, rd_consume = False,
     rd_shared = False, rd_divisible = True, rd_serialized = False\<rparr>"

definition slot_entry :: "ident \<Rightarrow> resource_decl" where
  "slot_entry nm = \<lparr>rd_cfg = [], rd_ident = nm, rd_ty = Some ''Uart'', rd_local = False, rd_consume = False,
     rd_shared = False, rd_divisible = False, rd_serialized = False\<rparr>"

definition needs :: "ident \<Rightarrow> dep" where
  "needs nm = \<lparr>d_cfg = [], d_ident = nm, d_ready = False, d_bound = False\<rparr>"

definition radio :: "item list" where
  "radio = [NodeItem (plain_node ''LINK'' [] [slot_entry ''UART'', budget_entry ''AIRTIME'']),
            PoolItem (plain_pool ''WORKER'' [''Terminate'', ''OnDemand''] 1 2 [budget_entry ''AIRTIME'']),
            NodeItem (plain_node ''UPLINK'' [needs ''LINK'', needs ''WORKER''] [budget_entry ''AIRTIME''])]"

lemmas example_defs = radio_def plain_node_def plain_pool_def budget_entry_def slot_entry_def needs_def

theorem shape_bits_exact_witness:
  "has (shape_bits radio) SHAPE_CLAIMS \<and> has (shape_bits radio) SHAPE_ON_DEMAND \<and> \<not> has (shape_bits radio) SHAPE_BEATS"
  using shape_bits_exact[of SHAPE_CLAIMS radio] shape_bits_exact[of SHAPE_ON_DEMAND radio]
    shape_bits_exact[of SHAPE_BEATS radio]
  by (simp add: example_defs kind_def) (simp add: shape_defs)

section \<open>Budget slots\<close>

lemma map_of_put_plan: "map_of (put_plan key pl ps) = (if key \<in> fst ` set ps then (map_of ps)(key := Some pl) else map_of ps)"
  by (induction ps) (auto simp: put_plan_def fun_eq_iff)

lemma keys_put_plan [simp]: "fst ` set (put_plan key pl ps) = fst ` set ps"
  by (force simp: put_plan_def)

lemma join_plan_Inr:
  assumes "join_plan owner exec pred r ps = Inr (pl, ps')"
  shows "map_of ps' = (map_of ps)(rd_ident r := Some pl)" "fst ` set ps' = insert (rd_ident r) (fst ` set ps)"
    and "gp_slots pl = (case map_of ps (rd_ident r) of None \<Rightarrow> 0 | Some q \<Rightarrow> gp_slots q)"
    and "\<And>q. map_of ps (rd_ident r) = Some q \<Longrightarrow> gp_sig q = plan_sig r \<and> (rd_serialized r \<longrightarrow> exec = gp_executor q)
           \<and> gp_executor pl = gp_executor q \<and> gp_sig pl = gp_sig q"
    and "map_of ps (rd_ident r) = None \<Longrightarrow> gp_executor pl = exec \<and> gp_sig pl = plan_sig r"
proof -
  have dom: "map_of ps k = Some q \<Longrightarrow> k \<in> fst ` set ps" for k q by (metis domI dom_map_of_conv_image_fst)
  show m: "map_of ps' = (map_of ps)(rd_ident r := Some pl)"
    using assms dom
    by (auto simp: join_plan_def map_of_put_plan map_of_append fun_eq_iff Let_def map_add_def
        split: option.splits if_splits)
  show "fst ` set ps' = insert (rd_ident r) (fst ` set ps)"
    using arg_cong[OF m, of dom] by (simp add: dom_map_of_conv_image_fst)
qed (use assms in \<open>auto simp: join_plan_def Let_def split: if_splits option.splits\<close>)

definition slot_total :: "resource_plan \<Rightarrow> ident \<Rightarrow> nat" where
  "slot_total st k = (case map_of (shared_plans st) k of None \<Rightarrow> 0 | Some pl \<Rightarrow> gp_slots pl)"

lemma plan_resource_slots:
  assumes "plan_resource execs owner exec pred members r st = Inr st'"
  shows "if kind r = Divisible
     then slot_total st (rd_ident r) < 256 \<and> slot_total st (rd_ident r) + members \<le> 256
       \<and> slot_total st' = (slot_total st)(rd_ident r := slot_total st (rd_ident r) + members)
       \<and> claim_bases st' = (claim_bases st)((owner, rd_ident r) := Some (of_nat (slot_total st (rd_ident r))))
     else slot_total st' = slot_total st \<and> claim_bases st' = claim_bases st"
proof (cases "kind r = Shared \<or> kind r = Divisible")
  case True
  then obtain pl ps where j: "join_plan owner exec (all_preds pred (cfg_predicate (rd_cfg r))) r (shared_plans st) = Inr (pl, ps)"
    and st': "(if kind r = Divisible then claim_slots owner members r pl (st\<lparr>shared_plans := ps\<rparr>)
               else Inr (st\<lparr>shared_plans := ps\<rparr>)) = Inr st'"
    using assms by (auto simp: plan_resource_def Let_def split: if_splits sum.splits prod.splits)
  have t: "gp_slots pl = slot_total st (rd_ident r)" using join_plan_Inr(3)[OF j] by (simp add: slot_total_def)
  then have e: "slot_total (st\<lparr>shared_plans := ps\<rparr>) = slot_total st"
    using join_plan_Inr(1)[OF j] by (auto simp: slot_total_def fun_eq_iff)
  show ?thesis
  proof (cases "kind r = Divisible")
    case True
    then have c: "claim_slots owner members r pl (st\<lparr>shared_plans := ps\<rparr>) = Inr st'" using st' by simp
    then have "slot_total st' k = (if k = rd_ident r then gp_slots pl + members else slot_total (st\<lparr>shared_plans := ps\<rparr>) k)" for k
      using join_plan_Inr(2)[OF j] by (auto simp: claim_slots_def slot_total_def map_of_put_plan split: if_splits)
    then have "slot_total st' = (slot_total st)(rd_ident r := slot_total st (rd_ident r) + members)"
      using e t by (auto simp: fun_eq_iff)
    then show ?thesis using c t True by (auto simp: claim_slots_def split: if_splits)
  qed (use st' e in auto)
next
  case False
  then show ?thesis using assms by (auto simp: plan_resource_def Let_def slot_total_def fun_eq_iff split: if_splits)
qed

text \<open>The ranges handed out so far: each ends where its budget ends or before, and no two overlap.\<close>

definition ranges_inv :: "('o \<Rightarrow> nat) \<Rightarrow> nat \<Rightarrow> ('k \<Rightarrow> nat) \<Rightarrow> ('o \<times> 'k \<Rightarrow> u8 option) \<Rightarrow> bool" where
  "ranges_inv mem limit used bases \<longleftrightarrow> (\<forall>k. used k \<le> limit)
     \<and> (\<forall>ow k b. bases (ow, k) = Some b \<longrightarrow> unat b + mem ow \<le> used k)
     \<and> (\<forall>ow ow' k b b'. ow \<noteq> ow' \<longrightarrow> bases (ow, k) = Some b \<longrightarrow> bases (ow', k) = Some b' \<longrightarrow>
           unat b + mem ow \<le> unat b' \<or> unat b' + mem ow' \<le> unat b)"

lemma ranges_inv_add:
  assumes "ranges_inv mem limit used bases" "used k < 256" "used k + mem ow \<le> limit"
  shows "ranges_inv mem limit (used(k := used k + mem ow)) (bases((ow, k) := Some (of_nat (used k))))"
proof -
  have "unat (of_nat (used k) :: u8) = used k" using assms(2) by simp
  note u = this
  have old: "unat b + mem ow' \<le> used k'" if "bases (ow', k') = Some b" for ow' k' b
    using assms(1) that by (simp add: ranges_inv_def)
  have apart: "unat b + mem ow1 \<le> unat b' \<or> unat b' + mem ow2 \<le> unat b"
    if "ow1 \<noteq> ow2" "bases (ow1, k') = Some b" "bases (ow2, k') = Some b'" for ow1 ow2 k' b b'
    using assms(1) that unfolding ranges_inv_def by blast
  show ?thesis
    unfolding ranges_inv_def
  proof (intro conjI allI impI)
    show "(used(k := used k + mem ow)) k' \<le> limit" for k' using assms by (simp add: ranges_inv_def)
  next
    fix ow' k' b assume "(bases((ow, k) := Some (of_nat (used k)))) (ow', k') = Some b"
    then show "unat b + mem ow' \<le> (used(k := used k + mem ow)) k'"
      using u old[of ow' k' b] by (auto split: if_splits)
  next
    fix ow1 ow2 k' b b' assume ne: "ow1 \<noteq> ow2"
      and "(bases((ow, k) := Some (of_nat (used k)))) (ow1, k') = Some b"
      and "(bases((ow, k) := Some (of_nat (used k)))) (ow2, k') = Some b'"
    then show "unat b + mem ow1 \<le> unat b' \<or> unat b' + mem ow2 \<le> unat b"
      using u old[of ow1 k' b] old[of ow2 k' b'] apart[OF ne, of k' b b'] by (auto split: if_splits)
  qed
qed

lemma plan_resource_ranges:
  "plan_resource execs ow exec pred (mem ow) r st = Inr st' \<Longrightarrow>
     ranges_inv mem 256 (slot_total st) (claim_bases st) \<Longrightarrow> ranges_inv mem 256 (slot_total st') (claim_bases st')"
  using plan_resource_slots[of execs ow exec pred "mem ow" r st st'] ranges_inv_add[of mem 256 "slot_total st" "claim_bases st" "rd_ident r" ow]
  by (auto split: if_splits)

lemma plan_item_ranges:
  assumes "plan_item execs i st = Inr st'" "ranges_inv mem 256 (slot_total st) (claim_bases st)"
    and "\<And>ow cfg. item_ident_cfg i = Some (ow, cfg) \<Longrightarrow> member_count i = mem ow"
  shows "ranges_inv mem 256 (slot_total st') (claim_bases st')"
proof (cases "item_ident_cfg i")
  case (Some oc)
  then obtain ow cfg where oc: "item_ident_cfg i = Some (ow, cfg)" by (cases oc) auto
  then have "try_fold (plan_resource execs ow (item_executor i) (cfg_predicate cfg) (mem ow)) (item_resources i) st = Inr st'"
    using assms(1,3) by (simp add: plan_item_def)
  from try_fold_inv[OF this, of "\<lambda>st. ranges_inv mem 256 (slot_total st) (claim_bases st)"] show ?thesis
    using assms(2) plan_resource_ranges by blast
qed (use assms in \<open>simp add: plan_item_def\<close>)

text \<open>The members behind an owner's name, and that every divisible entry gets a base.\<close>

definition owner_members :: "item list \<Rightarrow> ident \<Rightarrow> nat" where
  "owner_members items ow = (case find (\<lambda>i. map_option fst (item_ident_cfg i) = Some ow) items of
     None \<Rightarrow> 0 | Some i \<Rightarrow> member_count i)"

definition item_names :: "item list \<Rightarrow> ident list" where
  "item_names items = map fst (List.map_filter item_ident_cfg items)"

lemma owner_members_item:
  "distinct (item_names items) \<Longrightarrow> i \<in> set items \<Longrightarrow> item_ident_cfg i = Some (ow, cfg) \<Longrightarrow>
     owner_members items ow = member_count i"
proof (induction items)
  case (Cons j js)
  show ?case
  proof (cases "i = j")
    case False
    then have "ow \<in> set (item_names js)" using Cons.prems by (force simp: item_names_def List.map_filter_def)
    then have "map_option fst (item_ident_cfg j) \<noteq> Some ow"
      using Cons.prems(1) by (force simp: item_names_def List.map_filter_simps split: option.splits)
    then show ?thesis using Cons False
      by (auto simp: owner_members_def item_names_def List.map_filter_simps split: option.splits)
  qed (use Cons.prems in \<open>simp add: owner_members_def\<close>)
qed simp

definition claims_of :: "item \<Rightarrow> (ident \<times> ident) list" where
  "claims_of i = (case item_ident_cfg i of
     None \<Rightarrow> []
   | Some (ow, _) \<Rightarrow> map (\<lambda>r. (ow, rd_ident r)) (filter (\<lambda>r. kind r = Divisible) (item_resources i)))"

lemma plan_resource_claims:
  "plan_resource execs ow exec pred members r st = Inr st' \<Longrightarrow>
     dom (claim_bases st') = dom (claim_bases st) \<union> (if kind r = Divisible then {(ow, rd_ident r)} else {})"
  using plan_resource_slots[of execs ow exec pred members r st st'] by (auto split: if_splits)

lemma plan_resource_list_claims:
  "try_fold (plan_resource execs ow exec pred members) rs st = Inr st' \<Longrightarrow>
     dom (claim_bases st') = dom (claim_bases st) \<union> (\<lambda>r. (ow, rd_ident r)) ` {r \<in> set rs. kind r = Divisible}"
proof (induction rs arbitrary: st)
  case (Cons r rs)
  then obtain u where "plan_resource execs ow exec pred members r st = Inr u"
    "try_fold (plan_resource execs ow exec pred members) rs u = Inr st'" by (auto split: sum.splits)
  then show ?case using Cons.IH[of u] plan_resource_claims[of execs ow exec pred members r st u] by auto
qed simp

lemma plan_item_claims:
  "plan_item execs i st = Inr st' \<Longrightarrow> dom (claim_bases st') = dom (claim_bases st) \<union> set (claims_of i)"
  by (auto simp: plan_item_def claims_of_def dest!: plan_resource_list_claims split: option.splits prod.splits)

lemma plan_resources_ranges:
  assumes "plan_resources items = Inr st" "distinct (item_names items)"
  shows "ranges_inv (owner_members items) 256 (slot_total st) (claim_bases st)
     \<and> dom (claim_bases st) = (\<Union>i \<in> set items. set (claims_of i))"
proof -
  let ?I = "\<lambda>ys st. ranges_inv (owner_members items) 256 (slot_total st) (claim_bases st)
     \<and> dom (claim_bases st) = (\<Union>i \<in> set ys. set (claims_of i))"
  have "?I items st"
  proof (rule try_fold_prefix[where I = ?I, OF assms(1)[unfolded plan_resources_def]])
    show "?I [] plan_new" by (simp add: ranges_inv_def plan_new_def slot_total_def)
  next
    fix ys i zs st st' assume xs: "items = ys @ i # zs" and I: "?I ys st"
      and st: "plan_item (executor_names items) i st = Inr st'"
    have m: "item_ident_cfg i = Some (ow, cfg) \<Longrightarrow> member_count i = owner_members items ow" for ow cfg
      using owner_members_item[OF assms(2), of i ow cfg] xs by simp
    show "?I (ys @ [i]) st'"
      using plan_item_ranges[OF st _ m] plan_item_claims[OF st] I by auto
  qed
  then show ?thesis .
qed

text \<open>
  Budget slots never overlap. In an accepted declaration every divisible entry of every node
  and pool gets a base slot; the slots from it on, one per member, lie inside the budget, which has
  at most 256; and two different declarers of a budget share none of them, so a stop releases
  only its own claim.
\<close>

theorem budget_slots_disjoint:
  assumes "plan_resources items = Inr st" "distinct (item_names items)"
    and i: "i \<in> set items" "(ow, key) \<in> set (claims_of i)"
  shows "\<exists>b. claim_bases st (ow, key) = Some b
     \<and> unat b + member_count i \<le> slot_total st key \<and> slot_total st key \<le> 256
     \<and> (\<forall>i' ow' b'. i' \<in> set items \<longrightarrow> (ow', key) \<in> set (claims_of i') \<longrightarrow> ow' \<noteq> ow \<longrightarrow>
           claim_bases st (ow', key) = Some b' \<longrightarrow>
           {unat b..<unat b + member_count i} \<inter> {unat b'..<unat b' + member_count i'} = {})"
proof -
  note r = plan_resources_ranges[OF assms(1,2)]
  have mem: "member_count i' = owner_members items ow'" if "i' \<in> set items" and c: "(ow', key) \<in> set (claims_of i')" for i' ow'
  proof -
    obtain cfg where "item_ident_cfg i' = Some (ow', cfg)"
      using c by (cases "item_ident_cfg i'") (auto simp: claims_of_def)
    then show ?thesis using owner_members_item[OF assms(2) that(1)] by simp
  qed
  obtain b where b: "claim_bases st (ow, key) = Some b" using r i by blast
  moreover have "unat b + member_count i \<le> slot_total st key" "slot_total st key \<le> 256"
    using r b mem[OF i] by (auto simp: ranges_inv_def)
  moreover have "{unat b..<unat b + member_count i} \<inter> {unat b'..<unat b' + member_count i'} = {}"
    if "i' \<in> set items" "(ow', key) \<in> set (claims_of i')" "ow' \<noteq> ow" "claim_bases st (ow', key) = Some b'" for i' ow' b'
  proof -
    have "unat b + member_count i \<le> unat b' \<or> unat b' + member_count i' \<le> unat b"
      using r b that mem[OF i] mem[OF that(1,2)] unfolding ranges_inv_def by metis
    then show ?thesis by auto
  qed
  ultimately show ?thesis by blast
qed

lemma radio_plan: "\<exists>st. plan_resources radio = Inr st"
  by (simp add: plan_resources_def plan_item_def plan_resource_def join_plan_def claim_slots_def plan_new_def
      executor_names_def List.map_filter_simps example_defs kind_def plan_sig_def put_plan_def cfg_predicate_def Let_def)

theorem budget_slots_disjoint_witness:
  "\<exists>st b b'. plan_resources radio = Inr st \<and> claim_bases st (''WORKER'', ''AIRTIME'') = Some b
     \<and> claim_bases st (''UPLINK'', ''AIRTIME'') = Some b' \<and> unat b' \<notin> {unat b..<unat b + 2}"
proof -
  obtain st where st: "plan_resources radio = Inr st" using radio_plan by blast
  have d: "distinct (item_names radio)" by (simp add: item_names_def List.map_filter_simps example_defs)
  let ?w = "radio ! 1" and ?u = "radio ! 2"
  have i: "?w \<in> set radio" "?u \<in> set radio" by (simp_all add: radio_def)
  have c: "(''WORKER'', ''AIRTIME'') \<in> set (claims_of ?w)" "(''UPLINK'', ''AIRTIME'') \<in> set (claims_of ?u)"
    by (simp_all add: claims_of_def example_defs kind_def)
  have m: "member_count ?w = 2" "member_count ?u = 1" by (simp_all add: example_defs)
  from budget_slots_disjoint[OF st d i(2) c(2)] obtain b' where b': "claim_bases st (''UPLINK'', ''AIRTIME'') = Some b'" by blast
  from budget_slots_disjoint[OF st d i(1) c(1)] obtain b where b: "claim_bases st (''WORKER'', ''AIRTIME'') = Some b"
    "{unat b..<unat b + 2} \<inter> {unat b'..<unat b' + 1} = {}"
    using b' i(2) c(2) m by fastforce
  then show ?thesis using st b' by auto
qed

section \<open>Veto slots\<close>

definition veto_total :: "veto_state \<Rightarrow> string \<Rightarrow> nat" where
  "veto_total st k = (case map_of (veto_plans st) k of None \<Rightarrow> 0 | Some pl \<Rightarrow> vp_total pl)"

lemma map_of_replace: "map_of (map (\<lambda>(k, q). if k = key then (k, p) else (k, q)) ps) k
   = (if k = key \<and> k \<in> fst ` set ps then Some p else map_of ps k)"
  by (induction ps) force+

lemma veto_entry_total:
  assumes "veto_entry_plan ow pred members d st = Inr st'"
  shows "veto_total st (display d) + members \<le> 32"
    "veto_total st' = (veto_total st)(display d := veto_total st (display d) + members)"
    "veto_bases st' = (veto_bases st)((ow, display d) := Some (of_nat (veto_total st (display d))))"
proof -
  let ?key = "display d"
  have k: "map_of (veto_plans st) ?key = None \<longleftrightarrow> ?key \<notin> fst ` set (veto_plans st)" by (rule map_of_eq_None_iff)
  show "veto_total st ?key + members \<le> 32"
    "veto_bases st' = (veto_bases st)((ow, ?key) := Some (of_nat (veto_total st ?key)))"
    using assms by (auto simp: veto_entry_plan_def veto_total_def Let_def split: if_splits option.splits)
  show "veto_total st' = (veto_total st)(?key := veto_total st ?key + members)"
    using assms k
    by (auto simp: veto_entry_plan_def veto_total_def Let_def fun_eq_iff map_of_replace map_of_append map_add_def
        split: if_splits option.splits) force+
qed

definition vetoes_of :: "item \<Rightarrow> (ident \<times> string) list" where
  "vetoes_of i = (case item_ident_cfg i of
     None \<Rightarrow> [] | Some (ow, _) \<Rightarrow> map (\<lambda>d. (ow, display d)) (filter sg_veto (item_writes i)))"

lemma veto_entry_ranges:
  "veto_entry_plan ow pred (mem ow) d st = Inr st' \<Longrightarrow> ranges_inv mem 32 (veto_total st) (veto_bases st) \<Longrightarrow>
     ranges_inv mem 32 (veto_total st') (veto_bases st')"
  using veto_entry_total[of ow pred "mem ow" d st st'] ranges_inv_add[of mem 32 "veto_total st" "veto_bases st" "display d" ow]
  by auto

lemma veto_list_bases:
  "try_fold (veto_entry_plan ow pred members) ds st = Inr st' \<Longrightarrow>
     dom (veto_bases st') = dom (veto_bases st) \<union> (\<lambda>d. (ow, display d)) ` set ds"
proof (induction ds arbitrary: st)
  case (Cons d ds)
  then obtain u where "veto_entry_plan ow pred members d st = Inr u"
    "try_fold (veto_entry_plan ow pred members) ds u = Inr st'" by (auto split: sum.splits)
  then show ?case using Cons.IH[of u] veto_entry_total(3)[of ow pred members d st u] by auto
qed simp

lemma veto_item_inv:
  assumes "veto_item i st = Inr st'" "ranges_inv mem 32 (veto_total st) (veto_bases st)"
    and "\<And>ow cfg. item_ident_cfg i = Some (ow, cfg) \<Longrightarrow> member_count i = mem ow"
  shows "ranges_inv mem 32 (veto_total st') (veto_bases st')
     \<and> dom (veto_bases st') = dom (veto_bases st) \<union> set (vetoes_of i)"
proof (cases "item_ident_cfg i")
  case (Some oc)
  then obtain ow cfg where oc: "item_ident_cfg i = Some (ow, cfg)" by (cases oc) auto
  then have f: "try_fold (veto_entry_plan ow (cfg_predicate cfg) (mem ow)) (filter sg_veto (item_writes i)) st = Inr st'"
    using assms(1,3) by (simp add: veto_item_def)
  from try_fold_inv[OF this, of "\<lambda>st. ranges_inv mem 32 (veto_total st) (veto_bases st)"] show ?thesis
    using assms(2) veto_entry_ranges veto_list_bases[OF f] oc by (auto simp: vetoes_of_def)
qed (use assms in \<open>simp add: veto_item_def vetoes_of_def\<close>)

text \<open>
  Veto contributors never share a bit: in an accepted declaration every \<open>veto\<close> entry gets a
  base, its members' slots are among the gate's contributors, of which there are at most 32, and
  different writers of a gate have disjoint slots. One writer's release cannot lift another's
  veto.
\<close>

theorem veto_slots_disjoint:
  assumes "plan_vetoes items = Inr st" "distinct (item_names items)"
    and "i \<in> set items" "(ow, key) \<in> set (vetoes_of i)" "i' \<in> set items" "(ow', key) \<in> set (vetoes_of i')" "ow' \<noteq> ow"
  shows "\<exists>b b'. veto_bases st (ow, key) = Some b \<and> veto_bases st (ow', key) = Some b'
     \<and> unat b + member_count i \<le> veto_total st key \<and> veto_total st key \<le> 32
     \<and> {unat b..<unat b + member_count i} \<inter> {unat b'..<unat b' + member_count i'} = {}"
proof -
  let ?m = "owner_members items"
  let ?I = "\<lambda>ys st. ranges_inv ?m 32 (veto_total st) (veto_bases st)
     \<and> dom (veto_bases st) = (\<Union>i \<in> set ys. set (vetoes_of i))"
  have m: "member_count i = ?m ow" if "i \<in> set items" "item_ident_cfg i = Some (ow, cfg)" for i ow cfg
    using owner_members_item[OF assms(2) that] by simp
  have "?I items st"
  proof (rule try_fold_prefix[where I = ?I, OF assms(1)[unfolded plan_vetoes_def]])
    show "?I [] veto_new" by (simp add: ranges_inv_def veto_new_def veto_total_def)
  next
    fix ys i zs st st' assume xs: "items = ys @ i # zs" and I: "?I ys st" and st: "veto_item i st = Inr st'"
    show "?I (ys @ [i]) st'" using veto_item_inv[OF st, of ?m] I m[of i] xs by auto
  qed
  then have r: "ranges_inv ?m 32 (veto_total st) (veto_bases st)"
    and dom: "dom (veto_bases st) = (\<Union>i \<in> set items. set (vetoes_of i))" by blast+
  have mem: "member_count i = ?m ow" if "i \<in> set items" and c: "(ow, key) \<in> set (vetoes_of i)" for i ow
  proof -
    obtain cfg where "item_ident_cfg i = Some (ow, cfg)"
      using c by (cases "item_ident_cfg i") (auto simp: vetoes_of_def)
    then show ?thesis using m that(1) by blast
  qed
  obtain b b' where b: "veto_bases st (ow, key) = Some b" "veto_bases st (ow', key) = Some b'" using dom assms(3-6) by blast
  have "unat b + member_count i \<le> unat b' \<or> unat b' + member_count i' \<le> unat b"
    using r b assms(7) mem[OF assms(3,4)] mem[OF assms(5,6)] unfolding ranges_inv_def by metis
  then have "{unat b..<unat b + member_count i} \<inter> {unat b'..<unat b' + member_count i'} = {}" by auto
  moreover have "unat b + member_count i \<le> veto_total st key" "veto_total st key \<le> 32"
    using r b mem[OF assms(3,4)] by (auto simp: ranges_inv_def)
  ultimately show ?thesis using b by blast
qed

definition trip :: signal_decl where
  "trip = \<lparr>sg_cfg = [], sg_path = \<lparr>leading_colon = False, segments = [''TRIP'']\<rparr>, sg_index = None, sg_observed = False,
     sg_beat = False, sg_veto = True, sg_via = None\<rparr>"

definition breakers :: "item list" where
  "breakers = [NodeItem ((plain_node ''A'' [] [])\<lparr>ni_writes := [trip]\<rparr>),
               PoolItem ((plain_pool ''B'' [''Terminate'', ''Terminate''] 1 2 [])\<lparr>pi_writes := [trip]\<rparr>)]"

theorem veto_slots_disjoint_witness:
  "\<exists>st b b'. plan_vetoes breakers = Inr st \<and> veto_bases st (''A'', ''TRIP'') = Some b
     \<and> veto_bases st (''B'', ''TRIP'') = Some b' \<and> unat b \<notin> {unat b'..<unat b' + 2}"
proof -
  obtain st where st: "plan_vetoes breakers = Inr st"
    by (simp add: plan_vetoes_def veto_item_def veto_entry_plan_def veto_new_def breakers_def trip_def display_def
        path_to_string_def veto_stem_def example_defs cfg_predicate_def Let_def)
  have d: "distinct (item_names breakers)" by (simp add: item_names_def List.map_filter_simps breakers_def example_defs)
  let ?a = "breakers ! 0" and ?b = "breakers ! 1"
  have i: "?a \<in> set breakers" "?b \<in> set breakers" by (simp_all add: breakers_def)
  have c: "(''A'', ''TRIP'') \<in> set (vetoes_of ?a)" "(''B'', ''TRIP'') \<in> set (vetoes_of ?b)"
    by (simp_all add: vetoes_of_def breakers_def example_defs trip_def display_def path_to_string_def)
  have m: "member_count ?a = 1" "member_count ?b = 2" by (simp_all add: breakers_def example_defs)
  from veto_slots_disjoint[OF st d i(1) c(1) i(2) c(2)] m st show ?thesis by fastforce
qed

section \<open>Exclusive slots\<close>

definition is_take :: "resource_decl \<Rightarrow> bool" where
  "is_take r \<longleftrightarrow> kind r = Lend \<or> kind r = Consume"

definition takes :: "item \<Rightarrow> ident list" where
  "takes i = map rd_ident (filter is_take (item_resources i))"

definition shares :: "item \<Rightarrow> ident list" where
  "shares i = map rd_ident (filter (\<lambda>r. \<not> is_take r) (item_resources i))"

definition plan_keys :: "resource_plan \<Rightarrow> ident set" where
  "plan_keys st = fst ` set (shared_plans st)"

lemma plan_keys_update [simp]: "plan_keys (st\<lparr>shared_plans := ps\<rparr>) = fst ` set ps"
  "plan_keys (st\<lparr>claim_bases := cb\<rparr>) = plan_keys st" "plan_keys (st\<lparr>taken_names := ns\<rparr>) = plan_keys st"
  by (simp_all add: plan_keys_def)

lemma put_slots_keys: "claim_slots ow members r pl st = Inr st' \<Longrightarrow>
    taken_names st' = taken_names st \<and> plan_keys st' = plan_keys st"
  by (simp add: claim_slots_def split: if_splits) (auto simp: plan_keys_def[symmetric])

lemma plan_resource_names:
  assumes "plan_resource execs ow exec pred members r st = Inr st'"
  shows "rd_ident r \<notin> set execs \<and> rd_ident r \<notin> set (taken_names st)
     \<and> (if is_take r then rd_ident r \<notin> plan_keys st \<and> taken_names st' = taken_names st @ [rd_ident r]
            \<and> plan_keys st' = plan_keys st
        else taken_names st' = taken_names st \<and> plan_keys st' = insert (rd_ident r) (plan_keys st))"
proof (cases "is_take r")
  case True
  then have "kind r \<noteq> Shared" "kind r \<noteq> Divisible" by (auto simp: is_take_def)
  then show ?thesis using assms True by (auto simp: plan_resource_def Let_def plan_keys_def[symmetric] split: if_splits)
next
  case False
  then have k: "kind r = Shared \<or> kind r = Divisible" by (cases "kind r") (auto simp: is_take_def)
  then obtain pl ps where j: "join_plan ow exec (all_preds pred (cfg_predicate (rd_cfg r))) r (shared_plans st) = Inr (pl, ps)"
    and n: "rd_ident r \<notin> set execs" "rd_ident r \<notin> set (taken_names st)"
    and st': "(if kind r = Divisible then claim_slots ow members r pl (st\<lparr>shared_plans := ps\<rparr>)
               else Inr (st\<lparr>shared_plans := ps\<rparr>)) = Inr st'"
    using assms by (auto simp: plan_resource_def Let_def split: if_splits sum.splits prod.splits)
  then show ?thesis
    using False join_plan_Inr(2)[OF j, folded plan_keys_def] put_slots_keys[of ow members r pl "st\<lparr>shared_plans := ps\<rparr>" st']
    by (cases "kind r = Divisible") auto
qed

definition names_inv :: "ident list \<Rightarrow> resource_decl list \<Rightarrow> resource_plan \<Rightarrow> bool" where
  "names_inv execs rs st \<longleftrightarrow> taken_names st = map rd_ident (filter is_take rs) \<and> distinct (taken_names st)
     \<and> plan_keys st = rd_ident ` {r \<in> set rs. \<not> is_take r}
     \<and> set (taken_names st) \<inter> plan_keys st = {} \<and> rd_ident ` set rs \<inter> set execs = {}"

lemma plan_resource_list_names:
  "try_fold (plan_resource execs ow exec pred members) rs st = Inr st' \<Longrightarrow> names_inv execs done st \<Longrightarrow>
     names_inv execs (done @ rs) st'"
proof (induction rs arbitrary: st "done")
  case (Cons r rs)
  then obtain u where u: "plan_resource execs ow exec pred members r st = Inr u"
    "try_fold (plan_resource execs ow exec pred members) rs u = Inr st'" by (auto split: sum.splits)
  have "names_inv execs (done @ [r]) u"
    using Cons.prems(2) plan_resource_names[OF u(1)] by (auto simp: names_inv_def split: if_splits)
  from Cons.IH[OF u(2) this] show ?case by simp
qed simp

text \<open>
  Exclusive slots are exclusive: in an accepted declaration a slot a node takes a value out of
  is declared by one entry of the whole graph, is not also a shared slot or a budget, and no
  resource has the name of an executor slot.
\<close>

theorem take_slots_exclusive:
  assumes "plan_resources items = Inr st"
  shows "distinct (concat (map takes items))
     \<and> set (concat (map takes items)) \<inter> set (concat (map shares items)) = {}
     \<and> set (concat (map takes items) @ concat (map shares items)) \<inter> set (executor_names items) = {}"
proof -
  let ?rs = "\<lambda>ys. concat (map item_resources ys)"
  have "names_inv (executor_names items) (?rs items) st"
  proof (rule try_fold_prefix[where I = "\<lambda>ys. names_inv (executor_names items) (?rs ys)", OF assms[unfolded plan_resources_def]])
    show "names_inv (executor_names items) (?rs []) plan_new" by (simp add: names_inv_def plan_new_def plan_keys_def)
  next
    fix ys i zs st st' assume I: "names_inv (executor_names items) (?rs ys) st"
      and st: "plan_item (executor_names items) i st = Inr st'"
    show "names_inv (executor_names items) (?rs (ys @ [i])) st'"
    proof (cases i)
      case (ExecutorItem x)
      then show ?thesis using st I by (simp add: plan_item_def)
    qed (use st plan_resource_list_names[OF _ I] in \<open>auto simp: plan_item_def\<close>)
  qed
  then have n: "distinct (map rd_ident (filter is_take (?rs items)))"
    "set (map rd_ident (filter is_take (?rs items))) \<inter> rd_ident ` {r \<in> set (?rs items). \<not> is_take r} = {}"
    "rd_ident ` set (?rs items) \<inter> set (executor_names items) = {}"
    unfolding names_inv_def by metis+
  have t: "concat (map takes items) = map rd_ident (filter is_take (?rs items))"
    by (induction items) (simp_all add: takes_def)
  have s: "set (concat (map shares items)) = rd_ident ` {r \<in> set (?rs items). \<not> is_take r}"
    by (auto simp: shares_def)
  have "set (concat (map takes items) @ concat (map shares items)) \<subseteq> rd_ident ` set (?rs items)"
    by (auto simp: takes_def shares_def)
  then have "set (concat (map takes items) @ concat (map shares items)) \<inter> set (executor_names items) = {}"
    using n(3) by blast
  then show ?thesis using n(1,2) s t by metis
qed

theorem take_slots_exclusive_witness:
  "distinct (concat (map takes radio)) \<and> ''UART'' \<in> set (concat (map takes radio))
     \<and> ''UART'' \<notin> set (concat (map shares radio))"
proof -
  obtain st where st: "plan_resources radio = Inr st" using radio_plan by blast
  have "''UART'' \<in> set (concat (map takes radio))" by (simp add: takes_def is_take_def kind_def example_defs)
  then show ?thesis using take_slots_exclusive[OF st] by blast
qed

end
