(* ===== verification/Expand_Graph.thy ===== *)
theory Expand_Graph
  imports Expand_Plan Control_Live
begin

text \<open>
  From the declaration to the running graph: the tables \<open>expand\<close> emits, built by the compiler,
  make a supervisor that meets what the waves and verbs rely on, with rows that lead to the
  declared dependencies. And what happens to a dependency on a pool without members.
\<close>

section \<open>Names lead to their slots\<close>

definition names_slot :: "ident \<Rightarrow> slot \<Rightarrow> bool" where
  "names_slot d sl \<longleftrightarrow> sl_reference sl = SlotRef d None \<or> sl_reference sl = SlotRef d (Some 0)"

definition emit_inv :: "emit_state \<Rightarrow> bool" where
  "emit_inv em \<longleftrightarrow> (\<forall>d k. em_names em d = Some k \<longrightarrow> k < length (em_slots em) \<and> names_slot d (em_slots em ! k))"

lemma add_name_inv:
  "add_name d sls em = Inr em' \<Longrightarrow> emit_inv em \<Longrightarrow> sls \<noteq> [] \<Longrightarrow> names_slot d (hd sls) \<Longrightarrow> emit_inv em'"
  by (cases sls) (fastforce simp: add_name_def emit_inv_def nth_append split: if_splits)+

lemma add_name_dom:
  "add_name d sls em = Inr em' \<Longrightarrow> d \<notin> dom (em_names em) \<and> dom (em_names em') = insert d (dom (em_names em))"
  by (auto simp: add_name_def split: if_splits)

lemma emit_item_add:
  assumes "emit_item items i em = Inr em'"
  shows "case i of
      ExecutorItem x \<Rightarrow> em' = em
    | NodeItem n \<Rightarrow> add_name (ni_ident n) [node_slot n] em = Inr em'
    | PoolItem p \<Rightarrow> add_name (pi_ident p) (pool_slots p) em = Inr em'"
  using assms by (auto simp: emit_item_def split: item.splits option.splits sum.splits)

lemma emit_item_dom:
  assumes "emit_item items i em = Inr em'"
  shows "case item_ident_cfg i of None \<Rightarrow> em' = em
    | Some (d, _) \<Rightarrow> d \<notin> dom (em_names em) \<and> dom (em_names em') = insert d (dom (em_names em))"
proof (cases i)
  case (NodeItem n)
  then have "add_name (ni_ident n) [node_slot n] em = Inr em'" using emit_item_add[OF assms] by simp
  from add_name_dom[OF this] show ?thesis using NodeItem by simp
next
  case (PoolItem p)
  then have "add_name (pi_ident p) (pool_slots p) em = Inr em'" using emit_item_add[OF assms] by simp
  from add_name_dom[OF this] show ?thesis using PoolItem by simp
qed (use emit_item_add[OF assms] in simp)

definition no_empty_pool :: "item list \<Rightarrow> bool" where
  "no_empty_pool items \<longleftrightarrow> (\<forall>p. PoolItem p \<in> set items \<longrightarrow> pi_modes p \<noteq> [])"

lemma emit_items_inv:
  assumes "emit_items items = Inr em" "no_empty_pool items"
  shows "emit_inv em"
proof (rule try_fold_inv[OF assms(1)[unfolded emit_items_def]])
  show "emit_inv \<lparr>em_names = (\<lambda>_. None), em_slots = []\<rparr>" by (simp add: emit_inv_def)
next
  fix i em em' assume i: "i \<in> set items" and inv: "emit_inv em" and e: "emit_item items i em = Inr em'"
  show "emit_inv em'"
  proof (cases i)
    case (PoolItem p)
    then have "pi_modes p \<noteq> []" using i assms(2) by (auto simp: no_empty_pool_def)
    then have "pool_slots p \<noteq> []" "names_slot (pi_ident p) (hd (pool_slots p))"
      by (auto simp: pool_slots_def names_slot_def hd_map upt_conv_Cons)
    then show ?thesis using emit_item_add[OF e] add_name_inv[OF _ inv] PoolItem by auto
  qed (use emit_item_add[OF e] add_name_inv[OF _ inv] in \<open>auto simp: node_slot_def names_slot_def inv\<close>)
qed

lemma emit_items_distinct:
  assumes "emit_items items = Inr em"
  shows "distinct (item_names items)"
proof -
  let ?I = "\<lambda>ys em. distinct (item_names ys) \<and> dom (em_names em) = set (item_names ys)"
  have "?I items em"
  proof (rule try_fold_prefix[where I = ?I, OF assms[unfolded emit_items_def]])
    show "?I [] \<lparr>em_names = (\<lambda>_. None), em_slots = []\<rparr>" by (simp add: item_names_def List.map_filter_simps)
  next
    fix ys i zs em em' assume I: "?I ys em" and e: "emit_item items i em = Inr em'"
    have nm: "item_names (ys @ [i]) = item_names ys @ (case item_ident_cfg i of None \<Rightarrow> [] | Some (d, _) \<Rightarrow> [d])"
      by (auto simp: item_names_def List.map_filter_def split: option.splits)
    show "?I (ys @ [i]) em'"
    proof (cases "item_ident_cfg i")
      case (Some dc)
      then obtain d cfg where "item_ident_cfg i = Some (d, cfg)" by (cases dc) auto
      then show ?thesis using I emit_item_dom[OF e] unfolding nm by simp
    qed (use I emit_item_dom[OF e] nm in simp)
  qed
  then show ?thesis by blast
qed

section \<open>Rows\<close>

lemma dep_row_Inr:
  "dep_row names ds seen = Inr row \<Longrightarrow>
     row = seen @ map (\<lambda>d. (of_nat (the (names (d_ident d))), d_cfg d)) ds \<and> (\<forall>d \<in> set ds. names (d_ident d) \<noteq> None)"
proof (induction ds arbitrary: seen)
  case (Cons d ds)
  then obtain k where k: "names (d_ident d) = Some k" "dep_row names ds (seen @ [(of_nat k, d_cfg d)]) = Inr row"
    by (auto simp: Let_def split: option.splits if_splits)
  from Cons.IH[OF k(2)] k(1) show ?case by simp
qed simp

lemma slot_tables_Inr:
  "slot_tables names sls = Inr rows \<Longrightarrow>
     rows = map (\<lambda>sl. map (\<lambda>d. (of_nat (the (names (d_ident d))), d_cfg d)) (sl_deps sl)) sls
     \<and> (\<forall>sl \<in> set sls. \<forall>d \<in> set (sl_deps sl). names (d_ident d) \<noteq> None)"
  by (induction sls arbitrary: rows) (auto split: sum.splits dest!: dep_row_Inr)

text \<open>The dependencies of a slot this build has.\<close>

definition live_deps :: "(string \<Rightarrow> bool) \<Rightarrow> slot \<Rightarrow> dep list" where
  "live_deps holds sl = filter (\<lambda>d. list_all holds (predicates (d_cfg d))) (sl_deps sl)"

lemma expand_Inr:
  assumes "expand items = Inr x"
  shows "plan_resources items = Inr (ex_plan x)" "plan_vetoes items = Inr (ex_vetoes x)"
    and "emit_items items = Inr \<lparr>em_names = ex_names x, em_slots = ex_slots x\<rparr>"
    and "length (ex_slots x) \<le> 256" "slot_tables (ex_names x) (ex_slots x) = Inr (ex_rows x)"
    and "ex_shape x = shape_bits items" "ex_flat x \<longleftrightarrow> list_all (\<lambda>sl. sl_deps sl = []) (ex_slots x)"
  using assms by (auto simp: expand_def split: sum.splits if_splits)

lemma built_rows_eq:
  assumes "expand items = Inr x"
  shows "built_rows holds x = map (\<lambda>sl. map (\<lambda>d. of_nat (the (ex_names x (d_ident d)))) (live_deps holds sl)) (ex_slots x)"
  using slot_tables_Inr[OF expand_Inr(5)[OF assms]]
  by (simp add: built_rows_def live_deps_def filter_map comp_def)

lemma names_slot_inj: "names_slot d sl \<Longrightarrow> names_slot e sl \<Longrightarrow> d = e"
  by (auto simp: names_slot_def)

lemma expand_names:
  assumes "expand items = Inr x" "no_empty_pool items" "ex_names x d = Some k"
  shows "k < length (ex_slots x)" "names_slot d (ex_slots x ! k)" "unat (of_nat k :: u8) = k"
proof -
  have "emit_inv \<lparr>em_names = ex_names x, em_slots = ex_slots x\<rparr>"
    using emit_items_inv[OF expand_Inr(3)[OF assms(1)] assms(2)] .
  then show k: "k < length (ex_slots x)" "names_slot d (ex_slots x ! k)"
    using assms(3) by (auto simp: emit_inv_def)
  then show "unat (of_nat k :: u8) = k" using expand_Inr(4)[OF assms(1)] by simp
qed

lemma live_dep_named:
  assumes "expand items = Inr x" "sl \<in> set (ex_slots x)" "d \<in> set (live_deps holds sl)"
  obtains k where "ex_names x (d_ident d) = Some k"
  using slot_tables_Inr[OF expand_Inr(5)[OF assms(1)]] assms(2,3) by (auto simp: live_deps_def)

lemma live_row_valid:
  assumes x: "expand items = Inr x" "no_empty_pool items" and sl: "sl \<in> set (ex_slots x)"
    and d: "distinct (map d_ident (live_deps holds sl))" and n: "length (sl_deps sl) < 256"
  defines "row \<equiv> map (\<lambda>d. of_nat (the (ex_names x (d_ident d))) :: u8) (live_deps holds sl)"
  shows "distinct row" "length row < 256" "\<forall>e \<in> set row. unat e < length (ex_slots x)"
    "map unat row = map (\<lambda>d. the (ex_names x (d_ident d))) (live_deps holds sl)"
proof -
  note k = expand_names[OF x]
  have named: "\<exists>k. ex_names x (d_ident d) = Some k" if "d \<in> set (live_deps holds sl)" for d
    using live_dep_named[OF x(1) sl that] by blast
  show u: "map unat row = map (\<lambda>d. the (ex_names x (d_ident d))) (live_deps holds sl)"
    unfolding row_def map_map by (rule map_cong[OF refl]) (use k(3) named in force)
  have "inj_on (\<lambda>a. the (ex_names x a)) (d_ident ` set (live_deps holds sl))"
  proof (rule inj_onI, elim imageE)
    fix a b d e assume d: "a = d_ident d" "d \<in> set (live_deps holds sl)" and e: "b = d_ident e" "e \<in> set (live_deps holds sl)"
      and eq: "the (ex_names x a) = the (ex_names x b)"
    obtain i where i: "ex_names x a = Some i" using named[OF d(2)] d(1) by blast
    moreover obtain j where j: "ex_names x b = Some j" using named[OF e(2)] e(1) by blast
    ultimately have "i = j" using eq by simp
    then show "a = b" using k(2)[OF i] k(2)[OF j] names_slot_inj by blast
  qed
  then have "distinct (map (\<lambda>a. the (ex_names x a)) (map d_ident (live_deps holds sl)))"
    unfolding distinct_map[of _ "map d_ident _"] using d by simp
  then have "distinct (map unat row)" unfolding u by (simp add: comp_def)
  then show "distinct row" using distinct_map by blast
  show "length row < 256" using n order.strict_trans1[OF length_filter_le n] by (simp add: row_def live_deps_def)
  have "unat (of_nat (the (ex_names x (d_ident d))) :: u8) < length (ex_slots x)" if "d \<in> set (live_deps holds sl)" for d
    using named[OF that] k(1,3) by force
  then show "\<forall>e \<in> set row. unat e < length (ex_slots x)" by (simp add: row_def)
qed

section \<open>The graph that is built\<close>

lemma built_graph_rows:
  assumes "expand items = Inr x" "no_empty_pool items" "built_graph holds at pools ref self x = Some G"
    and "\<forall>sl \<in> set (ex_slots x). length (sl_deps sl) < 256 \<and> distinct (map d_ident (live_deps holds sl))"
  defines "S \<equiv> supervisor_new G"
  shows "wf_sup S \<and> s_size S = length (ex_slots x)
     \<and> (\<forall>j < s_size S. list_all2 (\<lambda>d k. k < s_size S \<and> names_slot (d_ident d) (ex_slots x ! k))
          (live_deps holds (ex_slots x ! j)) (deps_row S j))"
proof -
  note row = live_row_valid[OF assms(1,2)]
  obtain t where t: "built_topology holds x = Some t" and S: "s_topo S = t" "s_size S = length (ex_slots x)"
    using assms(3) by (auto simp: built_graph_def S_def supervisor_new_def s_size_def built_nodes_def)
  have le: "length (ex_slots x) \<le> 256" using expand_Inr(4)[OF assms(1)] .
  have valid: "valid_deps (built_rows holds x)"
    using row assms(4) le unfolding built_rows_eq[OF assms(1)] valid_deps_def by auto
  have "length (built_rows holds x) = length (ex_slots x)" by (simp add: built_rows_eq[OF assms(1)])
  then have wf: "wf_sup S"
    using t S le valid by (auto simp: built_topology_def wf_sup_def ordered_new_def split: if_splits topology.splits)
  have deps: "deps_row S j = map (\<lambda>d. the (ex_names x (d_ident d))) (live_deps holds (ex_slots x ! j))"
    if j: "j < length (ex_slots x)" for j
  proof (cases "ex_flat x")
    case True
    then have "sl_deps (ex_slots x ! j) = []"
      using expand_Inr(7)[OF assms(1)] j by (simp add: list_all_length)
    then show ?thesis using t True S by (simp add: built_topology_def deps_row_def live_deps_def)
  next
    case False
    then have "\<exists>ord. t = Ordered (built_rows holds x) ord" using t by (auto simp: built_topology_def ordered_new_def)
    moreover have "unat (of_nat j :: u8) = j" using j le by simp
    ultimately show ?thesis using S j row(4)[OF nth_mem[OF j], of holds] assms(4)
      by (auto simp: deps_row_def built_rows_eq[OF assms(1)] array_get_def)
  qed
  have "list_all2 (\<lambda>d k. k < s_size S \<and> names_slot (d_ident d) (ex_slots x ! k))
      (live_deps holds (ex_slots x ! j)) (deps_row S j)" if j: "j < length (ex_slots x)" for j
    unfolding deps[OF j] list.rel_map list.rel_refl_strong S(2)
    by (rule list.rel_refl_strong) (metis live_dep_named[OF assms(1) nth_mem[OF j]] expand_names(1,2)[OF assms(1,2)] option.sel)
  then show ?thesis using wf S by simp
qed


text \<open>Where the nodes of an example are linked.\<close>

fun linked :: "slot_ref \<Rightarrow> nref" where
  "linked (SlotRef d None) = (if d = ''LINK'' then 0 else 3)"
| "linked (SlotRef d (Some j)) = 1 + j"

lemma radio_emit:
  "emit_items radio = Inr \<lparr>em_names = [''LINK'' \<mapsto> 0, ''WORKER'' \<mapsto> 1, ''UPLINK'' \<mapsto> 3],
     em_slots = [node_slot (plain_node ''LINK'' [] [slot_entry ''UART'', budget_entry ''AIRTIME''])]
       @ pool_slots (plain_pool ''WORKER'' [''Terminate'', ''OnDemand''] 1 2 [budget_entry ''AIRTIME''])
       @ [node_slot (plain_node ''UPLINK'' [needs ''LINK'', needs ''WORKER''] [budget_entry ''AIRTIME''])]\<rparr>"
  by (simp add: emit_items_def emit_item_def add_name_def known_executor_def check_pool_def radio_def
      plain_node_def plain_pool_def pool_slots_def Let_def numeral_3_eq_3)

lemma radio_expand: "\<exists>x. expand radio = Inr x \<and> map sl_reference (ex_slots x)
      = [SlotRef ''LINK'' None, SlotRef ''WORKER'' (Some 0), SlotRef ''WORKER'' (Some 1), SlotRef ''UPLINK'' None]
    \<and> map sl_deps (ex_slots x) = [[], [], [], [needs ''LINK'', needs ''WORKER'']]
    \<and> ex_rows x = [[], [], [], [(0, []), (1, [])]] \<and> \<not> ex_flat x"
proof -
  obtain pl where pl: "plan_resources radio = Inr pl" using radio_plan by blast
  have v: "plan_vetoes radio = Inr veto_new"
    by (simp add: plan_vetoes_def veto_item_def radio_def plain_node_def plain_pool_def)
  have l: "check_locals radio = Inr (\<lambda>_. None)"
    by (simp add: check_locals_def home_item_def home_entry_def provider_item_def example_defs)
  show ?thesis
    by (simp add: expand_def pl v l radio_emit pool_slots_def node_slot_def plain_node_def plain_pool_def needs_def Let_def)
qed


section \<open>Two boundary cases\<close>

text \<open>
  A pool may have no member: its bounds are 0. A dependency on it is accepted and leads to the
  slot of whatever item comes next.
\<close>

lemma dep_on_empty_pool:
  fixes items
  defines "items \<equiv> [NodeItem (plain_node ''A'' [needs ''P''] []), PoolItem (plain_pool ''P'' [] 0 0 []),
                    NodeItem (plain_node ''B'' [] [])]"
  shows "\<exists>x. expand items = Inr x \<and> ex_rows x = [[(1, [])], []] \<and> sl_reference (ex_slots x ! 1) = SlotRef ''B'' None"
  by (simp add: items_def expand_def plan_resources_def plan_item_def check_locals_def home_item_def provider_item_def
      plan_vetoes_def veto_item_def emit_items_def emit_item_def known_executor_def add_name_def check_pool_def
      pool_slots_def node_slot_def plain_node_def plain_pool_def needs_def Let_def)

text \<open>
  The same dependency under two conditions passes the check for duplicates. When both hold, the
  row names the node twice and the const sort gives up as for a cycle.
\<close>

lemma dep_under_two_conditions:
  fixes items
  defines "items \<equiv> [NodeItem (plain_node ''A'' [] []),
                    NodeItem (plain_node ''B'' [(needs ''A'')\<lparr>d_cfg := [CfgAttr ''wifi'']\<rparr>, (needs ''A'')\<lparr>d_cfg := [CfgAttr ''ble'']\<rparr>] [])]"
  shows "\<exists>x. expand items = Inr x \<and> built_rows (\<lambda>_. True) x = [[], [0, 0]]
    \<and> built_graph (\<lambda>_. True) linked [] 0 None x = None"
proof -
  have t: "topo_sort_const [[], [0, 0]] = None" by code_simp
  have "\<exists>x. expand items = Inr x \<and> ex_rows x = [[], [(0, [CfgAttr ''wifi'']), (0, [CfgAttr ''ble''])]] \<and> \<not> ex_flat x"
    by (simp add: items_def expand_def plan_resources_def plan_item_def check_locals_def home_item_def provider_item_def
      plan_vetoes_def veto_item_def emit_items_def emit_item_def known_executor_def add_name_def
      node_slot_def plain_node_def needs_def Let_def)
  then show ?thesis by (auto simp: built_rows_def built_graph_def built_topology_def ordered_new_def t)
qed

end
