(* ===== verification/Tokens.thy ===== *)
theory Tokens
  imports Declaration
begin

text \<open>
  What the parser of \<^verbatim>\<open>supervisor-syntax/src/lib.rs\<close> reads and what it is built from: token trees as
  \<^verbatim>\<open>proc_macro2\<close> delivers them, the entry points of the \<^verbatim>\<open>syn\<close> crate as parameters, and a sum of an
  error and a value with the tokens left. A loop of the parser goes on while tokens are used up;
  that \<^verbatim>\<open>syn\<close> always uses some is not assumed, a round that uses none is the error \<open>Stuck\<close>. Groups
  without delimiters, which \<open>macro_rules!\<close> inserts, do not occur.
\<close>

section \<open>Token trees\<close>

datatype delim = Paren | Bracket | Brace

text \<open>A punctuation character says whether it is glued to the next one.\<close>

datatype tok = TIdent string | TPunct char bool | TLit string | TGroup delim "tok list"

datatype parse_error =
    Expected string | Stuck | SynError | NotU64
  | UnknownDepMarker ident | DuplicateDepMarker ident | BoundWithoutReady
  | ViaWithoutObserved | UnknownSignalMarker ident | DuplicateMarker ident | BareBeat
  | SignalList signal_list_error
  | ConsumeAndShared | DivisibleAndOther | SerializedNotShared | DivisibleTyped
  | DuplicateClause string | NotCfg | NotGateable | ZeroTimeout string | DiscoverArgument
  | DuplicateAdopted | EmptyDataflow | TaskAndSpawn
  | PoolSizeRemoved | RestartMaxZero | RestartMaxNotU16 | RestartWindowZero
  | DuplicateProvides ident | EmptyProvides
  | BeatTimeoutZero | WindowWithoutTimeout | WindowOutOfRange | WindowGate | ReadyGate
  | BeatOnRead | VetoOnRead | UnmarkedBesideDiscover | DiscoverParked
  | ReadyNeedsBeat | ReadyNeedsTimeout | NeedsTask string | EmptyResources | DuplicateResourceName ident
  | CancelPause | PoolExit | LocalTakePool | PoolMissing "string list"
  | NotAnItem | DefaultGated | DefaultInFragment

type_synonym 'a parsed = "parse_error + 'a \<times> tok list"

text \<open>
  The \<^verbatim>\<open>syn\<close> crate: which words are reserved in Rust, the parsers of an expression, a type and a
  path with what they leave, the attribute a bracket holds, the value of an integer literal, and
  the text of a type and a path as tokens print.
\<close>

record syn =
  syn_reserved :: "string \<Rightarrow> bool"
  syn_expr :: "tok list \<Rightarrow> (expr \<times> tok list) option"
  syn_type :: "tok list \<Rightarrow> (string \<times> tok list) option"
  syn_path :: "tok list \<Rightarrow> (signal_path \<times> tok list) option"
  syn_meta :: "tok list \<Rightarrow> attr option"
  syn_int :: "string \<Rightarrow> nat option"
  syn_text :: "expr \<Rightarrow> string"

section \<open>Parser steps\<close>

definition bindp :: "'a parsed \<Rightarrow> ('a \<Rightarrow> tok list \<Rightarrow> parse_error + 'b) \<Rightarrow> parse_error + 'b" where
  "bindp r f = (case r of Inl e \<Rightarrow> Inl e | Inr (x, ts) \<Rightarrow> f x ts)"

lemma bindp_cong [fundef_cong]:
  "r = r' \<Longrightarrow> (\<And>x ts. r' = Inr (x, ts) \<Longrightarrow> f x ts = g x ts) \<Longrightarrow> bindp r f = bindp r' g"
  by (auto simp: bindp_def split: sum.split)

lemma bindp_weak_cong: "r = r' \<Longrightarrow> bindp r f = bindp r' f"
  by simp

lemma bindp_Inr [simp]: "bindp (Inr (x, ts)) f = f x ts"
  by (simp add: bindp_def)

lemma bindp_eq_Inr: "bindp r f = Inr y \<longleftrightarrow> (\<exists>x ts. r = Inr (x, ts) \<and> f x ts = Inr y)"
  by (auto simp: bindp_def split: sum.split)

text \<open>A check that stops the parser.\<close>

definition ensure_that :: "bool \<Rightarrow> parse_error \<Rightarrow> parse_error + 'b \<Rightarrow> parse_error + 'b" where
  "ensure_that c e k = (if c then k else Inl e)"

lemma ensure_that_Inr: "ensure_that c e k = Inr y \<longleftrightarrow> c \<and> k = Inr y"
  by (simp add: ensure_that_def)

fun peek_kw :: "string \<Rightarrow> tok list \<Rightarrow> bool" where
  "peek_kw w (TIdent s # ts) = (s = w)"
| "peek_kw w _ = False"

fun peek_punct :: "char \<Rightarrow> tok list \<Rightarrow> bool" where
  "peek_punct c (TPunct d _ # ts) = (d = c)"
| "peek_punct c _ = False"

fun peek_ident :: "syn \<Rightarrow> tok list \<Rightarrow> bool" where
  "peek_ident sy (TIdent s # ts) = (\<not> syn_reserved sy s)"
| "peek_ident sy _ = False"

fun peek_bracket :: "tok list \<Rightarrow> bool" where
  "peek_bracket (TGroup Bracket _ # ts) = True"
| "peek_bracket _ = False"

fun peek_colons :: "tok list \<Rightarrow> bool" where
  "peek_colons (TPunct c j # TPunct d _ # ts) = (c = CHR '':'' \<and> j \<and> d = CHR '':'')"
| "peek_colons _ = False"

fun kw :: "string \<Rightarrow> tok list \<Rightarrow> unit parsed" where
  "kw w (TIdent s # ts) = (if s = w then Inr ((), ts) else Inl (Expected w))"
| "kw w _ = Inl (Expected w)"

fun punct :: "char \<Rightarrow> tok list \<Rightarrow> unit parsed" where
  "punct c (TPunct d _ # ts) = (if d = c then Inr ((), ts) else Inl (Expected [c]))"
| "punct c _ = Inl (Expected [c])"

fun ident :: "syn \<Rightarrow> tok list \<Rightarrow> ident parsed" where
  "ident sy (TIdent s # ts) = (if syn_reserved sy s then Inl (Expected ''identifier'') else Inr (s, ts))"
| "ident sy _ = Inl (Expected ''identifier'')"

fun bracketed :: "tok list \<Rightarrow> tok list parsed" where
  "bracketed (TGroup Bracket content # ts) = Inr (content, ts)"
| "bracketed _ = Inl (Expected ''square brackets'')"

fun int_lit :: "syn \<Rightarrow> tok list \<Rightarrow> nat parsed" where
  "int_lit sy (TLit s # ts) = (case syn_int sy s of None \<Rightarrow> Inl (Expected ''integer literal'') | Some n \<Rightarrow> Inr (n, ts))"
| "int_lit sy _ = Inl (Expected ''integer literal'')"

definition by_syn :: "('a \<times> tok list) option \<Rightarrow> 'a parsed" where
  "by_syn r = (case r of None \<Rightarrow> Inl SynError | Some x \<Rightarrow> Inr x)"

definition is_u64 :: "nat \<Rightarrow> bool" where
  "is_u64 n \<longleftrightarrow> n < 2 ^ 64"

text \<open>An optional trailing comma.\<close>

definition skip_comma :: "tok list \<Rightarrow> tok list" where
  "skip_comma ts = (if peek_punct CHR '','' ts then tl ts else ts)"

text \<open>\<open>join(",")\<close>.\<close>

fun join_comma :: "string list \<Rightarrow> string" where
  "join_comma [] = []"
| "join_comma [s] = s"
| "join_comma (s # t # ss) = s @ '','' @ join_comma (t # ss)"

text \<open>A \<open>while\<close> loop over the tokens left.\<close>

function loop :: "('s \<Rightarrow> tok list \<Rightarrow> bool) \<Rightarrow> ('s \<Rightarrow> tok list \<Rightarrow> 's parsed) \<Rightarrow> 's \<Rightarrow> tok list \<Rightarrow> 's parsed" where
  "loop goon p s ts =
     (if \<not> goon s ts then Inr (s, ts)
      else bindp (p s ts) (\<lambda>s' ts'. if length ts' < length ts then loop goon p s' ts' else Inl Stuck))"
  by pat_completeness auto
termination by (relation "measure (\<lambda>(goon, p, s, ts). length ts)") auto

declare loop.simps [simp del]

lemma loop_done: "\<not> goon s ts \<Longrightarrow> loop goon p s ts = Inr (s, ts)"
  by (simp add: loop.simps)

lemma loop_step:
  "goon s ts \<Longrightarrow> p s ts = Inr (s', ts') \<Longrightarrow> length ts' < length ts \<Longrightarrow> loop goon p s ts = loop goon p s' ts'"
  by (subst loop.simps) simp

lemma loop_inv:
  "loop goon p s ts = Inr (t, us) \<Longrightarrow> I s \<Longrightarrow> (\<And>s ts t us. I s \<Longrightarrow> p s ts = Inr (t, us) \<Longrightarrow> I t) \<Longrightarrow> I t"
proof (induction goon p s ts rule: loop.induct)
  case (1 goon p s ts)
  show ?case
  proof (cases "goon s ts")
    case True
    then obtain s' ts' where p: "p s ts = Inr (s', ts')" and l: "length ts' < length ts" "loop goon p s' ts' = Inr (t, us)"
      using "1.prems"(1) by (subst (asm) loop.simps) (auto simp: bindp_eq_Inr split: if_splits)
    have "\<not> \<not> goon s ts" using True by simp
    then show ?thesis
      by (rule "1.IH"[OF _ p l(1) l(2) "1.prems"(3)[OF "1.prems"(2) p]]) (rule "1.prems"(3))
  next
    case False
    then show ?thesis using "1.prems" by (subst (asm) loop.simps) simp
  qed
qed

text \<open>\<open>Attribute::parse_outer\<close>.\<close>

definition one_attr :: "syn \<Rightarrow> attr list \<Rightarrow> tok list \<Rightarrow> attr list parsed" where
  "one_attr sy as ts =
     bindp (punct CHR ''#'' ts) (\<lambda>_ ts. bindp (bracketed ts) (\<lambda>content ts.
       case syn_meta sy content of None \<Rightarrow> Inl SynError | Some a \<Rightarrow> Inr (as @ [a], ts)))"

definition outer_attrs :: "syn \<Rightarrow> tok list \<Rightarrow> attr list parsed" where
  "outer_attrs sy ts = loop (\<lambda>_. peek_punct CHR ''#'') (one_attr sy) [] ts"

end
