(* ===== verification/Small_Syn.thy ===== *)
theory Small_Syn
  imports Tokens
begin

text \<open>
  A small Rust for examples: a handful of reserved words, an expression is a word, a call without
  arguments or a number, a type is a word, a path is words with \<open>::\<close> between.
\<close>

fun digits :: "string \<Rightarrow> nat \<Rightarrow> nat option" where
  "digits [] n = Some n"
| "digits (c # cs) n =
     (if 48 \<le> (of_char c :: nat) \<and> (of_char c :: nat) \<le> 57 then digits cs (10 * n + (of_char c - 48)) else None)"

definition small_reserved :: "string \<Rightarrow> bool" where
  "small_reserved w = (w \<in> set [''in'', ''default'', ''crate'', ''self'', ''super'', ''fn'', ''let'', ''static'', ''type''])"

fun small_expr :: "tok list \<Rightarrow> (expr \<times> tok list) option" where
  "small_expr (TIdent w # TGroup Paren [] # ts) = Some (ExprCall w, ts)"
| "small_expr (TIdent w # ts) = Some (ExprPath w, ts)"
| "small_expr (TLit s # ts) = map_option (\<lambda>n. (ExprLit n, ts)) (digits s 0)"
| "small_expr _ = None"

fun small_type :: "tok list \<Rightarrow> (string \<times> tok list) option" where
  "small_type (TIdent w # ts) = Some (w, ts)"
| "small_type _ = None"

fun small_path :: "tok list \<Rightarrow> (signal_path \<times> tok list) option" where
  "small_path (TIdent w # TPunct c True # TPunct d j # ts) =
     (if c = CHR '':'' \<and> d = CHR '':''
      then map_option (\<lambda>(p, us). (p\<lparr>segments := w # segments p\<rparr>, us)) (small_path ts)
      else Some (\<lparr>leading_colon = False, segments = [w]\<rparr>, TPunct c True # TPunct d j # ts))"
| "small_path (TIdent w # ts) = Some (\<lparr>leading_colon = False, segments = [w]\<rparr>, ts)"
| "small_path _ = None"

fun small_meta :: "tok list \<Rightarrow> attr option" where
  "small_meta [TIdent w, TGroup Paren [TIdent p]] = Some (if w = ''cfg'' then CfgAttr p else OtherAttr (w @ p))"
| "small_meta _ = None"

fun small_text :: "expr \<Rightarrow> string" where
  "small_text (ExprPath w) = w"
| "small_text (ExprCall w) = w @ ''()''"
| "small_text (ExprLit n) = replicate n CHR ''1''"
| "small_text (ExprOther w) = w"

definition small_syn :: syn where
  "small_syn = \<lparr>syn_reserved = small_reserved, syn_expr = small_expr, syn_type = small_type, syn_path = small_path,
     syn_meta = small_meta, syn_int = (\<lambda>s. digits s 0), syn_text = small_text\<rparr>"

end
