(* ===== verification/Parse.thy ===== *)
theory Parse
  imports Tokens
begin

text \<open>
  The parser of the graph declaration in \<^verbatim>\<open>supervisor-syntax/src/lib.rs\<close>: entry lists, the clauses
  nodes and pools share, \<open>parse_node\<close>, \<open>parse_pool\<close> and the graph itself. Every \<open>return Err\<close> is an
  \<open>Inl\<close>; checks are made in the order of the source.
\<close>

section \<open>Entry lists\<close>

text \<open>A bracketed list, entry by entry to its end.\<close>

definition entries :: "('a \<Rightarrow> tok list \<Rightarrow> 'a parsed) \<Rightarrow> 'a \<Rightarrow> tok list \<Rightarrow> 'a parsed" where
  "entries entry start ts =
     bindp (bracketed ts) (\<lambda>content ts.
       bindp (loop (\<lambda>_ c. c \<noteq> []) entry start content) (\<lambda>xs _. Inr (xs, ts)))"

definition dep_marker :: "syn \<Rightarrow> dep \<Rightarrow> tok list \<Rightarrow> dep parsed" where
  "dep_marker sy d ts =
     bindp (ident sy ts) (\<lambda>m ts.
       if m = ''ready'' then ensure_that (\<not> d_ready d) (DuplicateDepMarker m) (Inr (d\<lparr>d_ready := True\<rparr>, ts))
       else if m = ''bound'' then ensure_that (\<not> d_bound d) (DuplicateDepMarker m) (Inr (d\<lparr>d_bound := True\<rparr>, ts))
       else Inl (UnknownDepMarker m))"

definition dep_entry :: "syn \<Rightarrow> dep list \<Rightarrow> tok list \<Rightarrow> dep list parsed" where
  "dep_entry sy deps ts =
     bindp (outer_attrs sy ts) (\<lambda>cfg ts.
     bindp (ident sy ts) (\<lambda>name ts.
     bindp (loop (\<lambda>_. peek_ident sy) (dep_marker sy) \<lparr>d_cfg = cfg, d_ident = name, d_ready = False, d_bound = False\<rparr> ts)
       (\<lambda>d ts. ensure_that (d_bound d \<longrightarrow> d_ready d) BoundWithoutReady (Inr (deps @ [d], skip_comma ts)))))"

definition parse_dep_list :: "syn \<Rightarrow> tok list \<Rightarrow> dep list parsed" where
  "parse_dep_list sy ts = entries (dep_entry sy) [] ts"

definition signal_marker :: "syn \<Rightarrow> signal_decl \<Rightarrow> tok list \<Rightarrow> signal_decl parsed" where
  "signal_marker sy d ts =
     bindp (ident sy ts) (\<lambda>m ts.
       if m = ''observed'' then ensure_that (\<not> sg_observed d) (DuplicateMarker m) (Inr (d\<lparr>sg_observed := True\<rparr>, ts))
       else if m = ''beat'' then ensure_that (\<not> sg_beat d) (DuplicateMarker m) (Inr (d\<lparr>sg_beat := True\<rparr>, ts))
       else if m = ''veto'' then ensure_that (\<not> sg_veto d) (DuplicateMarker m) (Inr (d\<lparr>sg_veto := True\<rparr>, ts))
       else if m = ''via''
       then ensure_that (sg_observed d) ViaWithoutObserved
              (bindp (by_syn (syn_expr sy ts)) (\<lambda>e ts. Inr (d\<lparr>sg_via := Some e\<rparr>, ts)))
       else Inl (UnknownSignalMarker m))"

definition signal_index :: "syn \<Rightarrow> tok list \<Rightarrow> string option parsed" where
  "signal_index sy ts =
     (if \<not> peek_bracket ts then Inr (None, ts)
      else bindp (bracketed ts) (\<lambda>idx ts.
             bindp (by_syn (syn_expr sy idx)) (\<lambda>e rest.
               if rest = [] then Inr (Some (syn_text sy e), ts) else Inl SynError)))"

definition signal_entry :: "syn \<Rightarrow> signal_decl list \<Rightarrow> tok list \<Rightarrow> signal_decl list parsed" where
  "signal_entry sy decls ts =
     bindp (outer_attrs sy ts) (\<lambda>cfg ts.
     bindp (by_syn (syn_path sy ts)) (\<lambda>path ts.
     bindp (signal_index sy ts) (\<lambda>index ts.
     bindp (loop (\<lambda>d ts. peek_ident sy ts \<and> sg_via d = None) (signal_marker sy)
              \<lparr>sg_cfg = cfg, sg_path = path, sg_index = index, sg_observed = False, sg_beat = False,
               sg_veto = False, sg_via = None\<rparr> ts)
       (\<lambda>d ts. ensure_that (sg_beat d \<longrightarrow> sg_observed d) BareBeat
          (if ts = [] then Inr (decls @ [d], ts)
           else bindp (punct CHR '','' ts) (\<lambda>_ ts. Inr (decls @ [d], ts)))))))"

definition parse_signal_list :: "syn \<Rightarrow> tok list \<Rightarrow> signal_decl list parsed" where
  "parse_signal_list sy ts = entries (signal_entry sy) [] ts"

definition mode_entry :: "syn \<Rightarrow> ident list \<Rightarrow> tok list \<Rightarrow> ident list parsed" where
  "mode_entry sy modes ts =
     bindp (ident sy ts) (\<lambda>m ts.
       if ts = [] then Inr (modes @ [m], ts)
       else bindp (punct CHR '','' ts) (\<lambda>_ ts. Inr (modes @ [m], ts)))"

definition parse_mode_list :: "syn \<Rightarrow> tok list \<Rightarrow> ident list parsed" where
  "parse_mode_list sy ts = entries (mode_entry sy) [] ts"

definition KIND_MARKERS :: "ident list" where
  "KIND_MARKERS = [''local'', ''consume'', ''shared'', ''divisible'', ''serialized'']"

fun peek_kind_marker :: "syn \<Rightarrow> tok list \<Rightarrow> bool" where
  "peek_kind_marker sy (TIdent m # rest) =
     (\<not> syn_reserved sy m \<and> m \<in> set KIND_MARKERS \<and>
      (if m = ''divisible'' then \<not> peek_colons rest \<and> \<not> peek_punct CHR ''<'' rest
       else \<not> (rest = [] \<or> peek_punct CHR '','' rest \<or> peek_colons rest \<or> peek_punct CHR ''<'' rest)))"
| "peek_kind_marker sy _ = False"

definition kind_marker :: "syn \<Rightarrow> resource_decl \<Rightarrow> tok list \<Rightarrow> resource_decl parsed" where
  "kind_marker sy r ts =
     bindp (ident sy ts) (\<lambda>m ts.
       if m = ''local'' then ensure_that (\<not> rd_local r) (DuplicateMarker m) (Inr (r\<lparr>rd_local := True\<rparr>, ts))
       else if m = ''consume'' then ensure_that (\<not> rd_consume r) (DuplicateMarker m) (Inr (r\<lparr>rd_consume := True\<rparr>, ts))
       else if m = ''shared'' then ensure_that (\<not> rd_shared r) (DuplicateMarker m) (Inr (r\<lparr>rd_shared := True\<rparr>, ts))
       else if m = ''divisible'' then ensure_that (\<not> rd_divisible r) (DuplicateMarker m) (Inr (r\<lparr>rd_divisible := True\<rparr>, ts))
       else ensure_that (\<not> rd_serialized r) (DuplicateMarker m) (Inr (r\<lparr>rd_serialized := True\<rparr>, ts)))"

definition resource_type :: "syn \<Rightarrow> resource_decl \<Rightarrow> tok list \<Rightarrow> resource_decl parsed" where
  "resource_type sy r ts =
     (if rd_divisible r
      then ensure_that (ts = [] \<or> peek_punct CHR '','' ts) DivisibleTyped (Inr (r, ts))
      else bindp (by_syn (syn_type sy ts)) (\<lambda>ty ts. Inr (r\<lparr>rd_ty := Some ty\<rparr>, ts)))"

definition resource_entry :: "syn \<Rightarrow> resource_decl list \<Rightarrow> tok list \<Rightarrow> resource_decl list parsed" where
  "resource_entry sy rs ts =
     bindp (outer_attrs sy ts) (\<lambda>cfg ts.
     bindp (ident sy ts) (\<lambda>name ts.
     bindp (punct CHR '':'' ts) (\<lambda>_ ts.
     bindp (loop (\<lambda>_. peek_kind_marker sy) (kind_marker sy)
              \<lparr>rd_cfg = cfg, rd_ident = name, rd_ty = None, rd_local = False, rd_consume = False,
               rd_shared = False, rd_divisible = False, rd_serialized = False\<rparr> ts)
       (\<lambda>r ts. ensure_that (\<not> (rd_consume r \<and> rd_shared r)) ConsumeAndShared
         (ensure_that (rd_divisible r \<longrightarrow> \<not> rd_local r \<and> \<not> rd_consume r \<and> \<not> rd_shared r) DivisibleAndOther
         (ensure_that (rd_serialized r \<longrightarrow> rd_shared r) SerializedNotShared
         (bindp (resource_type sy r ts) (\<lambda>r ts. Inr (rs @ [r], skip_comma ts)))))))))"

definition parse_resource_list :: "syn \<Rightarrow> tok list \<Rightarrow> resource_decl list parsed" where
  "parse_resource_list sy ts = entries (resource_entry sy) [] ts"

definition adopted_entry :: "syn \<Rightarrow> adopted_fn list \<Rightarrow> tok list \<Rightarrow> adopted_fn list parsed" where
  "adopted_entry sy fns ts =
     bindp (outer_attrs sy ts) (\<lambda>cfg ts.
     bindp (by_syn (syn_path sy ts)) (\<lambda>path ts.
       ensure_that (\<not> list_ex (\<lambda>f. af_path f = path) fns) DuplicateAdopted
         (Inr (fns @ [\<lparr>af_cfg = cfg, af_path = path\<rparr>], skip_comma ts))))"

definition is_cfg :: "attr \<Rightarrow> bool" where
  "is_cfg a = (case a of CfgAttr _ \<Rightarrow> True | OtherAttr _ \<Rightarrow> False)"

definition provides_entry :: "syn \<Rightarrow> provide_decl list \<Rightarrow> tok list \<Rightarrow> provide_decl list parsed" where
  "provides_entry sy ps ts =
     bindp (outer_attrs sy ts) (\<lambda>cfg ts.
       ensure_that (list_all is_cfg cfg) NotCfg
       (bindp (ident sy ts) (\<lambda>slot ts.
          ensure_that (\<not> list_ex (\<lambda>p. pv_ident p = slot) ps) (DuplicateProvides slot)
            (Inr (ps @ [\<lparr>pv_cfg = cfg, pv_ident = slot\<rparr>], skip_comma ts)))))"

section \<open>Clauses nodes and pools share\<close>

datatype clause_host = HostNode | HostPool

definition gateable :: "clause_host \<Rightarrow> tok list \<Rightarrow> bool" where
  "gateable host ts =
     (peek_kw ''slot_timeout'' ts \<or> peek_kw ''ack_timeout'' ts \<or> peek_kw ''discover'' ts
      \<or> host = HostNode \<and>
        (peek_kw ''beat_timeout'' ts \<or> peek_kw ''beat_window'' ts \<or> peek_kw ''enabled_if'' ts
         \<or> peek_kw ''restart_budget'' ts \<or> peek_kw ''ready_on_write'' ts \<or> peek_kw ''disabled'' ts))"

definition parse_clause_cfg :: "syn \<Rightarrow> clause_host \<Rightarrow> tok list \<Rightarrow> cfg_attrs parsed" where
  "parse_clause_cfg sy host ts =
     (if \<not> peek_punct CHR ''#'' ts then Inr ([], ts)
      else bindp (outer_attrs sy ts) (\<lambda>attrs ts.
             ensure_that (list_all is_cfg attrs) NotCfg
               (ensure_that (gateable host ts) NotGateable (Inr (attrs, ts)))))"

record common_clauses =
  cc_executor :: "ident option"
  cc_spawn :: "expr option"
  cc_task :: "expr option"
  cc_resources :: "resource_decl list option"
  cc_reads :: "signal_decl list"
  cc_writes :: "signal_decl list"
  cc_state :: "(string \<times> state_init) option"
  cc_slot_timeout :: "nat gated option"
  cc_ack_timeout :: "nat gated option"
  cc_cancel :: bool
  cc_discover :: "unit gated option"
  cc_dataflow :: "adopted_fn list option"

definition no_clauses :: common_clauses where
  "no_clauses = \<lparr>cc_executor = None, cc_spawn = None, cc_task = None, cc_resources = None, cc_reads = [],
     cc_writes = [], cc_state = None, cc_slot_timeout = None, cc_ack_timeout = None, cc_cancel = False,
     cc_discover = None, cc_dataflow = None\<rparr>"

text \<open>\<open>NAME : value\<close> after the name was seen, for a clause that may stand once.\<close>

definition once :: "string \<Rightarrow> bool \<Rightarrow> (tok list \<Rightarrow> parse_error + 'a) \<Rightarrow> tok list \<Rightarrow> parse_error + 'a" where
  "once w taken k ts =
     bindp (kw w ts) (\<lambda>_ ts. bindp (punct CHR '':'' ts) (\<lambda>_ ts. ensure_that (\<not> taken) (DuplicateClause w) (k ts)))"

definition signal_clause :: "syn \<Rightarrow> tok list \<Rightarrow> signal_decl list parsed" where
  "signal_clause sy ts =
     bindp (parse_signal_list sy ts) (\<lambda>ds ts.
       case check_signal_list ds of Some e \<Rightarrow> Inl (SignalList e) | None \<Rightarrow> Inr (ds, ts))"

definition state_clause :: "syn \<Rightarrow> tok list \<Rightarrow> (string \<times> state_init) parsed" where
  "state_clause sy ts =
     (if peek_kw ''zeroed'' ts \<and> \<not> peek_punct CHR ''='' (tl ts)
      then bindp (by_syn (syn_type sy (tl ts))) (\<lambda>ty ts. Inr ((ty, Zeroed), ts))
      else bindp (by_syn (syn_type sy ts)) (\<lambda>ty ts.
             bindp (punct CHR ''='' ts) (\<lambda>_ ts.
               bindp (by_syn (syn_expr sy ts)) (\<lambda>e ts. Inr ((ty, StateExpr e), ts)))))"

definition timeout_clause :: "syn \<Rightarrow> string \<Rightarrow> cfg_attrs \<Rightarrow> tok list \<Rightarrow> nat gated parsed" where
  "timeout_clause sy w cfg ts =
     bindp (int_lit sy ts) (\<lambda>n ts.
       ensure_that (is_u64 n) NotU64
         (ensure_that (n \<noteq> 0) (ZeroTimeout w) (Inr (\<lparr>gt_cfg = cfg, gt_value = n\<rparr>, ts))))"

definition dataflow_clause :: "syn \<Rightarrow> tok list \<Rightarrow> adopted_fn list parsed" where
  "dataflow_clause sy ts =
     bindp (entries (adopted_entry sy) [] ts) (\<lambda>fns ts. ensure_that (fns \<noteq> []) EmptyDataflow (Inr (fns, ts)))"

text \<open>The next clause if it is a common one: \<open>None\<close> says it is not.\<close>

definition parse_one ::
  "syn \<Rightarrow> cfg_attrs \<Rightarrow> common_clauses \<Rightarrow> tok list \<Rightarrow> common_clauses parsed option" where
  "parse_one sy cfg c ts =
     (if peek_kw ''spawn'' ts
      then Some (once ''spawn'' (cc_spawn c \<noteq> None)
             (\<lambda>ts. bindp (by_syn (syn_expr sy ts)) (\<lambda>e ts. Inr (c\<lparr>cc_spawn := Some e\<rparr>, ts))) ts)
      else if peek_kw ''task'' ts
      then Some (once ''task'' (cc_task c \<noteq> None)
             (\<lambda>ts. bindp (by_syn (syn_expr sy ts)) (\<lambda>e ts. Inr (c\<lparr>cc_task := Some e\<rparr>, ts))) ts)
      else if peek_kw ''executor'' ts
      then Some (once ''executor'' (cc_executor c \<noteq> None)
             (\<lambda>ts. bindp (ident sy ts) (\<lambda>x ts. Inr (c\<lparr>cc_executor := Some x\<rparr>, ts))) ts)
      else if peek_kw ''resources'' ts
      then Some (once ''resources'' (cc_resources c \<noteq> None)
             (\<lambda>ts. bindp (parse_resource_list sy ts) (\<lambda>rs ts. Inr (c\<lparr>cc_resources := Some rs\<rparr>, ts))) ts)
      else if peek_kw ''reads'' ts
      then Some (once ''reads'' (cc_reads c \<noteq> [])
             (\<lambda>ts. bindp (signal_clause sy ts) (\<lambda>ds ts. Inr (c\<lparr>cc_reads := ds\<rparr>, ts))) ts)
      else if peek_kw ''writes'' ts
      then Some (once ''writes'' (cc_writes c \<noteq> [])
             (\<lambda>ts. bindp (signal_clause sy ts) (\<lambda>ds ts. Inr (c\<lparr>cc_writes := ds\<rparr>, ts))) ts)
      else if peek_kw ''state'' ts
      then Some (once ''state'' (cc_state c \<noteq> None)
             (\<lambda>ts. bindp (state_clause sy ts) (\<lambda>st ts. Inr (c\<lparr>cc_state := Some st\<rparr>, ts))) ts)
      else if peek_kw ''slot_timeout'' ts
      then Some (once ''slot_timeout'' (cc_slot_timeout c \<noteq> None)
             (\<lambda>ts. bindp (timeout_clause sy ''slot_timeout'' cfg ts) (\<lambda>g ts. Inr (c\<lparr>cc_slot_timeout := Some g\<rparr>, ts))) ts)
      else if peek_kw ''ack_timeout'' ts
      then Some (once ''ack_timeout'' (cc_ack_timeout c \<noteq> None)
             (\<lambda>ts. bindp (timeout_clause sy ''ack_timeout'' cfg ts) (\<lambda>g ts. Inr (c\<lparr>cc_ack_timeout := Some g\<rparr>, ts))) ts)
      else if peek_kw ''discover'' ts
      then Some (ensure_that (cc_discover c = None) (DuplicateMarker ''discover'')
             (ensure_that (\<not> peek_punct CHR '':'' (tl ts)) DiscoverArgument
               (Inr (c\<lparr>cc_discover := Some \<lparr>gt_cfg = cfg, gt_value = ()\<rparr>\<rparr>, tl ts))))
      else if peek_kw ''dataflow'' ts
      then Some (once ''dataflow'' (cc_dataflow c \<noteq> None)
             (\<lambda>ts. bindp (dataflow_clause sy ts) (\<lambda>fns ts. Inr (c\<lparr>cc_dataflow := Some fns\<rparr>, ts))) ts)
      else if peek_kw ''cancel'' ts
      then Some (ensure_that (\<not> cc_cancel c) (DuplicateMarker ''cancel'') (Inr (c\<lparr>cc_cancel := True\<rparr>, tl ts)))
      else None)"

fun unwrap_or_default :: "'a list option \<Rightarrow> 'a list" where
  "unwrap_or_default None = []"
| "unwrap_or_default (Some xs) = xs"

definition choose_source :: "expr option \<Rightarrow> expr option \<Rightarrow> parse_error + task_source option" where
  "choose_source spawn task =
     (case (spawn, task) of
        (Some _, Some _) \<Rightarrow> Inl TaskAndSpawn
      | (Some e, None) \<Rightarrow> Inr (Some (SpawnSource e))
      | (None, Some e) \<Rightarrow> Inr (Some (ShellSource e))
      | (None, None) \<Rightarrow> Inr None)"

section \<open>Nodes\<close>

record node_clauses =
  nc_common :: common_clauses
  nc_deps :: "dep list option"
  nc_disabled :: "unit gated option"
  nc_beat_timeout :: "nat gated option"
  nc_beat_window :: "nat gated option"
  nc_enabled_if :: "expr gated option"
  nc_restart_budget :: "(nat \<times> nat) gated option"
  nc_ready_on_write :: "unit gated option"
  nc_exit :: "string option"
  nc_provides :: "provide_decl list"

definition no_node_clauses :: node_clauses where
  "no_node_clauses = \<lparr>nc_common = no_clauses, nc_deps = None, nc_disabled = None, nc_beat_timeout = None,
     nc_beat_window = None, nc_enabled_if = None, nc_restart_budget = None, nc_ready_on_write = None,
     nc_exit = None, nc_provides = []\<rparr>"

definition restart_clause :: "syn \<Rightarrow> tok list \<Rightarrow> (nat \<times> nat) parsed" where
  "restart_clause sy ts =
     bindp (int_lit sy ts) (\<lambda>mx ts. bindp (kw ''in'' ts) (\<lambda>_ ts. bindp (int_lit sy ts) (\<lambda>window ts.
       ensure_that (is_u64 mx) NotU64
         (ensure_that (mx \<noteq> 0) RestartMaxZero
         (ensure_that (mx \<le> 65535) RestartMaxNotU16
         (ensure_that (is_u64 window) NotU64
         (ensure_that (window \<noteq> 0) RestartWindowZero (Inr ((mx, window), ts)))))))))"

text \<open>One clause of a node, after its comma; the chain of \<open>else if\<close>.\<close>

definition node_only_clause :: "syn \<Rightarrow> cfg_attrs \<Rightarrow> node_clauses \<Rightarrow> tok list \<Rightarrow> node_clauses parsed" where
  "node_only_clause sy cfg c ts =
     (if peek_kw ''deps'' ts
      then once ''deps'' (nc_deps c \<noteq> None)
             (\<lambda>ts. bindp (parse_dep_list sy ts) (\<lambda>ds ts. Inr (c\<lparr>nc_deps := Some ds\<rparr>, ts))) ts
      else if peek_kw ''pool_size'' ts then Inl PoolSizeRemoved
      else if peek_kw ''disabled'' ts
      then ensure_that (nc_disabled c = None) (DuplicateMarker ''disabled'')
             (Inr (c\<lparr>nc_disabled := Some \<lparr>gt_cfg = cfg, gt_value = ()\<rparr>\<rparr>, tl ts))
      else if peek_kw ''ready_on_write'' ts
      then ensure_that (nc_ready_on_write c = None) (DuplicateMarker ''ready_on_write'')
             (Inr (c\<lparr>nc_ready_on_write := Some \<lparr>gt_cfg = cfg, gt_value = ()\<rparr>\<rparr>, tl ts))
      else if peek_kw ''beat_timeout'' ts
      then once ''beat_timeout'' (nc_beat_timeout c \<noteq> None)
             (\<lambda>ts. bindp (int_lit sy ts) (\<lambda>n ts. Inr (c\<lparr>nc_beat_timeout := Some \<lparr>gt_cfg = cfg, gt_value = n\<rparr>\<rparr>, ts))) ts
      else if peek_kw ''beat_window'' ts
      then once ''beat_window'' (nc_beat_window c \<noteq> None)
             (\<lambda>ts. bindp (int_lit sy ts) (\<lambda>n ts. Inr (c\<lparr>nc_beat_window := Some \<lparr>gt_cfg = cfg, gt_value = n\<rparr>\<rparr>, ts))) ts
      else if peek_kw ''enabled_if'' ts
      then once ''enabled_if'' (nc_enabled_if c \<noteq> None)
             (\<lambda>ts. bindp (by_syn (syn_expr sy ts))
                (\<lambda>e ts. Inr (c\<lparr>nc_enabled_if := Some \<lparr>gt_cfg = cfg, gt_value = e\<rparr>\<rparr>, ts))) ts
      else if peek_kw ''restart_budget'' ts
      then once ''restart_budget'' (nc_restart_budget c \<noteq> None)
             (\<lambda>ts. bindp (restart_clause sy ts)
                (\<lambda>b ts. Inr (c\<lparr>nc_restart_budget := Some \<lparr>gt_cfg = cfg, gt_value = b\<rparr>\<rparr>, ts))) ts
      else if peek_kw ''exit'' ts
      then once ''exit'' False
             (\<lambda>ts. bindp (by_syn (syn_type sy ts)) (\<lambda>ty ts. Inr (c\<lparr>nc_exit := Some ty\<rparr>, ts))) ts
      else if peek_kw ''provides'' ts
      then once ''provides'' False
             (\<lambda>ts. bindp (entries (provides_entry sy) (nc_provides c) ts)
                (\<lambda>ps ts. ensure_that (ps \<noteq> []) EmptyProvides (Inr (c\<lparr>nc_provides := ps\<rparr>, ts)))) ts
      else Inl (Expected ''a clause of a node''))"

definition node_clause :: "syn \<Rightarrow> node_clauses \<Rightarrow> tok list \<Rightarrow> node_clauses parsed" where
  "node_clause sy c ts =
     bindp (punct CHR '','' ts) (\<lambda>_ ts.
     bindp (parse_clause_cfg sy HostNode ts) (\<lambda>cfg ts.
       case parse_one sy cfg (nc_common c) ts of
         Some r \<Rightarrow> bindp r (\<lambda>cc ts. Inr (c\<lparr>nc_common := cc\<rparr>, ts))
       | None \<Rightarrow> node_only_clause sy cfg c ts))"

text \<open>The checks after the last clause, in order: the first that fails is reported.\<close>

fun first_failed :: "(bool \<times> parse_error) list \<Rightarrow> parse_error option" where
  "first_failed [] = None"
| "first_failed ((ok, e) # cs) = (if ok then first_failed cs else Some e)"

definition cfg_text :: "cfg_attrs \<Rightarrow> string" where
  "cfg_text attrs =
     join_comma (map (\<lambda>a. strip_spaces (case a of CfgAttr p \<Rightarrow> ''#[cfg('' @ p @ '')]'' | OtherAttr t \<Rightarrow> ''#['' @ t @ '']'')) attrs)"

text \<open>Same gate as the beat timeout, when that has one.\<close>

definition gated_alike :: "nat gated option \<Rightarrow> 'v gated option \<Rightarrow> bool" where
  "gated_alike bt g =
     (case (bt, g) of
        (Some t, Some v) \<Rightarrow> gt_cfg t = [] \<or> cfg_text (gt_cfg v) = cfg_text (gt_cfg t)
      | _ \<Rightarrow> True)"

fun first_repeat :: "'a list \<Rightarrow> 'a list \<Rightarrow> 'a option" where
  "first_repeat seen [] = None"
| "first_repeat seen (x # xs) = (if x \<in> set seen then Some x else first_repeat (seen @ [x]) xs)"

definition beat_checks :: "node_clauses \<Rightarrow> (bool \<times> parse_error) list" where
  "beat_checks c =
     (let val = (\<lambda>g. case g of None \<Rightarrow> 1 | Some v \<Rightarrow> gt_value v) in
      [(is_u64 (val (nc_beat_timeout c)), NotU64),
       (val (nc_beat_timeout c) \<noteq> 0, BeatTimeoutZero),
       (nc_beat_window c \<noteq> None \<longrightarrow> nc_beat_timeout c \<noteq> None, WindowWithoutTimeout),
       (is_u64 (val (nc_beat_window c)), NotU64),
       (1 \<le> val (nc_beat_window c) \<and> val (nc_beat_window c) \<le> 255, WindowOutOfRange),
       (gated_alike (nc_beat_timeout c) (nc_beat_window c), WindowGate),
       (gated_alike (nc_beat_timeout c) (nc_ready_on_write c), ReadyGate)])"

definition signal_checks :: "node_clauses \<Rightarrow> (bool \<times> parse_error) list" where
  "signal_checks c =
     (let cc = nc_common c; discovers = (cc_discover cc \<noteq> None); row = (nc_ready_on_write c \<noteq> None) in
      [(\<not> list_ex sg_beat (cc_reads cc), BeatOnRead),
       (\<not> list_ex sg_veto (cc_reads cc), VetoOnRead),
       (discovers \<longrightarrow> list_all (\<lambda>d. sg_observed d \<or> sg_beat d \<or> sg_veto d) (cc_reads cc @ cc_writes cc),
          UnmarkedBesideDiscover),
       (discovers \<longrightarrow> cc_spawn cc \<noteq> None \<or> cc_task cc \<noteq> None, DiscoverParked),
       (row \<longrightarrow> list_ex (\<lambda>d. sg_beat d \<and> sg_observed d) (cc_writes cc), ReadyNeedsBeat),
       (row \<longrightarrow> nc_beat_timeout c \<noteq> None, ReadyNeedsTimeout)])"

definition task_checks :: "ident \<Rightarrow> node_clauses \<Rightarrow> (bool \<times> parse_error) list" where
  "task_checks mode c =
     (let cc = nc_common c; task = (cc_task cc \<noteq> None); rs = unwrap_or_default (cc_resources cc) in
      [(cc_resources cc \<noteq> None \<longrightarrow> task, NeedsTask ''resources''),
       (cc_resources cc \<noteq> Some [], EmptyResources),
       (first_repeat [] (map rd_ident rs) = None,
          DuplicateResourceName (case first_repeat [] (map rd_ident rs) of None \<Rightarrow> [] | Some x \<Rightarrow> x)),
       (cc_state cc \<noteq> None \<longrightarrow> task, NeedsTask ''state''),
       (nc_exit c \<noteq> None \<longrightarrow> task, NeedsTask ''exit''),
       (cc_cancel cc \<longrightarrow> task, NeedsTask ''cancel''),
       (cc_cancel cc \<longrightarrow> mode \<noteq> ''Pause'', CancelPause)])"

definition node_of :: "cfg_attrs \<Rightarrow> ident \<Rightarrow> ident \<Rightarrow> node_clauses \<Rightarrow> task_source option \<Rightarrow> node_item" where
  "node_of cfg name mode c source =
     (let cc = nc_common c in
      \<lparr>ni_cfg = cfg, ni_ident = name, ni_mode = mode,
       ni_deps = unwrap_or_default (nc_deps c), ni_source = source,
       ni_resources = unwrap_or_default (cc_resources cc),
       ni_disabled = nc_disabled c, ni_executor = cc_executor cc, ni_executor_defaulted = False,
       ni_slot_timeout = cc_slot_timeout cc, ni_ack_timeout = cc_ack_timeout cc,
       ni_beat_timeout = nc_beat_timeout c, ni_beat_window = nc_beat_window c,
       ni_enabled_if = nc_enabled_if c, ni_restart_budget = nc_restart_budget c,
       ni_ready_on_write = nc_ready_on_write c, ni_reads = cc_reads cc, ni_writes = cc_writes cc,
       ni_exit = nc_exit c, ni_state = cc_state cc, ni_cancel = cc_cancel cc, ni_discover = cc_discover cc,
       ni_dataflow = unwrap_or_default (cc_dataflow cc),
       ni_provides = nc_provides c, ni_fragment = None\<rparr>)"

definition finish_node :: "cfg_attrs \<Rightarrow> ident \<Rightarrow> ident \<Rightarrow> node_clauses \<Rightarrow> parse_error + node_item" where
  "finish_node cfg name mode c =
     (case first_failed (beat_checks c @ signal_checks c @ task_checks mode c) of
        Some e \<Rightarrow> Inl e
      | None \<Rightarrow> (case choose_source (cc_spawn (nc_common c)) (cc_task (nc_common c)) of
                   Inl e \<Rightarrow> Inl e
                 | Inr source \<Rightarrow> Inr (node_of cfg name mode c source)))"

definition parse_node :: "syn \<Rightarrow> cfg_attrs \<Rightarrow> tok list \<Rightarrow> node_item parsed" where
  "parse_node sy cfg ts =
     bindp (kw ''node'' ts) (\<lambda>_ ts. bindp (ident sy ts) (\<lambda>name ts. bindp (punct CHR ''='' ts) (\<lambda>_ ts.
     bindp (ident sy ts) (\<lambda>mode ts.
     bindp (loop (\<lambda>_. peek_punct CHR '','') (node_clause sy) no_node_clauses ts) (\<lambda>c ts.
     bindp (punct CHR '';'' ts) (\<lambda>_ ts.
       case finish_node cfg name mode c of Inl e \<Rightarrow> Inl e | Inr n \<Rightarrow> Inr (n, ts)))))))"

section \<open>Pools\<close>

record pool_clauses =
  pc_common :: common_clauses
  pc_deps :: "dep list option"
  pc_policy :: "expr option"
  pc_policy_ty :: "string option"
  pc_min :: "expr option"
  pc_max :: "expr option"

definition no_pool_clauses :: pool_clauses where
  "no_pool_clauses = \<lparr>pc_common = no_clauses, pc_deps = None, pc_policy = None, pc_policy_ty = None,
     pc_min = None, pc_max = None\<rparr>"

text \<open>\<open>policy: Type = expr\<close>, or the expression alone: the type is tried on a fork.\<close>

definition policy_clause :: "syn \<Rightarrow> pool_clauses \<Rightarrow> tok list \<Rightarrow> pool_clauses parsed" where
  "policy_clause sy c ts =
     (let (ty, rest) = (case syn_type sy ts of
                          Some (t, us) \<Rightarrow> if peek_punct CHR ''='' us then (Some t, tl us) else (None, ts)
                        | None \<Rightarrow> (None, ts))
      in bindp (by_syn (syn_expr sy rest)) (\<lambda>e ts. Inr (c\<lparr>pc_policy_ty := ty, pc_policy := Some e\<rparr>, ts)))"

definition pool_only_clause :: "syn \<Rightarrow> pool_clauses \<Rightarrow> tok list \<Rightarrow> pool_clauses parsed" where
  "pool_only_clause sy c ts =
     (if peek_kw ''deps'' ts
      then once ''deps'' (pc_deps c \<noteq> None)
             (\<lambda>ts. bindp (parse_dep_list sy ts) (\<lambda>ds ts. Inr (c\<lparr>pc_deps := Some ds\<rparr>, ts))) ts
      else if peek_kw ''policy'' ts then once ''policy'' (pc_policy c \<noteq> None) (policy_clause sy c) ts
      else if peek_kw ''min'' ts
      then once ''min'' (pc_min c \<noteq> None)
             (\<lambda>ts. bindp (by_syn (syn_expr sy ts)) (\<lambda>e ts. Inr (c\<lparr>pc_min := Some e\<rparr>, ts))) ts
      else if peek_kw ''max'' ts
      then once ''max'' (pc_max c \<noteq> None)
             (\<lambda>ts. bindp (by_syn (syn_expr sy ts)) (\<lambda>e ts. Inr (c\<lparr>pc_max := Some e\<rparr>, ts))) ts
      else if peek_kw ''exit'' ts then Inl PoolExit
      else Inl (Expected ''a clause of a pool''))"

definition pool_clause :: "syn \<Rightarrow> pool_clauses \<Rightarrow> tok list \<Rightarrow> pool_clauses parsed" where
  "pool_clause sy c ts =
     bindp (punct CHR '','' ts) (\<lambda>_ ts.
     bindp (parse_clause_cfg sy HostPool ts) (\<lambda>cfg ts.
       case parse_one sy cfg (pc_common c) ts of
         Some r \<Rightarrow> bindp r (\<lambda>cc ts. Inr (c\<lparr>pc_common := cc\<rparr>, ts))
       | None \<Rightarrow> pool_only_clause sy c ts))"

definition pool_checks :: "ident list \<Rightarrow> pool_clauses \<Rightarrow> task_source option \<Rightarrow> (bool \<times> parse_error) list" where
  "pool_checks modes c source =
     (let cc = pc_common c;
          absent = (if source = None then [''task or spawn''] else [])
            @ (if pc_policy c = None then [''policy''] else []) @ (if pc_min c = None then [''min''] else [])
            @ (if pc_max c = None then [''max''] else []);
          spawned = (case source of Some (SpawnSource _) \<Rightarrow> True | _ \<Rightarrow> False) in
      [(\<not> list_ex (\<lambda>r. rd_local r \<and> \<not> rd_shared r) (unwrap_or_default (cc_resources cc)), LocalTakePool),
       (absent = [], PoolMissing absent),
       (cc_cancel cc \<longrightarrow> \<not> spawned, NeedsTask ''cancel''),
       (cc_cancel cc \<longrightarrow> ''Pause'' \<notin> set modes, CancelPause)])"

definition pool_of :: "cfg_attrs \<Rightarrow> ident \<Rightarrow> ident list \<Rightarrow> pool_clauses \<Rightarrow> task_source \<Rightarrow> pool_item" where
  "pool_of cfg name modes c source =
     (let cc = pc_common c in
      \<lparr>pi_cfg = cfg, pi_ident = name, pi_modes = modes,
       pi_deps = unwrap_or_default (pc_deps c), pi_source = source,
       pi_policy = the (pc_policy c), pi_policy_ty = pc_policy_ty c, pi_executor = cc_executor cc,
       pi_executor_defaulted = False,
       pi_resources = unwrap_or_default (cc_resources cc),
       pi_slot_timeout = cc_slot_timeout cc, pi_ack_timeout = cc_ack_timeout cc,
       pi_reads = cc_reads cc, pi_writes = cc_writes cc, pi_min = the (pc_min c), pi_max = the (pc_max c),
       pi_state = cc_state cc, pi_cancel = cc_cancel cc, pi_discover = cc_discover cc,
       pi_dataflow = unwrap_or_default (cc_dataflow cc), pi_fragment = None\<rparr>)"

definition finish_pool :: "cfg_attrs \<Rightarrow> ident \<Rightarrow> ident list \<Rightarrow> pool_clauses \<Rightarrow> parse_error + pool_item" where
  "finish_pool cfg name modes c =
     (case choose_source (cc_spawn (pc_common c)) (cc_task (pc_common c)) of
        Inl e \<Rightarrow> Inl e
      | Inr source \<Rightarrow> (case first_failed (pool_checks modes c source) of
                         Some e \<Rightarrow> Inl e
                       | None \<Rightarrow> Inr (pool_of cfg name modes c (the source))))"

definition parse_pool :: "syn \<Rightarrow> cfg_attrs \<Rightarrow> tok list \<Rightarrow> pool_item parsed" where
  "parse_pool sy cfg ts =
     bindp (kw ''pool'' ts) (\<lambda>_ ts. bindp (ident sy ts) (\<lambda>name ts. bindp (punct CHR ''='' ts) (\<lambda>_ ts.
     bindp (parse_mode_list sy ts) (\<lambda>modes ts.
     bindp (loop (\<lambda>_. peek_punct CHR '','') (pool_clause sy) no_pool_clauses ts) (\<lambda>c ts.
     bindp (punct CHR '';'' ts) (\<lambda>_ ts.
       case finish_pool cfg name modes c of Inl e \<Rightarrow> Inl e | Inr p \<Rightarrow> Inr (p, ts)))))))"

section \<open>Graphs\<close>

record graph_state =
  gr_spec :: graph_spec
  gr_fragment :: "string option"

definition fragment_marker :: "syn \<Rightarrow> graph_state \<Rightarrow> tok list \<Rightarrow> graph_state parsed" where
  "fragment_marker sy g ts =
     bindp (punct CHR ''@'' ts) (\<lambda>_ ts.
       if peek_kw ''fragment'' ts
       then bindp (ident sy (tl ts)) (\<lambda>f ts. bindp (punct CHR '';'' ts) (\<lambda>_ ts. Inr (g\<lparr>gr_fragment := Some f\<rparr>, ts)))
       else if peek_kw ''endfragment'' ts
       then bindp (punct CHR '';'' (tl ts)) (\<lambda>_ ts. Inr (g\<lparr>gr_fragment := None\<rparr>, ts))
       else Inl (Expected ''fragment''))"

definition observe_default :: "syn \<Rightarrow> graph_state \<Rightarrow> tok list \<Rightarrow> graph_state parsed" where
  "observe_default sy g ts =
     bindp (kw ''observe'' ts) (\<lambda>_ ts.
       if peek_kw ''writes'' ts
       then ensure_that (gs_observe_writes (gr_spec g) = None) (DuplicateClause ''observe writes'')
              (bindp (punct CHR '':'' (tl ts)) (\<lambda>_ ts. bindp (by_syn (syn_expr sy ts)) (\<lambda>e ts. bindp (punct CHR '';'' ts) (\<lambda>_ ts.
                 Inr (g\<lparr>gr_spec := (gr_spec g)\<lparr>gs_observe_writes := Some e\<rparr>\<rparr>, ts)))))
       else if peek_kw ''reads'' ts
       then ensure_that (gs_observe_reads (gr_spec g) = None) (DuplicateClause ''observe reads'')
              (bindp (punct CHR '':'' (tl ts)) (\<lambda>_ ts. bindp (by_syn (syn_expr sy ts)) (\<lambda>e ts. bindp (punct CHR '';'' ts) (\<lambda>_ ts.
                 Inr (g\<lparr>gr_spec := (gr_spec g)\<lparr>gs_observe_reads := Some e\<rparr>\<rparr>, ts)))))
       else Inl (Expected ''observe writes or observe reads''))"

definition push_item :: "item \<Rightarrow> graph_state \<Rightarrow> graph_state" where
  "push_item i g = g\<lparr>gr_spec := (gr_spec g)\<lparr>gs_items := gs_items (gr_spec g) @ [i]\<rparr>\<rparr>"

definition executor_decl :: "syn \<Rightarrow> tok list \<Rightarrow> ident parsed" where
  "executor_decl sy ts =
     bindp (kw ''executor'' ts) (\<lambda>_ ts. bindp (ident sy ts) (\<lambda>x ts. bindp (punct CHR '';'' ts) (\<lambda>_ ts. Inr (x, ts))))"

definition graph_item :: "syn \<Rightarrow> graph_state \<Rightarrow> tok list \<Rightarrow> graph_state parsed" where
  "graph_item sy g ts =
     bindp (outer_attrs sy ts) (\<lambda>cfg ts.
       if peek_kw ''node'' ts
       then bindp (parse_node sy cfg ts) (\<lambda>n ts. Inr (push_item (NodeItem (n\<lparr>ni_fragment := gr_fragment g\<rparr>)) g, ts))
       else if peek_kw ''pool'' ts
       then bindp (parse_pool sy cfg ts) (\<lambda>p ts. Inr (push_item (PoolItem (p\<lparr>pi_fragment := gr_fragment g\<rparr>)) g, ts))
       else if peek_kw ''executor'' ts
       then bindp (executor_decl sy ts) (\<lambda>x ts.
              Inr (push_item (ExecutorItem \<lparr>xi_cfg = cfg, xi_ident = x, xi_default = False\<rparr>) g, ts))
       else if peek_kw ''default'' ts \<and> peek_kw ''executor'' (tl ts)
       then bindp (executor_decl sy (tl ts)) (\<lambda>x ts.
              ensure_that (cfg = []) DefaultGated
              (ensure_that (gr_fragment g = None) DefaultInFragment
              (ensure_that (gs_default_executor (gr_spec g) = None) (DuplicateMarker ''default executor'')
                (Inr (push_item (ExecutorItem \<lparr>xi_cfg = cfg, xi_ident = x, xi_default = True\<rparr>)
                        (g\<lparr>gr_spec := (gr_spec g)\<lparr>gs_default_executor := Some x\<rparr>\<rparr>), ts)))))
       else Inl NotAnItem)"

definition graph_step :: "syn \<Rightarrow> graph_state \<Rightarrow> tok list \<Rightarrow> graph_state parsed" where
  "graph_step sy g ts =
     (if peek_punct CHR ''@'' ts then fragment_marker sy g ts
      else if peek_kw ''observe'' ts then observe_default sy g ts
      else graph_item sy g ts)"

definition graph_name :: "syn \<Rightarrow> tok list \<Rightarrow> ident option parsed" where
  "graph_name sy ts =
     (if peek_kw ''name'' ts \<and> peek_punct CHR '':'' (tl ts)
      then bindp (ident sy (tl (tl ts))) (\<lambda>n ts. bindp (punct CHR '';'' ts) (\<lambda>_ ts. Inr (Some n, ts)))
      else Inr (None, ts))"

definition inherit_default :: "graph_spec \<Rightarrow> graph_spec" where
  "inherit_default s =
     (case gs_default_executor s of None \<Rightarrow> s | Some ex \<Rightarrow> s\<lparr>gs_items := apply_default_executor (gs_items s) ex\<rparr>)"

definition parse_graph :: "syn \<Rightarrow> tok list \<Rightarrow> parse_error + graph_spec" where
  "parse_graph sy ts =
     bindp (graph_name sy ts) (\<lambda>name ts.
     bindp (loop (\<lambda>_ ts. ts \<noteq> []) (graph_step sy)
              \<lparr>gr_spec = \<lparr>gs_name = name, gs_observe_writes = None, gs_observe_reads = None,
                          gs_default_executor = None, gs_items = []\<rparr>, gr_fragment = None\<rparr> ts)
       (\<lambda>g _. Inr (inherit_default (gr_spec g))))"

end
