(* ===== verification/Parse_Wf.thy ===== *)
theory Parse_Wf
  imports Parse Small_Syn
begin

text \<open>
  What an accepted declaration looks like: the facts about entries and items that the parser
  establishes and the expansion and the runtime rely on.
\<close>

section \<open>Well-formed entries and items\<close>

definition dep_ok :: "dep \<Rightarrow> bool" where
  "dep_ok d \<longleftrightarrow> (d_bound d \<longrightarrow> d_ready d)"

definition signal_ok :: "signal_decl \<Rightarrow> bool" where
  "signal_ok d \<longleftrightarrow> (sg_beat d \<longrightarrow> sg_observed d) \<and> (sg_via d \<noteq> None \<longrightarrow> sg_observed d)"

definition resource_ok :: "resource_decl \<Rightarrow> bool" where
  "resource_ok r \<longleftrightarrow> \<not> (rd_consume r \<and> rd_shared r)
     \<and> (rd_divisible r \<longrightarrow> \<not> rd_local r \<and> \<not> rd_consume r \<and> \<not> rd_shared r)
     \<and> (rd_serialized r \<longrightarrow> rd_shared r) \<and> (rd_ty r = None \<longleftrightarrow> kind r = Divisible)"

definition signals_ok :: "signal_decl list \<Rightarrow> bool" where
  "signals_ok ds \<longleftrightarrow> (\<forall>d \<in> set ds. signal_ok d) \<and> distinct (map display ds)"

definition millis_ok :: "nat gated option \<Rightarrow> bool" where
  "millis_ok g \<longleftrightarrow> (\<forall>t. g = Some t \<longrightarrow> 0 < gt_value t \<and> is_u64 (gt_value t))"

definition shelled :: "task_source option \<Rightarrow> bool" where
  "shelled s \<longleftrightarrow> (\<exists>e. s = Some (ShellSource e))"

definition node_ok :: "node_item \<Rightarrow> bool" where
  "node_ok n \<longleftrightarrow>
     (\<forall>d \<in> set (ni_deps n). dep_ok d) \<and> signals_ok (ni_reads n) \<and> signals_ok (ni_writes n)
     \<and> \<not> list_ex sg_beat (ni_reads n) \<and> \<not> list_ex sg_veto (ni_reads n)
     \<and> (\<forall>r \<in> set (ni_resources n). resource_ok r) \<and> distinct (map rd_ident (ni_resources n))
     \<and> (ni_resources n \<noteq> [] \<or> ni_state n \<noteq> None \<or> ni_exit n \<noteq> None \<or> ni_cancel n \<longrightarrow> shelled (ni_source n))
     \<and> (ni_cancel n \<longrightarrow> ni_mode n \<noteq> ''Pause'')
     \<and> millis_ok (ni_slot_timeout n) \<and> millis_ok (ni_ack_timeout n) \<and> millis_ok (ni_beat_timeout n)
     \<and> (\<forall>w. ni_beat_window n = Some w \<longrightarrow> gt_value w \<in> {1..255} \<and> ni_beat_timeout n \<noteq> None)
     \<and> (\<forall>b mx window. ni_restart_budget n = Some b \<longrightarrow> gt_value b = (mx, window) \<longrightarrow>
           mx \<in> {1..65535} \<and> 0 < window \<and> is_u64 window)
     \<and> (ni_ready_on_write n \<noteq> None \<longrightarrow>
           ni_beat_timeout n \<noteq> None \<and> list_ex (\<lambda>d. sg_beat d \<and> sg_observed d) (ni_writes n))
     \<and> (ni_discover n \<noteq> None \<longrightarrow> ni_source n \<noteq> None
           \<and> (\<forall>d \<in> set (ni_reads n @ ni_writes n). sg_observed d \<or> sg_veto d))
     \<and> distinct (map af_path (ni_dataflow n)) \<and> distinct (map pv_ident (ni_provides n))"

definition pool_ok :: "pool_item \<Rightarrow> bool" where
  "pool_ok p \<longleftrightarrow>
     (\<forall>d \<in> set (pi_deps p). dep_ok d) \<and> signals_ok (pi_reads p) \<and> signals_ok (pi_writes p)
     \<and> (\<forall>r \<in> set (pi_resources p). resource_ok r \<and> (rd_local r \<longrightarrow> rd_shared r))
     \<and> (pi_cancel p \<longrightarrow> shelled (Some (pi_source p)) \<and> ''Pause'' \<notin> set (pi_modes p))
     \<and> millis_ok (pi_slot_timeout p) \<and> millis_ok (pi_ack_timeout p) \<and> distinct (map af_path (pi_dataflow p))"

fun item_ok :: "item \<Rightarrow> bool" where
  "item_ok (NodeItem n) = node_ok n"
| "item_ok (PoolItem p) = pool_ok p"
| "item_ok (ExecutorItem x) = (xi_default x \<longrightarrow> xi_cfg x = [])"

section \<open>Entry lists\<close>

lemmas parse_simps = bindp_eq_Inr ensure_that_Inr

lemma entries_inv:
  assumes "entries p s ts = Inr (t, us)" "I s" "\<And>s ts t us. I s \<Longrightarrow> p s ts = Inr (t, us) \<Longrightarrow> I t"
  shows "I t"
  using assms(1) loop_inv[of _ p s _ t _ I] assms(2,3) by (fastforce simp: entries_def parse_simps)

lemma dep_list_ok: "parse_dep_list sy ts = Inr (ds, us) \<Longrightarrow> \<forall>d \<in> set ds. dep_ok d"
  unfolding parse_dep_list_def
  by (erule entries_inv[where I = "\<lambda>ds. \<forall>d \<in> set ds. dep_ok d"]) (auto simp: dep_entry_def parse_simps dep_ok_def)

lemma signal_marker_ok:
  "signal_marker sy d ts = Inr (d', us) \<Longrightarrow> (sg_via d \<noteq> None \<longrightarrow> sg_observed d) \<Longrightarrow> (sg_via d' \<noteq> None \<longrightarrow> sg_observed d')"
  by (auto simp: signal_marker_def parse_simps split: if_splits)

lemma signal_entry_ok:
  assumes "signal_entry sy ds ts = Inr (ds', us)" "\<forall>d \<in> set ds. signal_ok d"
  shows "\<forall>d \<in> set ds'. signal_ok d"
proof -
  from assms(1) obtain d0 d ts' us' where l: "loop (\<lambda>d ts. peek_ident sy ts \<and> sg_via d = None) (signal_marker sy) d0 ts' = Inr (d, us')"
    and d: "sg_via d0 = None" "sg_beat d \<longrightarrow> sg_observed d" "ds' = ds @ [d]"
    by (auto simp: signal_entry_def parse_simps split: if_splits)
  have "sg_via d \<noteq> None \<longrightarrow> sg_observed d"
    by (rule loop_inv[OF l, of "\<lambda>d. sg_via d \<noteq> None \<longrightarrow> sg_observed d"]) (use d signal_marker_ok in auto)
  then show ?thesis using d assms(2) by (simp add: signal_ok_def)
qed

lemma signal_clause_ok:
  assumes "signal_clause sy ts = Inr (ds, us)"
  shows "signals_ok ds"
proof -
  from assms have l: "entries (signal_entry sy) [] ts = Inr (ds, us)" and c: "check_signal_list ds = None"
    by (auto simp: signal_clause_def parse_signal_list_def parse_simps split: option.splits)
  have "\<forall>d \<in> set ds. signal_ok d"
    by (rule entries_inv[OF l, of "\<lambda>ds. \<forall>d \<in> set ds. signal_ok d"]) (use signal_entry_ok in auto)
  then show ?thesis using c check_signals_None[of "[]" ds] by (simp add: signals_ok_def check_signal_list_def split: if_splits)
qed

lemma kind_marker_ty: "kind_marker sy r ts = Inr (r', us) \<Longrightarrow> rd_ty r' = rd_ty r"
  unfolding kind_marker_def parse_simps
  by (elim exE conjE, simp only: ensure_that_Inr if_bool_eq_conj split: if_split_asm) (elim conjE, simp, force)+

lemma resource_entry_ok:
  assumes "resource_entry sy rs ts = Inr (rs', us)" "\<forall>r \<in> set rs. resource_ok r"
  shows "\<forall>r \<in> set rs'. resource_ok r"
proof -
  from assms(1) obtain r0 r r' ts' us' vs where l: "loop (\<lambda>_. peek_kind_marker sy) (kind_marker sy) r0 ts' = Inr (r, us')"
    and t: "resource_type sy r us' = Inr (r', vs)" and d: "rd_ty r0 = None" "rs' = rs @ [r']"
    and c: "\<not> (rd_consume r \<and> rd_shared r)" "rd_divisible r \<longrightarrow> \<not> rd_local r \<and> \<not> rd_consume r \<and> \<not> rd_shared r"
      "rd_serialized r \<longrightarrow> rd_shared r"
    by (auto simp: resource_entry_def parse_simps)
  have "rd_ty r = None"
    by (rule loop_inv[OF l, of "\<lambda>r. rd_ty r = None"]) (use d kind_marker_ty in auto)
  then have "resource_ok r'" using t c by (auto simp: resource_type_def resource_ok_def kind_def parse_simps split: if_splits)
  then show ?thesis using d assms(2) by simp
qed

lemma resource_list_ok:
  assumes "parse_resource_list sy ts = Inr (rs, us)"
  shows "\<forall>r \<in> set rs. resource_ok r"
  by (rule entries_inv[OF assms[unfolded parse_resource_list_def], of "\<lambda>rs. \<forall>r \<in> set rs. resource_ok r"])
    (use resource_entry_ok in auto)

lemma dataflow_ok: "dataflow_clause sy ts = Inr (fns, us) \<Longrightarrow> distinct (map af_path fns)"
  using entries_inv[of "adopted_entry sy" "[]" ts _ _ "\<lambda>fns. distinct (map af_path fns)"]
  by (fastforce simp: dataflow_clause_def adopted_entry_def parse_simps list_ex_iff)

lemma provides_ok:
  "entries (provides_entry sy) ps ts = Inr (ps', us) \<Longrightarrow> distinct (map pv_ident ps) \<Longrightarrow> distinct (map pv_ident ps')"
  by (erule entries_inv[where I = "\<lambda>ps. distinct (map pv_ident ps)"]) (auto simp: provides_entry_def parse_simps list_ex_iff)

section \<open>Clauses\<close>

definition common_ok :: "common_clauses \<Rightarrow> bool" where
  "common_ok c \<longleftrightarrow> signals_ok (cc_reads c) \<and> signals_ok (cc_writes c)
     \<and> (\<forall>rs. cc_resources c = Some rs \<longrightarrow> (\<forall>r \<in> set rs. resource_ok r))
     \<and> millis_ok (cc_slot_timeout c) \<and> millis_ok (cc_ack_timeout c)
     \<and> (\<forall>fns. cc_dataflow c = Some fns \<longrightarrow> distinct (map af_path fns))"

lemma no_clauses_ok: "common_ok no_clauses"
  by (simp add: common_ok_def no_clauses_def signals_ok_def millis_ok_def)

lemma once_Inr: "once w taken k ts = Inr y \<Longrightarrow> \<exists>us. k us = Inr y"
  by (auto simp: once_def parse_simps)

lemma timeout_clause_ok: "timeout_clause sy w cfg ts = Inr (g, us) \<Longrightarrow> millis_ok (Some g)"
  by (auto simp: timeout_clause_def parse_simps millis_ok_def)

lemma parse_one_ok:
  assumes "parse_one sy cfg c ts = Some (Inr (c', us))" "common_ok c"
  shows "common_ok c'"
  using assms unfolding parse_one_def
  by (auto split: if_splits dest!: once_Inr
      simp: parse_simps common_ok_def signal_clause_ok resource_list_ok timeout_clause_ok dataflow_ok)

section \<open>Items\<close>

lemma unwrap_or_default_all: "(\<And>xs. o' = Some xs \<Longrightarrow> P xs) \<Longrightarrow> P [] \<Longrightarrow> P (unwrap_or_default o')"
  by (cases o') auto

lemma in_unwrap_or_default: "x \<in> set (unwrap_or_default o') \<longleftrightarrow> (\<exists>xs. o' = Some xs \<and> x \<in> set xs)"
  by (cases o') auto

lemma first_failed_None: "first_failed cs = None \<longleftrightarrow> (\<forall>(ok, e) \<in> set cs. ok)"
  by (induction cs rule: first_failed.induct) auto

lemma first_repeat_None: "first_repeat seen xs = None \<Longrightarrow> distinct seen \<Longrightarrow> distinct (seen @ xs)"
  by (induction seen xs rule: first_repeat.induct) (auto split: if_splits)

definition node_clauses_ok :: "node_clauses \<Rightarrow> bool" where
  "node_clauses_ok c \<longleftrightarrow> common_ok (nc_common c) \<and> distinct (map pv_ident (nc_provides c))
     \<and> (\<forall>ds. nc_deps c = Some ds \<longrightarrow> (\<forall>d \<in> set ds. dep_ok d))
     \<and> (\<forall>b mx window. nc_restart_budget c = Some b \<longrightarrow> gt_value b = (mx, window) \<longrightarrow>
           mx \<in> {1..65535} \<and> 0 < window \<and> is_u64 window)"

lemma restart_clause_ok:
  "restart_clause sy ts = Inr ((mx, window), us) \<Longrightarrow> mx \<in> {1..65535} \<and> 0 < window \<and> is_u64 window"
  by (auto simp: restart_clause_def parse_simps)

lemma node_only_clause_ok:
  assumes "node_only_clause sy cfg c ts = Inr (c', us)" "node_clauses_ok c"
  shows "node_clauses_ok c'"
  using assms unfolding node_only_clause_def
  by (auto split: if_splits dest!: once_Inr restart_clause_ok
      simp: parse_simps node_clauses_ok_def dep_list_ok provides_ok)

lemma node_clause_ok:
  assumes "node_clause sy c ts = Inr (c', us)" "node_clauses_ok c"
  shows "node_clauses_ok c'"
proof -
  from assms(1) obtain cfg vs where "(case parse_one sy cfg (nc_common c) vs of
      Some r \<Rightarrow> bindp r (\<lambda>cc ts. Inr (c\<lparr>nc_common := cc\<rparr>, ts)) | None \<Rightarrow> node_only_clause sy cfg c vs) = Inr (c', us)"
    by (auto simp: node_clause_def parse_simps)
  then show ?thesis
    using assms(2) parse_one_ok[of sy cfg "nc_common c" vs] node_only_clause_ok[of sy cfg c vs c' us]
    by (auto simp: parse_simps node_clauses_ok_def split: option.splits)
qed

lemma finish_node_ok:
  assumes "finish_node cfg name mode c = Inr n" "node_clauses_ok c"
  shows "node_ok n"
proof -
  let ?cc = "nc_common c"
  from assms(1) obtain source where ok: "\<forall>(ok, e) \<in> set (beat_checks c @ signal_checks c @ task_checks mode c). ok"
    and src: "choose_source (cc_spawn ?cc) (cc_task ?cc) = Inr source" and n: "n = node_of cfg name mode c source"
    by (auto simp: finish_node_def first_failed_None split: option.splits sum.splits)
  have task: "shelled source" if "cc_task ?cc \<noteq> None"
    using that src by (auto simp: choose_source_def shelled_def split: option.splits)
  have some: "source \<noteq> None" if "cc_spawn ?cc \<noteq> None \<or> cc_task ?cc \<noteq> None"
    using that src by (auto simp: choose_source_def split: option.splits)
  note b = ok[unfolded beat_checks_def Let_def] and s = ok[unfolded signal_checks_def Let_def]
    and t = ok[unfolded task_checks_def Let_def]
  have res: "distinct (map rd_ident (ni_resources n))"
    using t first_repeat_None[of "[]" "map rd_ident (ni_resources n)"] by (simp add: n node_of_def Let_def)
  have beat: "millis_ok (ni_beat_timeout n)" "\<forall>w. ni_beat_window n = Some w \<longrightarrow> gt_value w \<in> {1..255} \<and> ni_beat_timeout n \<noteq> None"
    using b by (auto simp: n node_of_def Let_def millis_ok_def split: option.splits)
  have sig: "\<not> list_ex sg_beat (ni_reads n)" "\<not> list_ex sg_veto (ni_reads n)"
    "ni_ready_on_write n \<noteq> None \<longrightarrow> ni_beat_timeout n \<noteq> None \<and> list_ex (\<lambda>d. sg_beat d \<and> sg_observed d) (ni_writes n)"
    "ni_discover n \<noteq> None \<longrightarrow> ni_source n \<noteq> None"
    using s some by (simp_all add: n node_of_def Let_def)
  have "signals_ok (ni_reads n) \<and> signals_ok (ni_writes n)"
    using assms(2) by (simp add: n node_of_def Let_def node_clauses_ok_def common_ok_def)
  then have disc: "ni_discover n \<noteq> None \<longrightarrow> (\<forall>d \<in> set (ni_reads n @ ni_writes n). sg_observed d \<or> sg_veto d)"
    using s by (auto simp: n node_of_def Let_def signals_ok_def signal_ok_def list_all_iff)
  have shell: "ni_resources n \<noteq> [] \<or> ni_state n \<noteq> None \<or> ni_exit n \<noteq> None \<or> ni_cancel n \<longrightarrow> shelled (ni_source n)"
    "ni_cancel n \<longrightarrow> ni_mode n \<noteq> ''Pause''"
    using t task by (auto simp: n node_of_def Let_def split: option.splits)
  have rest: "\<forall>d \<in> set (ni_deps n). dep_ok d" "signals_ok (ni_reads n)" "signals_ok (ni_writes n)"
    "\<forall>r \<in> set (ni_resources n). resource_ok r" "millis_ok (ni_slot_timeout n)" "millis_ok (ni_ack_timeout n)"
    "distinct (map af_path (ni_dataflow n))" "distinct (map pv_ident (ni_provides n))"
    "\<forall>b mx window. ni_restart_budget n = Some b \<longrightarrow> gt_value b = (mx, window) \<longrightarrow>
        mx \<in> {1..65535} \<and> 0 < window \<and> is_u64 window"
    using assms(2)
    by (auto simp: n node_of_def Let_def node_clauses_ok_def common_ok_def in_unwrap_or_default intro: unwrap_or_default_all)
  show ?thesis unfolding node_ok_def using res beat sig disc shell rest by blast
qed

lemma no_node_clauses_ok: "node_clauses_ok no_node_clauses"
  by (simp add: node_clauses_ok_def no_node_clauses_def no_clauses_ok)

lemma parse_node_ok:
  assumes "parse_node sy cfg ts = Inr (n, us)"
  shows "node_ok n"
proof -
  from assms obtain c vs ws xs name mode where l: "loop (\<lambda>_. peek_punct CHR '','') (node_clause sy) no_node_clauses vs = Inr (c, ws)"
    and "(case finish_node cfg name mode c of Inl e \<Rightarrow> Inl e | Inr n \<Rightarrow> Inr (n, xs)) = Inr (n, us)"
    by (simp only: parse_node_def parse_simps, elim exE conjE) (rule that)
  then have f: "finish_node cfg name mode c = Inr n" by (auto split: sum.splits)
  have "node_clauses_ok c"
    by (rule loop_inv[OF l, of node_clauses_ok]) (simp_all add: no_node_clauses_ok node_clause_ok)
  then show ?thesis using finish_node_ok[OF f] by blast
qed

definition pool_clauses_ok :: "pool_clauses \<Rightarrow> bool" where
  "pool_clauses_ok c \<longleftrightarrow> common_ok (pc_common c) \<and> (\<forall>ds. pc_deps c = Some ds \<longrightarrow> (\<forall>d \<in> set ds. dep_ok d))"

lemma pool_only_clause_ok:
  assumes "pool_only_clause sy c ts = Inr (c', us)" "pool_clauses_ok c"
  shows "pool_clauses_ok c'"
  using assms unfolding pool_only_clause_def
  by (auto split: if_splits prod.splits option.splits dest!: once_Inr
      simp: parse_simps pool_clauses_ok_def dep_list_ok policy_clause_def Let_def)

lemma pool_clause_ok:
  assumes "pool_clause sy c ts = Inr (c', us)" "pool_clauses_ok c"
  shows "pool_clauses_ok c'"
proof -
  from assms(1) obtain cfg vs where "(case parse_one sy cfg (pc_common c) vs of
      Some r \<Rightarrow> bindp r (\<lambda>cc ts. Inr (c\<lparr>pc_common := cc\<rparr>, ts)) | None \<Rightarrow> pool_only_clause sy c vs) = Inr (c', us)"
    by (auto simp: pool_clause_def parse_simps)
  then show ?thesis
    using assms(2) parse_one_ok[of sy cfg "pc_common c" vs] pool_only_clause_ok[of sy c vs c' us]
    by (auto simp: parse_simps pool_clauses_ok_def split: option.splits)
qed

lemma finish_pool_ok:
  assumes "finish_pool cfg name modes c = Inr p" "pool_clauses_ok c"
  shows "pool_ok p"
proof -
  from assms(1) obtain source where ok: "\<forall>(ok, e) \<in> set (pool_checks modes c source). ok" and p: "p = pool_of cfg name modes c (the source)"
    by (auto simp: finish_pool_def first_failed_None split: option.splits sum.splits)
  note c = ok[unfolded pool_checks_def Let_def]
  have src: "source \<noteq> None" using c by (auto split: if_splits)
  have cancel: "pi_cancel p \<longrightarrow> shelled (Some (pi_source p)) \<and> ''Pause'' \<notin> set (pi_modes p)"
    using c src by (cases "the source") (auto simp: p pool_of_def Let_def shelled_def split: option.splits task_source.splits)
  have loc: "\<forall>r \<in> set (pi_resources p). rd_local r \<longrightarrow> rd_shared r"
    using c by (auto simp: p pool_of_def Let_def list_ex_iff)
  show ?thesis
    using cancel loc assms(2) unfolding pool_ok_def
    by (auto simp: p pool_of_def Let_def pool_clauses_ok_def common_ok_def in_unwrap_or_default intro: unwrap_or_default_all)
qed

lemma no_pool_clauses_ok: "pool_clauses_ok no_pool_clauses"
  by (simp add: pool_clauses_ok_def no_pool_clauses_def no_clauses_ok)

lemma parse_pool_ok:
  assumes "parse_pool sy cfg ts = Inr (p, us)"
  shows "pool_ok p"
proof -
  from assms obtain c vs ws xs name modes where l: "loop (\<lambda>_. peek_punct CHR '','') (pool_clause sy) no_pool_clauses vs = Inr (c, ws)"
    and "(case finish_pool cfg name modes c of Inl e \<Rightarrow> Inl e | Inr p \<Rightarrow> Inr (p, xs)) = Inr (p, us)"
    by (simp only: parse_pool_def parse_simps, elim exE conjE) (rule that)
  then have f: "finish_pool cfg name modes c = Inr p" by (auto split: sum.splits)
  have "pool_clauses_ok c"
    by (rule loop_inv[OF l, of pool_clauses_ok]) (simp_all add: no_pool_clauses_ok pool_clause_ok)
  then show ?thesis using finish_pool_ok[OF f] by blast
qed

section \<open>Graphs\<close>

fun default_ident :: "item \<Rightarrow> ident option" where
  "default_ident (ExecutorItem x) = (if xi_default x then Some (xi_ident x) else None)"
| "default_ident _ = None"

text \<open>An item whose task could run on the default executor has an executor.\<close>

fun routed :: "item \<Rightarrow> bool" where
  "routed (NodeItem n) = (eligible (ni_source n) \<longrightarrow> ni_executor n \<noteq> None)"
| "routed (PoolItem p) = (eligible (Some (pi_source p)) \<longrightarrow> pi_executor p \<noteq> None)"
| "routed (ExecutorItem x) = True"

definition graph_ok :: "graph_spec \<Rightarrow> bool" where
  "graph_ok g \<longleftrightarrow> (\<forall>i \<in> set (gs_items g). item_ok i)
     \<and> List.map_filter default_ident (gs_items g) = (case gs_default_executor g of None \<Rightarrow> [] | Some ex \<Rightarrow> [ex])"

lemma node_ok_frame [simp]: "node_ok (n\<lparr>ni_fragment := f\<rparr>) = node_ok n"
  "node_ok (n\<lparr>ni_executor := x, ni_executor_defaulted := b\<rparr>) = node_ok n"
  by (simp_all add: node_ok_def)

lemma pool_ok_frame [simp]: "pool_ok (p\<lparr>pi_fragment := f\<rparr>) = pool_ok p"
  "pool_ok (p\<lparr>pi_executor := x, pi_executor_defaulted := b\<rparr>) = pool_ok p"
  by (simp_all add: pool_ok_def)

lemma map_filter_append: "List.map_filter f (xs @ ys) = List.map_filter f xs @ List.map_filter f ys"
  by (simp add: List.map_filter_def)

lemma push_item_ok:
  "graph_ok (gr_spec g) \<Longrightarrow> item_ok i \<Longrightarrow> default_ident i = None \<Longrightarrow> graph_ok (gr_spec (push_item i g))"
  by (auto simp: graph_ok_def push_item_def map_filter_append List.map_filter_simps)

lemma push_default_ok:
  "graph_ok (gr_spec g) \<Longrightarrow> gs_default_executor (gr_spec g) = None \<Longrightarrow>
     graph_ok (gr_spec (push_item (ExecutorItem \<lparr>xi_cfg = [], xi_ident = x, xi_default = True\<rparr>)
       (g\<lparr>gr_spec := (gr_spec g)\<lparr>gs_default_executor := Some x\<rparr>\<rparr>)))"
  by (auto simp: graph_ok_def push_item_def map_filter_append List.map_filter_simps)

lemma graph_item_ok:
  assumes "graph_item sy g ts = Inr (g', us)" "graph_ok (gr_spec g)"
  shows "graph_ok (gr_spec g')"
proof -
  from assms(1) obtain cfg vs where
    "(if peek_kw ''node'' vs
       then bindp (parse_node sy cfg vs) (\<lambda>n ts. Inr (push_item (NodeItem (n\<lparr>ni_fragment := gr_fragment g\<rparr>)) g, ts))
       else if peek_kw ''pool'' vs
       then bindp (parse_pool sy cfg vs) (\<lambda>p ts. Inr (push_item (PoolItem (p\<lparr>pi_fragment := gr_fragment g\<rparr>)) g, ts))
       else if peek_kw ''executor'' vs
       then bindp (executor_decl sy vs) (\<lambda>x ts.
              Inr (push_item (ExecutorItem \<lparr>xi_cfg = cfg, xi_ident = x, xi_default = False\<rparr>) g, ts))
       else if peek_kw ''default'' vs \<and> peek_kw ''executor'' (tl vs)
       then bindp (executor_decl sy (tl vs)) (\<lambda>x ts.
              ensure_that (cfg = []) DefaultGated
              (ensure_that (gr_fragment g = None) DefaultInFragment
              (ensure_that (gs_default_executor (gr_spec g) = None) (DuplicateMarker ''default executor'')
                (Inr (push_item (ExecutorItem \<lparr>xi_cfg = cfg, xi_ident = x, xi_default = True\<rparr>)
                        (g\<lparr>gr_spec := (gr_spec g)\<lparr>gs_default_executor := Some x\<rparr>\<rparr>), ts)))))
       else Inl NotAnItem) = Inr (g', us)"
    by (simp only: graph_item_def parse_simps, elim exE conjE) (rule that)
  then show ?thesis
    using assms(2) push_item_ok[of g] push_default_ok[of g] parse_node_ok[of sy cfg vs] parse_pool_ok[of sy cfg vs]
    by (auto simp: parse_simps split: if_splits)
qed

lemma graph_step_ok:
  assumes "graph_step sy g ts = Inr (g', us)" "graph_ok (gr_spec g)"
  shows "graph_ok (gr_spec g')"
proof -
  have "graph_ok ((gr_spec g)\<lparr>gs_observe_writes := e\<rparr>)" "graph_ok ((gr_spec g)\<lparr>gs_observe_reads := e\<rparr>)" for e
    using assms(2) by (simp_all add: graph_ok_def)
  then show ?thesis
    using assms graph_item_ok[of sy g ts g' us]
    by (auto simp: graph_step_def fragment_marker_def observe_default_def parse_simps split: if_splits)
qed

lemma default_executor_item_ok:
  "item_ok i \<Longrightarrow> item_ok (default_executor_item ex i)" "default_ident (default_executor_item ex i) = default_ident i"
  "routed (default_executor_item ex i)"
  by (cases i; auto)+

lemma inherit_default_ok:
  assumes "graph_ok s"
  shows "graph_ok (inherit_default s)"
    and "gs_default_executor (inherit_default s) \<noteq> None \<Longrightarrow> \<forall>i \<in> set (gs_items (inherit_default s)). routed i"
proof -
  have m: "List.map_filter default_ident (map (default_executor_item ex) is) = List.map_filter default_ident is" for ex "is"
    by (induction "is") (simp_all add: List.map_filter_simps default_executor_item_ok(2) split: option.split)
  show "graph_ok (inherit_default s)"
    using assms by (auto simp: inherit_default_def graph_ok_def apply_default_executor_def m default_executor_item_ok(1)
        split: option.split)
  show "\<forall>i \<in> set (gs_items (inherit_default s)). routed i" if "gs_default_executor (inherit_default s) \<noteq> None"
    using that by (auto simp: inherit_default_def apply_default_executor_def default_executor_item_ok(3) split: option.splits)
qed

lemma parse_graph_ok:
  assumes "parse_graph sy ts = Inr g"
  shows "(\<forall>i \<in> set (gs_items g). item_ok i)
     \<and> List.map_filter default_ident (gs_items g) = (case gs_default_executor g of None \<Rightarrow> [] | Some ex \<Rightarrow> [ex])
     \<and> (gs_default_executor g \<noteq> None \<longrightarrow> (\<forall>i \<in> set (gs_items g). routed i))"
proof -
  from assms obtain s0 s vs ws where l: "loop (\<lambda>_ ts. ts \<noteq> []) (graph_step sy) s0 vs = Inr (s, ws)"
    and s0: "gs_items (gr_spec s0) = []" "gs_default_executor (gr_spec s0) = None" and g: "g = inherit_default (gr_spec s)"
    unfolding parse_graph_def parse_simps by fastforce
  have "graph_ok (gr_spec s0)" using s0 by (simp add: graph_ok_def List.map_filter_simps)
  then have "graph_ok (gr_spec s)"
    by (rule loop_inv[OF l, of "\<lambda>s. graph_ok (gr_spec s)"]) (rule graph_step_ok)
  then show ?thesis using inherit_default_ok[of "gr_spec s"] g by (simp add: graph_ok_def)
qed


text \<open>\<open>node A = Pause, task: work, deps: [B ready bound], slot_timeout: 5; default executor HI;\<close>\<close>

definition small_source :: "tok list" where
  "small_source =
     [TIdent ''node'', TIdent ''A'', TPunct CHR ''='' False, TIdent ''Pause'', TPunct CHR '','' False,
      TIdent ''task'', TPunct CHR '':'' False, TIdent ''work'', TPunct CHR '','' False,
      TIdent ''deps'', TPunct CHR '':'' False, TGroup Bracket [TIdent ''B'', TIdent ''ready'', TIdent ''bound''],
      TPunct CHR '','' False, TIdent ''slot_timeout'', TPunct CHR '':'' False, TLit ''5'', TPunct CHR '';'' False,
      TIdent ''default'', TIdent ''executor'', TIdent ''HI'', TPunct CHR '';'' False]"

lemmas eval_defs = parse_graph_def graph_name_def graph_step_def graph_item_def outer_attrs_def executor_decl_def
  parse_node_def node_clause_def parse_clause_cfg_def parse_one_def node_only_clause_def once_def
  parse_dep_list_def entries_def dep_entry_def dep_marker_def timeout_clause_def skip_comma_def ensure_that_def
  by_syn_def is_u64_def finish_node_def beat_checks_def signal_checks_def task_checks_def gated_alike_def
  choose_source_def node_of_def push_item_def inherit_default_def apply_default_executor_def Let_def
  no_node_clauses_def no_clauses_def small_syn_def small_reserved_def

lemma small_source_parses:
  "case parse_graph small_syn small_source of Inl e \<Rightarrow> False
   | Inr g \<Rightarrow> map item_executor (gs_items g) = [Some ''HI'', None] \<and> gs_default_executor g = Some ''HI''"
  by (simp add: eval_defs small_source_def loop_step loop_done cong: bindp_weak_cong)


end
