(* ===== verification/Gate.thy ===== *)
theory Gate
  imports Parse_Wf Expand_Plan
begin

text \<open>
  The feature gate, \<^verbatim>\<open>supervisor-macros/src/gate.rs\<close>: which clauses of a declaration need which
  feature of the build. A clause under a \<open>#[cfg]\<close> may name a feature that is off, rustc drops it.
\<close>

datatype feature = Coupling | Coupling_Observe | Readiness | Bound_Deps | Dataflow | Liveness_Monitor
  | Enabled_If | Restart_Intensity | Local_Resources | Veto_Writers | Budget_Slots | Heap_State

text \<open>\<open>None\<close> passes, \<open>Some f\<close> is the error that names \<open>f\<close>. \<open>?\<close> after a check is \<open>and_then\<close>.\<close>

definition and_then :: "feature option \<Rightarrow> feature option \<Rightarrow> feature option" where
  "and_then a b = (case a of None \<Rightarrow> b | Some f \<Rightarrow> Some f)"

fun check_all :: "('a \<Rightarrow> feature option) \<Rightarrow> 'a list \<Rightarrow> feature option" where
  "check_all f [] = None"
| "check_all f (x # xs) = and_then (f x) (check_all f xs)"

definition require :: "(feature \<Rightarrow> bool) \<Rightarrow> feature \<Rightarrow> feature option" where
  "require on f = (if on f then None else Some f)"

definition require_if :: "(feature \<Rightarrow> bool) \<Rightarrow> bool \<Rightarrow> feature \<Rightarrow> feature option" where
  "require_if on c f = (if c then require on f else None)"

definition require_feature_ungated :: "(feature \<Rightarrow> bool) \<Rightarrow> 'v gated option \<Rightarrow> feature \<Rightarrow> feature option" where
  "require_feature_ungated on g f = (case g of None \<Rightarrow> None | Some v \<Rightarrow> require_if on (gt_cfg v = []) f)"

definition gate_dep :: "(feature \<Rightarrow> bool) \<Rightarrow> dep \<Rightarrow> feature option" where
  "gate_dep on d = and_then (require_if on (d_ready d) Readiness) (require_if on (d_bound d) Bound_Deps)"

definition gate_signal :: "(feature \<Rightarrow> bool) \<Rightarrow> signal_decl \<Rightarrow> feature option" where
  "gate_signal on s = and_then (require_if on (sg_observed s) Coupling_Observe) (require_if on (sg_veto s) Veto_Writers)"

definition gate_signals :: "(feature \<Rightarrow> bool) \<Rightarrow> signal_decl list \<Rightarrow> feature option" where
  "gate_signals on ds = and_then (require_if on (ds \<noteq> []) Coupling) (check_all (gate_signal on) ds)"

definition gate_coupling :: "(feature \<Rightarrow> bool) \<Rightarrow> signal_decl list \<Rightarrow> signal_decl list \<Rightarrow> feature option" where
  "gate_coupling on rs ws = and_then (gate_signals on rs) (gate_signals on ws)"

definition gate_resource :: "(feature \<Rightarrow> bool) \<Rightarrow> resource_decl \<Rightarrow> feature option" where
  "gate_resource on r =
     and_then (require_if on (rd_local r) Local_Resources) (require_if on (rd_divisible r) Budget_Slots)"

definition gate_node :: "(feature \<Rightarrow> bool) \<Rightarrow> node_item \<Rightarrow> feature option" where
  "gate_node on n =
     and_then (check_all (gate_dep on) (ni_deps n))
     (and_then (gate_coupling on (ni_reads n) (ni_writes n))
     (and_then (require_feature_ungated on (ni_discover n) Dataflow)
     (and_then (require_if on (ni_dataflow n \<noteq> []) Dataflow)
     (and_then (check_all (gate_resource on) (ni_resources n))
     (and_then (require_if on (ni_state n \<noteq> None) Heap_State)
     (and_then (require_feature_ungated on (ni_ready_on_write n) Coupling_Observe)
     (and_then (require_feature_ungated on (ni_ready_on_write n) Readiness)
     (and_then (require_feature_ungated on (ni_beat_timeout n) Liveness_Monitor)
     (and_then (require_feature_ungated on (ni_beat_window n) Liveness_Monitor)
     (and_then (require_feature_ungated on (ni_enabled_if n) Enabled_If)
               (require_feature_ungated on (ni_restart_budget n) Restart_Intensity)))))))))))"

definition gate_pool :: "(feature \<Rightarrow> bool) \<Rightarrow> pool_item \<Rightarrow> feature option" where
  "gate_pool on p =
     and_then (check_all (gate_dep on) (pi_deps p))
     (and_then (gate_coupling on (pi_reads p) (pi_writes p))
     (and_then (require_feature_ungated on (pi_discover p) Dataflow)
     (and_then (require_if on (pi_dataflow p \<noteq> []) Dataflow)
     (and_then (check_all (gate_resource on) (pi_resources p))
               (require_if on (pi_state p \<noteq> None) Heap_State)))))"

definition gate_item :: "(feature \<Rightarrow> bool) \<Rightarrow> item \<Rightarrow> feature option" where
  "gate_item on i = (case i of NodeItem n \<Rightarrow> gate_node on n | PoolItem p \<Rightarrow> gate_pool on p | ExecutorItem _ \<Rightarrow> None)"

definition gate :: "(feature \<Rightarrow> bool) \<Rightarrow> graph_spec \<Rightarrow> feature option" where
  "gate on s =
     and_then (require_if on (gs_observe_writes s \<noteq> None) Coupling_Observe)
     (and_then (require_if on (gs_observe_reads s \<noteq> None) Coupling_Observe)
               (check_all (gate_item on) (gs_items s)))"

section \<open>The gate is exact\<close>

text \<open>What the documentation says a clause needs.\<close>

definition ungated :: "'v gated option \<Rightarrow> bool" where
  "ungated g \<longleftrightarrow> (\<exists>v. g = Some v \<and> gt_cfg v = [])"

definition lists_need :: "dep list \<Rightarrow> signal_decl list \<Rightarrow> resource_decl list \<Rightarrow> adopted_fn list \<Rightarrow> feature \<Rightarrow> bool" where
  "lists_need ds ss rs fns f \<longleftrightarrow>
     f = Readiness \<and> (\<exists>d \<in> set ds. d_ready d) \<or> f = Bound_Deps \<and> (\<exists>d \<in> set ds. d_bound d)
     \<or> f = Coupling \<and> ss \<noteq> [] \<or> f = Coupling_Observe \<and> (\<exists>s \<in> set ss. sg_observed s)
     \<or> f = Veto_Writers \<and> (\<exists>s \<in> set ss. sg_veto s)
     \<or> f = Local_Resources \<and> (\<exists>r \<in> set rs. rd_local r) \<or> f = Budget_Slots \<and> (\<exists>r \<in> set rs. rd_divisible r)
     \<or> f = Dataflow \<and> fns \<noteq> []"

fun item_needs :: "item \<Rightarrow> feature \<Rightarrow> bool" where
  "item_needs (NodeItem n) f \<longleftrightarrow>
     lists_need (ni_deps n) (ni_reads n @ ni_writes n) (ni_resources n) (ni_dataflow n) f
     \<or> f = Dataflow \<and> ungated (ni_discover n) \<or> f = Heap_State \<and> ni_state n \<noteq> None
     \<or> f \<in> {Coupling_Observe, Readiness} \<and> ungated (ni_ready_on_write n)
     \<or> f = Liveness_Monitor \<and> (ungated (ni_beat_timeout n) \<or> ungated (ni_beat_window n))
     \<or> f = Enabled_If \<and> ungated (ni_enabled_if n) \<or> f = Restart_Intensity \<and> ungated (ni_restart_budget n)"
| "item_needs (PoolItem p) f \<longleftrightarrow>
     lists_need (pi_deps p) (pi_reads p @ pi_writes p) (pi_resources p) (pi_dataflow p) f
     \<or> f = Dataflow \<and> ungated (pi_discover p) \<or> f = Heap_State \<and> pi_state p \<noteq> None"
| "item_needs (ExecutorItem x) f \<longleftrightarrow> False"

definition spec_needs :: "graph_spec \<Rightarrow> feature \<Rightarrow> bool" where
  "spec_needs s f \<longleftrightarrow>
     f = Coupling_Observe \<and> (gs_observe_writes s \<noteq> None \<or> gs_observe_reads s \<noteq> None)
     \<or> (\<exists>i \<in> set (gs_items s). item_needs i f)"

text \<open>A check reports nothing but a needed feature that is off, and passes only if there is none.\<close>

definition exact :: "(feature \<Rightarrow> bool) \<Rightarrow> feature option \<Rightarrow> (feature \<Rightarrow> bool) \<Rightarrow> bool" where
  "exact on r P \<longleftrightarrow> (case r of None \<Rightarrow> \<forall>f. P f \<longrightarrow> on f | Some f \<Rightarrow> P f \<and> \<not> on f)"

lemma exact_and_then:
  "exact on a P \<Longrightarrow> exact on b Q \<Longrightarrow> exact on (and_then a b) (\<lambda>f. P f \<or> Q f)"
  by (auto simp: exact_def and_then_def split: option.splits)

lemma exact_check_all:
  "(\<And>x. x \<in> set xs \<Longrightarrow> exact on (g x) (P x)) \<Longrightarrow> exact on (check_all g xs) (\<lambda>f. \<exists>x \<in> set xs. P x f)"
proof (induction xs)
  case (Cons x xs)
  have "exact on (and_then (g x) (check_all g xs)) (\<lambda>f. P x f \<or> (\<exists>x \<in> set xs. P x f))"
    by (rule exact_and_then) (use Cons in auto)
  then show ?case by simp
qed (simp add: exact_def)

lemma exact_require_if: "exact on (require_if on c g) (\<lambda>f. f = g \<and> c)"
  by (simp add: exact_def require_if_def require_def)

lemma exact_ungated: "exact on (require_feature_ungated on g x) (\<lambda>f. f = x \<and> ungated g)"
  by (auto simp: exact_def require_feature_ungated_def require_if_def require_def ungated_def split: option.splits)

lemma exact_eq: "exact on r P \<Longrightarrow> (\<And>f. P f = Q f) \<Longrightarrow> exact on r Q"
  by (simp add: exact_def split: option.splits)

lemmas exact_intros = exact_and_then exact_check_all exact_require_if exact_ungated

lemma exact_dep: "exact on (gate_dep on d) (\<lambda>f. f = Readiness \<and> d_ready d \<or> f = Bound_Deps \<and> d_bound d)"
  unfolding gate_dep_def by (intro exact_intros)

lemma exact_signals:
  "exact on (gate_signals on ds) (\<lambda>f. f = Coupling \<and> ds \<noteq> []
     \<or> (\<exists>s \<in> set ds. f = Coupling_Observe \<and> sg_observed s \<or> f = Veto_Writers \<and> sg_veto s))"
  unfolding gate_signals_def gate_signal_def by (intro exact_intros)

lemma exact_resource:
  "exact on (gate_resource on r) (\<lambda>f. f = Local_Resources \<and> rd_local r \<or> f = Budget_Slots \<and> rd_divisible r)"
  unfolding gate_resource_def by (intro exact_intros)

lemmas exact_parts = exact_intros exact_dep exact_signals exact_resource

lemma exact_node: "exact on (gate_node on n) (item_needs (NodeItem n))"
  unfolding gate_node_def gate_coupling_def
  apply (rule exact_eq, (rule exact_parts)+)
  subgoal for f by (cases f) (auto simp: lists_need_def)
  done

lemma exact_pool: "exact on (gate_pool on p) (item_needs (PoolItem p))"
  unfolding gate_pool_def gate_coupling_def
  apply (rule exact_eq, (rule exact_parts)+)
  subgoal for f by (cases f) (auto simp: lists_need_def)
  done

lemma exact_item: "exact on (gate_item on i) (item_needs i)"
proof (cases i)
  case (ExecutorItem x)
  then show ?thesis by (simp add: gate_item_def exact_def)
qed (simp_all add: gate_item_def exact_node exact_pool)

lemma exact_gate: "exact on (gate on s) (spec_needs s)"
proof -
  have "exact on (gate on s) (\<lambda>f. f = Coupling_Observe \<and> gs_observe_writes s \<noteq> None
      \<or> f = Coupling_Observe \<and> gs_observe_reads s \<noteq> None \<or> (\<exists>i \<in> set (gs_items s). item_needs i f))"
    unfolding gate_def by (intro exact_intros exact_item)
  then show ?thesis by (rule exact_eq) (auto simp: spec_needs_def)
qed

text \<open>
  The gate is exact for every set of features: it passes if and only if each feature some clause
  needs is on, and what it reports is a feature the declaration needs and the build lacks. A
  clause the user put under a \<open>#[cfg]\<close> needs nothing.
\<close>

theorem gate_exact:
  "(gate on s = None \<longleftrightarrow> (\<forall>f. spec_needs s f \<longrightarrow> on f))
     \<and> (\<forall>f. gate on s = Some f \<longrightarrow> spec_needs s f \<and> \<not> on f)"
  using exact_gate[of on s] by (cases "gate on s") (auto simp: exact_def)

definition empty_spec :: "item list \<Rightarrow> graph_spec" where
  "empty_spec items = \<lparr>gs_name = None, gs_observe_writes = None, gs_observe_reads = None,
     gs_default_executor = None, gs_items = items\<rparr>"

theorem gate_exact_witness:
  "gate (\<lambda>f. f \<noteq> Budget_Slots) (empty_spec radio) = Some Budget_Slots \<and> gate (\<lambda>_. True) (empty_spec radio) = None
     \<and> spec_needs (empty_spec radio) Budget_Slots"
proof -
  have g: "gate (\<lambda>f. f \<noteq> Budget_Slots) (empty_spec radio) = Some Budget_Slots"
    by (simp add: gate_def empty_spec_def gate_item_def gate_node_def gate_coupling_def gate_signals_def gate_dep_def
        gate_resource_def require_feature_ungated_def require_if_def require_def and_then_def example_defs)
  then show ?thesis using gate_exact[of "\<lambda>f. f \<noteq> Budget_Slots" "empty_spec radio"] gate_exact[of "\<lambda>_. True" "empty_spec radio"]
    by blast
qed

section \<open>Shape bits and features\<close>


lemma small_source_gated:
  "case parse_graph small_syn small_source of Inl e \<Rightarrow> False
   | Inr g \<Rightarrow> gate (\<lambda>f. f \<in> {Readiness, Bound_Deps}) g = None \<and> has (shape_bits (gs_items g)) SHAPE_BOUND_DEPS"
  by (simp add: eval_defs small_source_def loop_step loop_done gate_def gate_item_def gate_node_def gate_coupling_def
      gate_signals_def gate_dep_def require_feature_ungated_def require_if_def require_def and_then_def shape_defs
      has_fold_or has_or dep_bits_or has_def[of 128 128] shape_bits_def cong: bindp_weak_cong)


end
