(* ===== verification/Walker.thy ===== *)
theory Walker
  imports Tokens
begin

text \<open>
  The dataflow walker and the fragment paths of \<^verbatim>\<open>supervisor-syntax/src/lib.rs\<close>: how the body of a
  \<open>#[dataflow]\<close> function is searched for verb calls on its node, how a call's first argument is
  replaced, and how \<open>crate\<close> in a fragment becomes the path of the crate that wrote it. The macro
  and the tools run the same walk with different callbacks.
\<close>

section \<open>Verbs\<close>

definition BUILTIN_READS :: "string list" where
  "BUILTIN_READS = [''get'', ''reader'', ''open'', ''lease'']"

definition BUILTIN_WRITES :: "string list" where
  "BUILTIN_WRITES = [''put'', ''writer'', ''beat_put'', ''beat_writer'', ''retire'', ''veto'']"

type_synonym verb_table = "(string \<times> bool) list"

definition direction :: "verb_table \<Rightarrow> string \<Rightarrow> bool option" where
  "direction custom w =
     (if w \<in> set BUILTIN_WRITES then Some True
      else if w \<in> set BUILTIN_READS then Some False
      else map_of custom w)"

datatype verb_error = BuiltinVerb string | RegisteredTwice string | NotAVerbList

definition add_verb :: "verb_table \<Rightarrow> string \<Rightarrow> bool \<Rightarrow> verb_error + verb_table" where
  "add_verb custom w write =
     (if w \<in> set BUILTIN_READS \<or> w \<in> set BUILTIN_WRITES then Inl (BuiltinVerb w)
      else if w \<in> fst ` set custom then Inl (RegisteredTwice w)
      else Inr (custom @ [(w, write)]))"

fun add_verbs :: "verb_table \<Rightarrow> string list \<Rightarrow> bool \<Rightarrow> verb_error + verb_table" where
  "add_verbs custom [] write = Inr custom"
| "add_verbs custom (w # ws) write =
     (case add_verb custom w write of Inl e \<Rightarrow> Inl e | Inr t \<Rightarrow> add_verbs t ws write)"

text \<open>The names of \<open>read(..)\<close> or \<open>write(..)\<close>: identifiers with commas between, a trailing one allowed.\<close>

fun name_list :: "syn \<Rightarrow> tok list \<Rightarrow> string list option" where
  "name_list sy [] = Some []"
| "name_list sy [TIdent w] = (if syn_reserved sy w then None else Some [w])"
| "name_list sy (TIdent w # TPunct c j # ts) =
     (if syn_reserved sy w \<or> c \<noteq> CHR '','' then None else map_option (Cons w) (name_list sy ts))"
| "name_list sy _ = None"

fun parse_verbs :: "syn \<Rightarrow> verb_table \<Rightarrow> tok list \<Rightarrow> verb_error + verb_table" where
  "parse_verbs sy table [] = Inr table"
| "parse_verbs sy table (TIdent w # TGroup Paren names # ts) =
     (if w \<noteq> ''read'' \<and> w \<noteq> ''write'' then Inl NotAVerbList
      else case name_list sy names of
             None \<Rightarrow> Inl NotAVerbList
           | Some ws \<Rightarrow>
               if ws = [] then Inl NotAVerbList
               else case add_verbs table ws (w = ''write'') of
                      Inl e \<Rightarrow> Inl e
                    | Inr t \<Rightarrow> (case ts of
                                 [] \<Rightarrow> Inr t
                               | TPunct c j # us \<Rightarrow> if c = CHR '','' then parse_verbs sy t us else Inl NotAVerbList
                               | _ \<Rightarrow> Inl NotAVerbList))"
| "parse_verbs sy table _ = Inl NotAVerbList"

section \<open>The walk\<close>

record verb_call =
  vc_verb :: string
  vc_cfgs :: "tok list list"
  vc_write :: bool
  vc_target :: expr
  vc_path :: string

text \<open>
  \<^verbatim>\<open>syn\<close> tells whether an argument is a reference to a path or to an indexed path, and gives the
  target with its text. A callback answers with tokens for the argument or \<open>None\<close>, or stops the walk.
\<close>

type_synonym ref_target = "tok list \<Rightarrow> (expr \<times> string) option"

datatype walk_error = NotALiteralPath "tok list" | Refused

type_synonym 's callback = "verb_call \<Rightarrow> 's \<Rightarrow> walk_error \<times> 's + tok list option \<times> 's"

fun cfg_attr_predicate :: "tok list \<Rightarrow> tok list option" where
  "cfg_attr_predicate [TIdent w, TGroup Paren p] = (if w = ''cfg'' then Some p else None)"
| "cfg_attr_predicate _ = None"

fun is_punct_in :: "char set \<Rightarrow> tok \<Rightarrow> bool" where
  "is_punct_in cs (TPunct c _) = (c \<in> cs)"
| "is_punct_in cs _ = False"

text \<open>A nested \<open>fn\<close> item is copied up to its body or its semicolon.\<close>

fun skip_fn :: "tok list \<Rightarrow> tok list \<times> tok list" where
  "skip_fn [] = ([], [])"
| "skip_fn (t # ts) =
     (if (case t of TGroup Brace _ \<Rightarrow> True | _ \<Rightarrow> is_punct_in {CHR '';''} t) then ([t], ts)
      else (let (out, rest) = skip_fn ts in (t # out, rest)))"

lemma skip_fn_append: "fst (skip_fn ts) @ snd (skip_fn ts) = ts"
  by (induction ts) (auto split: prod.splits)

lemma skip_fn_size: "size_list size (snd (skip_fn ts)) \<le> size_list size ts"
  by (induction ts) (auto split: prod.splits)

definition starts_fn :: "tok list \<Rightarrow> bool" where
  "starts_fn ts = (case ts of TIdent w # TIdent _ # _ \<Rightarrow> w = ''fn'' | _ \<Rightarrow> False)"

text \<open>\<open>node.verb(args)\<close> at the front, for a node that is not itself a field or part of a path.\<close>

definition verb_match :: "string \<Rightarrow> verb_table \<Rightarrow> tok option \<Rightarrow> tok list \<Rightarrow> (string \<times> bool) option" where
  "verb_match param verbs prev ts =
     (case ts of
        TIdent n # TPunct dot _ # TIdent verb # TGroup Paren _ # _ \<Rightarrow>
          if n = param \<and> dot = CHR ''.''
             \<and> (case prev of None \<Rightarrow> True | Some t \<Rightarrow> \<not> is_punct_in {CHR ''.'', CHR '':''} t)
          then map_option (Pair verb) (direction verbs verb) else None
      | _ \<Rightarrow> None)"

text \<open>After a block the conditions in force end, unless the statement goes on.\<close>

definition continues :: "tok list \<Rightarrow> bool" where
  "continues ts =
     (case ts of TIdent w # _ \<Rightarrow> w = ''else'' | t # _ \<Rightarrow> is_punct_in {CHR ''.'', CHR ''?''} t | [] \<Rightarrow> False)"

definition first_arg :: "tok list \<Rightarrow> tok list" where
  "first_arg = takeWhile (\<lambda>t. \<not> is_punct_in {CHR '',''} t)"

definition rest_args :: "tok list \<Rightarrow> tok list" where
  "rest_args = dropWhile (\<lambda>t. \<not> is_punct_in {CHR '',''} t)"

lemma rest_args_size: "size_list size (rest_args ts) \<le> size_list size ts"
  by (induction ts) (auto simp: rest_args_def)

text \<open>What a walk answers: the rewritten tokens or why it stopped, and the callback's state.\<close>

type_synonym 's walked = "walk_error \<times> 's + tok list \<times> 's"

definition then_walk :: "'s walked \<Rightarrow> (tok list \<Rightarrow> 's \<Rightarrow> 's walked) \<Rightarrow> 's walked" where
  "then_walk r f = (case r of Inl e \<Rightarrow> Inl e | Inr (out, s) \<Rightarrow> f out s)"

lemma then_walk_cong [fundef_cong]:
  "r = r' \<Longrightarrow> (\<And>out s. r' = Inr (out, s) \<Longrightarrow> f out s = g out s) \<Longrightarrow> then_walk r f = then_walk r' g"
  by (auto simp: then_walk_def split: sum.split)

definition report ::
  "ref_target \<Rightarrow> 's callback \<Rightarrow> string \<Rightarrow> bool \<Rightarrow> tok list list \<Rightarrow> tok list \<Rightarrow> 's \<Rightarrow> 's walked" where
  "report rt on_call verb write cfgs arg s =
     (case rt arg of
        None \<Rightarrow> Inl (NotALiteralPath arg, s)
      | Some (target, path) \<Rightarrow>
          (case on_call \<lparr>vc_verb = verb, vc_cfgs = cfgs, vc_write = write, vc_target = target, vc_path = path\<rparr> s of
             Inl e \<Rightarrow> Inl e
           | Inr (None, t) \<Rightarrow> Inr (arg, t)
           | Inr (Some out, t) \<Rightarrow> Inr (out, t)))"

lemma tl_size: "size_list size (tl ts) \<le> size_list size ts"
  by (cases ts) auto

lemma tl_size_less: "size_list size (tl ts) < Suc (k + size_list size ts)"
  using tl_size[of ts] by simp

lemma drop_size: "size_list size (drop n ts) \<le> size_list size ts"
  by (induction n arbitrary: ts) (simp, metis drop_Suc tl_size order_trans)

lemma verb_match_args:
  "verb_match param verbs prev (t # ts) = Some vw \<Longrightarrow>
     \<exists>n dot j verb g rest. t = TIdent n \<and> ts = TPunct dot j # TIdent verb # TGroup Paren g # rest"
  by (auto simp: verb_match_def split: tok.splits list.splits delim.splits)

lemma skip_fn_size_less: "(skipped, rest) = skip_fn ts \<Longrightarrow> size_list size rest < Suc (k + size_list size ts)"
  using skip_fn_size[of ts] by (cases "skip_fn ts") auto

text \<open>
  \<open>rewrite_verb_calls_in\<close> from the token at the front: \<open>inherited\<close> are the conditions of the
  groups around, \<open>pending\<close> those read just before, \<open>current\<close> those of the statement.
\<close>

function walk ::
  "ref_target \<Rightarrow> string \<Rightarrow> verb_table \<Rightarrow> 's callback \<Rightarrow> tok list list \<Rightarrow> tok option
     \<Rightarrow> tok list list \<Rightarrow> tok list list \<Rightarrow> tok list \<Rightarrow> 's \<Rightarrow> 's walked" where
  "walk rt param verbs on_call inherited prev pending current [] s = Inr ([], s)"
| "walk rt param verbs on_call inherited prev pending current (t # ts) s =
     (if is_punct_in {CHR ''#''} t \<and> peek_bracket ts
      then let pending1 = (case cfg_attr_predicate (case hd ts of TGroup _ g \<Rightarrow> g | _ \<Rightarrow> []) of
                             None \<Rightarrow> pending | Some p \<Rightarrow> pending @ [p])
           in then_walk (walk rt param verbs on_call inherited (Some (hd ts)) pending1 current (tl ts) s)
                (\<lambda>out s. Inr (t # hd ts # out, s))
      else let current = current @ pending in
        if starts_fn (t # ts)
        then let (skipped, rest) = skip_fn ts
             in then_walk (walk rt param verbs on_call inherited (Some (last (t # skipped))) [] [] rest s)
                  (\<lambda>out s. Inr (t # skipped @ out, s))
        else case verb_match param verbs prev (t # ts) of
          Some (verb, write) \<Rightarrow>
            let args = (case ts ! 2 of TGroup _ g \<Rightarrow> g | _ \<Rightarrow> []); cfgs = inherited @ current in
            then_walk (report rt on_call verb write cfgs (first_arg args) s) (\<lambda>arg s.
              then_walk (walk rt param verbs on_call cfgs None [] [] (rest_args args) s) (\<lambda>rest s.
                then_walk (walk rt param verbs on_call inherited (Some (ts ! 2)) [] current (drop 3 ts) s) (\<lambda>out s.
                  Inr (t # ts ! 0 # ts ! 1 # TGroup Paren (arg @ rest) # out, s))))
        | None \<Rightarrow>
            (case t of
               TGroup d g \<Rightarrow>
                 then_walk (walk rt param verbs on_call (inherited @ current) None [] [] g s) (\<lambda>inner s.
                   then_walk (walk rt param verbs on_call inherited (Some t) []
                       (if d = Brace \<and> \<not> continues ts then [] else current) ts s)
                     (\<lambda>out s. Inr (TGroup d inner # out, s)))
             | _ \<Rightarrow>
                 then_walk (walk rt param verbs on_call inherited (Some t) []
                     (if is_punct_in {CHR '';'', CHR '',''} t then [] else current) ts s)
                   (\<lambda>out s. Inr (t # out, s))))"
  by pat_completeness auto

termination
  by (relation "measure (\<lambda>(rt, param, verbs, on_call, inherited, prev, pending, current, ts, s). size_list size ts)")
    (auto dest!: verb_match_args simp: tl_size_less skip_fn_size_less
      intro: order_le_less_trans[OF rest_args_size])

definition rewrite_verb_calls ::
  "ref_target \<Rightarrow> string \<Rightarrow> verb_table \<Rightarrow> 's callback \<Rightarrow> tok list \<Rightarrow> 's \<Rightarrow> 's walked" where
  "rewrite_verb_calls rt param verbs on_call body s = walk rt param verbs on_call [] None [] [] body s"

section \<open>What a walk does\<close>

text \<open>
  Callbacks that never replace an argument, callbacks that note every call, and walks that agree
  on how they end up to a relation of the callbacks' states.
\<close>

definition only_looks :: "'s callback \<Rightarrow> bool" where
  "only_looks f \<longleftrightarrow> (\<forall>c s. case f c s of Inr (a, _) \<Rightarrow> a = None | Inl _ \<Rightarrow> True)"

definition noting :: "(verb_call \<Rightarrow> tok list option) \<Rightarrow> verb_call list callback" where
  "noting answer = (\<lambda>c s. Inr (answer c, s @ [c]))"

definition keeps :: "tok list \<Rightarrow> 's walked \<Rightarrow> bool" where
  "keeps ts r \<longleftrightarrow> (case r of Inr (out, _) \<Rightarrow> out = ts | Inl _ \<Rightarrow> True)"

lemma keeps_then:
  assumes "keeps us r" "\<And>s. keeps ts (k us s)"
  shows "keeps ts (then_walk r k)"
proof (cases r)
  case (Inr os)
  then obtain s where "r = Inr (us, s)" using assms(1) by (cases os) (simp add: keeps_def)
  then show ?thesis using assms(2) by (simp add: then_walk_def)
qed (simp add: keeps_def then_walk_def)

lemma keeps_Inr: "keeps ts (Inr (out, s)) \<longleftrightarrow> out = ts"
  by (simp add: keeps_def)

lemma report_looks:
  assumes "only_looks f"
  shows "keeps arg (report rt f v w cfgs arg s)"
proof (cases "rt arg")
  case (Some tp)
  then obtain target path where rt: "rt arg = Some (target, path)" by (cases tp) auto
  let ?c = "\<lparr>vc_verb = v, vc_cfgs = cfgs, vc_write = w, vc_target = target, vc_path = path\<rparr>"
  have "case f ?c s of Inr (a, _) \<Rightarrow> a = None | Inl _ \<Rightarrow> True" using assms by (simp add: only_looks_def)
  then show ?thesis by (auto simp: report_def rt keeps_def split: sum.splits prod.splits)
qed (simp add: report_def keeps_def)

definition ends_alike :: "('s \<Rightarrow> 't \<Rightarrow> bool) \<Rightarrow> walk_error \<times> 's + 'a \<times> 's \<Rightarrow> walk_error \<times> 't + 'b \<times> 't \<Rightarrow> bool" where
  "ends_alike R r q \<longleftrightarrow>
     (case (r, q) of
        (Inl (d, s), Inl (e, t)) \<Rightarrow> d = e \<and> R s t
      | (Inr (_, s), Inr (_, t)) \<Rightarrow> R s t
      | _ \<Rightarrow> False)"

lemma ends_alike_Inr: "ends_alike R (Inr (a, s)) (Inr (b, t)) \<longleftrightarrow> R s t"
  by (simp add: ends_alike_def)

lemma ends_alike_then:
  assumes "ends_alike R r q" "\<And>a b s t. R s t \<Longrightarrow> ends_alike R (k a s) (l b t)"
  shows "ends_alike R (then_walk r k) (then_walk q l)"
proof (cases r)
  case (Inl ds)
  then show ?thesis using assms(1) by (auto simp: ends_alike_def then_walk_def split: sum.splits)
next
  case (Inr as)
  then obtain a s b t where "r = Inr (a, s)" "q = Inr (b, t)" "R s t"
    using assms(1) by (cases as; cases q) (auto simp: ends_alike_def)
  then show ?thesis using assms(2) by (simp add: then_walk_def)
qed

lemma args_eq: "first_arg ts @ rest_args ts = ts"
  by (simp add: first_arg_def rest_args_def)

text \<open>The four shapes of a step, as equations, and induction over the size of the tokens.\<close>

abbreviation at_attr :: "tok \<Rightarrow> tok list \<Rightarrow> bool" where
  "at_attr t ts \<equiv> is_punct_in {CHR ''#''} t \<and> peek_bracket ts"

definition read_pred :: "tok list \<Rightarrow> tok list list \<Rightarrow> tok list list" where
  "read_pred g pending = (case cfg_attr_predicate g of None \<Rightarrow> pending | Some p \<Rightarrow> pending @ [p])"

lemma walk_attr:
  "walk rt param verbs f inherited prev pending current (TPunct CHR ''#'' j # TGroup Bracket g # ts) s =
     then_walk (walk rt param verbs f inherited (Some (TGroup Bracket g)) (read_pred g pending) current ts s)
       (\<lambda>out s. Inr (TPunct CHR ''#'' j # TGroup Bracket g # out, s))"
  by (subst walk.simps) (simp add: Let_def read_pred_def)

lemma walk_fn:
  "starts_fn (t # ts) \<Longrightarrow> walk rt param verbs f inherited prev pending current (t # ts) s =
     then_walk (walk rt param verbs f inherited (Some (last (t # fst (skip_fn ts)))) [] [] (snd (skip_fn ts)) s)
       (\<lambda>out s. Inr (t # fst (skip_fn ts) @ out, s))"
  by (subst walk.simps) (auto simp: Let_def starts_fn_def split: prod.split tok.splits list.splits)

lemma walk_verb:
  "verb_match param verbs prev (TIdent n # TPunct dot j # TIdent verb # TGroup Paren g # ts) = Some (v, w) \<Longrightarrow>
     walk rt param verbs f inherited prev pending current (TIdent n # TPunct dot j # TIdent verb # TGroup Paren g # ts) s =
     then_walk (report rt f v w (inherited @ current @ pending) (first_arg g) s) (\<lambda>arg s.
       then_walk (walk rt param verbs f (inherited @ current @ pending) None [] [] (rest_args g) s) (\<lambda>rest s.
         then_walk (walk rt param verbs f inherited (Some (TGroup Paren g)) [] (current @ pending) ts s) (\<lambda>out s.
           Inr (TIdent n # TPunct dot j # TIdent verb # TGroup Paren (arg @ rest) # out, s))))"
  by (subst walk.simps) (simp add: Let_def starts_fn_def)

lemma walk_group:
  "walk rt param verbs f inherited prev pending current (TGroup d g # ts) s =
     then_walk (walk rt param verbs f (inherited @ current @ pending) None [] [] g s) (\<lambda>inner s.
       then_walk (walk rt param verbs f inherited (Some (TGroup d g)) []
           (if d = Brace \<and> \<not> continues ts then [] else current @ pending) ts s)
         (\<lambda>out s. Inr (TGroup d inner # out, s)))"
  by (subst walk.simps) (simp add: Let_def starts_fn_def verb_match_def)

lemma walk_other:
  "\<not> at_attr t ts \<Longrightarrow> \<not> starts_fn (t # ts) \<Longrightarrow> verb_match param verbs prev (t # ts) = None \<Longrightarrow>
     (\<And>d g. t \<noteq> TGroup d g) \<Longrightarrow>
     walk rt param verbs f inherited prev pending current (t # ts) s =
     then_walk (walk rt param verbs f inherited (Some t) []
         (if is_punct_in {CHR '';'', CHR '',''} t then [] else current @ pending) ts s)
       (\<lambda>out s. Inr (t # out, s))"
  by (subst walk.simps) (auto simp: Let_def split: tok.split)

declare walk.simps(2) [simp del]

lemma walk_cases:
  obtains (nil) "ts = []"
  | (attr) j g us where "ts = TPunct CHR ''#'' j # TGroup Bracket g # us"
  | (fn) t us where "ts = t # us" "starts_fn (t # us)"
  | (verb) n dot j verb g us v w where "ts = TIdent n # TPunct dot j # TIdent verb # TGroup Paren g # us"
      "verb_match param verbs prev ts = Some (v, w)" "direction verbs v = Some w"
  | (group) d g us where "ts = TGroup d g # us"
  | (other) t us where "ts = t # us" "\<not> at_attr t us" "\<not> starts_fn (t # us)"
      "verb_match param verbs prev (t # us) = None" "\<And>d g. t \<noteq> TGroup d g"
proof (cases ts)
  case (Cons t us)
  consider "at_attr t us" | "starts_fn (t # us)" | vw where "verb_match param verbs prev (t # us) = Some vw"
    | d g where "t = TGroup d g"
    | "\<not> at_attr t us" "\<not> starts_fn (t # us)" "verb_match param verbs prev (t # us) = None" "\<And>d g. t \<noteq> TGroup d g"
    by blast
  then show thesis
  proof cases
    case 1
    then show thesis using attr Cons by (cases t; cases us rule: peek_bracket.cases) auto
  next
    case 3
    then show thesis
      using verb Cons verb_match_args[OF 3] by (cases vw) (auto simp: verb_match_def split: if_splits)
  qed (use Cons fn group other in blast)+
qed (rule nil)

lemma walk_looks:
  assumes "only_looks f"
  shows "keeps ts (walk rt param verbs f inherited prev pending current ts s)"
proof (induction "size_list size ts" arbitrary: inherited prev pending current ts s rule: less_induct)
  case less
  show ?case
  proof (cases ts rule: walk_cases[where param = param and verbs = verbs and prev = prev])
    case (fn u us)
    have "keeps (snd (skip_fn us)) (walk rt param verbs f inherited p [] [] (snd (skip_fn us)) s)" for p
      using less[of "snd (skip_fn us)"] skip_fn_size[of us] fn(1) by simp
    then show ?thesis
      unfolding fn(1) walk_fn[OF fn(2)] by (rule keeps_then) (simp add: keeps_Inr skip_fn_append)
  next
    case (verb n dot j vb g us v w)
    have "keeps (rest_args g) (walk rt param verbs f i p [] [] (rest_args g) t)" for i p t
      using less[of "rest_args g"] rest_args_size[of g] verb(1) by simp
    moreover have "keeps us (walk rt param verbs f i p [] c us t)" for i p c t
      using less[of us] verb(1) by simp
    ultimately show ?thesis
      unfolding verb(1) walk_verb[OF verb(2)[unfolded verb(1)]]
      by (intro keeps_then[OF report_looks[OF assms]] keeps_then[of "rest_args g"] keeps_then[of us])
        (simp_all add: keeps_Inr args_eq)
  next
    case (group d g us)
    have "keeps g (walk rt param verbs f i p [] [] g t)" "keeps us (walk rt param verbs f i p [] c us t)" for i p c t
      using less[of g] less[of us] group by simp_all
    then show ?thesis unfolding group walk_group by (intro keeps_then) (simp_all add: keeps_Inr)
  next
    case (other u us)
    have "keeps us (walk rt param verbs f i p [] c us t)" for i p c t using less[of us] other(1) by simp
    then show ?thesis unfolding other(1) walk_other[OF other(2-5)] by (rule keeps_then) (simp add: keeps_Inr)
  next
    case (attr j g us)
    have "keeps us (walk rt param verbs f i p q c us t)" for i p q c t using less[of us] attr by simp
    then show ?thesis unfolding attr walk_attr by (rule keeps_then) (simp add: keeps_Inr)
  qed (simp add: keeps_Inr)
qed

text \<open>
  Two callbacks that go along with each other on the calls a walk reports go along over the whole
  walk: what is reported does not depend on what they answer.
\<close>

definition in_step :: "verb_table \<Rightarrow> ('s \<Rightarrow> 't \<Rightarrow> bool) \<Rightarrow> 's callback \<Rightarrow> 't callback \<Rightarrow> bool" where
  "in_step verbs R f g \<longleftrightarrow> (\<forall>c s t. direction verbs (vc_verb c) = Some (vc_write c) \<longrightarrow> R s t \<longrightarrow> ends_alike R (f c s) (g c t))"

lemma report_in_step:
  assumes "in_step verbs R f g" "direction verbs v = Some w" "R s t"
  shows "ends_alike R (report rt f v w cfgs arg s) (report rt g v w cfgs arg t)"
proof (cases "rt arg")
  case None
  then show ?thesis using assms(3) by (simp add: report_def ends_alike_def)
next
  case (Some tp)
  then obtain target path where rt: "rt arg = Some (target, path)" by (cases tp) auto
  let ?c = "\<lparr>vc_verb = v, vc_cfgs = cfgs, vc_write = w, vc_target = target, vc_path = path\<rparr>"
  have "ends_alike R (f ?c s) (g ?c t)" using assms by (simp add: in_step_def)
  then show ?thesis
    by (auto simp: report_def rt ends_alike_def split: sum.splits prod.splits option.splits)
qed

text \<open>
  Relating two walks of one body, the induction once: a relation of where two steps start and what
  they answer that holds at the end, survives the sequencing of steps and holds for each report
  holds for the walks.
\<close>

lemma walk_related:
  assumes settled: "\<And>a b s t. R s t \<Longrightarrow> Q s t (Inr (a, s)) (Inr (b, t))"
    and chained: "\<And>s t r q k l. Q s t r q \<Longrightarrow> (\<And>a b s1 t1. R s1 t1 \<Longrightarrow> Q s1 t1 (k a s1) (l b t1)) \<Longrightarrow>
        Q s t (then_walk r k) (then_walk q l)"
    and reported: "\<And>v w cfgs arg s t. direction verbs v = Some w \<Longrightarrow> R s t \<Longrightarrow>
        Q s t (report rt f v w cfgs arg s) (report rt g v w cfgs arg t)"
  shows "R s t \<Longrightarrow> Q s t (walk rt param verbs f inherited prev pending current ts s)
     (walk rt param verbs g inherited prev pending current ts t)"
proof (induction "size_list size ts" arbitrary: inherited prev pending current ts s t rule: less_induct)
  case less
  note IH = less.hyps and R = less.prems
  show ?case
  proof (cases ts rule: walk_cases[where param = param and verbs = verbs and prev = prev])
    case (fn u us)
    have "size_list size (snd (skip_fn us)) < size_list size ts" using fn(1) skip_fn_size[of us] by simp
    then show ?thesis unfolding fn(1) walk_fn[OF fn(2)]
      by (intro chained IH[OF _ R]) (simp_all add: fn(1) settled)
  next
    case (verb n dot j vb gr us v w)
    have "size_list size (rest_args gr) < size_list size ts" "size_list size us < size_list size ts"
      using verb(1) rest_args_size[of gr] by simp_all
    then show ?thesis unfolding verb(1) walk_verb[OF verb(2)[unfolded verb(1)]]
      by (intro chained reported[OF verb(3) R] IH) (simp_all add: verb(1) settled)
  next
    case (group d gr us)
    have "size_list size gr < size_list size ts" "size_list size us < size_list size ts" using group by simp_all
    then show ?thesis unfolding group walk_group
      by (intro chained IH R) (simp_all add: group settled)
  next
    case (other u us)
    have "size_list size us < size_list size ts" using other(1) by simp
    then show ?thesis unfolding other(1) walk_other[OF other(2-5)]
      by (intro chained IH[OF _ R]) (simp_all add: other(1) settled)
  next
    case (attr j gr us)
    have "size_list size us < size_list size ts" using attr by simp
    then show ?thesis unfolding attr walk_attr
      by (intro chained IH[OF _ R]) (simp_all add: attr settled)
  qed (simp add: settled R)
qed

lemma walk_in_step:
  assumes "in_step verbs R f g"
  shows "R s t \<Longrightarrow> ends_alike R (walk rt param verbs f inherited prev pending current ts s)
     (walk rt param verbs g inherited prev pending current ts t)"
  by (rule walk_related[where Q = "\<lambda>_ _. ends_alike R" and R = R])
    (simp_all add: ends_alike_Inr ends_alike_then report_in_step[OF assms])

text \<open>A callback that may refuse goes along as long as it does not.\<close>

definition follows :: "('s \<Rightarrow> 't \<Rightarrow> bool) \<Rightarrow> walk_error \<times> 's + 'a \<times> 's \<Rightarrow> walk_error \<times> 't + 'b \<times> 't \<Rightarrow> bool" where
  "follows R r q \<longleftrightarrow> (\<forall>a s. r = Inr (a, s) \<longrightarrow> (\<exists>b t. q = Inr (b, t) \<and> R s t))"

lemma follows_then:
  assumes "follows R r q" "\<And>a b s t. R s t \<Longrightarrow> follows R (k a s) (l b t)"
  shows "follows R (then_walk r k) (then_walk q l)"
proof (cases r)
  case (Inr as)
  then obtain a s b t where "r = Inr (a, s)" "q = Inr (b, t)" "R s t"
    using assms(1) by (cases as) (auto simp: follows_def)
  then show ?thesis using assms(2) by (simp add: then_walk_def)
qed (simp add: follows_def then_walk_def)

lemma walk_follows:
  assumes "\<And>c s t. R s t \<Longrightarrow> follows R (f c s) (g c t)"
  shows "R s t \<Longrightarrow> follows R (walk rt param verbs f inherited prev pending current ts s)
     (walk rt param verbs g inherited prev pending current ts t)"
proof (rule walk_related[where Q = "\<lambda>_ _. follows R" and R = R])
  fix v w cfgs arg s t assume "R s t"
  then have "follows R (f c s) (g c t)" for c by (rule assms)
  then show "follows R (report rt f v w cfgs arg s) (report rt g v w cfgs arg t)"
    by (fastforce simp: report_def follows_def split: sum.splits prod.splits option.splits)
qed (simp_all add: follows_then, simp add: follows_def)

text \<open>The state a walk leaves, stopped or not.\<close>

definition left_state :: "'s walked \<Rightarrow> 's" where
  "left_state r = (case r of Inl (_, s) \<Rightarrow> s | Inr (_, s) \<Rightarrow> s)"

lemma noted_direction:
  "\<forall>c \<in> set (left_state (rewrite_verb_calls rt param verbs (noting (\<lambda>_. None)) body [])).
     direction verbs (vc_verb c) = Some (vc_write c)"
proof -
  let ?ok = "\<lambda>s t. s = t \<and> (\<forall>c \<in> set s. direction verbs (vc_verb c) = Some (vc_write c))"
  have "in_step verbs ?ok (noting (\<lambda>_. None)) (noting (\<lambda>_. None))"
    by (simp add: in_step_def noting_def ends_alike_Inr)
  from walk_in_step[OF this, of "[]" "[]" rt param "[]" None "[]" "[]" body] show ?thesis
    by (auto simp: rewrite_verb_calls_def ends_alike_def left_state_def split: sum.splits prod.splits)
qed


text \<open>\<open>{ #[cfg(wifi)] node.put(&LEVEL, node.get(&RAW)); }\<close>\<close>

fun small_target :: "tok list \<Rightarrow> (expr \<times> string) option" where
  "small_target [TPunct c j, TIdent w] = (if c = CHR ''&'' then Some (ExprPath w, w) else None)"
| "small_target _ = None"

definition small_body :: "tok list" where
  "small_body =
     [TGroup Brace
       [TPunct CHR ''#'' False, TGroup Bracket [TIdent ''cfg'', TGroup Paren [TIdent ''wifi'']],
        TIdent ''node'', TPunct CHR ''.'' False, TIdent ''put'',
        TGroup Paren [TPunct CHR ''&'' False, TIdent ''LEVEL'', TPunct CHR '','' False,
          TIdent ''node'', TPunct CHR ''.'' False, TIdent ''get'', TGroup Paren [TPunct CHR ''&'' False, TIdent ''RAW'']],
        TPunct CHR '';'' False]]"


end
