(* ===== verification/Scan.thy ===== *)
theory Scan
  imports Walker Small_Syn "HOL-Library.Sublist"
begin

text \<open>
  Fragments and scanned functions, from \<^verbatim>\<open>supervisor-syntax/src/lib.rs\<close>: \<open>crate\<close> in a fragment's
  tokens, the \<open>#[dataflow]\<close> attribute under \<open>cfg_attr\<close>, and the accesses a function's body is
  recorded with.
\<close>

section \<open>The crate of a fragment\<close>

fun is_crate :: "tok \<Rightarrow> bool" where
  "is_crate (TIdent w) = (w = ''crate'')"
| "is_crate _ = False"

function normalize_fragment_crate :: "tok list \<Rightarrow> tok list" where
  "normalize_fragment_crate [] = []"
| "normalize_fragment_crate (TGroup d g # ts) = TGroup d (normalize_fragment_crate g) # normalize_fragment_crate ts"
| "normalize_fragment_crate (TPunct c j # ts) =
     (if c = CHR ''$'' \<and> ts \<noteq> [] \<and> is_crate (hd ts)
      then TPunct c j # hd ts # normalize_fragment_crate (tl ts)
      else TPunct c j # normalize_fragment_crate ts)"
| "normalize_fragment_crate (TIdent w # ts) =
     (if w = ''crate'' then [TPunct CHR ''$'' True, TIdent w] else [TIdent w]) @ normalize_fragment_crate ts"
| "normalize_fragment_crate (TLit l # ts) = TLit l # normalize_fragment_crate ts"
  by pat_completeness auto
termination by (relation "measure (size_list size)") (auto simp: tl_size le_imp_less_Suc)

function substitute_dollar_crate :: "tok list \<Rightarrow> tok list \<Rightarrow> tok list" where
  "substitute_dollar_crate r [] = []"
| "substitute_dollar_crate r (TGroup d g # ts) =
     TGroup d (substitute_dollar_crate r g) # substitute_dollar_crate r ts"
| "substitute_dollar_crate r (TPunct c j # ts) =
     (if c = CHR ''$'' \<and> ts \<noteq> [] \<and> is_crate (hd ts) then r @ substitute_dollar_crate r (tl ts)
      else TPunct c j # substitute_dollar_crate r ts)"
| "substitute_dollar_crate r (TIdent w # ts) = TIdent w # substitute_dollar_crate r ts"
| "substitute_dollar_crate r (TLit l # ts) = TLit l # substitute_dollar_crate r ts"
  by pat_completeness auto
termination by (relation "measure (\<lambda>(r, ts). size_list size ts)") (auto simp: tl_size le_imp_less_Suc)

text \<open>Every \<open>crate\<close>, with a \<open>$\<close> before it or without, stands for \<open>r\<close>.\<close>

function crate_is :: "tok list \<Rightarrow> tok list \<Rightarrow> tok list" where
  "crate_is r [] = []"
| "crate_is r (t # ts) =
     (case t of
        TGroup d g \<Rightarrow> TGroup d (crate_is r g) # crate_is r ts
      | _ \<Rightarrow> (if is_crate t then r @ crate_is r ts
             else if t \<in> {TPunct CHR ''$'' False, TPunct CHR ''$'' True} \<and> ts \<noteq> [] \<and> is_crate (hd ts) then crate_is r ts
             else t # crate_is r ts))"
  by pat_completeness auto
termination by (relation "measure (\<lambda>(r, ts). size_list size ts)") auto

lemma is_crate_eq: "is_crate t \<longleftrightarrow> t = TIdent ''crate''"
  by (cases t) auto

lemma normalize_not_crate [simp]: "normalize_fragment_crate ts \<noteq> TIdent ''crate'' # us"
  by (cases ts rule: normalize_fragment_crate.cases) auto

lemma normalize_idem: "normalize_fragment_crate (normalize_fragment_crate ts) = normalize_fragment_crate ts"
  by (induction ts rule: normalize_fragment_crate.induct) (auto simp: is_crate_eq neq_Nil_conv)

lemma substitute_normalized: "substitute_dollar_crate r (normalize_fragment_crate ts) = crate_is r ts"
  by (induction ts rule: normalize_fragment_crate.induct) (auto simp: is_crate_eq neq_Nil_conv)

text \<open>No \<open>crate\<close> at any depth.\<close>

fun crate_free :: "tok \<Rightarrow> bool" where
  "crate_free (TGroup d g) = list_all crate_free g"
| "crate_free t = (\<not> is_crate t)"

lemma crate_is_free: "list_all crate_free r \<Longrightarrow> list_all crate_free (crate_is r ts)"
  by (induction r ts rule: crate_is.induct) (auto split: tok.split)

text \<open>
  A fragment reads the same wherever it is composed: normalising it twice changes nothing more,
  and substituting the path of its crate into a normalised body puts that path for every \<open>crate\<close>
  and \<open>$crate\<close> at any depth and for nothing else, so no reference to the composing crate is left.
\<close>

theorem fragment_crate_resolved:
  "normalize_fragment_crate (normalize_fragment_crate ts) = normalize_fragment_crate ts
     \<and> substitute_dollar_crate r (normalize_fragment_crate ts) = crate_is r ts
     \<and> (list_all crate_free r \<longrightarrow> list_all crate_free (substitute_dollar_crate r (normalize_fragment_crate ts)))"
  by (simp add: normalize_idem substitute_normalized crate_is_free)

definition owner_path :: "tok list" where
  "owner_path = [TIdent ''radio'']"

theorem fragment_crate_resolved_witness:
  "list_all crate_free (substitute_dollar_crate owner_path (normalize_fragment_crate
     [TPunct CHR ''$'' True, TIdent ''crate'', TGroup Bracket [TIdent ''crate'', TIdent ''LINK''] ]))"
proof -
  have "list_all crate_free owner_path" by (simp add: owner_path_def)
  then show ?thesis using fragment_crate_resolved by blast
qed

section \<open>The attribute of a scanned function\<close>

text \<open>A meta item as \<^verbatim>\<open>syn\<close> parses it: a list has its tokens and, when they are metas, those.\<close>

datatype meta = MetaPath "ident list" | MetaList "ident list" "tok list" "meta list option" | MetaValue "ident list" string

fun meta_path :: "meta \<Rightarrow> ident list" where
  "meta_path (MetaPath p) = p"
| "meta_path (MetaList p ts ms) = p"
| "meta_path (MetaValue p v) = p"

text \<open>\<open>text\<close> is how \<^verbatim>\<open>proc_macro2\<close> prints tokens, without the spaces.\<close>

fun meta_text :: "(tok list \<Rightarrow> string) \<Rightarrow> meta \<Rightarrow> string" where
  "meta_text text (MetaPath p) = join_segments p"
| "meta_text text (MetaList p ts ms) = join_segments p @ ''('' @ text ts @ '')''"
| "meta_text text (MetaValue p v) = join_segments p @ ''='' @ v"

fun unwrap_cfg_attr :: "(tok list \<Rightarrow> string) \<Rightarrow> meta \<Rightarrow> (meta \<times> string list) option"
  and unwrap_first :: "(tok list \<Rightarrow> string) \<Rightarrow> meta list \<Rightarrow> (meta \<times> string list) option" where
  "unwrap_cfg_attr text m =
     (if meta_path m \<noteq> [] \<and> last (meta_path m) = ''dataflow'' then Some (m, [])
      else case m of
             MetaList p ts (Some (pred # rest)) \<Rightarrow>
               if p = [''cfg_attr'']
               then map_option (\<lambda>(inner, preds). (inner, meta_text text pred # preds)) (unwrap_first text rest)
               else None
           | _ \<Rightarrow> None)"
| "unwrap_first text [] = None"
| "unwrap_first text (m # ms) = (case unwrap_cfg_attr text m of None \<Rightarrow> unwrap_first text ms | Some r \<Rightarrow> Some r)"

definition dataflow_attr :: "(tok list \<Rightarrow> string) \<Rightarrow> meta \<Rightarrow> (meta \<times> string option) option" where
  "dataflow_attr text m =
     map_option (\<lambda>(inner, preds).
       (inner, (case preds of [] \<Rightarrow> None | [p] \<Rightarrow> Some p | _ \<Rightarrow> Some (''all('' @ join_comma preds @ '')''))))
       (unwrap_cfg_attr text m)"

definition verb_table_of :: "syn \<Rightarrow> meta \<Rightarrow> verb_table" where
  "verb_table_of sy m =
     (case m of
        MetaList _ ts _ \<Rightarrow> (case parse_verbs sy [] ts of Inl _ \<Rightarrow> [] | Inr t \<Rightarrow> t)
      | _ \<Rightarrow> [])"

section \<open>Scanning a function\<close>

text \<open>An argument: the receiver, or the name its pattern binds, if it is one, and the text of its type.\<close>

datatype fn_arg = Receiver | Typed "string option" string

fun find_map :: "('a \<Rightarrow> 'b option) \<Rightarrow> 'a list \<Rightarrow> 'b option" where
  "find_map f [] = None"
| "find_map f (x # xs) = (case f x of None \<Rightarrow> find_map f xs | Some y \<Rightarrow> Some y)"

definition node_param :: "fn_arg list \<Rightarrow> string option" where
  "node_param args =
     find_map (\<lambda>a. case a of Receiver \<Rightarrow> None | Typed nm ty \<Rightarrow> if sublist ''TaskNode'' ty then nm else None) args"

record scanned_fn =
  sf_attrs :: "meta list"
  sf_ident :: string
  sf_args :: "fn_arg list"
  sf_block :: "tok list"

record access =
  ac_func :: string
  ac_verb :: string
  ac_write :: bool
  ac_path :: string
  ac_cfgs :: "string list"

definition fn_cfgs :: "(tok list \<Rightarrow> string) \<Rightarrow> meta list \<Rightarrow> string list" where
  "fn_cfgs text attrs =
     List.map_filter (\<lambda>m. case m of MetaList p ts _ \<Rightarrow> if p = [''cfg''] then Some (text ts) else None | _ \<Rightarrow> None) attrs"

fun keep_first :: "'a list \<Rightarrow> 'a list \<Rightarrow> 'a list" where
  "keep_first acc [] = acc"
| "keep_first acc (x # xs) = keep_first (if x \<in> set acc then acc else acc @ [x]) xs"

text \<open>The callback of \<open>scan_fn\<close>: an access is recorded the first time its direction and path occur.\<close>

definition record_access ::
  "(tok list \<Rightarrow> string) \<Rightarrow> string \<Rightarrow> string list \<Rightarrow> ((bool \<times> string) list \<times> access list) callback" where
  "record_access text func cfgs c s =
     (let (seen, out) = s in
      if (vc_write c, vc_path c) \<in> set seen then Inr (None, s)
      else Inr (None, (seen @ [(vc_write c, vc_path c)],
             out @ [\<lparr>ac_func = func, ac_verb = vc_verb c, ac_write = vc_write c, ac_path = vc_path c,
                     ac_cfgs = keep_first [] (cfgs @ map text (vc_cfgs c))\<rparr>])))"

definition scan_fn ::
  "syn \<Rightarrow> (tok list \<Rightarrow> string) \<Rightarrow> ref_target \<Rightarrow> scanned_fn \<Rightarrow> access list \<Rightarrow> access list" where
  "scan_fn sy text rt f out =
     (case find_map (dataflow_attr text) (sf_attrs f) of
        None \<Rightarrow> out
      | Some (attr, wrap) \<Rightarrow>
          (case node_param (sf_args f) of
             None \<Rightarrow> out
           | Some param \<Rightarrow>
               let cfgs = fn_cfgs text (sf_attrs f) @ (case wrap of None \<Rightarrow> [] | Some p \<Rightarrow> [p])
               in snd (left_state (rewrite_verb_calls rt param (verb_table_of sy attr)
                         (record_access text (sf_ident f) cfgs) (sf_block f) ([], out)))))"

text \<open>The items of a file: functions, modules with their items if they are inline, and impls.\<close>

datatype src_item = FnItem scanned_fn | ModItem "src_item list option" | ImplItem "scanned_fn list" | OtherItem

fun scan_item :: "syn \<Rightarrow> (tok list \<Rightarrow> string) \<Rightarrow> ref_target \<Rightarrow> src_item \<Rightarrow> access list \<Rightarrow> access list" where
  "scan_item sy text rt (FnItem f) out = scan_fn sy text rt f out"
| "scan_item sy text rt (ModItem None) out = out"
| "scan_item sy text rt (ModItem (Some items)) out = fold (scan_item sy text rt) items out"
| "scan_item sy text rt (ImplItem fs) out = fold (scan_fn sy text rt) fs out"
| "scan_item sy text rt OtherItem out = out"

definition scan_dataflow ::
  "syn \<Rightarrow> (tok list \<Rightarrow> string) \<Rightarrow> ref_target \<Rightarrow> src_item list option \<Rightarrow> access list \<Rightarrow> access list" where
  "scan_dataflow sy text rt file out = (case file of None \<Rightarrow> out | Some items \<Rightarrow> fold (scan_item sy text rt) items out)"

section \<open>What is recorded\<close>

text \<open>The calls a body makes, noted by a walk that only looks, and what is kept of them.\<close>

definition calls_of :: "ref_target \<Rightarrow> string \<Rightarrow> verb_table \<Rightarrow> tok list \<Rightarrow> verb_call list" where
  "calls_of rt param verbs body = left_state (rewrite_verb_calls rt param verbs (noting (\<lambda>_. None)) body [])"

fun first_uses :: "(bool \<times> string) list \<Rightarrow> verb_call list \<Rightarrow> verb_call list" where
  "first_uses seen [] = []"
| "first_uses seen (c # cs) =
     (if (vc_write c, vc_path c) \<in> set seen then first_uses seen cs
      else c # first_uses (seen @ [(vc_write c, vc_path c)]) cs)"

definition access_of :: "(tok list \<Rightarrow> string) \<Rightarrow> string \<Rightarrow> string list \<Rightarrow> verb_call \<Rightarrow> access" where
  "access_of text func cfgs c =
     \<lparr>ac_func = func, ac_verb = vc_verb c, ac_write = vc_write c, ac_path = vc_path c,
      ac_cfgs = keep_first [] (cfgs @ map text (vc_cfgs c))\<rparr>"

lemma first_uses_append:
  "first_uses seen (cs @ [c]) = first_uses seen cs @
     (if (vc_write c, vc_path c) \<in> set seen \<union> (\<lambda>c. (vc_write c, vc_path c)) ` set cs then [] else [c])"
  by (induction seen cs rule: first_uses.induct) auto

lemma keep_first_distinct: "distinct acc \<Longrightarrow> distinct (keep_first acc xs)"
  by (induction acc xs rule: keep_first.induct) auto

lemma first_uses_distinct:
  "distinct (map (\<lambda>c. (vc_write c, vc_path c)) (first_uses seen cs))
     \<and> set seen \<inter> (\<lambda>c. (vc_write c, vc_path c)) ` set (first_uses seen cs) = {}"
  by (induction seen cs rule: first_uses.induct) auto

lemma scan_records:
  "snd (left_state (rewrite_verb_calls rt param verbs (record_access text func cfgs) body ([], out)))
     = out @ map (access_of text func cfgs) (first_uses [] (calls_of rt param verbs body))"
proof -
  let ?R = "\<lambda>s cs. set (fst s) = (\<lambda>c. (vc_write c, vc_path c)) ` set cs
     \<and> snd s = out @ map (access_of text func cfgs) (first_uses [] cs)"
  have step: "in_step verbs ?R (record_access text func cfgs) (noting (\<lambda>_. None))"
    unfolding in_step_def
    by (auto simp: record_access_def noting_def ends_alike_Inr first_uses_append access_of_def split: prod.splits)
  have "ends_alike ?R (rewrite_verb_calls rt param verbs (record_access text func cfgs) body ([], out))
      (rewrite_verb_calls rt param verbs (noting (\<lambda>_. None)) body [])"
    unfolding rewrite_verb_calls_def by (rule walk_in_step[OF step]) simp
  then show ?thesis
    by (auto simp: ends_alike_def left_state_def calls_of_def split: sum.splits prod.splits)
qed

lemma first_uses_covers:
  "set seen \<union> (\<lambda>c. (vc_write c, vc_path c)) ` set (first_uses seen cs) = set seen \<union> (\<lambda>c. (vc_write c, vc_path c)) ` set cs"
  by (induction seen cs rule: first_uses.induct) auto

lemma first_uses_subset: "set (first_uses seen cs) \<subseteq> set cs"
  by (induction seen cs rule: first_uses.induct) auto

lemma keep_first_set: "set (keep_first acc xs) = set acc \<union> set xs"
  by (induction acc xs rule: keep_first.induct) auto

text \<open>
  A scan records what the body does: for a \<open>#[dataflow]\<close> function with a node argument it adds one
  access for each direction and signal path its verb calls use, none twice and none missing, of
  a verb that really points that way, under the conditions of the function and of the attribute
  it sits under, each named once.
\<close>

theorem scan_records_body:
  assumes "find_map (dataflow_attr text) (sf_attrs f) = Some (attr, wrap)" "node_param (sf_args f) = Some param"
  shows "\<exists>new. scan_fn sy text rt f out = out @ new
     \<and> distinct (map (\<lambda>a. (ac_write a, ac_path a)) new)
     \<and> (\<lambda>a. (ac_write a, ac_path a)) ` set new
         = (\<lambda>c. (vc_write c, vc_path c)) ` set (calls_of rt param (verb_table_of sy attr) (sf_block f))
     \<and> (\<forall>a \<in> set new. ac_func a = sf_ident f \<and> direction (verb_table_of sy attr) (ac_verb a) = Some (ac_write a)
          \<and> distinct (ac_cfgs a) \<and> set (fn_cfgs text (sf_attrs f)) \<union> set_option wrap \<subseteq> set (ac_cfgs a))"
proof -
  let ?cfgs = "fn_cfgs text (sf_attrs f) @ (case wrap of None \<Rightarrow> [] | Some p \<Rightarrow> [p])"
  let ?calls = "calls_of rt param (verb_table_of sy attr) (sf_block f)"
  let ?new = "map (access_of text (sf_ident f) ?cfgs) (first_uses [] ?calls)"
  have key: "(\<lambda>a. (ac_write a, ac_path a)) \<circ> access_of text (sf_ident f) ?cfgs = (\<lambda>c. (vc_write c, vc_path c))"
    by (auto simp: access_of_def)
  have "scan_fn sy text rt f out = out @ ?new" using assms scan_records by (simp add: scan_fn_def Let_def)
  moreover have "distinct (map (\<lambda>a. (ac_write a, ac_path a)) ?new)"
    unfolding map_map key using first_uses_distinct[of "[]" ?calls] by blast
  moreover have "(\<lambda>a. (ac_write a, ac_path a)) ` set ?new = (\<lambda>c. (vc_write c, vc_path c)) ` set ?calls"
    unfolding set_map image_comp key using first_uses_covers[of "[]" ?calls] by simp
  moreover have "set_option wrap \<subseteq> set ?cfgs" by (auto split: option.split)
  then have "\<forall>a \<in> set ?new. ac_func a = sf_ident f \<and> direction (verb_table_of sy attr) (ac_verb a) = Some (ac_write a)
      \<and> distinct (ac_cfgs a) \<and> set (fn_cfgs text (sf_attrs f)) \<union> set_option wrap \<subseteq> set (ac_cfgs a)"
    using first_uses_subset[of "[]" ?calls] noted_direction[of rt param "verb_table_of sy attr" "sf_block f"]
    by (auto simp: access_of_def calls_of_def keep_first_distinct keep_first_set)
  ultimately show ?thesis by blast
qed

text \<open>\<open>#[cfg(wifi)] #[cfg_attr(net, dataflow)] fn sampler(node: &'static TaskNode) { .. }\<close>\<close>

fun small_print :: "tok list \<Rightarrow> string" where
  "small_print [] = []"
| "small_print (TIdent w # ts) = w @ small_print ts"
| "small_print (TPunct c j # ts) = c # small_print ts"
| "small_print (TLit l # ts) = l @ small_print ts"
| "small_print (TGroup d g # ts) = small_print ts"

definition sampler :: scanned_fn where
  "sampler = \<lparr>sf_attrs = [MetaList [''cfg''] [TIdent ''wifi''] None,
       MetaList [''cfg_attr''] [TIdent ''net'', TPunct CHR '','' False, TIdent ''dataflow'']
         (Some [MetaPath [''net''], MetaPath [''dataflow'']])],
     sf_ident = ''sampler'', sf_args = [Typed (Some ''node'') ''&'static TaskNode''], sf_block = small_body\<rparr>"

theorem scan_records_body_witness:
  "\<exists>new. scan_fn small_syn small_print small_target sampler [] = new \<and> (True, ''LEVEL'') \<in> (\<lambda>a. (ac_write a, ac_path a)) ` set new
     \<and> (\<forall>a \<in> set new. {''wifi'', ''net''} \<subseteq> set (ac_cfgs a))"
proof -
  have a: "find_map (dataflow_attr small_print) (sf_attrs sampler) = Some (MetaPath [''dataflow''], Some ''net'')"
    by (simp add: sampler_def dataflow_attr_def)
  have p: "node_param (sf_args sampler) = Some ''node''"
    by (simp add: sampler_def node_param_def) code_simp
  have c: "(True, ''LEVEL'') \<in> (\<lambda>c. (vc_write c, vc_path c))
      ` set (calls_of small_target ''node'' (verb_table_of small_syn (MetaPath [''dataflow''])) (sf_block sampler))"
    by (simp add: sampler_def calls_of_def verb_table_of_def rewrite_verb_calls_def small_body_def walk.simps Let_def
        starts_fn_def verb_match_def continues_def direction_def BUILTIN_WRITES_def BUILTIN_READS_def report_def
        first_arg_def rest_args_def then_walk_def noting_def left_state_def)
  have f: "fn_cfgs small_print (sf_attrs sampler) = [''wifi'']"
    by (simp add: sampler_def fn_cfgs_def List.map_filter_simps)
  show ?thesis using scan_records_body[OF a p, of small_syn small_target "[]"] c f by auto
qed

end
