(* ===== verification/Dataflow.thy ===== *)
theory Dataflow
  imports Scan Gate
begin

text \<open>
  The macros \<open>#[dataflow]\<close>, \<open>#[dataflow_bundle]\<close> and \<open>supervisor_fragment!\<close> of
  \<^verbatim>\<open>supervisor-macros/src/lib.rs\<close>: the tables of a function's accesses, whose entries carry the
  conditions of the calls, the index a rewritten call reaches its entry by, and the relay of a
  fragment. \<open>text\<close> prints tokens; \<open>holds\<close> is what rustc says of a condition.
\<close>

section \<open>Derived entries\<close>

text \<open>An entry is there if all conditions of one of its calls hold.\<close>

record derived_entry =
  de_path :: string
  de_target :: expr
  de_alts :: "tok list list list"

datatype cfg_expr = CfgIs "tok list" | CfgAll "tok list list" | CfgAny "cfg_expr list"

fun cfg_is :: "(tok list \<Rightarrow> bool) \<Rightarrow> cfg_expr \<Rightarrow> bool" where
  "cfg_is holds (CfgIs p) = holds p"
| "cfg_is holds (CfgAll ps) = list_all holds ps"
| "cfg_is holds (CfgAny cs) = list_ex (cfg_is holds) cs"

definition one_alt :: "tok list list \<Rightarrow> cfg_expr" where
  "one_alt alt = (case alt of [p] \<Rightarrow> CfgIs p | _ \<Rightarrow> CfgAll alt)"

definition derived_predicate :: "tok list list list \<Rightarrow> cfg_expr option" where
  "derived_predicate alts =
     (if list_ex (\<lambda>a. a = []) alts then None
      else case alts of [] \<Rightarrow> None | [alt] \<Rightarrow> Some (one_alt alt) | _ \<Rightarrow> Some (CfgAny (map one_alt alts)))"

text \<open>One term per entry unless no entry has a condition.\<close>

definition derived_term :: "(tok list \<Rightarrow> bool) \<Rightarrow> derived_entry \<Rightarrow> nat" where
  "derived_term holds e = (case derived_predicate (de_alts e) of None \<Rightarrow> 1 | Some c \<Rightarrow> if cfg_is holds c then 1 else 0)"

definition derived_prefix_expr :: "(tok list \<Rightarrow> bool) \<Rightarrow> derived_entry list \<Rightarrow> nat" where
  "derived_prefix_expr holds es =
     (if \<not> list_ex (\<lambda>e. derived_predicate (de_alts e) \<noteq> None) es then length es
      else fold (\<lambda>e n. n + derived_term holds e) es 0)"

definition derived_entry_tokens :: "(tok list \<Rightarrow> bool) \<Rightarrow> (expr \<Rightarrow> nat) \<Rightarrow> derived_entry \<Rightarrow> entry list" where
  "derived_entry_tokens holds addr e =
     (let plain = coupling_new (de_path e) (addr (de_target e)) in
      case derived_predicate (de_alts e) of None \<Rightarrow> [plain] | Some c \<Rightarrow> if cfg_is holds c then [plain] else [])"

text \<open>The static \<open>__SV_DATAFLOW_..\<close> as a build has it.\<close>

definition derived_table :: "(tok list \<Rightarrow> bool) \<Rightarrow> (expr \<Rightarrow> nat) \<Rightarrow> derived_entry list \<Rightarrow> entry list" where
  "derived_table holds addr es = concat (map (derived_entry_tokens holds addr) es)"

definition alt_text :: "(tok list \<Rightarrow> string) \<Rightarrow> tok list list \<Rightarrow> string" where
  "alt_text text a = join_comma (map text a)"

fun record_derived :: "(tok list \<Rightarrow> string) \<Rightarrow> verb_call \<Rightarrow> tok list list \<Rightarrow> derived_entry list \<Rightarrow> derived_entry list" where
  "record_derived text c cfgs [] = [\<lparr>de_path = vc_path c, de_target = vc_target c, de_alts = [cfgs]\<rparr>]"
| "record_derived text c cfgs (e # es) =
     (if de_path e = vc_path c
      then (if list_ex (\<lambda>a. alt_text text a = alt_text text cfgs) (de_alts e) then e
            else e\<lparr>de_alts := de_alts e @ [cfgs]\<rparr>) # es
      else e # record_derived text c cfgs es)"

text \<open>Reads and writes.\<close>

type_synonym derived = "derived_entry list \<times> derived_entry list"

definition put_derived :: "(tok list \<Rightarrow> string) \<Rightarrow> verb_call \<Rightarrow> tok list list \<Rightarrow> derived \<Rightarrow> derived" where
  "put_derived text c cfgs s =
     (if vc_write c then (fst s, record_derived text c cfgs (snd s)) else (record_derived text c cfgs (fst s), snd s))"

section \<open>The attribute on a function\<close>

datatype data_feature = Dataflow_On | Liveness_On | Data_Deps_On | Veto_On | Readiness_On

definition beats :: "string \<Rightarrow> bool" where
  "beats verb \<longleftrightarrow> verb \<in> {''beat_put'', ''beat_writer''}"

definition verb_needs :: "(data_feature \<Rightarrow> bool) \<Rightarrow> string \<Rightarrow> bool" where
  "verb_needs on verb \<longleftrightarrow>
     (if verb \<in> {''open'', ''lease''} \<and> \<not> on Data_Deps_On then True
      else if verb = ''veto'' \<and> \<not> on Veto_On then True
      else verb = ''retire'' \<and> \<not> (on Data_Deps_On \<and> on Readiness_On))"

definition collect_call :: "(data_feature \<Rightarrow> bool) \<Rightarrow> (tok list \<Rightarrow> string) \<Rightarrow> derived callback" where
  "collect_call on text c s =
     (if \<not> on Liveness_On \<and> beats (vc_verb c) \<and> vc_cfgs c = [] then Inl (Refused, s)
      else if verb_needs on (vc_verb c) \<and> vc_cfgs c = [] then Inl (Refused, s)
      else Inr (None, put_derived text c (vc_cfgs c) s))"

fun position :: "('a \<Rightarrow> bool) \<Rightarrow> 'a list \<Rightarrow> nat option" where
  "position P [] = None"
| "position P (x # xs) = (if P x then Some 0 else map_option Suc (position P xs))"

text \<open>
  \<open>sig\<close> makes the tokens of \<open>Sig { entry: &TABLE[len], target: &target }\<close>, for the write table if
  \<open>True\<close>, with the length of the entries given; \<open>Stop\<close> as error is the \<open>expect\<close> that fails.
\<close>

definition entry_index :: "derived \<Rightarrow> verb_call \<Rightarrow> nat option" where
  "entry_index d c = position (\<lambda>e. de_path e = vc_path c) (if vc_write c then snd d else fst d)"

definition rewrite_call :: "(bool \<Rightarrow> derived_entry list \<Rightarrow> expr \<Rightarrow> tok list) \<Rightarrow> derived \<Rightarrow> bool callback" where
  "rewrite_call sig d c panicked =
     (case entry_index d c of
        None \<Rightarrow> Inl (Refused, True)
      | Some k \<Rightarrow> Inr (Some (sig (vc_write c) (take k (if vc_write c then snd d else fst d)) (vc_target c)), panicked))"

datatype dataflow_error = FeatureOff | BadVerbs verb_error | NoNodeParam | WalkFailed walk_error | Panicking | NotAList
  | NoMembers

record derived_fn =
  df_block :: "tok list"
  df_tables :: derived

definition dataflow_expand ::
  "(data_feature \<Rightarrow> bool) \<Rightarrow> syn \<Rightarrow> (tok list \<Rightarrow> string) \<Rightarrow> ref_target \<Rightarrow> (bool \<Rightarrow> derived_entry list \<Rightarrow> expr \<Rightarrow> tok list)
     \<Rightarrow> tok list \<Rightarrow> scanned_fn \<Rightarrow> dataflow_error + derived_fn" where
  "dataflow_expand on sy text rt sig args f =
     (if \<not> on Dataflow_On then Inl FeatureOff
      else case parse_verbs sy [] args of
        Inl e \<Rightarrow> Inl (BadVerbs e)
      | Inr verbs \<Rightarrow>
          (case node_param (sf_args f) of
             None \<Rightarrow> Inl NoNodeParam
           | Some param \<Rightarrow>
               (case rewrite_verb_calls rt param verbs (collect_call on text) (sf_block f) ([], []) of
                  Inl (e, _) \<Rightarrow> Inl (WalkFailed e)
                | Inr (_, d) \<Rightarrow>
                    (case rewrite_verb_calls rt param verbs (rewrite_call sig d) (sf_block f) False of
                       Inl (e, panicked) \<Rightarrow> Inl (if panicked then Panicking else WalkFailed e)
                     | Inr (body, _) \<Rightarrow> Inr \<lparr>df_block = body, df_tables = d\<rparr>))))"

section \<open>Bundles\<close>

text \<open>The verbs of a member's attribute, which is read as it stands in the module.\<close>

definition member_verbs :: "syn \<Rightarrow> meta \<Rightarrow> dataflow_error + verb_table" where
  "member_verbs sy m =
     (case m of
        MetaPath _ \<Rightarrow> Inr []
      | MetaList _ ts _ \<Rightarrow> (case parse_verbs sy [] ts of Inl e \<Rightarrow> Inl (BadVerbs e) | Inr t \<Rightarrow> Inr t)
      | MetaValue _ _ \<Rightarrow> Inl NotAList)"

definition cfg_tokens :: "meta list \<Rightarrow> tok list list" where
  "cfg_tokens attrs =
     List.map_filter (\<lambda>m. case m of MetaList p ts _ \<Rightarrow> if p = [''cfg''] then Some ts else None | _ \<Rightarrow> None) attrs"

definition collect_member :: "(tok list \<Rightarrow> string) \<Rightarrow> tok list list \<Rightarrow> derived callback" where
  "collect_member text cfgs c s = Inr (None, put_derived text c (cfgs @ vc_cfgs c) s)"

definition bundle_member ::
  "syn \<Rightarrow> (tok list \<Rightarrow> string) \<Rightarrow> ref_target \<Rightarrow> src_item \<Rightarrow> derived \<times> nat \<Rightarrow> dataflow_error + derived \<times> nat" where
  "bundle_member sy text rt i s =
     (case i of
        FnItem f \<Rightarrow>
          (case find_map (dataflow_attr text) (sf_attrs f) of
             None \<Rightarrow> Inr s
           | Some (attr, _) \<Rightarrow>
               (case member_verbs sy attr of
                  Inl e \<Rightarrow> Inl e
                | Inr verbs \<Rightarrow>
                    (case node_param (sf_args f) of
                       None \<Rightarrow> Inl NoNodeParam
                     | Some param \<Rightarrow>
                         (case rewrite_verb_calls rt param verbs (collect_member text (cfg_tokens (sf_attrs f))) (sf_block f) (fst s) of
                            Inl (e, _) \<Rightarrow> Inl (WalkFailed e)
                          | Inr (_, d) \<Rightarrow> Inr (d, Suc (snd s))))))
      | _ \<Rightarrow> Inr s)"

text \<open>\<open>None\<close> as items is a module without a body. The result is what the two statics are made of.\<close>

definition bundle_expand ::
  "(data_feature \<Rightarrow> bool) \<Rightarrow> syn \<Rightarrow> (tok list \<Rightarrow> string) \<Rightarrow> ref_target \<Rightarrow> src_item list option \<Rightarrow> dataflow_error + derived" where
  "bundle_expand on sy text rt content =
     (if \<not> on Dataflow_On then Inl FeatureOff
      else case content of
        None \<Rightarrow> Inl NotAList
      | Some items \<Rightarrow>
          (case try_fold (bundle_member sy text rt) items (([], []), 0) of
             Inl e \<Rightarrow> Inl e
           | Inr (d, members) \<Rightarrow> if members = 0 then Inl NoMembers else Inr d))"

section \<open>Fragments\<close>

fun validate_dollars :: "tok list \<Rightarrow> bool" where
  "validate_dollars [] = True"
| "validate_dollars (TGroup d g # ts) = (validate_dollars g \<and> validate_dollars ts)"
| "validate_dollars (TPunct c j # ts) =
     ((c = CHR ''$'' \<longrightarrow> ts \<noteq> [] \<and> is_crate (hd ts)) \<and> validate_dollars ts)"
| "validate_dollars (t # ts) = validate_dollars ts"

datatype fragment_error = NoName | BadDollar | BadItems parse_error | OwnDefault | FragmentGate feature

text \<open>\<open>name: NAME; items\<close>. The result is the relay's name and the tokens it hands on.\<close>

definition fragment_expand :: "syn \<Rightarrow> (feature \<Rightarrow> bool) \<Rightarrow> tok list \<Rightarrow> fragment_error + ident \<times> tok list" where
  "fragment_expand sy on ts =
     (case ts of
        TIdent k # TPunct colon _ # TIdent name # TPunct semi _ # items \<Rightarrow>
          if k \<noteq> ''name'' \<or> colon \<noteq> CHR '':'' \<or> semi \<noteq> CHR '';'' \<or> syn_reserved sy name then Inl NoName
          else if \<not> validate_dollars items then Inl BadDollar
          else (let body = normalize_fragment_crate items in
            case parse_graph sy (substitute_dollar_crate [TIdent ''__sv_fragment_crate''] body) of
              Inl e \<Rightarrow> Inl (BadItems e)
            | Inr g \<Rightarrow>
                if gs_default_executor g \<noteq> None then Inl OwnDefault
                else case gate on g of Some f \<Rightarrow> Inl (FragmentGate f) | None \<Rightarrow> Inr (name, body))
      | _ \<Rightarrow> Inl NoName)"

section \<open>What an entry's condition says\<close>

definition entry_live :: "(tok list \<Rightarrow> bool) \<Rightarrow> derived_entry \<Rightarrow> bool" where
  "entry_live holds e = list_ex (list_all holds) (de_alts e)"

lemma one_alt_holds: "cfg_is holds (one_alt a) = list_all holds a"
  by (auto simp: one_alt_def split: list.split)

lemma derived_predicate_meaning:
  assumes "alts \<noteq> []"
  shows "(case derived_predicate alts of None \<Rightarrow> True | Some c \<Rightarrow> cfg_is holds c) = list_ex (list_all holds) alts"
proof (cases "list_ex (\<lambda>a. a = []) alts")
  case True
  then show ?thesis by (force simp: derived_predicate_def list_ex_iff)
next
  case False
  then show ?thesis using assms
    by (cases alts rule: remdups_adj.cases) (auto simp: derived_predicate_def one_alt_holds list_ex_iff)
qed

lemma derived_term_live: "de_alts e \<noteq> [] \<Longrightarrow> derived_term holds e = (if entry_live holds e then 1 else 0)"
  using derived_predicate_meaning[of "de_alts e" holds]
  by (auto simp: derived_term_def entry_live_def split: option.splits if_splits)

definition plain_entry :: "(expr \<Rightarrow> nat) \<Rightarrow> derived_entry \<Rightarrow> entry" where
  "plain_entry addr e = coupling_new (de_path e) (addr (de_target e))"

lemma derived_table_live:
  "list_all (\<lambda>e. de_alts e \<noteq> []) es \<Longrightarrow> derived_table holds addr es = map (plain_entry addr) (filter (entry_live holds) es)"
proof (induction es)
  case (Cons e es)
  then show ?case
    using derived_predicate_meaning[of "de_alts e" holds]
    by (auto simp: derived_table_def derived_entry_tokens_def plain_entry_def entry_live_def Let_def split: option.splits if_splits)
qed (simp add: derived_table_def)

lemma derived_prefix_live:
  assumes "list_all (\<lambda>e. de_alts e \<noteq> []) es"
  shows "derived_prefix_expr holds es = length (filter (entry_live holds) es)"
proof (cases "list_ex (\<lambda>e. derived_predicate (de_alts e) \<noteq> None) es")
  case True
  have "fold (\<lambda>e n. n + derived_term holds e) es k = k + length (filter (entry_live holds) es)" for k
    using assms by (induction es arbitrary: k) (auto simp: derived_term_live)
  then show ?thesis using True by (simp add: derived_prefix_expr_def)
next
  case False
  have "entry_live holds e" if "e \<in> set es" for e
    using derived_predicate_meaning[of "de_alts e" holds] False assms that
    by (auto simp: list_ex_iff list_all_iff entry_live_def)
  then show ?thesis using False by (auto simp: derived_prefix_expr_def filter_True)
qed

text \<open>The length of the entries before one that is there is its place in the table.\<close>

lemma derived_index:
  assumes "list_all (\<lambda>e. de_alts e \<noteq> []) es" "k < length es" "entry_live holds (es ! k)"
  shows "derived_prefix_expr holds (take k es) < length (derived_table holds addr es)"
    "derived_table holds addr es ! derived_prefix_expr holds (take k es) = plain_entry addr (es ! k)"
proof -
  have t: "list_all (\<lambda>e. de_alts e \<noteq> []) (take k es)" using assms(1) by (auto simp: list_all_iff dest: in_set_takeD)
  have "es = take k es @ es ! k # drop (Suc k) es" using assms(2) by (rule id_take_nth_drop)
  then have f: "filter (entry_live holds) es
      = filter (entry_live holds) (take k es) @ es ! k # filter (entry_live holds) (drop (Suc k) es)"
    using assms(3) by (metis filter.simps(2) filter_append)
  show "derived_prefix_expr holds (take k es) < length (derived_table holds addr es)"
    unfolding derived_table_live[OF assms(1)] derived_prefix_live[OF t] f by simp
  show "derived_table holds addr es ! derived_prefix_expr holds (take k es) = plain_entry addr (es ! k)"
    unfolding derived_table_live[OF assms(1)] derived_prefix_live[OF t] f by (simp add: nth_append)
qed

section \<open>What the recording keeps\<close>

text \<open>Conditions that print alike mean the same.\<close>

definition printed_apart :: "(tok list \<Rightarrow> string) \<Rightarrow> (tok list \<Rightarrow> bool) \<Rightarrow> bool" where
  "printed_apart text holds \<longleftrightarrow> (\<forall>a b. alt_text text a = alt_text text b \<longrightarrow> list_all holds a = list_all holds b)"

text \<open>The entries are those of the recorded calls: a path each, there if a call of it is.\<close>

definition entries_of :: "(tok list \<Rightarrow> bool) \<Rightarrow> (string \<times> tok list list) set \<Rightarrow> derived_entry list \<Rightarrow> bool" where
  "entries_of holds R es \<longleftrightarrow> distinct (map de_path es) \<and> list_all (\<lambda>e. de_alts e \<noteq> []) es
     \<and> de_path ` set es = fst ` R \<and> (\<forall>e \<in> set es. entry_live holds e \<longleftrightarrow> (\<exists>a. (de_path e, a) \<in> R \<and> list_all holds a))"

lemma record_derived_paths:
  "de_path ` set (record_derived text c cfgs es) = insert (vc_path c) (de_path ` set es)"
  by (induction es) auto

lemma record_derived_distinct: "distinct (map de_path es) \<Longrightarrow> distinct (map de_path (record_derived text c cfgs es))"
proof (induction es)
  case (Cons e es)
  have "de_path e \<noteq> vc_path c \<Longrightarrow> de_path e \<notin> de_path ` set (record_derived text c cfgs es)"
    using Cons.prems unfolding record_derived_paths by simp
  then show ?case using Cons by (auto simp: image_iff)
qed simp

lemma record_derived_live:
  assumes "printed_apart text holds" "distinct (map de_path es)"
  shows "e \<in> set (record_derived text c cfgs es) \<Longrightarrow> entry_live holds e \<longleftrightarrow>
     (\<exists>e' \<in> set es. de_path e' = de_path e \<and> entry_live holds e') \<or> (de_path e = vc_path c \<and> list_all holds cfgs)"
  using assms(2)
proof (induction es)
  case Nil
  then show ?case by (simp add: entry_live_def)
next
  case (Cons f es)
  show ?case
  proof (cases "de_path f = vc_path c")
    case True
    have same: "list_ex (\<lambda>a. alt_text text a = alt_text text cfgs) (de_alts f) \<Longrightarrow> list_all holds cfgs \<Longrightarrow> entry_live holds f"
    proof -
      assume "list_ex (\<lambda>a. alt_text text a = alt_text text cfgs) (de_alts f)" and h: "list_all holds cfgs"
      then obtain a where "a \<in> set (de_alts f)" "alt_text text a = alt_text text cfgs" by (auto simp: list_ex_iff)
      moreover from this(2) have "list_all holds a" using assms(1) h unfolding printed_apart_def by blast
      ultimately show "entry_live holds f" unfolding entry_live_def list_ex_iff by blast
    qed
    from Cons.prems True have cases: "e = (if list_ex (\<lambda>a. alt_text text a = alt_text text cfgs) (de_alts f) then f
        else f\<lparr>de_alts := de_alts f @ [cfgs]\<rparr>) \<or> e \<in> set es" by auto
    show ?thesis
    proof (cases "e \<in> set es")
      case True
      then have ne: "de_path e \<noteq> de_path f" using Cons.prems(2) by (metis distinct.simps(2) image_eqI image_set list.simps(9))
      have "e' = e" if "e' \<in> set es" "de_path e' = de_path e" for e'
        using Cons.prems(2) that True by (auto simp: distinct_map dest: inj_onD)
      then have "(\<exists>e' \<in> set (f # es). de_path e' = de_path e \<and> entry_live holds e') \<longleftrightarrow> entry_live holds e"
        using True ne by force
      then show ?thesis using ne \<open>de_path f = vc_path c\<close> by simp
    next
      case False
      then have e: "e = (if list_ex (\<lambda>a. alt_text text a = alt_text text cfgs) (de_alts f) then f
        else f\<lparr>de_alts := de_alts f @ [cfgs]\<rparr>)" using cases by simp
      then have "de_path e = vc_path c" "\<not> (\<exists>e' \<in> set es. de_path e' = vc_path c)"
        using True Cons.prems(2) by (auto simp: image_iff)
      then show ?thesis using e True same by (auto simp: entry_live_def)
    qed
  next
    case False
    then consider "e = f" | "e \<in> set (record_derived text c cfgs es)" using Cons.prems(1) by auto
    then show ?thesis
    proof cases
      case 1
      then show ?thesis using False Cons.prems(2) by (auto simp: image_iff)
    next
      case 2
      then have "de_path e \<in> insert (vc_path c) (de_path ` set es)"
        using record_derived_paths[of "text" c cfgs es] by (metis image_eqI)
      then have "de_path e \<noteq> de_path f" using False Cons.prems(2) by (metis distinct.simps(2) image_set insertE list.simps(9))
      then show ?thesis using Cons.IH[OF 2] Cons.prems(2) by auto
    qed
  qed
qed

lemma record_derived_alts:
  "list_all (\<lambda>e. de_alts e \<noteq> []) es \<Longrightarrow> list_all (\<lambda>e. de_alts e \<noteq> []) (record_derived text c cfgs es)"
  by (induction es) auto

lemma record_derived_entries:
  assumes "printed_apart text holds" "entries_of holds R es"
  shows "entries_of holds (insert (vc_path c, cfgs) R) (record_derived text c cfgs es)"
proof -
  have "list_all (\<lambda>e. de_alts e \<noteq> []) (record_derived text c cfgs es)"
    using assms(2) record_derived_alts by (auto simp: entries_of_def)
  moreover have "entry_live holds e \<longleftrightarrow> (\<exists>a. (de_path e, a) \<in> insert (vc_path c, cfgs) R \<and> list_all holds a)"
    if "e \<in> set (record_derived text c cfgs es)" for e
  proof -
    have "(\<exists>e' \<in> set es. de_path e' = de_path e \<and> entry_live holds e') \<longleftrightarrow> (\<exists>a. (de_path e, a) \<in> R \<and> list_all holds a)"
    proof
      assume "\<exists>a. (de_path e, a) \<in> R \<and> list_all holds a"
      moreover from this obtain e' where "e' \<in> set es" "de_path e' = de_path e"
        using assms(2) by (force simp: entries_of_def image_iff)
      ultimately show "\<exists>e' \<in> set es. de_path e' = de_path e \<and> entry_live holds e'"
        using assms(2) unfolding entries_of_def by metis
    qed (use assms(2) in \<open>auto simp: entries_of_def\<close>)
    then show ?thesis
      using record_derived_live[OF assms(1) _ that] assms(2) by (auto simp: entries_of_def)
  qed
  ultimately show ?thesis
    using assms(2) record_derived_distinct[of es "text" c cfgs] record_derived_paths[of "text" c cfgs es]
    by (simp add: entries_of_def)
qed

text \<open>Both tables, over calls with their conditions.\<close>

definition recorded :: "bool \<Rightarrow> (verb_call \<times> tok list list) list \<Rightarrow> (string \<times> tok list list) set" where
  "recorded w rs = {(vc_path c, a) |c a. (c, a) \<in> set rs \<and> vc_write c = w}"

definition table_of :: "bool \<Rightarrow> derived \<Rightarrow> derived_entry list" where
  "table_of w d = (if w then snd d else fst d)"

definition tables_record :: "(tok list \<Rightarrow> bool) \<Rightarrow> (verb_call \<times> tok list list) list \<Rightarrow> derived \<Rightarrow> bool" where
  "tables_record holds rs d \<longleftrightarrow> (\<forall>w. entries_of holds (recorded w rs) (table_of w d))"

lemma tables_record_Nil: "tables_record holds [] ([], [])"
  by (simp add: tables_record_def entries_of_def recorded_def table_of_def)

lemma tables_record_put:
  assumes "printed_apart text holds" "tables_record holds rs d"
  shows "tables_record holds (rs @ [(c, cfgs)]) (put_derived text c cfgs d)"
proof -
  have r: "recorded w (rs @ [(c, cfgs)]) = (if vc_write c = w then insert (vc_path c, cfgs) (recorded w rs) else recorded w rs)" for w
    by (auto simp: recorded_def)
  have t: "table_of w (put_derived text c cfgs d)
      = (if vc_write c = w then record_derived text c cfgs (table_of w d) else table_of w d)" for w
    by (simp add: table_of_def put_derived_def)
  show ?thesis
    using assms(2) record_derived_entries[OF assms(1)] by (auto simp: tables_record_def r t)
qed

section \<open>The index of a call\<close>

lemma position_Some: "position P xs = Some k \<Longrightarrow> k < length xs \<and> P (xs ! k)"
  by (induction P xs arbitrary: k rule: position.induct) (auto split: if_splits)

lemma position_exists: "x \<in> set xs \<Longrightarrow> P x \<Longrightarrow> \<exists>k. position P xs = Some k"
  by (induction P xs rule: position.induct) auto

lemma entry_index_table: "entry_index d c = position (\<lambda>e. de_path e = vc_path c) (table_of (vc_write c) d)"
  by (simp add: entry_index_def table_of_def)

text \<open>A pass that records every call it accepts has recorded the calls of the body, and those only.\<close>

definition records :: "(tok list \<Rightarrow> string) \<Rightarrow> (verb_call \<Rightarrow> tok list list) \<Rightarrow> derived callback \<Rightarrow> bool" where
  "records text conds f \<longleftrightarrow> (\<forall>c s b t. f c s = Inr (b, t) \<longrightarrow> t = put_derived text c (conds c) s)"

lemma records_collect_call: "records text vc_cfgs (collect_call on text)"
  by (simp add: records_def collect_call_def)

lemma records_collect_member: "records text (\<lambda>c. cfgs @ vc_cfgs c) (collect_member text cfgs)"
  by (simp add: records_def collect_member_def)

lemma pass_records:
  assumes "printed_apart text holds" and f: "records text conds f" and "tables_record holds rs s"
    and "rewrite_verb_calls rt param verbs f body s = Inr (out, d)"
  shows "tables_record holds (rs @ map (\<lambda>c. (c, conds c)) (calls_of rt param verbs body)) d"
proof -
  let ?R = "\<lambda>d cs. tables_record holds (rs @ map (\<lambda>c. (c, conds c)) cs) d"
  have "follows ?R (walk rt param verbs f [] None [] [] body s) (walk rt param verbs (noting (\<lambda>_. None)) [] None [] [] body [])"
  proof (rule walk_follows)
    fix c d cs assume "?R d cs"
    then have "?R (put_derived text c (conds c) d) (cs @ [c])" using tables_record_put[OF assms(1)] by fastforce
    then show "follows ?R (f c d) (noting (\<lambda>_. None) c cs)"
      using f by (auto simp: follows_def records_def noting_def simp del: split_paired_All)
  qed (simp add: assms(3))
  then show ?thesis
    using assms(4) by (cases d) (auto simp: follows_def rewrite_verb_calls_def calls_of_def left_state_def)
qed

text \<open>The second pass finds every call the first has recorded.\<close>

definition has_path :: "derived \<Rightarrow> bool \<Rightarrow> string \<Rightarrow> bool" where
  "has_path d w p \<longleftrightarrow> p \<in> de_path ` set (table_of w d)"

lemma has_path_put: "has_path (put_derived text c cfgs d) w p \<longleftrightarrow> has_path d w p \<or> (w = vc_write c \<and> p = vc_path c)"
  by (auto simp: has_path_def put_derived_def table_of_def record_derived_paths)

lemma rewrite_call_found:
  assumes "has_path d (vc_write c) (vc_path c)"
  shows "\<exists>b. rewrite_call sig d c False = Inr (b, False)"
proof -
  obtain e where "e \<in> set (table_of (vc_write c) d)" "de_path e = vc_path c" using assms by (auto simp: has_path_def)
  then obtain k where "entry_index d c = Some k" unfolding entry_index_table using position_exists[of e] by fastforce
  then show ?thesis by (simp add: rewrite_call_def)
qed

lemma second_pass_returns:
  assumes "rewrite_verb_calls rt param verbs (collect_call on text) body ([], []) = Inr (out, d)"
  shows "\<exists>body'. rewrite_verb_calls rt param verbs (rewrite_call sig d) body False = Inr (body', False)"
proof -
  define Q where "Q s t (r :: derived walked) (q :: bool walked) \<longleftrightarrow> (\<forall>a s'. r = Inr (a, s') \<longrightarrow>
      (\<forall>w p. has_path s w p \<longrightarrow> has_path s' w p) \<and> ((\<forall>w p. has_path s' w p \<longrightarrow> has_path d w p) \<longrightarrow> (\<exists>b. q = Inr (b, False))))"
    for s :: derived and t :: bool and r q
  have "Q ([], []) False (walk rt param verbs (collect_call on text) [] None [] [] body ([], []))
      (walk rt param verbs (rewrite_call sig d) [] None [] [] body False)"
  proof (rule walk_related[where R = "\<lambda>_ t. \<not> t" and Q = Q])
    fix s t r q and k :: "tok list \<Rightarrow> derived \<Rightarrow> derived walked" and l :: "tok list \<Rightarrow> bool \<Rightarrow> bool walked"
    assume rq: "Q s t r q" and kl: "\<And>a b s1 t1. \<not> t1 \<Longrightarrow> Q s1 t1 (k a s1) (l b t1)"
    show "Q s t (then_walk r k) (then_walk q l)"
    proof -
      have "(\<forall>w p. has_path s w p \<longrightarrow> has_path s' w p)
          \<and> ((\<forall>w p. has_path s' w p \<longrightarrow> has_path d w p) \<longrightarrow> (\<exists>b. then_walk q l = Inr (b, False)))"
        if "then_walk r k = Inr (a, s')" for a s'
      proof -
      from that obtain a1 s1 where r: "r = Inr (a1, s1)" and k: "k a1 s1 = Inr (a, s')"
        by (auto simp: then_walk_def split: sum.splits)
      have 1: "(\<forall>w p. has_path s w p \<longrightarrow> has_path s1 w p)"
        "(\<forall>w p. has_path s1 w p \<longrightarrow> has_path d w p) \<longrightarrow> (\<exists>b. q = Inr (b, False))"
        using rq r by (auto simp: Q_def simp del: split_paired_All)
      have 2: "(\<forall>w p. has_path s1 w p \<longrightarrow> has_path s' w p)"
        "(\<forall>w p. has_path s' w p \<longrightarrow> has_path d w p) \<longrightarrow> (\<exists>c. l b False = Inr (c, False))" for b
        using kl[of False s1 a1 b] k by (auto simp: Q_def simp del: split_paired_All)
      show ?thesis
      proof (intro conjI impI)
        show "\<forall>w p. has_path s w p \<longrightarrow> has_path s' w p" using 1(1) 2(1) by blast
        assume "\<forall>w p. has_path s' w p \<longrightarrow> has_path d w p"
        moreover from this obtain b where "q = Inr (b, False)" using 1(2) 2(1) by blast
        ultimately show "\<exists>b. then_walk q l = Inr (b, False)" using 2(2)[of b] by (simp add: then_walk_def)
      qed
      qed
      then show ?thesis unfolding Q_def by blast
    qed
  next
    fix v w cfgs arg s t assume "\<not> (t :: bool)"
    then show "Q s t (report rt (collect_call on text) v w cfgs arg s) (report rt (rewrite_call sig d) v w cfgs arg t)"
    proof (cases "rt arg")
      case (Some tp)
      then obtain target path where rt: "rt arg = Some (target, path)" by (cases tp) auto
      let ?c = "\<lparr>vc_verb = v, vc_cfgs = cfgs, vc_write = w, vc_target = target, vc_path = path\<rparr>"
      have found: "has_path d w path \<Longrightarrow> \<exists>b. rewrite_call sig d ?c False = Inr (b, False)"
        using rewrite_call_found[of d ?c sig] by simp
      show ?thesis
      proof (cases "collect_call on text ?c s")
        case (Inl e)
        then show ?thesis by (cases e) (simp add: Q_def report_def rt)
      next
        case (Inr bs)
        then have put: "bs = (None, put_derived text ?c cfgs s)" by (auto simp: collect_call_def split: if_splits)
        have "has_path (put_derived text ?c cfgs s) w path" by (simp add: has_path_put)
        then have "(\<forall>w p. has_path (put_derived text ?c cfgs s) w p \<longrightarrow> has_path d w p)
            \<Longrightarrow> \<exists>b. report rt (rewrite_call sig d) v w cfgs arg t = Inr (b, False)"
          using found \<open>\<not> t\<close> by (fastforce simp: report_def rt split: option.splits)
        then show ?thesis using Inr
          by (simp add: Q_def report_def rt put has_path_put del: split_paired_All split_paired_Ex)
      qed
    qed (simp add: Q_def report_def)
  qed (simp_all add: Q_def)
  then show ?thesis using assms by (cases d) (auto simp: Q_def rewrite_verb_calls_def)
qed

lemma table_names:
  "list_all (\<lambda>e. de_alts e \<noteq> []) es \<Longrightarrow> map c_name (derived_table holds addr es) = map de_path (filter (entry_live holds) es)"
  by (simp add: derived_table_live plain_entry_def coupling_new_def comp_def)

lemma names_of_calls:
  "{vc_path c |c a. (c, a) \<in> set (map (\<lambda>c. (c, g c)) cs) \<and> vc_write c = w \<and> list_all holds a}
    = {vc_path c |c. c \<in> set cs \<and> vc_write c = w \<and> list_all holds (g c)}"
  by (auto simp: image_iff)

lemma tables_exact:
  assumes "tables_record holds rs d"
  shows "distinct (map c_name (derived_table holds addr (table_of w d)))"
    "c_name ` set (derived_table holds addr (table_of w d)) = {vc_path c |c a. (c, a) \<in> set rs \<and> vc_write c = w \<and> list_all holds a}"
proof -
  let ?es = "table_of w d"
  have e: "distinct (map de_path ?es)" "list_all (\<lambda>e. de_alts e \<noteq> []) ?es" "de_path ` set ?es = fst ` recorded w rs"
    "\<forall>e \<in> set ?es. entry_live holds e \<longleftrightarrow> (\<exists>a. (de_path e, a) \<in> recorded w rs \<and> list_all holds a)"
    using assms by (auto simp: tables_record_def entries_of_def)
  show "distinct (map c_name (derived_table holds addr ?es))"
    unfolding table_names[OF e(2)] using e(1) by (rule distinct_map_filter)
  have "c_name ` set (derived_table holds addr ?es) = de_path ` {e \<in> set ?es. entry_live holds e}"
    using arg_cong[OF table_names[OF e(2)], of set holds addr] by simp
  also have "\<dots> = {p. \<exists>a. (p, a) \<in> recorded w rs \<and> list_all holds a}"
  proof (intro set_eqI iffI)
    fix p assume "p \<in> {p. \<exists>a. (p, a) \<in> recorded w rs \<and> list_all holds a}"
    then obtain a where a: "(p, a) \<in> recorded w rs" "list_all holds a" by blast
    then have "p \<in> de_path ` set ?es" unfolding e(3) by force
    then show "p \<in> de_path ` {e \<in> set ?es. entry_live holds e}" using e(4) a by auto
  qed (use e(4) in auto)
  finally show "c_name ` set (derived_table holds addr ?es) = {vc_path c |c a. (c, a) \<in> set rs \<and> vc_write c = w \<and> list_all holds a}"
    by (auto simp: recorded_def)
qed

lemma dataflow_never_panics: "dataflow_expand on sy text rt sig args f \<noteq> Inl Panicking"
proof
  assume p: "dataflow_expand on sy text rt sig args f = Inl Panicking"
  then obtain verbs param o1 d e where v:
    "rewrite_verb_calls rt param verbs (collect_call on text) (sf_block f) ([], []) = Inr (o1, d)"
    "rewrite_verb_calls rt param verbs (rewrite_call sig d) (sf_block f) False = Inl e"
    by (auto simp: dataflow_expand_def split: if_splits sum.splits option.splits prod.splits)
  from second_pass_returns[OF v(1), of sig] v(2) show False by simp
qed

text \<open>
  C36. The entry a rewritten verb call points at is its own, in every build. Once the first pass of
  \<open>#[dataflow]\<close> accepts a body the second never panics, and whatever conditions hold: each table
  has one entry for every signal that a compiled call of its direction uses and no other, and for a
  compiled call the index the macro wrote, a sum over the conditional entries before, is inside
  the table and is that of the entry with the call's path.
\<close>

theorem dataflow_index_exact:
  fixes addr :: "expr \<Rightarrow> nat"
  assumes "dataflow_expand on sy text rt sig args f = Inr out" "printed_apart text holds"
    and "parse_verbs sy [] args = Inr verbs" "node_param (sf_args f) = Some param"
  defines "calls \<equiv> calls_of rt param verbs (sf_block f)"
  defines "table \<equiv> \<lambda>w. derived_table holds addr (table_of w (df_tables out))"
  shows "(\<forall>w. distinct (map c_name (table w))
        \<and> c_name ` set (table w) = {vc_path c |c. c \<in> set calls \<and> vc_write c = w \<and> list_all holds (vc_cfgs c)})
     \<and> (\<forall>c \<in> set calls. \<exists>k. entry_index (df_tables out) c = Some k
          \<and> rewrite_call sig (df_tables out) c False
              = Inr (Some (sig (vc_write c) (take k (table_of (vc_write c) (df_tables out))) (vc_target c)), False)
          \<and> (list_all holds (vc_cfgs c) \<longrightarrow>
               (let i = derived_prefix_expr holds (take k (table_of (vc_write c) (df_tables out)))
                in i < length (table (vc_write c)) \<and> c_name (table (vc_write c) ! i) = vc_path c)))"
proof -
  let ?d = "df_tables out" and ?rs = "map (\<lambda>c. (c, vc_cfgs c)) calls"
  obtain o1 where "rewrite_verb_calls rt param verbs (collect_call on text) (sf_block f) ([], []) = Inr (o1, ?d)"
    using assms(1,3,4) by (auto simp: dataflow_expand_def split: if_splits sum.splits)
  from pass_records[OF assms(2) records_collect_call tables_record_Nil this] have rec: "tables_record holds ?rs ?d"
    by (simp add: calls_def)
  have call: "\<exists>k. entry_index ?d c = Some k \<and> rewrite_call sig ?d c False
        = Inr (Some (sig (vc_write c) (take k (table_of (vc_write c) ?d)) (vc_target c)), False)
      \<and> (list_all holds (vc_cfgs c) \<longrightarrow> (let i = derived_prefix_expr holds (take k (table_of (vc_write c) ?d))
            in i < length (table (vc_write c)) \<and> c_name (table (vc_write c) ! i) = vc_path c))"
    if c: "c \<in> set calls" for c
  proof -
    let ?es = "table_of (vc_write c) ?d"
    have e: "entries_of holds (recorded (vc_write c) ?rs) ?es" using rec by (simp add: tables_record_def)
    have m: "(vc_path c, vc_cfgs c) \<in> recorded (vc_write c) ?rs" using c by (auto simp: recorded_def)
    then have "vc_path c \<in> fst ` recorded (vc_write c) ?rs" by (metis fst_conv image_eqI)
    then obtain e1 where "e1 \<in> set ?es" "de_path e1 = vc_path c" using e unfolding entries_of_def by (metis imageE)
    then obtain k where k: "entry_index ?d c = Some k"
      unfolding entry_index_table using position_exists[of e1 ?es "\<lambda>e. de_path e = vc_path c"] by blast
    have at: "k < length ?es" "de_path (?es ! k) = vc_path c"
      using position_Some[OF k[unfolded entry_index_table]] by simp_all
    have "list_all holds (vc_cfgs c) \<Longrightarrow> entry_live holds (?es ! k)"
    proof -
      assume "list_all holds (vc_cfgs c)"
      then have "\<exists>a. (de_path (?es ! k), a) \<in> recorded (vc_write c) ?rs \<and> list_all holds a" unfolding at(2) using m by blast
      moreover have "entry_live holds (?es ! k) \<longleftrightarrow> (\<exists>a. (de_path (?es ! k), a) \<in> recorded (vc_write c) ?rs \<and> list_all holds a)"
        using e nth_mem[OF at(1)] unfolding entries_of_def by blast
      ultimately show "entry_live holds (?es ! k)" by (rule iffD2[rotated])
    qed
    moreover have a: "list_all (\<lambda>e. de_alts e \<noteq> []) ?es" using e by (simp add: entries_of_def)
    ultimately have live: "list_all holds (vc_cfgs c) \<Longrightarrow>
        derived_prefix_expr holds (take k ?es) < length (table (vc_write c))
        \<and> table (vc_write c) ! derived_prefix_expr holds (take k ?es) = plain_entry addr (?es ! k)"
      unfolding table_def using derived_index[OF a at(1)] by blast
    have "c_name (plain_entry addr (?es ! k)) = vc_path c" by (simp add: plain_entry_def coupling_new_def at(2))
    with live have "list_all holds (vc_cfgs c) \<longrightarrow> (let i = derived_prefix_expr holds (take k ?es)
        in i < length (table (vc_write c)) \<and> c_name (table (vc_write c) ! i) = vc_path c)"
      unfolding Let_def by metis
    moreover have "rewrite_call sig ?d c False = Inr (Some (sig (vc_write c) (take k ?es) (vc_target c)), False)"
      using k by (simp add: rewrite_call_def table_of_def)
    ultimately show ?thesis using k by blast
  qed
  have exact: "distinct (map c_name (table w))
      \<and> c_name ` set (table w) = {vc_path c |c. c \<in> set calls \<and> vc_write c = w \<and> list_all holds (vc_cfgs c)}" for w
    using tables_exact[OF rec, of addr w] unfolding table_def by auto
  show ?thesis using call exact by blast
qed

text \<open>\<open>{ #[cfg(wifi)] node.put(&LEVEL, 1); node.put(&TEMP, 2); }\<close>, built without \<open>wifi\<close>.\<close>

definition two_puts :: scanned_fn where
  "two_puts = \<lparr>sf_attrs = [MetaPath [''dataflow'']], sf_ident = ''two_puts'', sf_args = [Typed (Some ''node'') ''&'static TaskNode''],
     sf_block =
       [TGroup Brace
         [TPunct CHR ''#'' False, TGroup Bracket [TIdent ''cfg'', TGroup Paren [TIdent ''wifi'']],
          TIdent ''node'', TPunct CHR ''.'' False, TIdent ''put'',
          TGroup Paren [TPunct CHR ''&'' False, TIdent ''LEVEL'', TPunct CHR '','' False, TLit ''1''],
          TPunct CHR '';'' False,
          TIdent ''node'', TPunct CHR ''.'' False, TIdent ''put'',
          TGroup Paren [TPunct CHR ''&'' False, TIdent ''TEMP'', TPunct CHR '','' False, TLit ''2''],
          TPunct CHR '';'' False]]\<rparr>"

definition no_wifi :: "tok list \<Rightarrow> bool" where
  "no_wifi ts \<longleftrightarrow> ts \<noteq> [TIdent ''wifi'']"

definition wifi_text :: "tok list \<Rightarrow> string" where
  "wifi_text ts = (if no_wifi ts then ''o'' else ''w'')"

lemma join_comma_chars: "c \<noteq> CHR '','' \<Longrightarrow> c \<in> set (join_comma xs) \<longleftrightarrow> (\<exists>x \<in> set xs. c \<in> set x)"
  by (induction xs rule: join_comma.induct) auto

lemma wifi_text_apart: "printed_apart wifi_text no_wifi"
proof -
  have "CHR ''w'' \<in> set (alt_text wifi_text a) \<longleftrightarrow> \<not> list_all no_wifi a" for a
    by (force simp: alt_text_def join_comma_chars wifi_text_def list_all_iff)
  then show ?thesis unfolding printed_apart_def by metis
qed

lemma two_puts_expand:
  "\<exists>b. dataflow_expand (\<lambda>_. True) small_syn wifi_text small_target (\<lambda>_ es _. [TLit (concat (map de_path es))]) [] two_puts
     = Inr \<lparr>df_block = b, df_tables = ([], [\<lparr>de_path = ''LEVEL'', de_target = ExprPath ''LEVEL'', de_alts = [ [ [TIdent ''wifi'']]]\<rparr>,
         \<lparr>de_path = ''TEMP'', de_target = ExprPath ''TEMP'', de_alts = [ []]\<rparr>])\<rparr>"
proof -
  have p: "node_param (sf_args two_puts) = Some ''node''" by (simp add: two_puts_def node_param_def) code_simp
  show ?thesis
    by (simp add: dataflow_expand_def p parse_verbs.simps)
      (simp add: rewrite_verb_calls_def two_puts_def walk.simps Let_def starts_fn_def verb_match_def continues_def
        direction_def BUILTIN_WRITES_def BUILTIN_READS_def report_def first_arg_def rest_args_def then_walk_def
        collect_call_def rewrite_call_def entry_index_def put_derived_def verb_needs_def)
qed

theorem dataflow_index_exact_witness:
  "\<exists>out :: derived_fn. map c_name (derived_table no_wifi (\<lambda>_. 0) (snd (df_tables out))) = [''TEMP'']
     \<and> (\<forall>c \<in> set (calls_of small_target ''node'' [] (sf_block two_puts)). \<exists>k. entry_index (df_tables out) c = Some k
          \<and> (vc_cfgs c = [] \<longrightarrow> derived_prefix_expr no_wifi (take k (table_of (vc_write c) (df_tables out))) = 0))"
proof -
  let ?sig = "\<lambda>_ es _. [TLit (concat (map de_path es))]"
  have p: "node_param (sf_args two_puts) = Some ''node''" by (simp add: two_puts_def node_param_def) code_simp
  obtain b where d: "dataflow_expand (\<lambda>_. True) small_syn wifi_text small_target ?sig [] two_puts
     = Inr \<lparr>df_block = b, df_tables = ([], [\<lparr>de_path = ''LEVEL'', de_target = ExprPath ''LEVEL'', de_alts = [ [ [TIdent ''wifi'']]]\<rparr>,
         \<lparr>de_path = ''TEMP'', de_target = ExprPath ''TEMP'', de_alts = [ []]\<rparr>])\<rparr>" (is "_ = Inr ?out")
    using two_puts_expand by blast
  have t: "map c_name (derived_table no_wifi (\<lambda>_. 0) (snd (df_tables ?out))) = [''TEMP'']"
    by (simp add: derived_table_def derived_entry_tokens_def derived_predicate_def one_alt_def no_wifi_def coupling_new_def)
  have e: "derived_table no_wifi (\<lambda>_. 0) (fst (df_tables ?out)) = []" by (simp add: derived_table_def)
  show ?thesis
  proof (rule exI[of _ ?out], intro conjI ballI)
    show "map c_name (derived_table no_wifi (\<lambda>_. 0) (snd (df_tables ?out))) = [''TEMP'']" by (rule t)
    fix c assume c: "c \<in> set (calls_of small_target ''node'' [] (sf_block two_puts))"
    show "\<exists>k. entry_index (df_tables ?out) c = Some k
          \<and> (vc_cfgs c = [] \<longrightarrow> derived_prefix_expr no_wifi (take k (table_of (vc_write c) (df_tables ?out))) = 0)"
    proof -
      obtain k where k: "entry_index (df_tables ?out) c = Some k" and
        i: "list_all no_wifi (vc_cfgs c) \<longrightarrow> derived_prefix_expr no_wifi (take k (table_of (vc_write c) (df_tables ?out)))
          < length (derived_table no_wifi (\<lambda>_. 0) (table_of (vc_write c) (df_tables ?out)))"
        using bspec[OF conjunct2[OF dataflow_index_exact[OF d wifi_text_apart parse_verbs.simps(1) p, of "\<lambda>_. 0"]] c]
        unfolding Let_def by blast
      have "length (derived_table no_wifi (\<lambda>_. 0) (table_of w (df_tables ?out))) \<le> 1" for w
        using arg_cong[OF t, of length] e by (simp add: table_of_def)
      from this[of "vc_write c"] k i show ?thesis by auto
    qed
  qed
qed

section \<open>What a bundle holds\<close>

text \<open>The attribute's arguments, and a member with what it hands its expansion and its conditions.\<close>

definition member_args :: "meta \<Rightarrow> tok list" where
  "member_args m = (case m of MetaList _ ts _ \<Rightarrow> ts | _ \<Rightarrow> [])"

definition member_calls :: "syn \<Rightarrow> (tok list \<Rightarrow> string) \<Rightarrow> ref_target \<Rightarrow> src_item \<Rightarrow> (verb_call \<times> tok list list) list" where
  "member_calls sy text rt i =
     (case i of
        FnItem f \<Rightarrow>
          (case find_map (dataflow_attr text) (sf_attrs f) of
             None \<Rightarrow> []
           | Some (attr, _) \<Rightarrow>
               (case (parse_verbs sy [] (member_args attr), node_param (sf_args f)) of
                  (Inr verbs, Some param) \<Rightarrow>
                    map (\<lambda>c. (c, cfg_tokens (sf_attrs f) @ vc_cfgs c)) (calls_of rt param verbs (sf_block f))
                | _ \<Rightarrow> []))
      | _ \<Rightarrow> [])"

lemma bundle_member_records:
  assumes "printed_apart text holds" "tables_record holds rs d" "bundle_member sy text rt i (d, n) = Inr (d', n')"
  shows "tables_record holds (rs @ member_calls sy text rt i) d'"
proof (cases "\<exists>f attr p. i = FnItem f \<and> find_map (dataflow_attr text) (sf_attrs f) = Some (attr, p)")
  case False
  then show ?thesis using assms(2,3)
    by (auto simp: bundle_member_def member_calls_def split: src_item.splits option.splits)
next
  case True
  then obtain f attr p where i: "i = FnItem f" and a: "find_map (dataflow_attr text) (sf_attrs f) = Some (attr, p)" by blast
  obtain verbs where v: "member_verbs sy attr = Inr verbs"
    using assms(3) by (cases "member_verbs sy attr") (auto simp: bundle_member_def i a)
  then have v': "parse_verbs sy [] (member_args attr) = Inr verbs"
    by (auto simp: member_verbs_def member_args_def parse_verbs.simps(1) split: meta.splits sum.splits)
  obtain param where q: "node_param (sf_args f) = Some param"
    using assms(3) by (cases "node_param (sf_args f)") (auto simp: bundle_member_def i a v)
  obtain out where "rewrite_verb_calls rt param verbs (collect_member text (cfg_tokens (sf_attrs f))) (sf_block f) d = Inr (out, d')"
    using assms(3) by (auto simp: bundle_member_def i a v q split: sum.splits prod.splits)
  from pass_records[OF assms(1) records_collect_member assms(2) this] show ?thesis
    by (simp add: member_calls_def i a v' q)
qed

lemma bundle_records:
  assumes "printed_apart text holds"
  shows "try_fold (bundle_member sy text rt) items (d, n) = Inr (d', n') \<Longrightarrow> tables_record holds rs d
    \<Longrightarrow> tables_record holds (rs @ concat (map (member_calls sy text rt) items)) d'"
proof (induction items arbitrary: rs d n)
  case (Cons i items)
  obtain d1 n1 where s: "bundle_member sy text rt i (d, n) = Inr (d1, n1)"
    "try_fold (bundle_member sy text rt) items (d1, n1) = Inr (d', n')"
    using Cons.prems(1) by (auto split: sum.splits)
  show ?case
    using Cons.IH[OF s(2) bundle_member_records[OF assms Cons.prems(2) s(1)]] by simp
qed simp

lemma fn_tables_record:
  assumes "dataflow_expand on sy text rt sig args f = Inr out" "printed_apart text holds"
  obtains verbs param where "parse_verbs sy [] args = Inr verbs" "node_param (sf_args f) = Some param"
    "tables_record holds (map (\<lambda>c. (c, vc_cfgs c)) (calls_of rt param verbs (sf_block f))) (df_tables out)"
proof -
  obtain verbs param o1 where v: "parse_verbs sy [] args = Inr verbs" "node_param (sf_args f) = Some param"
    "rewrite_verb_calls rt param verbs (collect_call on text) (sf_block f) ([], []) = Inr (o1, df_tables out)"
    using assms(1) by (auto simp: dataflow_expand_def split: if_splits sum.splits option.splits)
  from pass_records[OF assms(2) records_collect_call tables_record_Nil v(3)] that[OF v(1,2)] show thesis by simp
qed

text \<open>The functions a build compiles as members of a bundle.\<close>

definition live_members :: "(tok list \<Rightarrow> string) \<Rightarrow> (tok list \<Rightarrow> bool) \<Rightarrow> src_item list \<Rightarrow> (scanned_fn \<times> meta) set" where
  "live_members text holds items =
     {(f, attr) |f attr p. FnItem f \<in> set items \<and> find_map (dataflow_attr text) (sf_attrs f) = Some (attr, p)
        \<and> list_all holds (cfg_tokens (sf_attrs f))}"

text \<open>The signals a member's calls of a direction use in a build.\<close>

definition member_names :: "syn \<Rightarrow> (tok list \<Rightarrow> string) \<Rightarrow> ref_target \<Rightarrow> (tok list \<Rightarrow> bool) \<Rightarrow> bool \<Rightarrow> src_item \<Rightarrow> string set" where
  "member_names sy text rt holds w i =
     {vc_path c |c a. (c, a) \<in> set (member_calls sy text rt i) \<and> vc_write c = w \<and> list_all holds a}"

lemma member_names_live:
  assumes "(f, attr) \<in> live_members text holds items" "printed_apart text holds"
    and "dataflow_expand on sy text rt sig (member_args attr) f = Inr out"
  shows "member_names sy text rt holds w (FnItem f) = c_name ` set (derived_table holds addr (table_of w (df_tables out)))"
proof -
  obtain p where a: "find_map (dataflow_attr text) (sf_attrs f) = Some (attr, p)" "list_all holds (cfg_tokens (sf_attrs f))"
    using assms(1) by (auto simp: live_members_def)
  obtain verbs param where v: "parse_verbs sy [] (member_args attr) = Inr verbs" "node_param (sf_args f) = Some param"
    "tables_record holds (map (\<lambda>c. (c, vc_cfgs c)) (calls_of rt param verbs (sf_block f))) (df_tables out)"
    using fn_tables_record assms(2,3) by metis
  show ?thesis
    by (simp only: member_names_def member_calls_def src_item.case a(1) option.case prod.case v(1,2) sum.case
        tables_exact(2)[OF v(3)] names_of_calls) (simp add: a(2))
qed

lemma member_names_dead:
  assumes "i \<in> set items" "\<nexists>f attr. i = FnItem f \<and> (f, attr) \<in> live_members text holds items"
  shows "member_names sy text rt holds w i = {}"
proof (cases i)
  case (FnItem f)
  show ?thesis
  proof (cases "find_map (dataflow_attr text) (sf_attrs f)")
    case (Some ap)
    then obtain attr p where f: "find_map (dataflow_attr text) (sf_attrs f) = Some (attr, p)" by (cases ap) auto
    then have "\<not> list_all holds (cfg_tokens (sf_attrs f))" using assms FnItem by (auto simp: live_members_def)
    then show ?thesis by (auto simp: member_names_def member_calls_def f FnItem split: option.splits sum.splits)
  qed (simp add: member_names_def member_calls_def FnItem)
qed (simp_all add: member_names_def member_calls_def)



text \<open>The condition of a \<open>cfg_attr\<close> around the attribute does not reach the bundle.\<close>

lemma bundle_drops_wrapper:
  assumes "find_map (dataflow_attr text) (sf_attrs f) = Some (attr, Some predicate)"
    and "find_map (dataflow_attr text) (sf_attrs g) = Some (attr, None)"
    and "sf_args g = sf_args f" "sf_block g = sf_block f" "cfg_tokens (sf_attrs g) = cfg_tokens (sf_attrs f)"
  shows "bundle_member sy text rt (FnItem f) = bundle_member sy text rt (FnItem g)"
  by (rule ext) (simp add: bundle_member_def assms cong: sum.case_cong option.case_cong)

end
