(* ===== verification/Glue.thy ===== *)
theory Glue
  imports Shell Declaration
begin

text \<open>
  The code \<^verbatim>\<open>supervisor-macros/src/lib.rs\<close> writes for a \<open>task:\<close> node or pool member: the spawn glue
  (\<open>node_spawn\<close>) and the resident shell around the worker (\<open>emit_shell\<close>). A resource is its kind
  and the address of its slot. What a slot holds is a name: what a worker does to the object
  behind a \<open>&mut\<close> is not in it. The allocator, the executor's task storage and the worker are
  parameters. The worker's output is \<open>None\<close> when an injected crash ended it.
\<close>

section \<open>Slots of the generated code\<close>

record task_glue =
  tg_node :: nref
  tg_executor :: "nat option"
  tg_resources :: "(resource_kind \<times> nat) list"
  tg_state :: "nat option"
  tg_cancel :: bool
  tg_exit :: "nat option"

fun held_by :: "nat gate \<Rightarrow> nat option" where
  "held_by (SlotGate r) = rs_slot r"
| "held_by (BudgetGate b) = None"

definition slot_value :: "nat \<Rightarrow> world \<Rightarrow> nat option" where
  "slot_value g w = held_by (w_gates w g)"

definition put_gate :: "nat \<Rightarrow> nat gate \<Rightarrow> world \<Rightarrow> world" where
  "put_gate g x w = w\<lparr>w_gates := (w_gates w)(g := x)\<rparr>"

definition slot_take :: "nat \<Rightarrow> world \<Rightarrow> nat option \<times> world" where
  "slot_take g w =
     (case w_gates w g of
        SlotGate r \<Rightarrow> (let (v, r1) = rs_take r in (v, put_gate g (SlotGate r1) w))
      | BudgetGate b \<Rightarrow> (None, w))"

definition slot_get :: "nat \<Rightarrow> world \<Rightarrow> nat option \<times> world" where
  "slot_get g w =
     (case w_gates w g of
        SlotGate r \<Rightarrow> (let (v, r1) = rs_get r in (v, put_gate g (SlotGate r1) w))
      | BudgetGate b \<Rightarrow> (None, w))"

definition slot_provide :: "nat \<Rightarrow> nat \<Rightarrow> world \<Rightarrow> world" where
  "slot_provide g v w =
     (case w_gates w g of
        SlotGate r \<Rightarrow> (let (r1, ge) = rs_provide v (r, gate_evt w) in (put_gate g (SlotGate r1) w)\<lparr>gate_evt := ge\<rparr>)
      | BudgetGate b \<Rightarrow> w)"

section \<open>The spawn glue\<close>

text \<open>
  \<open>box w\<close> is \<open>try_box\<close> of the state's first value, \<open>task_fn w\<close> the call of the task function:
  a token with its id, or \<open>Busy\<close> when the storage is taken. Running the spawned task is the
  executor's, later.
\<close>

definition box_state :: "(world \<Rightarrow> nat option) \<Rightarrow> task_glue \<Rightarrow> world \<Rightarrow> nat option option" where
  "box_state box G w = (case tg_state G of None \<Rightarrow> Some None | Some _ \<Rightarrow> map_option Some (box w))"

definition hand_off :: "task_glue \<Rightarrow> nat option \<Rightarrow> world \<Rightarrow> world" where
  "hand_off G state w = (case (tg_state G, state) of (Some st, Some v) \<Rightarrow> slot_provide st v w | _ \<Rightarrow> w)"

definition adopt :: "nref \<Rightarrow> u32 \<Rightarrow> world \<Rightarrow> world" where
  "adopt n tid w = on_handle n (\<lambda>h. h\<lparr>task_id := tid\<rparr>) w"

definition launch ::
  "(world \<Rightarrow> nat option) \<Rightarrow> (world \<Rightarrow> spawn_error + u32) \<Rightarrow> task_glue \<Rightarrow> world \<Rightarrow> (spawn_error + unit) \<times> world" where
  "launch box task_fn G w =
     (case sv_resident (w_h w (tg_node G)) of
        Inl e \<Rightarrow> (Inl e, w)
      | Inr resident \<Rightarrow>
          (case box_state box G w of
             None \<Rightarrow> (Inl SpawnBusy, w)
           | Some state \<Rightarrow>
               if list_ex (\<lambda>(k, g). \<not> gate_is_filled (w_gates w g)) (tg_resources G) then (Inl SpawnBusy, w)
               else let w1 = hand_off G state w in
                 if resident then (Inr (), on_handle (tg_node G) sv_start w1)
                 else case task_fn w1 of
                        Inl e \<Rightarrow> (Inl e, w1)
                      | Inr tid \<Rightarrow> (Inr (), on_handle (tg_node G) sv_mark_resident (adopt (tg_node G) tid w1))))"

definition spawn_glue ::
  "(world \<Rightarrow> nat option) \<Rightarrow> (world \<Rightarrow> spawn_error + u32) \<Rightarrow> task_glue \<Rightarrow> world \<Rightarrow> (spawn_error + unit) \<times> world" where
  "spawn_glue box task_fn G w =
     (case tg_executor G of
        None \<Rightarrow> launch box task_fn G w
      | Some ex \<Rightarrow> (case sp_get (w_slots w ex) of None \<Rightarrow> (Inl SpawnBusy, w) | Some _ \<Rightarrow> launch box task_fn G w))"

section \<open>The shell\<close>

fun take_resource :: "resource_kind \<Rightarrow> nat \<Rightarrow> world \<Rightarrow> nat option \<times> world" where
  "take_resource Shared g w = slot_get g w"
| "take_resource Divisible g w = (Some g, w)"
| "take_resource _ g w = slot_take g w"

text \<open>In order; the first that is missing ends it, and what was taken before is dropped.\<close>

fun take_all :: "(resource_kind \<times> nat) list \<Rightarrow> world \<Rightarrow> nat list option \<times> world" where
  "take_all [] w = (Some [], w)"
| "take_all ((k, g) # rs) w =
     (case take_resource k g w of
        (None, w1) \<Rightarrow> (None, w1)
      | (Some v, w1) \<Rightarrow> (let (vs, w2) = take_all rs w1 in (map_option (Cons v) vs, w2)))"

fun restore_all :: "((resource_kind \<times> nat) \<times> nat) list \<Rightarrow> world \<Rightarrow> world" where
  "restore_all [] w = w"
| "restore_all (((k, g), v) # rs) w = restore_all rs (if k = Lend then slot_provide g v w else w)"

text \<open>
  Where a shell stands between two polls: \<open>Working vs c\<close> holds the values it took and drives the
  worker's future. One turn runs it to the next of these points or to a pending poll.
\<close>

datatype 'f phase = Activating | Working "nat list" "'f cancellable_future" | Parked

definition take_state :: "task_glue \<Rightarrow> world \<Rightarrow> nat option option \<times> world" where
  "take_state G w =
     (case tg_state G of
        None \<Rightarrow> (Some None, w)
      | Some st \<Rightarrow> (let (v, w1) = slot_take st w in (map_option Some v, w1)))"

definition drive ::
  "platform \<Rightarrow> races \<Rightarrow> ('f, nat option) worker \<Rightarrow> task_glue \<Rightarrow> 'f cancellable_future \<Rightarrow> world
     \<Rightarrow> (nat option poll \<times> 'f cancellable_future \<times> world) option" where
  "drive P r step G c w =
     (if tg_cancel G
      then map_option (\<lambda>(res, c1, w1).
             (case res of Wake_Me \<Rightarrow> Wake_Me | Done (Inl Aborted) \<Rightarrow> Done None | Done (Inr out) \<Rightarrow> Done out, c1, w1))
             (cancellable_poll P r step (tg_node G) c w)
      else case poll_worker step (cf_fut c) w of
             (Inl fut, w1) \<Rightarrow> Some (Wake_Me, c\<lparr>cf_fut := fut\<rparr>, w1)
           | (Inr out, w1) \<Rightarrow> Some (Done out, c\<lparr>cf_fut := None\<rparr>, w1))"

definition provide_exit :: "task_glue \<Rightarrow> nat option \<Rightarrow> world \<Rightarrow> world" where
  "provide_exit G out w = (case (tg_exit G, out) of (Some x, Some v) \<Rightarrow> slot_provide x v w | _ \<Rightarrow> w)"

definition park :: "task_glue \<Rightarrow> world \<Rightarrow> 'f phase \<times> world \<times> bool" where
  "park G w = (Parked, sv_park (tg_node G) w, False)"

definition begin_activation ::
  "platform \<Rightarrow> races \<Rightarrow> (nat list \<Rightarrow> nat option \<Rightarrow> 'f) \<Rightarrow> task_glue \<Rightarrow> world \<Rightarrow> ('f phase \<times> world \<times> bool) option" where
  "begin_activation P r worker G w =
     (case take_state G w of
        (None, w1) \<Rightarrow> map_option (park G) (mark_lost_resource P r (tg_node G) w1)
      | (Some state, w1) \<Rightarrow>
          (case take_all (tg_resources G) w1 of
             (None, w2) \<Rightarrow> map_option (park G) (mark_lost_resource P r (tg_node G) w2)
           | (Some vs, w2) \<Rightarrow> Some (Working vs (run_cancellable (worker vs state)), w2, False)))"

definition end_activation ::
  "platform \<Rightarrow> races \<Rightarrow> task_glue \<Rightarrow> nat list \<Rightarrow> nat option \<Rightarrow> world \<Rightarrow> ('f phase \<times> world \<times> bool) option" where
  "end_activation P r G vs out w =
     map_option (park G) (mark_exited P r (tg_node G) (provide_exit G out (restore_all (zip (tg_resources G) vs) w)))"

text \<open>The last component says that the turn ends the poll.\<close>

fun shell_turn ::
  "nat \<Rightarrow> platform \<Rightarrow> races \<Rightarrow> (nat list \<Rightarrow> nat option \<Rightarrow> 'f) \<Rightarrow> ('f, nat option) worker \<Rightarrow> task_glue
     \<Rightarrow> 'f phase \<Rightarrow> world \<Rightarrow> ('f phase \<times> world \<times> bool) option" where
  "shell_turn fuel P r worker step G Activating w = begin_activation P r worker G w"
| "shell_turn fuel P r worker step G (Working vs c) w =
     (case drive P r step G c w of
        None \<Rightarrow> None
      | Some (Wake_Me, c1, w1) \<Rightarrow> Some (Working vs c1, w1, True)
      | Some (Done out, c1, w1) \<Rightarrow> end_activation P r G vs out w1)"
| "shell_turn fuel P r worker step G Parked w =
     (let (left, w1) = park_turns fuel P (tg_node G) w in Some (if left then Activating else Parked, w1, \<not> left))"

fun shell_poll ::
  "nat \<Rightarrow> platform \<Rightarrow> races \<Rightarrow> (nat list \<Rightarrow> nat option \<Rightarrow> 'f) \<Rightarrow> ('f, nat option) worker \<Rightarrow> task_glue
     \<Rightarrow> 'f phase \<Rightarrow> world \<Rightarrow> ('f phase \<times> world) option" where
  "shell_poll 0 P r worker step G ph w = None"
| "shell_poll (Suc fuel) P r worker step G ph w =
     (case shell_turn fuel P r worker step G ph w of
        None \<Rightarrow> None
      | Some (ph1, w1, ends) \<Rightarrow>
          if ends then Some (ph1, w1) else shell_poll fuel P r worker step G ph1 w1)"

section \<open>What the glue does\<close>

lemma sv_resident_cases:
  "sv_resident h = (if \<not> flag RESIDENT h then Inr False else if flag IDLE h then Inr True else Inl SpawnBusy)"
  by (simp add: sv_resident_def flag_def)

lemma slot_value_put: "slot_value g (put_gate b x w) = (if g = b then held_by x else slot_value g w)"
  by (simp add: slot_value_def put_gate_def)

lemma put_gate_sel [simp]: "w_h (put_gate g x w) = w_h w" "w_gates (put_gate g x w) = (w_gates w)(g := x)"
  "w_slots (put_gate g x w) = w_slots w" "gate_evt (put_gate g x w) = gate_evt w"
  by (simp_all add: put_gate_def)

lemma slot_provide_frame [simp]: "w_h (slot_provide g v w) = w_h w" "b \<noteq> g \<Longrightarrow> w_gates (slot_provide g v w) b = w_gates w b"
  by (auto simp: slot_provide_def split: gate.split prod.split)

lemma hand_off_frame: "w_h (hand_off G state w) = w_h w" "Some b \<noteq> tg_state G \<Longrightarrow> w_gates (hand_off G state w) b = w_gates w b"
  by (auto simp: hand_off_def split: option.split)

definition executor_in :: "task_glue \<Rightarrow> world \<Rightarrow> bool" where
  "executor_in G w \<longleftrightarrow> (\<forall>ex. tg_executor G = Some ex \<longrightarrow> sp_get (w_slots w ex) \<noteq> None)"

definition resources_in :: "task_glue \<Rightarrow> world \<Rightarrow> bool" where
  "resources_in G w \<longleftrightarrow> (\<forall>(k, g) \<in> set (tg_resources G). gate_is_filled (w_gates w g))"

text \<open>Memory: the state's box, and the task's storage the first time.\<close>

definition memory_in :: "(world \<Rightarrow> nat option) \<Rightarrow> (world \<Rightarrow> spawn_error + u32) \<Rightarrow> task_glue \<Rightarrow> world \<Rightarrow> bool" where
  "memory_in box task_fn G w \<longleftrightarrow> (case box_state box G w of
      None \<Rightarrow> False
    | Some state \<Rightarrow> flag RESIDENT (w_h w (tg_node G)) \<or> (\<exists>tid. task_fn (hand_off G state w) = Inr tid))"

lemma launch_contract:
  assumes "launch box task_fn G w = (res, w')"
  shows "case res of
      Inl e \<Rightarrow> (\<not> is_settled (w_h w (tg_node G)) \<or> \<not> resources_in G w \<or> \<not> memory_in box task_fn G w)
        \<and> w_h w' = w_h w \<and> (\<forall>g. Some g \<noteq> tg_state G \<longrightarrow> w_gates w' g = w_gates w g)
    | Inr _ \<Rightarrow> is_settled (w_h w (tg_node G)) \<and> resources_in G w \<and> memory_in box task_fn G w
        \<and> flag RESIDENT (w_h w' (tg_node G))
        \<and> (flag RESIDENT (w_h w (tg_node G)) \<longrightarrow> \<not> flag IDLE (w_h w' (tg_node G)))"
  using assms
  by (auto simp: launch_def sv_resident_cases Let_def hand_off_frame resources_in_def memory_in_def flag_bit flag_simps
      list_ex_iff adopt_def split: if_splits option.splits sum.splits)

definition glue_fits :: "platform \<Rightarrow> supervisor \<Rightarrow> task_glue \<Rightarrow> bool" where
  "glue_fits P S G \<longleftrightarrow> spawn_slot (p_cfg P (tg_node G)) = tg_executor G
     \<and> resource_gates (p_cfg P (tg_node G)) = map snd (tg_resources G)
     \<and> (tg_executor G \<noteq> None \<longrightarrow> s_has S SHAPE_EXEC_SLOTS) \<and> (tg_resources G \<noteq> [] \<longrightarrow> s_has S SHAPE_RESOURCES)"

lemma spawn_glue_result:
  assumes "spawn_glue box task_fn G w = (res, w')"
  shows "case res of
      Inl e \<Rightarrow> (\<not> executor_in G w \<or> \<not> is_settled (w_h w (tg_node G)) \<or> \<not> resources_in G w \<or> \<not> memory_in box task_fn G w)
        \<and> w_h w' = w_h w \<and> (\<forall>g. Some g \<noteq> tg_state G \<longrightarrow> w_gates w' g = w_gates w g)
    | Inr _ \<Rightarrow> executor_in G w \<and> is_settled (w_h w (tg_node G)) \<and> resources_in G w \<and> memory_in box task_fn G w
        \<and> flag RESIDENT (w_h w' (tg_node G))
        \<and> (flag RESIDENT (w_h w (tg_node G)) \<longrightarrow> \<not> flag IDLE (w_h w' (tg_node G)))"
proof (cases "executor_in G w")
  case True
  then have "launch box task_fn G w = (res, w')"
    using assms by (auto simp: spawn_glue_def executor_in_def split: option.splits)
  from launch_contract[OF this] True show ?thesis by (auto split: sum.splits)
next
  case False
  then have "res = Inl SpawnBusy \<and> w' = w"
    using assms by (auto simp: spawn_glue_def executor_in_def split: option.splits)
  then show ?thesis using False by simp
qed

lemma open_gates_in:
  assumes "glue_fits P S G" "gate_test_of P S overdue (tg_node G) v = GatesOpen" "w = on_handle (tg_node G) reset v"
  shows "executor_in G w \<and> resources_in G w \<and> is_settled (w_h w (tg_node G))"
  using assms by (auto simp: gate_test_of_def glue_fits_def executor_in_def resources_in_def Let_def list_ex_iff
      is_settled_bits flag_simps split: if_splits option.splits)

text \<open>
  The spawn glue and the gates of the start wave fit together. The glue either starts one
  activation, and then it had executor, resources, memory and a shell that has let go, and a
  resident shell leaves its park; or it refuses, for want of one of these, and has changed no
  handle and no slot but the state's own. And when the supervisor's gate test has passed, what is
  refused is memory: the box of the state or, the first time, the task's storage.
\<close>

theorem spawn_glue_contract:
  assumes "spawn_glue box task_fn G w = (res, w')"
  shows "(case res of
      Inl e \<Rightarrow> (\<not> executor_in G w \<or> \<not> is_settled (w_h w (tg_node G)) \<or> \<not> resources_in G w \<or> \<not> memory_in box task_fn G w)
        \<and> w_h w' = w_h w \<and> (\<forall>g. Some g \<noteq> tg_state G \<longrightarrow> w_gates w' g = w_gates w g)
    | Inr _ \<Rightarrow> executor_in G w \<and> is_settled (w_h w (tg_node G)) \<and> resources_in G w \<and> memory_in box task_fn G w
        \<and> flag RESIDENT (w_h w' (tg_node G))
        \<and> (flag RESIDENT (w_h w (tg_node G)) \<longrightarrow> \<not> flag IDLE (w_h w' (tg_node G))))
    \<and> (\<forall>P S overdue v. glue_fits P S G \<and> gate_test_of P S overdue (tg_node G) v = GatesOpen
        \<and> w = on_handle (tg_node G) reset v \<and> isl res \<longrightarrow> \<not> memory_in box task_fn G w)"
  using spawn_glue_result[OF assms] open_gates_in[of _ _ G _ _ w] by (cases res) fastforce+

section \<open>Lent values come back\<close>

lemma slot_take_value:
  "slot_value b (snd (slot_take g w)) = (if b = g then None else slot_value b w)"
  "fst (slot_take g w) = slot_value g w"
  by (auto simp: slot_take_def slot_value_def rs_take_def split: gate.split)

lemma slot_get_value: "slot_value b (snd (slot_get g w)) = slot_value b w" "fst (slot_get g w) = slot_value g w"
  by (auto simp: slot_get_def slot_value_def split: gate.split)

lemma take_resource_value:
  "slot_value b (snd (take_resource k g w)) = (if b = g \<and> k \<in> {Lend, Consume} then None else slot_value b w)"
  "k \<noteq> Divisible \<Longrightarrow> fst (take_resource k g w) = slot_value g w"
  by (cases k; simp add: slot_take_value slot_get_value)+

text \<open>What is taken is what was there, and what is taken for good leaves its slot empty.\<close>

lemma take_all_values:
  "take_all rs w = (Some vs, w') \<Longrightarrow> distinct (map snd rs) \<Longrightarrow>
     length vs = length rs
     \<and> (\<forall>((k, g), v) \<in> set (zip rs vs). k \<noteq> Divisible \<longrightarrow> slot_value g w = Some v)
     \<and> (\<forall>b. slot_value b w' = (if (Lend, b) \<in> set rs \<or> (Consume, b) \<in> set rs then None else slot_value b w))"
proof (induction rs arbitrary: w vs)
  case (Cons kg rs)
  obtain k g where kg: "kg = (k, g)" by fastforce
  obtain v us where v: "fst (take_resource k g w) = Some v" "take_all rs (snd (take_resource k g w)) = (Some us, w')" "vs = v # us"
    using Cons.prems(1) by (auto simp: kg split: prod.splits option.splits)
  have d: "distinct (map snd rs)" "g \<notin> snd ` set rs" using Cons.prems(2) by (auto simp: kg)
  note IH = Cons.IH[OF v(2) d(1)]
  have other: "(k', g) \<notin> set rs" for k' using d(2) by force
  have "slot_value b (snd (take_resource k g w)) = slot_value b w" if "b \<noteq> g" for b
    using that by (simp add: take_resource_value)
  moreover have "b \<noteq> g" if "((k', b), u) \<in> set (zip rs us)" for k' b u
    using that d(2) set_zip_leftD by force
  ultimately have vals: "\<forall>((k', b), u) \<in> set (zip rs us). k' \<noteq> Divisible \<longrightarrow> slot_value b w = Some u"
    using IH by fastforce
  have "k \<noteq> Divisible \<longrightarrow> slot_value g w = Some v" using v(1) by (auto simp: take_resource_value)
  moreover have "slot_value b w' = (if (Lend, b) \<in> set (kg # rs) \<or> (Consume, b) \<in> set (kg # rs) then None else slot_value b w)" for b
    using IH other by (auto simp: kg take_resource_value slot_take_value)
  ultimately show ?case using IH vals by (simp add: kg v(3))
qed auto

text \<open>A static keeps its type: a slot stays a slot.\<close>

definition is_slot :: "nat \<Rightarrow> world \<Rightarrow> bool" where
  "is_slot g w \<longleftrightarrow> (\<exists>r. w_gates w g = SlotGate r)"

definition same_types :: "world \<Rightarrow> world \<Rightarrow> bool" where
  "same_types w w' \<longleftrightarrow> (\<forall>g. is_slot g w = is_slot g w')"

lemma slot_provide_value:
  "slot_value b (slot_provide g v w) = (if b = g \<and> is_slot g w then Some v else slot_value b w)"
  "is_slot b (slot_provide g v w) = is_slot b w"
  by (auto simp: slot_provide_def slot_value_def is_slot_def rs_provide_def split: gate.split)

lemma take_all_typed: "take_all rs w = (vs, w') \<Longrightarrow> is_slot b w' = is_slot b w"
proof (induction rs arbitrary: w vs)
  case (Cons kg rs)
  obtain k g where kg: "kg = (k, g)" by fastforce
  obtain o' w1 where o: "take_resource k g w = (o', w1)" by fastforce
  then have "is_slot b w1 = is_slot b w"
    by (cases k; auto simp: slot_take_def slot_get_def is_slot_def rs_take_def split: gate.splits if_splits)
  then show ?case using Cons.prems o Cons.IH by (auto simp: kg split: option.splits prod.splits)
qed simp

lemma slot_value_Some: "slot_value g w = Some v \<Longrightarrow> is_slot g w"
  by (cases "w_gates w g") (auto simp: slot_value_def is_slot_def)

lemma restore_all_values:
  "length vs = length rs \<Longrightarrow> distinct (map snd rs) \<Longrightarrow> \<forall>(k, g) \<in> set rs. k = Lend \<longrightarrow> is_slot g w \<Longrightarrow>
     (\<forall>((k, g), v) \<in> set (zip rs vs). k = Lend \<longrightarrow> slot_value g (restore_all (zip rs vs) w) = Some v)
     \<and> (\<forall>b. (Lend, b) \<notin> set rs \<longrightarrow> slot_value b (restore_all (zip rs vs) w) = slot_value b w)
     \<and> (\<forall>b. is_slot b (restore_all (zip rs vs) w) = is_slot b w)"
proof (induction vs rs arbitrary: w rule: list_induct2)
  case (Cons v vs kg rs)
  obtain k g where kg: "kg = (k, g)" by fastforce
  let ?w = "if k = Lend then slot_provide g v w else w"
  have n: "(Lend, g) \<notin> set rs" using Cons.prems(1) by (force simp: kg)
  have "\<forall>(k, g) \<in> set rs. k = Lend \<longrightarrow> is_slot g ?w" using Cons.prems(2) by (auto simp: slot_provide_value)
  then have IH: "(\<forall>((k, g), v) \<in> set (zip rs vs). k = Lend \<longrightarrow> slot_value g (restore_all (zip rs vs) ?w) = Some v)
     \<and> (\<forall>b. (Lend, b) \<notin> set rs \<longrightarrow> slot_value b (restore_all (zip rs vs) ?w) = slot_value b ?w)
     \<and> (\<forall>b. is_slot b (restore_all (zip rs vs) ?w) = is_slot b ?w)"
    using Cons.IH[of ?w] Cons.prems(1) by simp
  have "k = Lend \<Longrightarrow> slot_value g (restore_all (zip rs vs) ?w) = Some v"
    using IH n Cons.prems(2) by (simp add: kg slot_provide_value)
  then show ?case using IH by (auto simp: kg slot_provide_value)
qed simp

lemma release_claim_list_value: "release_claim_list cs w = Some w' \<Longrightarrow> slot_value b w' = slot_value b w"
proof (induction cs w rule: release_claim_list.induct)
  case (2 g slot cs w)
  then obtain x where x: "gate_release slot (w_gates w g) = Some x"
    "release_claim_list cs (w\<lparr>w_gates := (w_gates w)(g := x)\<rparr>) = Some w'"
    by (auto split: option.splits)
  have "held_by x = held_by (w_gates w g)" using x(1) by (cases "w_gates w g") auto
  then show ?case using "2.IH"[OF x] by (auto simp: slot_value_def)
qed simp

lemma clear_gates_value: "b \<notin> set gs \<Longrightarrow> slot_value b (clear_gates gs w) = slot_value b w"
  by (induction gs arbitrary: w) (auto simp: clear_gates_def slot_value_def)

lemma release_provided_value:
  "release_provided P n w = Some w' \<Longrightarrow> b \<notin> set (provides (p_cfg P n)) \<Longrightarrow> slot_value b w' = slot_value b w"
  using release_claim_list_value[of "claims (p_cfg P n)" "clear_gates (provides (p_cfg P n)) w" w' b]
  by (auto simp: release_provided_def release_claims_def clear_gates_value split: if_splits)

lemma mark_exited_released:
  assumes "mark_exited P no_race n w = Some w'"
  obtains v where "release_provided P n w = Some v" "w_gates w' = w_gates v"
    "fault_of (p_time P) (w_h w n) \<noteq> Wedge \<Longrightarrow> w' = settle_dropped n (on_handle n (flag_set COMPLETED) v)"
proof -
  obtain v where v: "release_provided P n w = Some v" using assms by (auto simp: mark_exited_def split: option.splits)
  have "w_gates w' = w_gates v"
    using assms v by (auto simp: mark_exited_def wedge_swallows_def no_race_def Let_def split: if_splits)
  moreover have "w' = settle_dropped n (on_handle n (flag_set COMPLETED) v)" if "fault_of (p_time P) (w_h w n) \<noteq> Wedge"
    using assms v that release_provided_h[OF v] by (simp add: mark_exited_def wedge_swallows_def)
  ultimately show ?thesis using v that by blast
qed

lemma mark_exited_value:
  assumes "mark_exited P no_race n w = Some w'" "b \<notin> set (provides (p_cfg P n))"
  shows "slot_value b w' = slot_value b w"
  by (rule mark_exited_released[OF assms(1)]) (use release_provided_value assms(2) in \<open>fastforce simp: slot_value_def\<close>)

lemma mark_exited_flags:
  assumes "mark_exited P no_race n w = Some w'" "fault_of (p_time P) (w_h w n) \<noteq> Wedge"
  shows "has_exited (w_h w' n) \<and> \<not> is_running (w_h w' n)"
  by (rule mark_exited_released[OF assms(1)]) (use assms(2) in \<open>simp add: reader_defs flag_bit flag_simps settle_dropped_handle Let_def\<close>)

lemma flag_fault [simp]: "fault_of T (flag_set b h) = fault_of T h" "fault_of T (flag_clear b h) = fault_of T h"
  "fault_of T (h\<lparr>dropped_wake := s\<rparr>) = fault_of T h"
  by (simp_all add: fault_of_def flag_set_def flag_clear_def)

lemma sv_park_value [simp]: "slot_value b (sv_park n w) = slot_value b w"
  "fault_of T (w_h (sv_park n w) n) = fault_of T (w_h w n)"
  "has_exited (w_h (sv_park n w) n) = has_exited (w_h w n)" "is_running (w_h (sv_park n w) n) = is_running (w_h w n)"
  "flag IDLE (w_h (sv_park n w) n)"
  by (simp_all add: sv_park_def sv_gate_event_def slot_value_def reader_defs flag_bit flag_simps)

lemma mark_exited_fault: "mark_exited P no_race n w = Some w' \<Longrightarrow> fault_of T (w_h w' n) = fault_of T (w_h w n)"
  by (auto simp: mark_exited_def wedge_swallows_def no_race_def settle_dropped_handle Let_def
      dest!: release_provided_h split: option.splits if_splits)

lemma park_eq: "park G w = (ph, w', e) \<longleftrightarrow> ph = Parked \<and> w' = sv_park (tg_node G) w \<and> \<not> e"
  by (auto simp: park_def)

text \<open>The worker keeps the types of the statics, and so does everyone else.\<close>

definition worker_typed :: "('f, 'o) worker \<Rightarrow> bool" where
  "worker_typed step \<longleftrightarrow> (\<forall>f w. same_types w (snd (step f w)))"

lemma drive_typed:
  assumes "drive P no_race step G c w = Some (res, c1, w1)" "worker_typed step" "\<not> cf_ack c"
  shows "same_types w w1 \<and> \<not> cf_ack c1"
proof -
  have t: "same_types w (snd (poll_worker step (cf_fut c) w))"
    using assms(2) by (auto simp: poll_worker_def worker_typed_def same_types_def split: option.split prod.split sum.split)
      (metis snd_conv)+
  obtain out w2 where p: "poll_worker step (cf_fut c) w = (out, w2)" by fastforce
  obtain stop w3 where q: "poll_stop P (tg_node G) w2 = (stop, w3)" by fastforce
  then have "w_gates w3 = w_gates w2" using poll_stop_gates[of P "tg_node G" w2] by simp
  then show ?thesis using assms t p q
    by (auto simp: drive_def cancellable_poll_def same_types_def is_slot_def Let_def split: sum.splits if_splits)
qed

lemma take_state_value: "take_state G w = (s, w') \<Longrightarrow> Some g \<noteq> tg_state G \<Longrightarrow> slot_value g w' = slot_value g w"
  using slot_take_value(1)[of g] by (auto simp: take_state_def split: option.splits prod.splits) (metis snd_conv)

lemma provide_exit_value:
  "slot_value b (provide_exit G out w) = (if tg_exit G = Some b \<and> out \<noteq> None \<and> is_slot b w then out else slot_value b w)"
  by (auto simp: provide_exit_def slot_provide_value split: option.split)

inductive working ::
  "nat \<Rightarrow> platform \<Rightarrow> (nat list \<Rightarrow> nat option \<Rightarrow> 'f) \<Rightarrow> ('f, nat option) worker \<Rightarrow> task_glue
     \<Rightarrow> 'f phase \<times> world \<Rightarrow> 'f phase \<times> world \<Rightarrow> bool" for fuel P worker step G x where
  here: "working fuel P worker step G x x"
| turn: "working fuel P worker step G x (Working vs c, w) \<Longrightarrow>
     shell_turn fuel P no_race worker step G (Working vs c) w = Some (Working vs' c', w', e) \<Longrightarrow>
     working fuel P worker step G x (Working vs' c', w')"
| others: "working fuel P worker step G x (ph, w) \<Longrightarrow> same_types w w' \<Longrightarrow> working fuel P worker step G x (ph, w')"

lemma working_keeps:
  assumes "working fuel P worker step G x y" "worker_typed step" "x = (Working vs c, w)" "\<not> cf_ack c"
  shows "\<exists>c' w'. y = (Working vs c', w') \<and> \<not> cf_ack c' \<and> same_types w w'"
  using assms(1,3)
proof (induction rule: working.induct)
  case here
  then show ?case using assms(4) by (simp add: same_types_def)
next
  case (turn vs1 c1 w1 vs2 c2 w2 e)
  then have "vs1 = vs" "\<not> cf_ack c1" "same_types w w1" by auto
  moreover obtain res where d: "drive P no_race step G c1 w1 = Some (Wake_Me, c2, w2)" "vs2 = vs1"
    using turn.hyps(2) by (auto simp: end_activation_def park_def split: option.splits poll.splits)
  ultimately show ?case using drive_typed[OF d(1) assms(2)] by (auto simp: same_types_def)
qed (auto simp: same_types_def)


section \<open>Examples\<close>

text \<open>Node 10 with a lent resource in slot 1 and an exit slot 5; its worker returns 7 at once.\<close>

definition lender :: task_glue where
  "lender = \<lparr>tg_node = 10, tg_executor = None, tg_resources = [(Lend, 1)], tg_state = None, tg_cancel = True,
     tg_exit = Some 5\<rparr>"

lemma lender_sel [simp]: "tg_node lender = 10" "tg_executor lender = None" "tg_resources lender = [(Lend, 1)]"
  "tg_state lender = None" "tg_cancel lender" "tg_exit lender = Some 5"
  by (simp_all add: lender_def)

definition lender_world :: world where
  "lender_world = put_gate 1 (SlotGate \<lparr>rs_slot = Some 3, rs_filled = []\<rparr>) (put_gate 5 (SlotGate rs_new) ten_up)"

definition returns_seven :: "(unit, nat option) worker" where
  "returns_seven f w = (Inr (Some 7), w)"

lemma acking_exits: "\<exists>v. mark_exited acking no_race 10 w = Some v"
proof -
  obtain u where "release_provided acking 10 w = Some u" using acking_releases[of 10 w] by blast
  then show ?thesis by (simp add: mark_exited_def split: prod.split)
qed


theorem spawn_glue_contract_witness:
  "\<exists>w'. spawn_glue (\<lambda>_. None) (\<lambda>_. Inr 4) lender (on_handle 10 sv_mark_resident lender_world) = (Inl SpawnBusy, w')
     \<and> w_h w' = w_h (on_handle 10 sv_mark_resident lender_world)"
proof -
  have "\<not> flag IDLE (w_h (on_handle 10 sv_mark_resident lender_world) 10)"
    by (simp add: lender_world_def flag_bit flag_simps ten_up_def world_new_def handle_new_def)
  then have "spawn_glue (\<lambda>_. None) (\<lambda>_. Inr 4) lender (on_handle 10 sv_mark_resident lender_world)
      = (Inl SpawnBusy, on_handle 10 sv_mark_resident lender_world)"
    by (simp add: spawn_glue_def launch_def sv_resident_cases flag_bit flag_simps)
  from spawn_glue_contract[OF this] this show ?thesis by simp
qed

text \<open>
  A resource that is missing when the shell starts costs the ones taken before it: they were
  moved out of their slots and are dropped with the activation, so a later start misses them too.
\<close>

lemma lost_resource_strands_earlier:
  "\<exists>w'. shell_turn 1 acking no_race (\<lambda>_ _. ()) returns_seven (lender\<lparr>tg_resources := [(Lend, 1), (Lend, 5)]\<rparr>) Activating lender_world
     = Some (Parked, w', False) \<and> slot_value 1 lender_world = Some 3 \<and> slot_value 1 w' = None"
proof -
  let ?w = "put_gate 5 (SlotGate rs_new) (put_gate 1 (SlotGate \<lparr>rs_slot = None, rs_filled = []\<rparr>) lender_world)"
  have t: "take_all [(Lend, 1), (Lend, 5)] lender_world = (None, ?w)"
    by (simp add: slot_take_def lender_world_def rs_take_def rs_new_def)
  obtain v where v: "mark_exited acking no_race 10 ?w = Some v"
    using acking_exits by blast
  have "slot_value 1 v = None"
    using mark_exited_value[OF v, of 1]
    by (simp add: slot_value_put acking_def plain_platform_def plain_cfg_def cfg_new_def)
  then show ?thesis
    using v t by (simp add: begin_activation_def take_state_def mark_lost_resource_def park_def)
      (simp add: slot_value_def lender_world_def)
qed

end
