(* ===== verification/Emit.thy ===== *)
theory Emit
  imports Expand_Graph Glue "HOL-Library.Countable"
begin

text \<open>
  The node statics \<open>emit_node\<close> and \<open>emit_pool\<close> of \<^verbatim>\<open>supervisor-macros/src/lib.rs\<close> write: per slot
  the \<open>NodeCfg\<close> chain with its gate, claim, marker and coupling tables, the spawn function and the
  \<open>disabled\<close> flag. What rustc and the linker add is \<open>build\<close>: which \<open>cfg\<close> predicates hold, the
  addresses of statics, and the functions behind the names of the application.
\<close>

section \<open>The build\<close>

text \<open>
  \<open>bd_gate (SlotRef RES None)\<close> is \<open>&RES\<close>, with a member the element of a pool's array. A signal is
  named by its displayed path, its address is \<open>bd_signal\<close>; \<open>bd_token\<close> is \<open>Observable::change_token\<close>
  of it and \<open>bd_via e\<close> the accessor \<open>e\<close> with \<open>it\<close> replaced by the signal. \<open>bd_table\<close> holds the tables
  \<open>#[dataflow]\<close> wrote for a function, the writes with \<open>True\<close>. \<open>bd_task\<close> is the call of the task
  function, \<open>bd_closure\<close> a verbatim spawn function.
\<close>

record build =
  bd_holds :: "string \<Rightarrow> bool"
  bd_node :: "slot_ref \<Rightarrow> nref"
  bd_gate :: "slot_ref \<Rightarrow> nat"
  bd_exec :: "ident \<Rightarrow> nat"
  bd_state :: "slot_ref \<Rightarrow> nat"
  bd_exit :: "ident \<Rightarrow> nat"
  bd_box :: "slot_ref \<Rightarrow> world \<Rightarrow> nat option"
  bd_task :: "slot_ref \<Rightarrow> world \<Rightarrow> spawn_error + u32"
  bd_closure :: "expr \<Rightarrow> world \<Rightarrow> (spawn_error + unit) \<times> world"
  bd_signal :: "string \<Rightarrow> nat"
  bd_token :: "string \<Rightarrow> world \<Rightarrow> u32"
  bd_via :: "expr \<Rightarrow> string \<Rightarrow> world \<Rightarrow> u32"
  bd_table :: "bool \<Rightarrow> string \<Rightarrow> entry list"
  bd_pred :: "expr \<Rightarrow> world \<Rightarrow> bool"
  bd_nodes :: "nref option list"
  bd_time :: time_api

definition live :: "build \<Rightarrow> cfg_attrs \<Rightarrow> bool" where
  "live B cfg = list_all (bd_holds B) (predicates cfg)"

definition live_of :: "build \<Rightarrow> ('a \<Rightarrow> cfg_attrs) \<Rightarrow> 'a list \<Rightarrow> 'a list" where
  "live_of B cfg xs = filter (\<lambda>x. live B (cfg x)) xs"

text \<open>The length of an array whose entries carry \<open>cfg\<close>s, as the macro writes it.\<close>

definition cfg_aware_len :: "build \<Rightarrow> cfg_attrs list \<Rightarrow> nat" where
  "cfg_aware_len B cfgs =
     (if \<not> list_ex (\<lambda>c. cfg_predicate c \<noteq> None) cfgs then length cfgs
      else fold (\<lambda>c n. n + (case cfg_predicate c of None \<Rightarrow> 1 | Some ps \<Rightarrow> if list_all (bd_holds B) ps then 1 else 0)) cfgs 0)"

text \<open>
  The first group ends the macro, \<open>SlotOverflow\<close> with a panic; the second is what rustc reports.
\<close>

datatype emit_error =
    ExecutorNeedsSpawn ident | ExecutorWithClosure ident | NotATaskFn ident | DiscoverOnClosure ident
  | SlotOverflow ident
  | UnknownMode ident | MarkerUndeclared string

definition mode_of :: "ident \<Rightarrow> mode option" where
  "mode_of m = (if m = ''Terminate'' then Some Terminate else if m = ''Pause'' then Some Pause
                else if m = ''OnDemand'' then Some OnDemand else None)"

text \<open>\<open>to_lowercase\<close> on the ASCII letters.\<close>

definition ascii_lower :: "char \<Rightarrow> char" where
  "ascii_lower c = (let k = of_char c :: nat in if 65 \<le> k \<and> k \<le> 90 then char_of (k + 32) else c)"

definition name_string :: "ident \<Rightarrow> string" where
  "name_string s = map ((\<lambda>c. if c = CHR ''_'' then CHR ''-'' else c) \<circ> ascii_lower) s"

fun show_nat :: "nat \<Rightarrow> string" where
  "show_nat n = (if n < 10 then [char_of (48 + n)] else show_nat (n div 10) @ [char_of (48 + n mod 10)])"

declare show_nat.simps [simp del]

section \<open>Where the task comes from\<close>

fun is_fn :: "expr \<Rightarrow> bool" where
  "is_fn (ExprPath p) = True"
| "is_fn (ExprCall f) = True"
| "is_fn _ = False"

definition node_source_error :: "node_item \<Rightarrow> emit_error option" where
  "node_source_error n =
     (case ni_source n of
        None \<Rightarrow> map_option ExecutorNeedsSpawn (ni_executor n)
      | Some (ShellSource e) \<Rightarrow> if is_fn e then None else Some (NotATaskFn (ni_ident n))
      | Some (SpawnSource e) \<Rightarrow> if is_fn e then None else map_option ExecutorWithClosure (ni_executor n))"

fun source_expr :: "task_source \<Rightarrow> expr" where
  "source_expr (ShellSource e) = e"
| "source_expr (SpawnSource e) = e"

definition pool_source_error :: "pool_item \<Rightarrow> emit_error option" where
  "pool_source_error p = (if is_fn (source_expr (pi_source p)) then None else Some (NotATaskFn (pi_ident p)))"

fun callee :: "expr \<Rightarrow> string option" where
  "callee (ExprPath p) = Some p"
| "callee (ExprCall f) = Some f"
| "callee _ = None"

definition discover_fn_path :: "ident \<Rightarrow> unit gated option \<Rightarrow> task_source option \<Rightarrow> emit_error + string option" where
  "discover_fn_path nm discover source =
     (case (discover, source) of
        (Some k, Some src) \<Rightarrow> (case callee (source_expr src) of
                                None \<Rightarrow> Inl (DiscoverOnClosure nm) | Some p \<Rightarrow> Inr (Some p))
      | _ \<Rightarrow> Inr None)"

text \<open>
  A task spawned without a shell: the same guards, a new task every time, and the state's box is
  an argument of the call.
\<close>

definition direct_spawn ::
  "(world \<Rightarrow> nat option) \<Rightarrow> (world \<Rightarrow> spawn_error + u32) \<Rightarrow> task_glue \<Rightarrow> world \<Rightarrow> (spawn_error + unit) \<times> world" where
  "direct_spawn box task_fn G w =
     (if (case tg_executor G of None \<Rightarrow> False | Some ex \<Rightarrow> sp_get (w_slots w ex) = None) then (Inl SpawnBusy, w)
      else case box_state box G w of
             None \<Rightarrow> (Inl SpawnBusy, w)
           | Some state \<Rightarrow>
               if list_ex (\<lambda>(k, g). \<not> gate_is_filled (w_gates w g)) (tg_resources G) then (Inl SpawnBusy, w)
               else case task_fn w of
                      Inl e \<Rightarrow> (Inl e, w)
                    | Inr tid \<Rightarrow> (Inr (), adopt (tg_node G) tid w))"

definition spawn_of ::
  "build \<Rightarrow> slot_ref \<Rightarrow> task_source option \<Rightarrow> task_glue \<Rightarrow> (world \<Rightarrow> (spawn_error + unit) \<times> world) option" where
  "spawn_of B r source G =
     (case source of
        None \<Rightarrow> None
      | Some (ShellSource e) \<Rightarrow> Some (spawn_glue (bd_box B r) (bd_task B r) G)
      | Some (SpawnSource e) \<Rightarrow>
          Some (if is_fn e then direct_spawn (bd_box B r) (bd_task B r) G else bd_closure B e))"

section \<open>Resources\<close>

text \<open>Exclusive slots of a pool are arrays, one element per member; shared slots and budgets are not.\<close>

definition gate_ref :: "nat option \<Rightarrow> resource_decl \<Rightarrow> slot_ref" where
  "gate_ref j r = SlotRef (rd_ident r) (if kind r = Lend \<or> kind r = Consume then j else None)"

definition gate_tokens :: "build \<Rightarrow> nat option \<Rightarrow> resource_decl list \<Rightarrow> nat list" where
  "gate_tokens B j rs = map (\<lambda>r. bd_gate B (gate_ref j r)) (live_of B rd_cfg rs)"

definition node_glue :: "build \<Rightarrow> node_item \<Rightarrow> task_glue" where
  "node_glue B n =
     \<lparr>tg_node = bd_node B (SlotRef (ni_ident n) None), tg_executor = map_option (bd_exec B) (ni_executor n),
      tg_resources = map (\<lambda>r. (kind r, bd_gate B (gate_ref None r))) (live_of B rd_cfg (ni_resources n)),
      tg_state = map_option (\<lambda>_. bd_state B (SlotRef (ni_ident n) None)) (ni_state n),
      tg_cancel = ni_cancel n, tg_exit = map_option (\<lambda>_. bd_exit B (ni_ident n)) (ni_exit n)\<rparr>"

definition member_glue :: "build \<Rightarrow> pool_item \<Rightarrow> nat \<Rightarrow> task_glue" where
  "member_glue B p j =
     \<lparr>tg_node = bd_node B (SlotRef (pi_ident p) (Some j)), tg_executor = map_option (bd_exec B) (pi_executor p),
      tg_resources = map (\<lambda>r. (kind r, bd_gate B (gate_ref (Some j) r))) (live_of B rd_cfg (pi_resources p)),
      tg_state = map_option (\<lambda>_. bd_state B (SlotRef (pi_ident p) (Some j))) (pi_state p),
      tg_cancel = pi_cancel p, tg_exit = None\<rparr>"

definition provides_tokens :: "build \<Rightarrow> (ident \<Rightarrow> (cfg_attrs \<times> bool) option) \<Rightarrow> node_item \<Rightarrow> nat list" where
  "provides_tokens B cfgs n =
     map (\<lambda>p. bd_gate B (SlotRef (pv_ident p) None))
       (live_of B (\<lambda>p. (case cfgs (pv_ident p) of None \<Rightarrow> [] | Some (cfg, _) \<Rightarrow> cfg) @ pv_cfg p) (ni_provides n))"

text \<open>\<open>u8::try_from(base + offset).expect(..)\<close>: \<open>None\<close> is the panic.\<close>

definition member_slot :: "nat \<Rightarrow> u8 \<Rightarrow> u8 option" where
  "member_slot j base = (if unat base + j < 256 then Some (of_nat (unat base + j)) else None)"

definition plan_claims :: "resource_plan \<Rightarrow> ident \<Rightarrow> resource_decl list \<Rightarrow> u8 option list" where
  "plan_claims pl owner rs = map (\<lambda>r. claim_bases pl (owner, rd_ident r)) rs"

text \<open>The entries are numbered before their \<open>cfg\<close>s are looked at.\<close>

fun claims_tokens :: "build \<Rightarrow> resource_decl list \<Rightarrow> u8 option list \<Rightarrow> nat \<Rightarrow> (nat \<times> u8) list option" where
  "claims_tokens B (r # rs) (Some base # bs) j =
     (case (member_slot j base, claims_tokens B rs bs j) of
        (Some s, Some cl) \<Rightarrow> Some (if live B (rd_cfg r) then (bd_gate B (SlotRef (rd_ident r) None), s) # cl else cl)
      | _ \<Rightarrow> None)"
| "claims_tokens B (r # rs) (None # bs) j = claims_tokens B rs bs j"
| "claims_tokens B _ _ j = Some []"

section \<open>Markers and couplings\<close>

definition marked_dep_tokens :: "build \<Rightarrow> ident list \<Rightarrow> dep list \<Rightarrow> (dep \<Rightarrow> bool) \<Rightarrow> nref list" where
  "marked_dep_tokens B pools ds select =
     map (\<lambda>d. bd_node B (SlotRef (d_ident d) (if d_ident d \<in> set pools then Some 0 else None)))
       (live_of B d_cfg (filter select ds))"

definition plan_veto_slots :: "veto_state \<Rightarrow> ident \<Rightarrow> signal_decl list \<Rightarrow> u8 option list" where
  "plan_veto_slots vt owner ws = map (\<lambda>d. veto_bases vt (owner, display d)) ws"

definition accessor :: "build \<Rightarrow> expr option \<Rightarrow> signal_decl \<Rightarrow> world \<Rightarrow> u32" where
  "accessor B dflt d =
     (case (sg_via d, dflt) of
        (Some e, _) \<Rightarrow> bd_via B e (display d)
      | (None, Some e) \<Rightarrow> bd_via B e (display d)
      | (None, None) \<Rightarrow> bd_token B (display d))"

definition coupling_entry :: "build \<Rightarrow> expr option \<Rightarrow> signal_decl \<Rightarrow> u8 option \<Rightarrow> entry" where
  "coupling_entry B dflt d veto =
     (let c = coupling_new (display d) (bd_signal B (display d));
          c1 = (if sg_observed d then mark_observed (accessor B dflt d) c else c);
          c2 = (if sg_beat d then mark_beat c1 else c1)
      in case veto of None \<Rightarrow> c2 | Some s \<Rightarrow> mark_veto s c2)"

fun coupling_entries :: "build \<Rightarrow> expr option \<Rightarrow> signal_decl list \<Rightarrow> u8 option list \<Rightarrow> nat \<Rightarrow> entry list option" where
  "coupling_entries B dflt [] bs j = Some []"
| "coupling_entries B dflt (d # ds) bs j =
     (let rest = coupling_entries B dflt ds (tl bs) j;
          slot = (case bs of Some base # _ \<Rightarrow> map_option Some (member_slot j base) | _ \<Rightarrow> Some None) in
      case (slot, rest) of
        (Some s, Some es) \<Rightarrow> Some (if live B (sg_cfg d) then coupling_entry B dflt d s # es else es)
      | _ \<Rightarrow> None)"

text \<open>The functions whose tables a node adopts: its own with \<open>discover\<close>, then those of \<open>dataflow:\<close>.\<close>

definition foreign_fns :: "unit gated option \<Rightarrow> string option \<Rightarrow> adopted_fn list \<Rightarrow> (cfg_attrs \<times> string) list" where
  "foreign_fns discover path fns =
     (case path of None \<Rightarrow> [] | Some p \<Rightarrow> [(case discover of None \<Rightarrow> [] | Some g \<Rightarrow> gt_cfg g, p)])
     @ map (\<lambda>f. (af_cfg f, path_to_string (af_path f))) fns"

definition coupling_binding_tokens ::
  "build \<Rightarrow> bool \<Rightarrow> signal_decl list \<Rightarrow> expr option \<Rightarrow> (cfg_attrs \<times> string) list \<Rightarrow> u8 option list \<Rightarrow> nat
     \<Rightarrow> entry list list option" where
  "coupling_binding_tokens B write ds dflt foreign bases j =
     map_option (\<lambda>own. (if ds = [] then [] else [own]) @ map (\<lambda>(_, f). bd_table B write f) (live_of B fst foreign))
       (coupling_entries B dflt ds bases j)"

text \<open>Beside \<open>discover\<close> a listed entry has to name a signal of an adopted table; checked by a const assertion.\<close>

definition marker_assert ::
  "build \<Rightarrow> bool \<Rightarrow> unit gated option \<Rightarrow> (cfg_attrs \<times> string) list \<Rightarrow> signal_decl list \<Rightarrow> emit_error option" where
  "marker_assert B write discover foreign ds =
     (case discover of
        None \<Rightarrow> None
      | Some g \<Rightarrow>
          if foreign = [] \<or> \<not> live B (gt_cfg g) then None
          else map_option (\<lambda>d. MarkerUndeclared (display d))
                 (find (\<lambda>d. \<not> list_ex (\<lambda>(_, f). sv_tail_declared (bd_table B write f) (display d)) (live_of B fst foreign))
                    (live_of B sg_cfg ds)))"

section \<open>Builder clauses\<close>

type_synonym builder = "cfg_attrs \<times> (node_cfg \<Rightarrow> node_cfg)"

definition clause :: "'v gated option \<Rightarrow> ('v \<Rightarrow> node_cfg \<Rightarrow> node_cfg) \<Rightarrow> builder list" where
  "clause g f = (case g of None \<Rightarrow> [] | Some v \<Rightarrow> [(gt_cfg v, f (gt_value v))])"

text \<open>Clauses without a \<open>cfg\<close> stand in the chain, the others rebind the value after it.\<close>

definition clauses_inline :: "builder list \<Rightarrow> node_cfg \<Rightarrow> node_cfg" where
  "clauses_inline cs c = fold (\<lambda>(cfg, f) c. if cfg = [] then f c else c) cs c"

definition clauses_after :: "build \<Rightarrow> builder list \<Rightarrow> node_cfg \<Rightarrow> node_cfg" where
  "clauses_after B cs c = fold (\<lambda>(cfg, f) c. if cfg \<noteq> [] \<and> live B cfg then f c else c) cs c"

definition with_if :: "bool \<Rightarrow> (node_cfg \<Rightarrow> node_cfg) \<Rightarrow> node_cfg \<Rightarrow> node_cfg" where
  "with_if b f c = (if b then f c else c)"

definition node_builders :: "build \<Rightarrow> node_item \<Rightarrow> builder list" where
  "node_builders B n =
     (let ms = from_millis (bd_time B) in
      clause (ni_slot_timeout n) (with_slot_timeout \<circ> ms) @ clause (ni_ack_timeout n) (with_ack_timeout \<circ> ms)
      @ clause (ni_beat_timeout n) (with_beat_timeout \<circ> ms) @ clause (ni_beat_window n) (with_beat_window \<circ> of_nat)
      @ clause (ni_enabled_if n) (with_enabled_if \<circ> bd_pred B)
      @ clause (ni_restart_budget n) (\<lambda>(mx, window). with_restart_budget (of_nat mx) (ms window))
      @ clause (ni_ready_on_write n) (\<lambda>_. with_ready_on_write))"

definition pool_builders :: "build \<Rightarrow> pool_item \<Rightarrow> builder list" where
  "pool_builders B p =
     (let ms = from_millis (bd_time B) in
      clause (pi_slot_timeout p) (with_slot_timeout \<circ> ms) @ clause (pi_ack_timeout p) (with_ack_timeout \<circ> ms))"

definition disabled_tokens :: "build \<Rightarrow> unit gated option \<Rightarrow> bool" where
  "disabled_tokens B g = (case g of None \<Rightarrow> False | Some v \<Rightarrow> live B (gt_cfg v))"

section \<open>Nodes and pools\<close>

text \<open>A static's place, configuration and \<open>disabled\<close> flag.\<close>

type_synonym emitted = "slot_ref \<times> node_cfg \<times> bool"

text \<open>The \<open>cfg_chain\<close>, with the clauses under a \<open>cfg\<close> after it.\<close>

definition node_chain ::
  "build \<Rightarrow> ident list \<Rightarrow> graph_spec \<Rightarrow> node_item \<Rightarrow> mode \<Rightarrow> (nat \<times> u8) list \<Rightarrow> entry list list \<Rightarrow> entry list list \<Rightarrow> node_cfg" where
  "node_chain B pools g n md cl rds ws =
     (let c0 = cfg_new (bd_time B) (name_string (ni_ident n)) md
                 (spawn_of B (SlotRef (ni_ident n) None) (ni_source n) (node_glue B n));
          c1 = (case ni_executor n of None \<Rightarrow> c0 | Some ex \<Rightarrow> with_executor (bd_exec B ex) c0);
          c2 = with_if (\<exists>e. ni_source n = Some (ShellSource e)) with_shell c1;
          c3 = with_if (ni_resources n \<noteq> []) (with_resources (gate_tokens B None (ni_resources n))) c2;
          c4 = with_if (ni_provides n \<noteq> []) (with_provides (provides_tokens B (resource_cfgs (gs_items g)) n)) c3;
          c5 = clauses_inline (node_builders B n) (with_claims cl c4);
          c6 = with_ready_deps (marked_dep_tokens B pools (ni_deps n) d_ready) c5;
          c7 = with_bound_deps (marked_dep_tokens B pools (ni_deps n) d_bound) c6
      in clauses_after B (node_builders B n) (with_graph (bd_nodes B) (with_writes ws (with_reads rds c7))))"

definition emit_node ::
  "build \<Rightarrow> ident list \<Rightarrow> graph_spec \<Rightarrow> resource_plan \<Rightarrow> veto_state \<Rightarrow> node_item \<Rightarrow> emit_error + emitted" where
  "emit_node B pools g pl vt n =
     (case node_source_error n of Some e \<Rightarrow> Inl e | None \<Rightarrow>
      case discover_fn_path (ni_ident n) (ni_discover n) (ni_source n) of Inl e \<Rightarrow> Inl e | Inr path \<Rightarrow>
      let foreign = foreign_fns (ni_discover n) path (ni_dataflow n) in
      case (coupling_binding_tokens B True (ni_writes n) (gs_observe_writes g) foreign
              (plan_veto_slots vt (ni_ident n) (ni_writes n)) 0,
            coupling_binding_tokens B False (ni_reads n) (gs_observe_reads g) foreign [] 0,
            claims_tokens B (ni_resources n) (plan_claims pl (ni_ident n) (ni_resources n)) 0) of
        (Some ws, Some rds, Some cl) \<Rightarrow>
          (case marker_assert B False (ni_discover n) foreign (ni_reads n) of Some e \<Rightarrow> Inl e | None \<Rightarrow>
           case marker_assert B True (ni_discover n) foreign (ni_writes n) of Some e \<Rightarrow> Inl e | None \<Rightarrow>
           case mode_of (ni_mode n) of None \<Rightarrow> Inl (UnknownMode (ni_mode n)) | Some md \<Rightarrow>
             Inr (SlotRef (ni_ident n) None, node_chain B pools g n md cl rds ws, disabled_tokens B (ni_disabled n)))
      | _ \<Rightarrow> Inl (SlotOverflow (ni_ident n)))"

text \<open>Member \<open>j\<close> of a pool: its own array elements and slots, the pool's markers and clauses.\<close>

definition member_chain ::
  "build \<Rightarrow> ident list \<Rightarrow> pool_item \<Rightarrow> nat \<Rightarrow> mode \<Rightarrow> (nat \<times> u8) list \<Rightarrow> entry list list \<Rightarrow> entry list list \<Rightarrow> node_cfg" where
  "member_chain B pools p j md cl rds ws =
     (let c0 = cfg_new (bd_time B) (name_string (pi_ident p) @ show_nat j) md
                 (spawn_of B (SlotRef (pi_ident p) (Some j)) (Some (pi_source p)) (member_glue B p j));
          c1 = (case pi_executor p of None \<Rightarrow> c0 | Some ex \<Rightarrow> with_executor (bd_exec B ex) c0);
          c2 = with_if (\<exists>e. pi_source p = ShellSource e) with_shell c1;
          c3 = with_if (pi_resources p \<noteq> []) (with_resources (gate_tokens B (Some j) (pi_resources p))) c2;
          c4 = clauses_inline (pool_builders B p) (with_claims cl c3);
          c5 = with_ready_deps (marked_dep_tokens B pools (pi_deps p) d_ready) c4;
          c6 = with_bound_deps (marked_dep_tokens B pools (pi_deps p) d_bound) c5
      in clauses_after B (pool_builders B p) (with_graph (bd_nodes B) (with_writes ws (with_reads rds c6))))"

definition member_tables ::
  "build \<Rightarrow> graph_spec \<Rightarrow> resource_plan \<Rightarrow> veto_state \<Rightarrow> pool_item \<Rightarrow> (cfg_attrs \<times> string) list \<Rightarrow> nat
     \<Rightarrow> emit_error + (nat \<times> u8) list \<times> entry list list \<times> entry list list" where
  "member_tables B g pl vt p foreign j =
     (case (coupling_binding_tokens B True (pi_writes p) (gs_observe_writes g) foreign
              (plan_veto_slots vt (pi_ident p) (pi_writes p)) j,
            coupling_binding_tokens B False (pi_reads p) (gs_observe_reads g) foreign [] 0,
            claims_tokens B (pi_resources p) (plan_claims pl (pi_ident p) (pi_resources p)) j) of
        (Some ws, Some rds, Some cl) \<Rightarrow> Inr (cl, rds, ws)
      | _ \<Rightarrow> Inl (SlotOverflow (pi_ident p)))"

definition emit_member ::
  "build \<Rightarrow> ident list \<Rightarrow> pool_item \<Rightarrow> (nat \<times> ident) \<times> (nat \<times> u8) list \<times> entry list list \<times> entry list list \<Rightarrow> emit_error + emitted" where
  "emit_member B pools p = (\<lambda>((j, mode), cl, rds, ws).
     case mode_of mode of
       None \<Rightarrow> Inl (UnknownMode mode)
     | Some md \<Rightarrow> Inr (SlotRef (pi_ident p) (Some j), member_chain B pools p j md cl rds ws, False))"

fun emit_all :: "('a \<Rightarrow> 'e + 'b) \<Rightarrow> 'a list \<Rightarrow> 'e + 'b list" where
  "emit_all f [] = Inr []"
| "emit_all f (x # xs) =
     (case f x of Inl e \<Rightarrow> Inl e | Inr y \<Rightarrow> (case emit_all f xs of Inl e \<Rightarrow> Inl e | Inr ys \<Rightarrow> Inr (y # ys)))"

definition emit_pool ::
  "build \<Rightarrow> ident list \<Rightarrow> graph_spec \<Rightarrow> resource_plan \<Rightarrow> veto_state \<Rightarrow> pool_item \<Rightarrow> emit_error + emitted list" where
  "emit_pool B pools g pl vt p =
     (case pool_source_error p of Some e \<Rightarrow> Inl e | None \<Rightarrow>
      case discover_fn_path (pi_ident p) (pi_discover p) (Some (pi_source p)) of Inl e \<Rightarrow> Inl e | Inr path \<Rightarrow>
      let foreign = foreign_fns (pi_discover p) path (pi_dataflow p) in
      case emit_all (member_tables B g pl vt p foreign) [0..<length (pi_modes p)] of Inl e \<Rightarrow> Inl e | Inr ts \<Rightarrow>
      case marker_assert B False (pi_discover p) foreign (pi_reads p) of Some e \<Rightarrow> Inl e | None \<Rightarrow>
      case marker_assert B True (pi_discover p) foreign (pi_writes p) of Some e \<Rightarrow> Inl e | None \<Rightarrow>
      emit_all (emit_member B pools p) (zip (enumerate 0 (pi_modes p)) ts))"

section \<open>The graph\<close>

text \<open>An item whose \<open>cfg\<close> does not hold is expanded and then left out, its mistakes unseen by rustc.\<close>

fun by_rustc :: "emit_error \<Rightarrow> bool" where
  "by_rustc (UnknownMode m) = True"
| "by_rustc (MarkerUndeclared s) = True"
| "by_rustc _ = False"

definition built_item :: "build \<Rightarrow> cfg_attrs \<Rightarrow> emit_error + emitted list \<Rightarrow> emit_error + emitted list" where
  "built_item B cfg res =
     (case res of
        Inl e \<Rightarrow> if by_rustc e \<and> \<not> live B cfg then Inr [] else Inl e
      | Inr es \<Rightarrow> Inr (if live B cfg then es else []))"

definition pool_names :: "item list \<Rightarrow> ident list" where
  "pool_names items = List.map_filter (\<lambda>i. case i of PoolItem p \<Rightarrow> Some (pi_ident p) | _ \<Rightarrow> None) items"

definition build_item :: "build \<Rightarrow> graph_spec \<Rightarrow> expansion \<Rightarrow> item \<Rightarrow> emit_error + emitted list" where
  "build_item B g x i =
     (let pools = pool_names (gs_items g); pl = ex_plan x; vt = ex_vetoes x in
      case i of
        NodeItem n \<Rightarrow> built_item B (ni_cfg n) (case emit_node B pools g pl vt n of Inl e \<Rightarrow> Inl e | Inr m \<Rightarrow> Inr [m])
      | PoolItem p \<Rightarrow> built_item B (pi_cfg p) (emit_pool B pools g pl vt p)
      | ExecutorItem ex \<Rightarrow> Inr [])"

definition built_statics :: "build \<Rightarrow> graph_spec \<Rightarrow> expansion \<Rightarrow> emit_error + emitted list" where
  "built_statics B g x =
     (case emit_all (build_item B g x) (gs_items g) of Inl e \<Rightarrow> Inl e | Inr ess \<Rightarrow> Inr (concat ess))"


section \<open>What a configuration holds\<close>

text \<open>The length the macro writes for an array is the number of entries the build has.\<close>

lemma cfg_predicate_live: "(case cfg_predicate c of None \<Rightarrow> 1 | Some ps \<Rightarrow> if list_all (bd_holds B) ps then 1 else 0)
    = (if live B c then 1 else (0::nat))"
  by (simp add: cfg_predicate_def live_def Let_def)

lemma cfg_aware_len_live: "cfg_aware_len B (map f xs) = length (live_of B f xs)"
proof -
  have fold: "fold (\<lambda>c n. n + (if live B c then 1 else 0)) cs k = k + length (filter (live B) cs)" for cs k
    by (induction cs arbitrary: k) auto
  have "\<not> list_ex (\<lambda>c. cfg_predicate c \<noteq> None) (map f xs) \<Longrightarrow> filter (\<lambda>x. live B (f x)) xs = xs"
    by (rule filter_True) (auto simp: list_ex_iff cfg_predicate_def live_def Let_def split: if_splits)
  then show ?thesis
    by (simp only: cfg_aware_len_def live_of_def cfg_predicate_live fold add_0 length_map filter_map comp_def split: if_split) simp
qed

lemma gate_array_fits: "length (gate_tokens B j rs) = cfg_aware_len B (map rd_cfg rs)"
  by (simp add: gate_tokens_def cfg_aware_len_live)

text \<open>The clauses touch the timeouts, the window, the predicate, the budget and one flag; the tables stay.\<close>

definition keeps_tables :: "(node_cfg \<Rightarrow> node_cfg) \<Rightarrow> bool" where
  "keeps_tables f \<longleftrightarrow> (\<forall>c. cfg_name (f c) = cfg_name c \<and> cfg_mode (f c) = cfg_mode c \<and> cfg_spawn (f c) = cfg_spawn c
     \<and> spawn_slot (f c) = spawn_slot c \<and> resource_gates (f c) = resource_gates c \<and> provides (f c) = provides c
     \<and> claims (f c) = claims c \<and> ready_deps (f c) = ready_deps c \<and> bound_deps (f c) = bound_deps c
     \<and> reads (f c) = reads c \<and> writes (f c) = writes c \<and> shelled (f c) = shelled c)"

lemma keeps_comp: "keeps_tables f \<Longrightarrow> keeps_tables g \<Longrightarrow> keeps_tables (g \<circ> f)"
  by (simp add: keeps_tables_def)

lemma keeps_fold_all: "(\<And>x. x \<in> set xs \<Longrightarrow> keeps_tables (h x)) \<Longrightarrow> keeps_tables (fold h xs)"
proof (induction xs)
  case Nil
  then show ?case by (simp add: keeps_tables_def)
next
  case (Cons x xs)
  then have "keeps_tables (h x)" "keeps_tables (fold h xs)" by simp_all
  from keeps_comp[OF this] show ?case by (simp add: comp_def)
qed

lemma keeps_fold:
  assumes "\<And>x. x \<in> set cs \<Longrightarrow> keeps_tables (snd x)"
  shows "keeps_tables (clauses_inline cs)" "keeps_tables (clauses_after B cs)"
proof -
  have i: "clauses_inline cs = fold (\<lambda>(cfg, f) c. if cfg = [] then f c else c) cs"
    and a: "clauses_after B cs = fold (\<lambda>(cfg, f) c. if cfg \<noteq> [] \<and> live B cfg then f c else c) cs"
    by (simp_all add: fun_eq_iff clauses_inline_def clauses_after_def)
  show "keeps_tables (clauses_inline cs)" "keeps_tables (clauses_after B cs)"
    unfolding i a by (rule keeps_fold_all; drule assms; clarsimp simp: keeps_tables_def)+
qed

lemma clause_keeps: "(\<And>v. keeps_tables (f v)) \<Longrightarrow> x \<in> set (clause g f) \<Longrightarrow> keeps_tables (snd x)"
  by (auto simp: clause_def split: option.splits)

lemmas builder_defs = with_slot_timeout_def with_ack_timeout_def with_beat_timeout_def with_beat_window_def
  with_enabled_if_def with_restart_budget_def with_ready_on_write_def

lemma node_builders_keep: "x \<in> set (node_builders B n) \<Longrightarrow> keeps_tables (snd x)"
  unfolding node_builders_def Let_def set_append
  by (elim UnE; erule clause_keeps[rotated]; clarsimp simp: keeps_tables_def builder_defs)

lemma pool_builders_keep: "x \<in> set (pool_builders B p) \<Longrightarrow> keeps_tables (snd x)"
  unfolding pool_builders_def Let_def set_append
  by (elim UnE; erule clause_keeps[rotated]; clarsimp simp: keeps_tables_def builder_defs)

lemmas kept = keeps_fold[OF node_builders_keep, unfolded keeps_tables_def, rule_format]
  keeps_fold[OF pool_builders_keep, unfolded keeps_tables_def, rule_format]

lemmas table_defs = with_executor_def with_shell_def with_resources_def with_provides_def with_claims_def
  with_ready_deps_def with_bound_deps_def with_reads_def with_writes_def with_graph_def cfg_new_def with_if_def

text \<open>What a slot's configuration says, told from its item.\<close>

record told =
  td_ref :: slot_ref
  td_owner :: ident
  td_member :: nat
  td_resources :: "resource_decl list"
  td_executor :: "ident option"
  td_deps :: "dep list"
  td_source :: "task_source option"
  td_glue :: task_glue

definition node_told :: "build \<Rightarrow> node_item \<Rightarrow> told" where
  "node_told B n = \<lparr>td_ref = SlotRef (ni_ident n) None, td_owner = ni_ident n, td_member = 0, td_resources = ni_resources n,
     td_executor = ni_executor n, td_deps = ni_deps n, td_source = ni_source n, td_glue = node_glue B n\<rparr>"

definition member_told :: "build \<Rightarrow> pool_item \<Rightarrow> nat \<Rightarrow> told" where
  "member_told B p j = \<lparr>td_ref = SlotRef (pi_ident p) (Some j), td_owner = pi_ident p, td_member = j,
     td_resources = pi_resources p, td_executor = pi_executor p, td_deps = pi_deps p, td_source = Some (pi_source p),
     td_glue = member_glue B p j\<rparr>"

definition tells :: "build \<Rightarrow> ident list \<Rightarrow> resource_plan \<Rightarrow> told \<Rightarrow> emitted \<Rightarrow> bool" where
  "tells B pools pl t e \<longleftrightarrow> (case e of (r, c, b) \<Rightarrow> r = td_ref t
     \<and> claims_tokens B (td_resources t) (plan_claims pl (td_owner t) (td_resources t)) (td_member t) = Some (claims c)
     \<and> ready_deps c = marked_dep_tokens B pools (td_deps t) d_ready
     \<and> bound_deps c = marked_dep_tokens B pools (td_deps t) d_bound
     \<and> spawn_slot c = tg_executor (td_glue t) \<and> resource_gates c = map snd (tg_resources (td_glue t))
     \<and> cfg_spawn c = spawn_of B r (td_source t) (td_glue t)
     \<and> (shelled c \<longleftrightarrow> (\<exists>e. td_source t = Some (ShellSource e))))"

lemma glue_sel [simp]:
  "tg_node (node_glue B n) = bd_node B (SlotRef (ni_ident n) None)"
  "tg_executor (node_glue B n) = map_option (bd_exec B) (ni_executor n)"
  "map snd (tg_resources (node_glue B n)) = gate_tokens B None (ni_resources n)"
  "tg_node (member_glue B p j) = bd_node B (SlotRef (pi_ident p) (Some j))"
  "tg_executor (member_glue B p j) = map_option (bd_exec B) (pi_executor p)"
  "map snd (tg_resources (member_glue B p j)) = gate_tokens B (Some j) (pi_resources p)"
  by (simp_all add: node_glue_def member_glue_def gate_tokens_def comp_def)

lemma gate_tokens_Nil [simp]: "gate_tokens B j [] = []"
  by (simp add: gate_tokens_def live_of_def)

lemma node_chain_sel [simp]:
  fixes B pools g n md cl rds ws
  defines "c \<equiv> node_chain B pools g n md cl rds ws"
  shows "claims c = cl" "ready_deps c = marked_dep_tokens B pools (ni_deps n) d_ready"
    "bound_deps c = marked_dep_tokens B pools (ni_deps n) d_bound"
    "spawn_slot c = map_option (bd_exec B) (ni_executor n)" "resource_gates c = gate_tokens B None (ni_resources n)"
    "cfg_spawn c = spawn_of B (SlotRef (ni_ident n) None) (ni_source n) (node_glue B n)"
    "reads c = rds" "writes c = ws" "shelled c \<longleftrightarrow> (\<exists>e. ni_source n = Some (ShellSource e))"
    "provides c = (if ni_provides n = [] then [] else provides_tokens B (resource_cfgs (gs_items g)) n)"
  unfolding c_def by (simp_all add: node_chain_def kept table_defs Let_def split: option.split)

lemma member_chain_sel [simp]:
  fixes B pools p j md cl rds ws
  defines "c \<equiv> member_chain B pools p j md cl rds ws"
  shows "claims c = cl" "ready_deps c = marked_dep_tokens B pools (pi_deps p) d_ready"
    "bound_deps c = marked_dep_tokens B pools (pi_deps p) d_bound"
    "spawn_slot c = map_option (bd_exec B) (pi_executor p)" "resource_gates c = gate_tokens B (Some j) (pi_resources p)"
    "cfg_spawn c = spawn_of B (SlotRef (pi_ident p) (Some j)) (Some (pi_source p)) (member_glue B p j)"
    "reads c = rds" "writes c = ws" "shelled c \<longleftrightarrow> (\<exists>e. pi_source p = ShellSource e)"
  unfolding c_def by (simp_all add: member_chain_def kept table_defs Let_def split: option.split)

lemma emit_node_told: "emit_node B pools g pl vt n = Inr e \<Longrightarrow> tells B pools pl (node_told B n) e"
  by (auto simp: emit_node_def tells_def node_told_def Let_def split: option.splits sum.splits)

lemma emit_all_Inr: "emit_all f xs = Inr ys \<Longrightarrow> list_all2 (\<lambda>x y. f x = Inr y) xs ys"
  by (induction xs arbitrary: ys) (auto simp: list_all2_Cons1 split: sum.splits)

lemma emit_pool_told:
  assumes "emit_pool B pools g pl vt p = Inr es"
  shows "list_all2 (tells B pools pl) (map (member_told B p) [0..<length (pi_modes p)]) es"
proof -
  let ?k = "length (pi_modes p)"
  obtain ts foreign where ts: "list_all2 (\<lambda>j t. member_tables B g pl vt p foreign j = Inr t) [0..<?k] ts"
    and es: "list_all2 (\<lambda>x e. emit_member B pools p x = Inr e) (zip (enumerate 0 (pi_modes p)) ts) es"
    using assms by (auto simp: emit_pool_def Let_def dest!: emit_all_Inr split: option.splits sum.splits)
  have l: "length ts = ?k" "length es = ?k" using ts es by (auto dest!: list_all2_lengthD)
  have "tells B pools pl (member_told B p j) (es ! j)" if j: "j < ?k" for j
  proof -
    have "member_tables B g pl vt p foreign j = Inr (ts ! j)"
      using list_all2_nthD[OF ts, of j] j by simp
    moreover have "emit_member B pools p ((j, pi_modes p ! j), ts ! j) = Inr (es ! j)"
      using list_all2_nthD[OF es, of j] j l by (simp add: nth_enumerate_eq)
    ultimately show ?thesis
      by (cases "ts ! j") (auto simp: emit_member_def member_tables_def tells_def member_told_def split: option.splits)
  qed
  then show ?thesis using l by (simp add: list_all2_conv_all_nth)
qed

text \<open>Every static of the build tells the story of one item.\<close>

definition tellers :: "build \<Rightarrow> item \<Rightarrow> told list" where
  "tellers B i = (case i of NodeItem n \<Rightarrow> [node_told B n]
     | PoolItem p \<Rightarrow> map (member_told B p) [0..<length (pi_modes p)] | ExecutorItem x \<Rightarrow> [])"

lemma build_item_told:
  assumes "build_item B g x i = Inr es" "e \<in> set es"
  shows "(\<exists>t \<in> set (tellers B i). tells B (pool_names (gs_items g)) (ex_plan x) t e)
    \<and> (\<forall>ow cfg. item_ident_cfg i = Some (ow, cfg) \<longrightarrow> live B cfg)"
proof (cases i)
  case (NodeItem n)
  then have "emit_node B (pool_names (gs_items g)) g (ex_plan x) (ex_vetoes x) n = Inr e \<and> live B (ni_cfg n)"
    using assms by (auto simp: build_item_def built_item_def Let_def split: sum.splits if_splits)
  then show ?thesis using NodeItem emit_node_told by (fastforce simp: tellers_def)
next
  case (PoolItem p)
  then have p: "emit_pool B (pool_names (gs_items g)) g (ex_plan x) (ex_vetoes x) p = Inr es" "live B (pi_cfg p)"
    using assms by (auto simp: build_item_def built_item_def Let_def split: sum.splits if_splits)
  from emit_pool_told[OF p(1)] p(2) assms(2) PoolItem show ?thesis
    by (fastforce simp: tellers_def list_all2_conv_all_nth in_set_conv_nth)
qed (use assms in \<open>simp add: build_item_def\<close>)

lemma built_statics_told:
  assumes "built_statics B g x = Inr em" "e \<in> set em"
  obtains i t where "i \<in> set (gs_items g)" "t \<in> set (tellers B i)" "tells B (pool_names (gs_items g)) (ex_plan x) t e"
    "\<forall>ow cfg. item_ident_cfg i = Some (ow, cfg) \<longrightarrow> live B cfg"
proof -
  obtain ess where "list_all2 (\<lambda>i es. build_item B g x i = Inr es) (gs_items g) ess" "em = concat ess"
    using assms(1) by (auto simp: built_statics_def dest!: emit_all_Inr split: sum.splits)
  then obtain i es where "i \<in> set (gs_items g)" "build_item B g x i = Inr es" "e \<in> set es"
    using assms(2) by (fastforce simp: list_all2_conv_all_nth in_set_conv_nth)
  then show thesis using build_item_told that by blast
qed

section \<open>Claims\<close>

lemma member_slot_unat: "member_slot j base = Some s \<Longrightarrow> unat s = unat base + j"
proof -
  assume "member_slot j base = Some s"
  then obtain m where m: "m = unat base + j" "m < 256" "s = of_nat m" by (auto simp: member_slot_def split: if_splits)
  have "unat (of_nat m :: u8) = m" using m(2) by simp
  then show ?thesis using m by metis
qed

lemma claims_tokens_entry:
  assumes "claims_tokens B rs (plan_claims pl ow rs) j = Some cl" "(a, s) \<in> set cl"
  shows "\<exists>r base. r \<in> set rs \<and> a = bd_gate B (SlotRef (rd_ident r) None) \<and> claim_bases pl (ow, rd_ident r) = Some base
    \<and> unat s = unat base + j"
  using assms
proof (induction rs arbitrary: cl)
  case (Cons r rs)
  show ?case
  proof (cases "claim_bases pl (ow, rd_ident r)")
    case None
    then show ?thesis using Cons.prems Cons.IH[of cl] by (fastforce simp: plan_claims_def)
  next
    case (Some base)
    then obtain s' cl' where s': "member_slot j base = Some s'" "claims_tokens B rs (plan_claims pl ow rs) j = Some cl'"
      "cl = (if live B (rd_cfg r) then (bd_gate B (SlotRef (rd_ident r) None), s') # cl' else cl')"
      using Cons.prems(1) by (auto simp: plan_claims_def split: option.splits)
    then have "unat s' = unat base + j" using member_slot_unat by blast
    then show ?thesis using s' Cons.prems(2) Cons.IH[OF s'(2)] Some by (fastforce split: if_splits)
  qed
qed (simp add: plan_claims_def)

lemma tellers_item:
  "t \<in> set (tellers B i) \<Longrightarrow> \<exists>cfg. item_ident_cfg i = Some (td_owner t, cfg) \<and> td_member t < member_count i
     \<and> td_resources t = item_resources i \<and> td_deps t = (case i of NodeItem n \<Rightarrow> ni_deps n | PoolItem p \<Rightarrow> pi_deps p | _ \<Rightarrow> [])
     \<and> td_ref t = SlotRef (td_owner t) (case i of PoolItem p \<Rightarrow> Some (td_member t) | _ \<Rightarrow> None)
     \<and> td_executor t = item_executor i"
  by (auto simp: tellers_def node_told_def member_told_def split: item.splits)

lemma item_by_owner:
  "distinct (item_names items) \<Longrightarrow> i \<in> set items \<Longrightarrow> i' \<in> set items \<Longrightarrow> item_ident_cfg i = Some (ow, cfg) \<Longrightarrow>
     item_ident_cfg i' = Some (ow, cfg') \<Longrightarrow> i' = i"
proof (induction items)
  case (Cons k ks)
  have m: "j \<in> set ks \<Longrightarrow> item_ident_cfg j = Some (ow, cfg) \<Longrightarrow> ow \<in> set (item_names ks)" for j cfg
    by (force simp: item_names_def List.map_filter_def)
  show ?case
    using Cons m[of i] m[of i'] by (auto simp: item_names_def List.map_filter_simps split: option.splits)
qed simp

text \<open>
  C19. Two statics of a build never hold the same slot of a budget: whatever \<open>cfg\<close>s hold, a claim
  of a node or pool member is on a slot inside the budget the macro sized, and claims of two
  different nodes or members on one budget are on different slots. So the supervisor's release
  at a stop takes nothing from another holder.
\<close>

theorem emitted_claims_disjoint:
  assumes "expand (gs_items g) = Inr x" "built_statics B g x = Inr em" "inj (bd_gate B)"
    and "(r, c, off) \<in> set em" "(a, s) \<in> set (claims c)" "(r', c', off') \<in> set em" "(a, s') \<in> set (claims c')" "r \<noteq> r'"
  shows "\<exists>key. a = bd_gate B (SlotRef key None) \<and> unat s < slot_total (ex_plan x) key \<and> slot_total (ex_plan x) key \<le> 256
     \<and> s \<noteq> s'"
proof -
  let ?items = "gs_items g" and ?pl = "ex_plan x"
  have d: "distinct (item_names ?items)" using emit_items_distinct[OF expand_Inr(3)[OF assms(1)]] .
  have inv: "ranges_inv (owner_members ?items) 256 (slot_total ?pl) (claim_bases ?pl)"
    using plan_resources_ranges[OF expand_Inr(1)[OF assms(1)] d] by blast
  have entry: "\<exists>i ow j key base. i \<in> set ?items \<and> owner_members ?items ow = member_count i \<and> j < member_count i
      \<and> r = SlotRef ow (case i of PoolItem p \<Rightarrow> Some j | _ \<Rightarrow> None)
      \<and> (\<exists>cfg. item_ident_cfg i = Some (ow, cfg))
      \<and> a = bd_gate B (SlotRef key None) \<and> claim_bases ?pl (ow, key) = Some base \<and> unat s = unat base + j"
    if h: "(r, c, off) \<in> set em" "(a, s) \<in> set (claims c)" for r c off s
  proof -
    obtain i t where t: "i \<in> set ?items" "t \<in> set (tellers B i)" "tells B (pool_names ?items) ?pl t (r, c, off)"
      by (rule built_statics_told[OF assms(2) h(1)]) (rule that)
    obtain cfg where o: "item_ident_cfg i = Some (td_owner t, cfg)" "td_member t < member_count i"
      "r = SlotRef (td_owner t) (case i of PoolItem p \<Rightarrow> Some (td_member t) | _ \<Rightarrow> None)"
      using tellers_item[OF t(2)] t(3) by (auto simp: tells_def)
    from claims_tokens_entry[of B "td_resources t" ?pl "td_owner t" "td_member t" "claims c" a s]
    show ?thesis using t(3) h(2) t(1) o owner_members_item[OF d t(1) o(1)] by (fastforce simp: tells_def)
  qed
  obtain i ow j key base where e: "i \<in> set ?items" "owner_members ?items ow = member_count i" "j < member_count i"
      "r = SlotRef ow (case i of PoolItem p \<Rightarrow> Some j | _ \<Rightarrow> None)" "\<exists>cfg. item_ident_cfg i = Some (ow, cfg)"
      "a = bd_gate B (SlotRef key None)" "claim_bases ?pl (ow, key) = Some base" "unat s = unat base + j"
    using entry[OF assms(4,5)] by blast
  obtain i' ow' j' key' base' where e': "i' \<in> set ?items" "owner_members ?items ow' = member_count i'" "j' < member_count i'"
      "r' = SlotRef ow' (case i' of PoolItem p \<Rightarrow> Some j' | _ \<Rightarrow> None)" "\<exists>cfg. item_ident_cfg i' = Some (ow', cfg)"
      "a = bd_gate B (SlotRef key' None)" "claim_bases ?pl (ow', key') = Some base'" "unat s' = unat base' + j'"
    using entry[OF assms(6,7)] by blast
  have k: "key' = key" using e(6) e'(6) assms(3) by (auto dest: injD)
  have "unat base + member_count i \<le> slot_total ?pl key" "slot_total ?pl key \<le> 256"
    using inv e(2,7) unfolding ranges_inv_def by metis+
  moreover have "s \<noteq> s'"
  proof (cases "ow' = ow")
    case True
    then have "i' = i" using item_by_owner[OF d] e(1,5) e'(1,5) by blast
    moreover have "base' = base" using e(7) e'(7) k True by simp
    ultimately show ?thesis using e(4,8) e'(4,8) True assms(8) by (auto split: item.splits)
  next
    case False
    then have "unat base + member_count i \<le> unat base' \<or> unat base' + member_count i' \<le> unat base"
      using inv e(2,7) e'(2,7) k unfolding ranges_inv_def by metis
    then show ?thesis using e(3,8) e'(3,8) by auto
  qed
  ultimately show ?thesis using e(3,6,8) by (intro exI[of _ key]) auto
qed

section \<open>The slots of the items\<close>

definition slots_of :: "item \<Rightarrow> slot list" where
  "slots_of i = (case i of NodeItem n \<Rightarrow> [node_slot n] | PoolItem p \<Rightarrow> pool_slots p | ExecutorItem x \<Rightarrow> [])"

lemma emit_items_slots:
  assumes "emit_items items = Inr em"
  shows "em_slots em = concat (map slots_of items)"
proof -
  let ?I = "\<lambda>ys em. em_slots em = concat (map slots_of ys)"
  have "?I items em"
  proof (rule try_fold_prefix[where I = ?I, OF assms[unfolded emit_items_def]])
    fix ys i zs em em' assume "?I ys em" "emit_item items i em = Inr em'"
    then show "?I (ys @ [i]) em'"
      using emit_item_add[of items i em em'] by (auto simp: slots_of_def add_name_def split: item.splits if_splits)
  qed simp
  then show ?thesis .
qed

lemma expand_slots: "expand items = Inr x \<Longrightarrow> ex_slots x = concat (map slots_of items)"
  using emit_items_slots[OF expand_Inr(3)] by simp

lemma teller_slot:
  assumes "t \<in> set (tellers B i)"
  shows "\<exists>sl \<in> set (slots_of i). sl_reference sl = td_ref t \<and> sl_deps sl = td_deps t
    \<and> (\<exists>cfg. item_ident_cfg i = Some (td_owner t, cfg) \<and> sl_cfg_pred sl = cfg_predicate cfg)"
  using assms by (auto simp: tellers_def slots_of_def node_told_def member_told_def node_slot_def pool_slots_def split: item.splits)

lemma slots_of_ref:
  "sl \<in> set (slots_of i) \<Longrightarrow> sl_reference sl = SlotRef d j \<Longrightarrow>
     (\<exists>cfg. item_ident_cfg i = Some (d, cfg)) \<and> (j \<noteq> None \<longleftrightarrow> (\<exists>p. i = PoolItem p))"
  by (auto simp: slots_of_def node_slot_def pool_slots_def split: item.splits)

lemma pool_names_iff: "d \<in> set (pool_names items) \<longleftrightarrow> (\<exists>p. PoolItem p \<in> set items \<and> pi_ident p = d)"
  by (induction items) (auto simp: pool_names_def List.map_filter_simps split: item.splits)

text \<open>The name of a slot says whether a pool's or a node's.\<close>

lemma named_reference:
  assumes "expand items = Inr x" "sl \<in> set (ex_slots x)" "names_slot d sl"
  shows "sl_reference sl = SlotRef d (if d \<in> set (pool_names items) then Some 0 else None)"
proof -
  obtain i where i: "i \<in> set items" "sl \<in> set (slots_of i)" using assms(2) expand_slots[OF assms(1)] by auto
  have d: "distinct (item_names items)" using emit_items_distinct[OF expand_Inr(3)[OF assms(1)]] .
  obtain j where j: "sl_reference sl = SlotRef d j" "j = None \<or> j = Some 0" using assms(3) by (auto simp: names_slot_def)
  obtain cfg where c: "item_ident_cfg i = Some (d, cfg)" "j \<noteq> None \<longleftrightarrow> (\<exists>p. i = PoolItem p)"
    using slots_of_ref[OF i(2) j(1)] by (elim conjE exE) (rule that)
  have "d \<in> set (pool_names items) \<longleftrightarrow> (\<exists>p. i = PoolItem p)"
  proof
    assume "d \<in> set (pool_names items)"
    then obtain p where "PoolItem p \<in> set items" "pi_ident p = d" by (auto simp: pool_names_iff)
    then show "\<exists>p. i = PoolItem p" using item_by_owner[OF d i(1) _ c(1), of "PoolItem p"] by auto
  next
    assume "\<exists>p. i = PoolItem p"
    then show "d \<in> set (pool_names items)" using i(1) c(1) by (auto simp: pool_names_iff)
  qed
  then show ?thesis using j c(2) by auto
qed

lemma enabled_live: "enabled (bd_holds B) (cfg_predicate cfg) = live B cfg"
  by (simp add: enabled_def cfg_predicate_def live_def Let_def)

section \<open>Markers\<close>

lemma marked_in_row:
  assumes "list_all2 (\<lambda>d k. f d = g k) ds row"
  shows "map f (filter sel ds) = map (g \<circ> snd) (filter (sel \<circ> fst) (zip ds row))"
  using assms by (induction ds row rule: list_all2_induct) auto

text \<open>
  C18. The ready and bound tables of a static are its dependency row, read through the markers: a
  static of the build stands in the graph at a slot, and its tables are, in the order of the
  row, the nodes at the slots of the marked dependencies the build has. So a gate waits only for
  nodes the wave has ordered before, and where the parser's rule holds that a bound dependency is
  ready too, no node is bound to one that its start did not wait for.
\<close>

theorem emitted_markers_follow_rows:
  assumes "expand (gs_items g) = Inr x" "no_empty_pool (gs_items g)"
    and "built_graph (bd_holds B) (bd_node B) pools ref self x = Some G" "built_statics B g x = Inr em"
    and "\<forall>sl \<in> set (ex_slots x). length (sl_deps sl) < 256 \<and> distinct (map d_ident (live_deps (bd_holds B) sl))"
    and "(r, c, off) \<in> set em"
  shows "\<exists>k < length (ex_slots x). node_at (supervisor_new G) k = Some (bd_node B r) \<and> sl_reference (ex_slots x ! k) = r
    \<and> (let row = zip (live_deps (bd_holds B) (ex_slots x ! k)) (deps_row (supervisor_new G) k);
           node = (\<lambda>(d, i). bd_node B (sl_reference (ex_slots x ! i)))
       in ready_deps c = map node (filter (d_ready \<circ> fst) row) \<and> bound_deps c = map node (filter (d_bound \<circ> fst) row)
          \<and> ((\<forall>d \<in> set (sl_deps (ex_slots x ! k)). d_bound d \<longrightarrow> d_ready d) \<longrightarrow> set (bound_deps c) \<subseteq> set (ready_deps c)))"
proof -
  let ?S = "supervisor_new G" and ?pools = "pool_names (gs_items g)"
  obtain i t where t: "i \<in> set (gs_items g)" "t \<in> set (tellers B i)" "tells B ?pools (ex_plan x) t (r, c, off)"
    "\<forall>ow cfg. item_ident_cfg i = Some (ow, cfg) \<longrightarrow> live B cfg"
    by (rule built_statics_told[OF assms(4,6)])
  from teller_slot[OF t(2)] obtain sl cfg where sl: "sl \<in> set (slots_of i)" "sl_reference sl = td_ref t" "sl_deps sl = td_deps t"
    "item_ident_cfg i = Some (td_owner t, cfg)" "sl_cfg_pred sl = cfg_predicate cfg" by blast
  then obtain k where k: "k < length (ex_slots x)" "ex_slots x ! k = sl"
    using t(1) expand_slots[OF assms(1)] in_set_conv_nth[of sl "ex_slots x"] by auto
  have r: "r = sl_reference sl" using t(3) sl(2) by (simp add: tells_def)
  have at: "node_at ?S k = Some (bd_node B r)"
    using assms(3) k sl t(4) r by (auto simp: built_graph_def supervisor_new_def node_at_def built_nodes_def enabled_live)
  note wf = built_graph_rows[OF assms(1-3,5)]
  have "list_all2 (\<lambda>d i. i < s_size ?S \<and> names_slot (d_ident d) (ex_slots x ! i))
      (live_deps (bd_holds B) (ex_slots x ! k)) (deps_row ?S k)"
    using wf k(1) by (metis (no_types, lifting))
  then have "list_all2 (\<lambda>d i. i < length (ex_slots x) \<and> names_slot (d_ident d) (ex_slots x ! i))
      (live_deps (bd_holds B) sl) (deps_row ?S k)"
    unfolding k(2) conjunct1[OF conjunct2[OF wf]] .
  then have row: "list_all2 (\<lambda>d i. bd_node B (SlotRef (d_ident d) (if d_ident d \<in> set ?pools then Some 0 else None))
      = bd_node B (sl_reference (ex_slots x ! i))) (live_deps (bd_holds B) sl) (deps_row ?S k)"
    by (rule list_all2_mono) (use named_reference[OF assms(1) nth_mem] in auto)
  have marked: "marked_dep_tokens B ?pools (td_deps t) sel =
      map (\<lambda>(d, i). bd_node B (sl_reference (ex_slots x ! i)))
        (filter (sel \<circ> fst) (zip (live_deps (bd_holds B) sl) (deps_row ?S k)))" for sel
  proof -
    have "marked_dep_tokens B ?pools (td_deps t) sel = map (\<lambda>d. bd_node B (SlotRef (d_ident d)
        (if d_ident d \<in> set ?pools then Some 0 else None))) (filter sel (live_deps (bd_holds B) sl))"
      by (simp add: marked_dep_tokens_def live_of_def live_def live_deps_def sl(3) conj_commute)
    also have "\<dots> = map ((\<lambda>i. bd_node B (sl_reference (ex_slots x ! i))) \<circ> snd)
        (filter (sel \<circ> fst) (zip (live_deps (bd_holds B) sl) (deps_row ?S k)))"
      by (rule marked_in_row[OF row])
    finally show ?thesis by (simp add: comp_def split_def)
  qed
  have tables: "ready_deps c = marked_dep_tokens B ?pools (td_deps t) d_ready"
    "bound_deps c = marked_dep_tokens B ?pools (td_deps t) d_bound" using t(3) by (simp_all add: tells_def)
  have "set (bound_deps c) \<subseteq> set (ready_deps c)" if "\<forall>d \<in> set (sl_deps sl). d_bound d \<longrightarrow> d_ready d"
    using that unfolding tables by (auto simp: marked_dep_tokens_def live_of_def sl(3))
  then show ?thesis using k at r tables marked unfolding Let_def by (intro exI[of _ k]) simp
qed

section \<open>Spawning\<close>

text \<open>
  C17. The macro and the runtime agree on when a task may be spawned: the configuration of a \<open>task:\<close>
  node or pool member names the executor and the resources its spawn glue probes, and the shape
  of the graph makes the gates look at them. So once the gate test of the start wave has passed
  in a graph built from an accepted declaration, the spawn function is refused nothing but memory.
\<close>

theorem emitted_task_spawns:
  assumes "expand (gs_items g) = Inr x" "built_graph (bd_holds B) (bd_node B) pools ref self x = Some G"
    and "built_statics B g x = Inr em" "(r, c, off) \<in> set em" "shelled c" "p_cfg P (bd_node B r) = c"
  shows "\<exists>box task T. cfg_spawn c = Some (spawn_glue box task T) \<and> tg_node T = bd_node B r
    \<and> glue_fits P (supervisor_new G) T
    \<and> (\<forall>overdue v e w'. gate_test_of P (supervisor_new G) overdue (bd_node B r) v = GatesOpen
          \<and> spawn_glue box task T (on_handle (bd_node B r) reset v) = (Inl e, w')
          \<longrightarrow> \<not> memory_in box task T (on_handle (bd_node B r) reset v))"
proof -
  let ?S = "supervisor_new G"
  obtain i t where t: "i \<in> set (gs_items g)" "t \<in> set (tellers B i)"
    "tells B (pool_names (gs_items g)) (ex_plan x) t (r, c, off)"
    by (rule built_statics_told[OF assms(3,4)]) (rule that)
  define T where "T = td_glue t"
  obtain e where sp: "cfg_spawn c = Some (spawn_glue (bd_box B r) (bd_task B r) T)"
    using t(3) assms(5) by (auto simp: tells_def spawn_of_def T_def)
  have n: "tg_node T = bd_node B r"
    and ex: "tg_executor T \<noteq> None \<longrightarrow> item_executor i \<noteq> None" and rs: "tg_resources T \<noteq> [] \<longrightarrow> item_resources i \<noteq> []"
    using t(2,3) by (auto simp: tellers_def tells_def T_def node_told_def member_told_def node_glue_def member_glue_def live_of_def
        split: item.splits)
  have shape: "s_has ?S b \<longleftrightarrow> (\<exists>i \<in> set (gs_items g). uses i b)" if "b \<in> set shape_flags" for b
    using assms(2) expand_Inr(6)[OF assms(1)] item_bits_uses[OF that]
    by (auto simp: built_graph_def supervisor_new_def s_has_def shape_bits_def has_fold_or)
  have u: "item_executor i \<noteq> None \<longrightarrow> uses i SHAPE_EXEC_SLOTS" "item_resources i \<noteq> [] \<longrightarrow> uses i SHAPE_RESOURCES"
    by (cases i; simp)+
  have fits: "glue_fits P ?S T"
    using t(1,3) assms(6) n ex rs u shape by (auto simp: glue_fits_def tells_def T_def)
  have "\<not> memory_in (bd_box B r) (bd_task B r) T (on_handle (bd_node B r) reset v)"
    if "gate_test_of P ?S overdue (bd_node B r) v = GatesOpen"
      "spawn_glue (bd_box B r) (bd_task B r) T (on_handle (bd_node B r) reset v) = (Inl e, w')" for overdue v e w'
    using open_gates_in[OF fits, unfolded n, OF that(1) refl] spawn_glue_result[OF that(2)] n by auto
  then show ?thesis using sp n fits by blast
qed

section \<open>Examples\<close>

instance slot_ref :: countable
  by countable_datatype

definition a_build :: "(slot_ref \<Rightarrow> nref) \<Rightarrow> build" where
  "a_build at = \<lparr>bd_holds = (\<lambda>_. True), bd_node = at, bd_gate = to_nat, bd_exec = (\<lambda>_. 0), bd_state = (\<lambda>_. 0),
     bd_exit = (\<lambda>_. 0), bd_box = (\<lambda>_ _. None), bd_task = (\<lambda>_ _. Inr 1), bd_closure = (\<lambda>_ w. (Inr (), w)),
     bd_signal = (\<lambda>_. 0), bd_token = (\<lambda>_ _. 0), bd_via = (\<lambda>_ _ _. 0), bd_table = (\<lambda>_ _. []),
     bd_pred = (\<lambda>_ _. True), bd_nodes = [], bd_time = plain_time\<rparr>"

lemma a_build_sel [simp]: "bd_holds (a_build at) = (\<lambda>_. True)" "bd_node (a_build at) = at" "bd_gate (a_build at) = to_nat"
  "bd_task (a_build at) r = (\<lambda>_. Inr 1)" "live (a_build at) cfg" "live_of (a_build at) f xs = xs"
  by (simp_all add: a_build_def live_def live_of_def list_all_iff)

definition spec_of :: "item list \<Rightarrow> graph_spec" where
  "spec_of items = \<lparr>gs_name = None, gs_observe_writes = None, gs_observe_reads = None, gs_default_executor = None,
     gs_items = items\<rparr>"

lemma spec_of_sel [simp]: "gs_items (spec_of items) = items"
  by (simp add: spec_of_def)

lemma no_veto_slots: "coupling_entries B d [] bs j = Some []"
  by simp

lemmas emission_defs = built_statics_def build_item_def built_item_def emit_node_def emit_pool_def member_tables_def
  emit_member_def node_source_error_def pool_source_error_def discover_fn_path_def coupling_binding_tokens_def foreign_fns_def
  marker_assert_def mode_of_def plan_claims_def disabled_tokens_def

lemma radio_bases: "\<exists>st. plan_resources radio = Inr st \<and> claim_bases st (''LINK'', ''UART'') = None
    \<and> claim_bases st (''LINK'', ''AIRTIME'') = Some 0 \<and> claim_bases st (''WORKER'', ''AIRTIME'') = Some 1
    \<and> claim_bases st (''UPLINK'', ''AIRTIME'') = Some 3"
  by (simp add: plan_resources_def plan_item_def plan_resource_def join_plan_def claim_slots_def plan_new_def
      executor_names_def List.map_filter_simps example_defs kind_def plan_sig_def put_plan_def cfg_predicate_def Let_def)

lemma radio_statics:
  "\<exists>x em c c'. expand radio = Inr x \<and> built_statics (a_build linked) (spec_of radio) x = Inr em
     \<and> (SlotRef ''WORKER'' (Some 1), c, False) \<in> set em \<and> claims c = [(to_nat (SlotRef ''AIRTIME'' None), 2)]
     \<and> (SlotRef ''UPLINK'' None, c', False) \<in> set em \<and> claims c' = [(to_nat (SlotRef ''AIRTIME'' None), 3)]"
proof -
  obtain x where x: "expand radio = Inr x" using radio_expand by blast
  then have b: "claim_bases (ex_plan x) (''LINK'', ''UART'') = None" "claim_bases (ex_plan x) (''LINK'', ''AIRTIME'') = Some 0"
    "claim_bases (ex_plan x) (''WORKER'', ''AIRTIME'') = Some 1" "claim_bases (ex_plan x) (''UPLINK'', ''AIRTIME'') = Some 3"
    using radio_bases expand_Inr(1) by fastforce+
  have "\<exists>em c c'. built_statics (a_build linked) (spec_of radio) x = Inr em
     \<and> (SlotRef ''WORKER'' (Some 1), c, False) \<in> set em \<and> claims c = [(to_nat (SlotRef ''AIRTIME'' None), 2)]
     \<and> (SlotRef ''UPLINK'' None, c', False) \<in> set em \<and> claims c' = [(to_nat (SlotRef ''AIRTIME'' None), 3)]"
    by (simp add: emission_defs radio_def plain_node_def plain_pool_def slot_entry_def budget_entry_def needs_def b
        member_slot_def enumerate_eq_zip upt_rec Let_def)
  then show ?thesis using x by blast
qed

theorem emitted_claims_disjoint_witness:
  "\<exists>x em c c'. expand radio = Inr x \<and> built_statics (a_build linked) (spec_of radio) x = Inr em
     \<and> (SlotRef ''WORKER'' (Some 1), c, False) \<in> set em \<and> (SlotRef ''UPLINK'' None, c', False) \<in> set em
     \<and> claims c = [(to_nat (SlotRef ''AIRTIME'' None), 2)] \<and> claims c' = [(to_nat (SlotRef ''AIRTIME'' None), 3)]
     \<and> (\<exists>key. SlotRef ''AIRTIME'' None = SlotRef key None \<and> 2 < slot_total (ex_plan x) key)"
proof -
  obtain x em c c' where r: "expand radio = Inr x" "built_statics (a_build linked) (spec_of radio) x = Inr em"
    "(SlotRef ''WORKER'' (Some 1), c, False) \<in> set em" "claims c = [(to_nat (SlotRef ''AIRTIME'' None), 2)]"
    "(SlotRef ''UPLINK'' None, c', False) \<in> set em" "claims c' = [(to_nat (SlotRef ''AIRTIME'' None), 3)]"
    using radio_statics by (elim exE conjE) (rule that)
  have "\<exists>key. to_nat (SlotRef ''AIRTIME'' None) = bd_gate (a_build linked) (SlotRef key None)
      \<and> unat (2 :: u8) < slot_total (ex_plan x) key \<and> slot_total (ex_plan x) key \<le> 256 \<and> (2 :: u8) \<noteq> 3"
    by (rule emitted_claims_disjoint[of "spec_of radio" x "a_build linked" em "SlotRef ''WORKER'' (Some 1)" c False _ 2
          "SlotRef ''UPLINK'' None" c' False 3]) (use r in simp_all)
  then show ?thesis using r by auto
qed


text \<open>Two nodes, the second bound to the first.\<close>

definition bound_items :: "item list" where
  "bound_items = [NodeItem (plain_node ''A'' [] []),
     NodeItem (plain_node ''B'' [(needs ''A'')\<lparr>d_ready := True, d_bound := True\<rparr>] [])]"

fun two_at :: "slot_ref \<Rightarrow> nref" where
  "two_at (SlotRef d j) = (if d = ''A'' then 0 else 1)"

lemma bound_items_built:
  "\<exists>x G em c. expand bound_items = Inr x \<and> built_graph (\<lambda>_. True) two_at [] 0 None x = Some G
     \<and> map sl_deps (ex_slots x) = [[], [(needs ''A'')\<lparr>d_ready := True, d_bound := True\<rparr>]]
     \<and> built_statics (a_build two_at) (spec_of bound_items) x = Inr em
     \<and> (SlotRef ''B'' None, c, False) \<in> set em \<and> shelled c \<and> ready_deps c = [0]"
proof -
  have t: "topo_sort_const [[], [0]] \<noteq> None" by code_simp
  have "\<exists>x. expand bound_items = Inr x \<and> ex_rows x = [[], [(0, [])]] \<and> \<not> ex_flat x
      \<and> map sl_deps (ex_slots x) = [[], [(needs ''A'')\<lparr>d_ready := True, d_bound := True\<rparr>]]"
    by (simp add: bound_items_def expand_def plan_resources_def plan_item_def check_locals_def home_item_def provider_item_def
      plan_vetoes_def veto_item_def emit_items_def emit_item_def known_executor_def add_name_def
      node_slot_def plain_node_def needs_def Let_def)
  then obtain x where x: "expand bound_items = Inr x" "ex_rows x = [[], [(0, [])]]" "\<not> ex_flat x"
    "map sl_deps (ex_slots x) = [[], [(needs ''A'')\<lparr>d_ready := True, d_bound := True\<rparr>]]" by (elim exE conjE) (rule that)
  then obtain G where "built_graph (\<lambda>_. True) two_at [] 0 None x = Some G"
    using t by (auto simp: built_graph_def built_topology_def built_rows_def ordered_new_def)
  moreover have "\<exists>em c. built_statics (a_build two_at) (spec_of bound_items) x = Inr em
     \<and> (SlotRef ''B'' None, c, False) \<in> set em \<and> shelled c \<and> ready_deps c = [0]"
    by (simp add: emission_defs bound_items_def plain_node_def needs_def marked_dep_tokens_def pool_names_def
        List.map_filter_simps Let_def)
  ultimately show ?thesis using x(1,4) by (elim exE conjE) (intro exI conjI)
qed

theorem emitted_markers_follow_rows_witness:
  "\<exists>x G em c k. expand bound_items = Inr x \<and> built_graph (\<lambda>_. True) two_at [] 0 None x = Some G
     \<and> built_statics (a_build two_at) (spec_of bound_items) x = Inr em \<and> (SlotRef ''B'' None, c, False) \<in> set em
     \<and> node_at (supervisor_new G) k = Some 1 \<and> ready_deps c = [0]"
proof -
  obtain x G em c where r: "expand bound_items = Inr x" "built_graph (\<lambda>_. True) two_at [] 0 None x = Some G"
    "map sl_deps (ex_slots x) = [[], [(needs ''A'')\<lparr>d_ready := True, d_bound := True\<rparr>]]"
    "built_statics (a_build two_at) (spec_of bound_items) x = Inr em" "(SlotRef ''B'' None, c, False) \<in> set em" "ready_deps c = [0]"
    using bound_items_built by (elim exE conjE) (rule that)
  have "sl_deps sl \<in> {[], [(needs ''A'')\<lparr>d_ready := True, d_bound := True\<rparr>]}" if "sl \<in> set (ex_slots x)" for sl
    using arg_cong[OF r(3), of set] that by (auto dest: imageI[of sl _ sl_deps])
  then have ok: "\<forall>sl \<in> set (ex_slots x). length (sl_deps sl) < 256 \<and> distinct (map d_ident (live_deps (\<lambda>_. True) sl))"
    by (force simp: live_deps_def needs_def)
  have "no_empty_pool bound_items" by (auto simp: no_empty_pool_def bound_items_def)
  then have "\<exists>k < length (ex_slots x). node_at (supervisor_new G) k = Some 1"
    using emitted_markers_follow_rows[of "spec_of bound_items" x "a_build two_at" "[]" 0 None G em "SlotRef ''B'' None" c False] r ok
    by auto
  then show ?thesis using r by blast
qed

theorem emitted_task_spawns_witness:
  "\<exists>x G em c box task T. expand bound_items = Inr x \<and> built_graph (\<lambda>_. True) two_at [] 0 None x = Some G
     \<and> built_statics (a_build two_at) (spec_of bound_items) x = Inr em \<and> (SlotRef ''B'' None, c, False) \<in> set em
     \<and> cfg_spawn c = Some (spawn_glue box task T) \<and> tg_node T = 1
     \<and> glue_fits (plain_platform (\<lambda>_. c)) (supervisor_new G) T"
proof -
  obtain x G em c where r: "expand bound_items = Inr x" "built_graph (\<lambda>_. True) two_at [] 0 None x = Some G"
    "built_statics (a_build two_at) (spec_of bound_items) x = Inr em" "(SlotRef ''B'' None, c, False) \<in> set em" "shelled c"
    using bound_items_built by (elim exE conjE) (rule that)
  have p: "p_cfg (plain_platform (\<lambda>_. c)) n = c" for n by (simp add: plain_platform_def)
  have "\<exists>box task T. cfg_spawn c = Some (spawn_glue box task T) \<and> tg_node T = 1
      \<and> glue_fits (plain_platform (\<lambda>_. c)) (supervisor_new G) T"
    using emitted_task_spawns[of "spec_of bound_items" x "a_build two_at" "[]" 0 None G em "SlotRef ''B'' None" c False
        "plain_platform (\<lambda>_. c)"] r p by fastforce
  then show ?thesis using r(1-4) by blast
qed

text \<open>
  A shared slot declared by \<open>A\<close> under a condition and by \<open>C\<close> without one exists in every build, but
  the provider's table takes the condition of the first declaration: where it does not hold, \<open>C\<close>
  uses the slot and nobody clears it.
\<close>

definition shared_entry :: "cfg_attrs \<Rightarrow> resource_decl" where
  "shared_entry cfg = (slot_entry ''CLOCK'')\<lparr>rd_cfg := cfg, rd_shared := True\<rparr>"

lemma provides_follows_first_declarer:
  fixes items B
  defines "items \<equiv> [NodeItem (plain_node ''A'' [] [shared_entry [CfgAttr ''usb'']]), NodeItem (plain_node ''C'' [] [shared_entry []]),
      NodeItem ((plain_node ''B'' [] [])\<lparr>ni_provides := [\<lparr>pv_cfg = [], pv_ident = ''CLOCK''\<rparr>]\<rparr>)]"
    and "B \<equiv> (a_build two_at)\<lparr>bd_holds := \<lambda>_. False\<rparr>"
  shows "\<exists>x em b c. expand items = Inr x \<and> built_statics B (spec_of items) x = Inr em
    \<and> (SlotRef ''C'' None, c, False) \<in> set em \<and> resource_gates c = [to_nat (SlotRef ''CLOCK'' None)]
    \<and> (SlotRef ''B'' None, b, False) \<in> set em \<and> provides b = []"
proof -
  have s: "live B cfg \<longleftrightarrow> predicates cfg = []" "bd_gate B = to_nat" for cfg
    by (simp_all add: B_def live_def a_build_def Nil_is_map_conv split: list.split) (cases "predicates cfg"; simp)
  have pl: "\<exists>st. plan_resources items = Inr st \<and> claim_bases st = (\<lambda>_. None)"
    by (simp add: items_def plan_resources_def plan_item_def plan_resource_def join_plan_def plan_new_def shared_entry_def
      executor_names_def List.map_filter_simps example_defs kind_def plan_sig_def shared_signature_def put_plan_def
      cfg_predicate_def Let_def)
  then obtain st where st: "plan_resources items = Inr st" "claim_bases st = (\<lambda>_. None)" by blast
  have x: "\<exists>x. expand items = Inr x \<and> ex_plan x = st"
    unfolding expand_def st(1)
    by (simp add: items_def check_locals_def home_item_def home_entry_def provider_item_def provider_entry_def shared_entry_def slot_entry_def
      plan_vetoes_def veto_item_def emit_items_def emit_item_def known_executor_def add_name_def resource_cfgs_def kind_def
      node_slot_def plain_node_def needs_def Let_def)
  then obtain x where x: "expand items = Inr x" "ex_plan x = st" by blast
  have "\<exists>em b c. built_statics B (spec_of items) x = Inr em
    \<and> (SlotRef ''C'' None, c, False) \<in> set em \<and> resource_gates c = [to_nat (SlotRef ''CLOCK'' None)]
    \<and> (SlotRef ''B'' None, b, False) \<in> set em \<and> provides b = []"
    by (simp add: emission_defs items_def plain_node_def shared_entry_def slot_entry_def s x(2) st(2) live_of_def gate_tokens_def
        gate_ref_def kind_def provides_tokens_def resource_cfgs_def Let_def)
  then show ?thesis using x(1) by blast
qed

end
