(* ===== verification/Helpers.thy ===== *)
theory Helpers
  imports Slots Tokens "HOL-Library.Char_ord"
begin

text \<open>
  What \<open>supervisor_graph!\<close> of \<^verbatim>\<open>supervisor-macros/src/lib.rs\<close> emits beside the nodes: the names of
  a graph's helper items, the slot type for values that stay on their executor, the boxes of task
  state, and an observed expression with its target put in. Identifiers are ASCII.
\<close>

section \<open>Names\<close>

definition to_lowercase :: "string \<Rightarrow> string" where
  "to_lowercase = map (\<lambda>c. if CHR ''A'' \<le> c \<and> c \<le> CHR ''Z'' then char_of (of_char c + 32 :: nat) else c)"

definition LOCAL_SLOT_TYPE :: string where
  "LOCAL_SLOT_TYPE = ''__SvLocalResourceSlot''"

record helper_idents =
  hi_local_slot :: ident
  hi_try_box :: ident
  hi_try_box_zeroed :: ident
  hi_alloc_alias :: ident
  hi_nodes :: ident
  hi_graph_ref :: ident
  hi_fence :: ident

definition helper_idents_new :: "ident option \<Rightarrow> helper_idents" where
  "helper_idents_new graph_name =
     (case graph_name of
        None \<Rightarrow> \<lparr>hi_local_slot = LOCAL_SLOT_TYPE, hi_try_box = ''__sv_try_box'', hi_try_box_zeroed = ''__sv_try_box_zeroed'',
                 hi_alloc_alias = ''__sv_alloc'', hi_nodes = ''NODES'', hi_graph_ref = ''GRAPH_REF'', hi_fence = ''__sv_fence''\<rparr>
      | Some n \<Rightarrow>
          let lower = to_lowercase n in
          \<lparr>hi_local_slot = LOCAL_SLOT_TYPE @ n, hi_try_box = ''__sv_try_box_'' @ lower,
           hi_try_box_zeroed = ''__sv_try_box_zeroed_'' @ lower, hi_alloc_alias = ''__sv_alloc_'' @ lower,
           hi_nodes = ''__SV_NODES_'' @ n, hi_graph_ref = ''__SV_GRAPH_REF_'' @ n, hi_fence = ''__sv_fence_'' @ lower\<rparr>)"

text \<open>Which of them a declaration needs: boxes for initialised and for zeroed state, local slots, fences.\<close>

fun item_state :: "item \<Rightarrow> (string \<times> state_init) option" where
  "item_state (NodeItem n) = ni_state n"
| "item_state (PoolItem p) = pi_state p"
| "item_state (ExecutorItem x) = None"

definition has_state :: "item list \<Rightarrow> (state_init \<Rightarrow> bool) \<Rightarrow> bool" where
  "has_state items want \<longleftrightarrow> list_ex (\<lambda>i. case item_state i of None \<Rightarrow> False | Some (_, init) \<Rightarrow> want init) items"

definition any_init_state :: "item list \<Rightarrow> bool" where
  "any_init_state items = has_state items (\<lambda>i. case i of StateExpr _ \<Rightarrow> True | Zeroed \<Rightarrow> False)"

definition any_zeroed_state :: "item list \<Rightarrow> bool" where
  "any_zeroed_state items = has_state items (\<lambda>i. i = Zeroed)"

definition any_local :: "item list \<Rightarrow> bool" where
  "any_local items \<longleftrightarrow> list_ex (\<lambda>i. list_ex rd_local (item_resources i)) items"

section \<open>The local slot\<close>

text \<open>The slot of the macro, for values that are not \<open>Send\<close>; its gate test reads without moving.\<close>

record 'a local_slot =
  ll_slot :: "'a option"
  ll_filled :: signal

definition ll_new :: "'a local_slot" where
  "ll_new = \<lparr>ll_slot = None, ll_filled = []\<rparr>"

definition ll_provide :: "'a \<Rightarrow> 'a local_slot \<times> signal \<Rightarrow> 'a local_slot \<times> signal" where
  "ll_provide v = (\<lambda>(l, gate_evt). (l\<lparr>ll_slot := Some v, ll_filled := Fire # ll_filled l\<rparr>, Fire # gate_evt))"

definition ll_take :: "'a local_slot \<Rightarrow> 'a option \<times> 'a local_slot" where
  "ll_take l = (ll_slot l, l\<lparr>ll_slot := None\<rparr>)"

definition ll_restore :: "'a \<Rightarrow> 'a local_slot \<times> signal \<Rightarrow> 'a local_slot \<times> signal" where
  "ll_restore v = ll_provide v"

definition ll_get :: "'a local_slot \<Rightarrow> 'a option \<times> 'a local_slot" where
  "ll_get l = (let (v, l1) = ll_take l in (v, l1\<lparr>ll_slot := v\<rparr>))"

definition ll_is_filled :: "'a local_slot \<Rightarrow> bool" where
  "ll_is_filled l \<longleftrightarrow> ll_slot l \<noteq> None"

definition ll_clear :: "'a local_slot \<Rightarrow> 'a local_slot" where
  "ll_clear l = (let (_, l1) = ll_take l in l1\<lparr>ll_filled := Reset # ll_filled l1\<rparr>)"

interpretation local_gate: resource_gate ll_is_filled ll_clear
  by unfold_locales (simp add: ll_is_filled_def ll_clear_def ll_take_def)

text \<open>A local slot is a \<open>ResourceSlot\<close> in all it does, so what holds of that holds of it.\<close>

definition as_resource :: "'a local_slot \<Rightarrow> 'a resource_slot" where
  "as_resource l = \<lparr>rs_slot = ll_slot l, rs_filled = ll_filled l\<rparr>"

lemma local_slot_refines:
  "as_resource ll_new = rs_new"
  "map_prod as_resource id (ll_provide v (l, ge)) = rs_provide v (as_resource l, ge)"
  "map_prod as_resource id (ll_restore v (l, ge)) = rs_restore v (as_resource l, ge)"
  "map_prod id as_resource (ll_take l) = rs_take (as_resource l)"
  "map_prod id as_resource (ll_get l) = rs_get (as_resource l)"
  "as_resource (ll_clear l) = rs_clear (as_resource l)"
  "ll_is_filled l = rs_is_filled (as_resource l)"
  by (simp_all add: as_resource_def ll_new_def rs_new_def ll_provide_def rs_provide_def ll_restore_def rs_restore_def
      ll_take_def rs_take_def ll_get_def ll_clear_def rs_clear_def ll_is_filled_def rs_is_filled_def)

section \<open>Observed expressions\<close>

text \<open>Every \<open>it\<close> of the expression, at any depth, is the target.\<close>

fun substitute_it :: "tok list \<Rightarrow> tok list \<Rightarrow> tok list" where
  "substitute_it target [] = []"
| "substitute_it target (TIdent w # ts) =
     (if w = ''it'' then TGroup Paren (TPunct CHR ''&'' False # target) else TIdent w) # substitute_it target ts"
| "substitute_it target (TGroup d g # ts) = TGroup d (substitute_it target g) # substitute_it target ts"
| "substitute_it target (t # ts) = t # substitute_it target ts"

fun it_free :: "tok \<Rightarrow> bool" where
  "it_free (TIdent w) = (w \<noteq> ''it'')"
| "it_free (TGroup d g) = list_all it_free g"
| "it_free _ = True"

lemma substitute_it_free: "list_all it_free target \<Longrightarrow> list_all it_free (substitute_it target ts)"
  by (induction target ts rule: substitute_it.induct) auto

lemma substitute_it_other: "list_all it_free ts \<Longrightarrow> substitute_it target ts = ts"
  by (induction target ts rule: substitute_it.induct) auto

section \<open>Names of two graphs\<close>

text \<open>
  Helpers whose name keeps the case of the graph's differ for two graphs; those with the lower-case
  name differ only if the names do beyond case, and clash otherwise.
\<close>

lemma helper_names_differ:
  assumes "n \<noteq> m"
  shows "hi_local_slot (helper_idents_new (Some n)) \<noteq> hi_local_slot (helper_idents_new (Some m))"
    "hi_nodes (helper_idents_new (Some n)) \<noteq> hi_nodes (helper_idents_new (Some m))"
    "hi_graph_ref (helper_idents_new (Some n)) \<noteq> hi_graph_ref (helper_idents_new (Some m))"
    "hi_fence (helper_idents_new (Some n)) = hi_fence (helper_idents_new (Some m)) \<longleftrightarrow> to_lowercase n = to_lowercase m"
    "hi_try_box (helper_idents_new (Some n)) = hi_try_box (helper_idents_new (Some m)) \<longleftrightarrow> to_lowercase n = to_lowercase m"
  using assms by (simp_all add: helper_idents_new_def Let_def)

lemma helper_names_clash:
  "hi_fence (helper_idents_new (Some ''Net'')) = hi_fence (helper_idents_new (Some ''NET''))"
  "hi_try_box (helper_idents_new (Some ''zeroed_net'')) = hi_try_box_zeroed (helper_idents_new (Some ''NET''))"
  by (simp_all add: helper_idents_new_def Let_def to_lowercase_def) code_simp+

end
