(* ===== verification/Find.thy ===== *)
theory Find
  imports Dataflow "HOL-Library.Multiset" "HOL-Library.List_Lexorder" "HOL-Library.Product_Lexorder" "HOL-Library.Char_ord"
begin

text \<open>
  How the host tools find declarations in source files and put fragments into the graphs that
  compose them, from \<^verbatim>\<open>supervisor-tools/src/find.rs\<close> and \<^verbatim>\<open>supervisor-tools/src/lib.rs\<close>. Tokens
  carry no position, so a file comes with the line of each of them, by its path of indices.
\<close>

section \<open>Strings\<close>

text \<open>\<open>split_once\<close> and \<open>rsplit_once\<close> at \<open>::\<close>.\<close>

fun split_once_colons :: "string \<Rightarrow> (string \<times> string) option" where
  "split_once_colons (c # d # s) =
     (if c = CHR '':'' \<and> d = CHR '':'' then Some ([], s)
      else map_option (\<lambda>(a, b). (c # a, b)) (split_once_colons (d # s)))"
| "split_once_colons _ = None"

definition rsplit_once_colons :: "string \<Rightarrow> (string \<times> string) option" where
  "rsplit_once_colons s = map_option (\<lambda>(a, b). (rev b, rev a)) (split_once_colons (rev s))"

definition last_segment :: "string \<Rightarrow> string" where
  "last_segment s = (case rsplit_once_colons s of None \<Rightarrow> s | Some (_, t) \<Rightarrow> t)"

section \<open>Declarations\<close>

datatype decl_kind = GraphDecl | FragmentDecl | ComposeDecl

record decl =
  dc_kind :: decl_kind
  dc_spec :: graph_spec
  dc_body :: "tok list"
  dc_fragments :: "string list"
  dc_fragment_origins :: "string \<rightharpoonup> string"
  dc_origin :: string
  dc_line :: nat

definition decl_name :: "decl \<Rightarrow> ident option" where
  "decl_name d = gs_name (dc_spec d)"

datatype find_error = BadDecl parse_error | NoClauseValue ident | NoFragmentList | NoGraphBlock | UnknownClause ident

text \<open>An error with its file and line.\<close>

record tool_error =
  te_file :: string
  te_line :: nat
  te_message :: find_error

definition macro_kind :: "string \<Rightarrow> decl_kind option" where
  "macro_kind w = map_of [(''supervisor_graph'', GraphDecl), (''supervisor_fragment'', FragmentDecl), (''compose_graph'', ComposeDecl)] w"

text \<open>A \<open>$\<close> before anything but \<open>crate\<close>, at any depth.\<close>

fun has_metavariable :: "tok list \<Rightarrow> bool" where
  "has_metavariable [] = False"
| "has_metavariable (TGroup d g # ts) = (has_metavariable g \<or> has_metavariable ts)"
| "has_metavariable (TPunct c j # ts) =
     (c = CHR ''$'' \<and> \<not> (ts \<noteq> [] \<and> is_crate (hd ts)) \<or> has_metavariable ts)"
| "has_metavariable (t # ts) = has_metavariable ts"

definition is_relay :: "tok list \<Rightarrow> bool" where
  "is_relay inner = (peek_punct CHR ''@'' inner \<or> has_metavariable inner)"

text \<open>Parts between separators that stand outside angle brackets.\<close>

fun split_top_go :: "char \<Rightarrow> nat \<Rightarrow> tok list \<Rightarrow> tok list \<Rightarrow> tok list list" where
  "split_top_go sep angle cur [] = (if cur = [] then [] else [cur])"
| "split_top_go sep angle cur (t # ts) =
     (case t of
        TPunct c _ \<Rightarrow>
          if c = CHR ''<'' then split_top_go sep (Suc angle) (cur @ [t]) ts
          else if c = CHR ''>'' \<and> 0 < angle then split_top_go sep (angle - 1) (cur @ [t]) ts
          else if c = sep \<and> angle = 0 then cur # split_top_go sep angle [] ts
          else split_top_go sep angle (cur @ [t]) ts
      | _ \<Rightarrow> split_top_go sep angle (cur @ [t]) ts)"

definition split_top :: "tok list \<Rightarrow> char \<Rightarrow> tok list list" where
  "split_top ts sep = split_top_go sep 0 [] ts"

definition tok_text :: "(tok list \<Rightarrow> string) \<Rightarrow> tok \<Rightarrow> string" where
  "tok_text text t = (case t of TIdent w \<Rightarrow> w | TPunct c _ \<Rightarrow> [c] | TLit l \<Rightarrow> l | TGroup d g \<Rightarrow> text [t])"

record compose_parts =
  cp_name :: "tok list"
  cp_fragments :: "string list"
  cp_items :: "tok list"

definition compose_clause :: "(tok list \<Rightarrow> string) \<Rightarrow> tok list \<Rightarrow> compose_parts \<Rightarrow> find_error + compose_parts" where
  "compose_clause text clause s =
     (case clause of
        TIdent key # rest \<Rightarrow>
          if rest = [] then Inl (NoClauseValue key)
          else let value = tl rest in
            if key = ''name'' then
              Inr (s\<lparr>cp_name := TIdent ''name'' # TPunct CHR '':'' False # value @ [TPunct CHR '';'' False]\<rparr>)
            else if key = ''fragments'' then
              (case value of
                 TGroup _ g # _ \<Rightarrow>
                   Inr (s\<lparr>cp_fragments := map (\<lambda>e. concat (map (tok_text text) e)) (filter (\<lambda>e. e \<noteq> []) (split_top g CHR '',''))\<rparr>)
               | _ \<Rightarrow> Inl NoFragmentList)
            else if key = ''graph'' then
              (case value of TGroup _ g # _ \<Rightarrow> Inr (s\<lparr>cp_items := g\<rparr>) | _ \<Rightarrow> Inl NoGraphBlock)
            else Inl (UnknownClause key)
      | _ \<Rightarrow> Inr s)"

definition split_compose :: "(tok list \<Rightarrow> string) \<Rightarrow> tok list \<Rightarrow> find_error + tok list \<times> string list" where
  "split_compose text body =
     (case try_fold (compose_clause text) (split_top body CHR '','') \<lparr>cp_name = [], cp_fragments = [], cp_items = []\<rparr> of
        Inl e \<Rightarrow> Inl e
      | Inr s \<Rightarrow> Inr (cp_name s @ cp_items s, cp_fragments s))"

definition UNRESOLVED_CRATE :: string where
  "UNRESOLVED_CRATE = ''__sv_unresolved_crate''"

definition placeholder :: "string \<Rightarrow> tok list" where
  "placeholder name = [TIdent name]"

definition decl_items :: "(tok list \<Rightarrow> string) \<Rightarrow> decl_kind \<Rightarrow> tok list \<Rightarrow> find_error + tok list \<times> string list" where
  "decl_items text k body =
     (case k of
        ComposeDecl \<Rightarrow> split_compose text body
      | FragmentDecl \<Rightarrow> Inr (substitute_dollar_crate (placeholder UNRESOLVED_CRATE) (normalize_fragment_crate body), [])
      | GraphDecl \<Rightarrow> Inr (substitute_dollar_crate (placeholder UNRESOLVED_CRATE) body, []))"

definition parse_decl :: "syn \<Rightarrow> (tok list \<Rightarrow> string) \<Rightarrow> decl_kind \<Rightarrow> tok list \<Rightarrow> string \<Rightarrow> nat \<Rightarrow> tool_error + decl" where
  "parse_decl sy text k body file line =
     (let err = (\<lambda>e. Inl \<lparr>te_file = file, te_line = line, te_message = e\<rparr>) in
      case decl_items text k body of
        Inl e \<Rightarrow> err e
      | Inr (items, fragments) \<Rightarrow>
          (case parse_graph sy items of
             Inl e \<Rightarrow> err (BadDecl e)
           | Inr g \<Rightarrow> Inr \<lparr>dc_kind = k, dc_spec = g, dc_body = body, dc_fragments = fragments,
                         dc_fragment_origins = Map.empty, dc_origin = file, dc_line = line\<rparr>))"

text \<open>A declaration at the front of the tokens, with its kind, its body and what follows.\<close>

definition decl_site :: "tok list \<Rightarrow> (decl_kind \<times> tok list \<times> tok list) option" where
  "decl_site ts =
     (case ts of
        TIdent w # TPunct c _ # TGroup d inner # us \<Rightarrow>
          (case macro_kind w of
             None \<Rightarrow> None
           | Some k \<Rightarrow> if c = CHR ''!'' \<and> \<not> is_relay inner then Some (k, inner, us) else None)
      | _ \<Rightarrow> None)"

lemma decl_site_size: "decl_site ts = Some (k, inner, us) \<Longrightarrow> size_list size us < size_list size ts"
  by (auto simp: decl_site_def split: list.splits tok.splits option.splits if_splits)

function find_walk ::
  "syn \<Rightarrow> (tok list \<Rightarrow> string) \<Rightarrow> (nat list \<Rightarrow> nat) \<Rightarrow> string \<Rightarrow> nat list \<Rightarrow> nat \<Rightarrow> tok list \<Rightarrow> decl list \<Rightarrow> tool_error + decl list" where
  "find_walk sy text line file at i ts out =
     (case ts of
        [] \<Rightarrow> Inr out
      | t # us \<Rightarrow>
          (case decl_site ts of
             Some (k, inner, vs) \<Rightarrow>
               (case parse_decl sy text k inner file (line (at @ [i])) of
                  Inl e \<Rightarrow> Inl e
                | Inr d \<Rightarrow> find_walk sy text line file at (i + 3) vs (out @ [d]))
           | None \<Rightarrow>
               (case (case t of TGroup d g \<Rightarrow> find_walk sy text line file (at @ [i]) 0 g out | _ \<Rightarrow> Inr out) of
                  Inl e \<Rightarrow> Inl e
                | Inr out1 \<Rightarrow> find_walk sy text line file at (Suc i) us out1)))"
  by pat_completeness auto
termination
  by (relation "measure (\<lambda>(sy, text, line, file, at, i, ts, out). size_list size ts)") (auto dest: decl_site_size)

text \<open>\<open>None\<close> is a file that is not Rust tokens.\<close>

definition parse_source ::
  "syn \<Rightarrow> (tok list \<Rightarrow> string) \<Rightarrow> (nat list \<Rightarrow> nat) \<Rightarrow> string \<Rightarrow> tok list option \<Rightarrow> (tool_error + decl list) option" where
  "parse_source sy text line file src = map_option (\<lambda>ts. find_walk sy text line file [] 0 ts []) src"

section \<open>Composed graphs\<close>

definition set_fragment :: "string \<Rightarrow> item \<Rightarrow> item" where
  "set_fragment name i =
     (case i of
        NodeItem n \<Rightarrow> NodeItem (n\<lparr>ni_fragment := Some name\<rparr>)
      | PoolItem p \<Rightarrow> PoolItem (p\<lparr>pi_fragment := Some name\<rparr>)
      | ExecutorItem x \<Rightarrow> ExecutorItem x)"

text \<open>\<open>read_toks\<close> reads tokens off a string.\<close>

definition fragment_owner :: "(string \<Rightarrow> tok list option) \<Rightarrow> string \<Rightarrow> tok list" where
  "fragment_owner read_toks want =
     (let owner = (case rsplit_once_colons want of Some (h, _) \<Rightarrow> if h \<noteq> [] then h else ''crate'' | None \<Rightarrow> ''crate'') in
      case read_toks owner of Some ts \<Rightarrow> ts | None \<Rightarrow> [TIdent ''crate''])"

definition spliced :: "syn \<Rightarrow> (string \<Rightarrow> tok list option) \<Rightarrow> decl \<Rightarrow> string \<Rightarrow> string \<Rightarrow> parse_error + item list" where
  "spliced sy read_toks frag want name =
     (case parse_graph sy (substitute_dollar_crate (fragment_owner read_toks want) (normalize_fragment_crate (dc_body frag))) of
        Inl e \<Rightarrow> Inl e
      | Inr g \<Rightarrow> Inr (map (set_fragment name) (gs_items g)))"

datatype resolve_warning = FragmentMissing string | FragmentAmbiguous string nat | FragmentBroken parse_error

record composing =
  cs_items :: "item list"
  cs_origins :: "string \<rightharpoonup> string"
  cs_consumed :: "(string \<times> nat) list"
  cs_warnings :: "(string \<times> nat \<times> resolve_warning) list"

definition splice_one ::
  "syn \<Rightarrow> (string \<Rightarrow> tok list option) \<Rightarrow> decl list \<Rightarrow> decl \<Rightarrow> string \<Rightarrow> composing \<Rightarrow> composing" where
  "splice_one sy read_toks decls site want s =
     (let name = last_segment want;
          warn = (\<lambda>d w s. s\<lparr>cs_warnings := cs_warnings s @ [(dc_origin d, dc_line d, w)]\<rparr>)
      in case filter (\<lambda>d. dc_kind d = FragmentDecl \<and> decl_name d = Some name) decls of
           [] \<Rightarrow> warn site (FragmentMissing want) s
         | [frag] \<Rightarrow>
             (let s1 = s\<lparr>cs_consumed := cs_consumed s @ [(dc_origin frag, dc_line frag)]\<rparr> in
              case spliced sy read_toks frag want name of
                Inl e \<Rightarrow> warn frag (FragmentBroken e) s1
              | Inr items \<Rightarrow> s1\<lparr>cs_items := cs_items s1 @ items, cs_origins := (cs_origins s1)(name \<mapsto> dc_origin frag)\<rparr>)
         | many \<Rightarrow> warn site (FragmentAmbiguous want (length many)) s)"

type_synonym resolving = "decl list \<times> (string \<times> nat) list \<times> (string \<times> nat \<times> resolve_warning) list"

definition resolve_site :: "syn \<Rightarrow> (string \<Rightarrow> tok list option) \<Rightarrow> decl list \<Rightarrow> decl \<Rightarrow> resolving \<Rightarrow> resolving" where
  "resolve_site sy read_toks decls site r =
     (case r of (out, consumed, warnings) \<Rightarrow>
       let s = fold (splice_one sy read_toks decls site) (dc_fragments site)
                 \<lparr>cs_items = [], cs_origins = Map.empty, cs_consumed = consumed, cs_warnings = warnings\<rparr>;
           all = cs_items s @ gs_items (dc_spec site);
           items = (case gs_default_executor (dc_spec site) of None \<Rightarrow> all | Some ex \<Rightarrow> apply_default_executor all ex)
       in (out @ [site\<lparr>dc_spec := (dc_spec site)\<lparr>gs_items := items\<rparr>, dc_fragment_origins := cs_origins s\<rparr>],
           cs_consumed s, cs_warnings s))"

definition drawn_inside :: "(string \<times> nat) list \<Rightarrow> decl \<Rightarrow> bool" where
  "drawn_inside consumed d \<longleftrightarrow>
     dc_kind d = ComposeDecl \<or> dc_kind d = FragmentDecl \<and> (dc_origin d, dc_line d) \<in> set consumed"

definition resolve :: "syn \<Rightarrow> (string \<Rightarrow> tok list option) \<Rightarrow> decl list \<Rightarrow> decl list \<times> (string \<times> nat \<times> resolve_warning) list" where
  "resolve sy read_toks decls =
     (case fold (resolve_site sy read_toks decls) (filter (\<lambda>d. dc_kind d = ComposeDecl) decls) ([], [], []) of
        (out, consumed, warnings) \<Rightarrow>
          (sort_key (\<lambda>d. (dc_origin d, dc_line d)) (out @ filter (\<lambda>d. \<not> drawn_inside consumed d) decls), warnings))"

section \<open>Leaving items out\<close>

definition item_name :: "item \<Rightarrow> ident option" where
  "item_name i = map_option fst (item_ident_cfg i)"

definition drop_deps :: "ident list \<Rightarrow> item \<Rightarrow> item" where
  "drop_deps names i =
     (case i of
        NodeItem n \<Rightarrow> NodeItem (n\<lparr>ni_deps := filter (\<lambda>d. d_ident d \<notin> set names) (ni_deps n)\<rparr>)
      | PoolItem p \<Rightarrow> PoolItem (p\<lparr>pi_deps := filter (\<lambda>d. d_ident d \<notin> set names) (pi_deps p)\<rparr>)
      | ExecutorItem x \<Rightarrow> ExecutorItem x)"

text \<open>The declaration left and the names that are not in it.\<close>

definition exclude :: "decl \<Rightarrow> ident list \<Rightarrow> decl \<times> ident list" where
  "exclude d names =
     (let items = gs_items (dc_spec d);
          present = List.map_filter item_name items;
          kept = filter (\<lambda>i. case item_name i of None \<Rightarrow> True | Some n \<Rightarrow> n \<notin> set names) items
      in (d\<lparr>dc_spec := (dc_spec d)\<lparr>gs_items := map (drop_deps names) kept\<rparr>\<rparr>,
          filter (\<lambda>n. n \<notin> set present) names))"

section \<open>What is found\<close>

text \<open>The tools pass over a body exactly if the fragment macro would refuse its \<open>$\<close>.\<close>

lemma has_metavariable_validate: "has_metavariable ts \<longleftrightarrow> \<not> validate_dollars ts"
  by (induction ts rule: has_metavariable.induct) auto

fun dollar_free :: "tok \<Rightarrow> bool" where
  "dollar_free (TGroup d g) = list_all dollar_free g"
| "dollar_free (TPunct c j) = (c \<noteq> CHR ''$'')"
| "dollar_free _ = True"

lemma substitute_dollar_free: "list_all dollar_free ts \<Longrightarrow> substitute_dollar_crate r ts = ts"
  by (induction r ts rule: substitute_dollar_crate.induct) auto

text \<open>A graph without \<open>$crate\<close> is read as \<open>supervisor_graph!\<close> reads it.\<close>

lemma graph_read_as_macro:
  "list_all dollar_free body \<Longrightarrow> parse_graph sy body = Inr g \<Longrightarrow>
     \<exists>d. parse_decl sy text GraphDecl body file line = Inr d \<and> dc_spec d = g"
  by (simp add: parse_decl_def decl_items_def substitute_dollar_free Let_def)

text \<open>The declarations of a file in the order they stand.\<close>

function sites :: "tok list \<Rightarrow> (decl_kind \<times> tok list) list" where
  "sites ts =
     (case ts of
        [] \<Rightarrow> []
      | t # us \<Rightarrow>
          (case decl_site ts of
             Some (k, inner, vs) \<Rightarrow> (k, inner) # sites vs
           | None \<Rightarrow> (case t of TGroup d g \<Rightarrow> sites g | _ \<Rightarrow> []) @ sites us))"
  by pat_completeness auto
termination by (relation "measure (size_list size)") (auto dest: decl_site_size)

declare find_walk.simps [simp del] sites.simps [simp del]

lemma parse_decl_site: "parse_decl sy text k body file line = Inr d \<Longrightarrow> dc_kind d = k \<and> dc_body d = body \<and> dc_origin d = file"
  by (auto simp: parse_decl_def Let_def split: sum.splits prod.splits)

lemma find_walk_sites:
  "find_walk sy pr line nm pos i ts out = Inr out' \<Longrightarrow>
     \<exists>new. out' = out @ new \<and> map (\<lambda>d. (dc_kind d, dc_body d)) new = sites ts \<and> (\<forall>d \<in> set new. dc_origin d = nm)"
proof (induction sy pr line nm pos i ts out arbitrary: out' rule: find_walk.induct)
  case (1 sy pr line nm pos i ts out)
  show ?case
  proof (cases ts)
    case Nil
    then show ?thesis using "1.prems" by (simp add: find_walk.simps[of _ _ _ _ _ _ "[]"] sites.simps[of "[]"])
  next
    case (Cons t us)
    show ?thesis
    proof (cases "decl_site ts")
      case (Some site)
      then obtain k inner vs where s: "decl_site (t # us) = Some (k, inner, vs)" using Cons by (cases site) auto
      obtain d where d: "parse_decl sy pr k inner nm (line (pos @ [i])) = Inr d"
        and r: "find_walk sy pr line nm pos (i + 3) vs (out @ [d]) = Inr out'"
        using "1.prems" by (subst (asm) find_walk.simps) (auto simp: Cons s split: sum.splits)
      from "1.IH"(3)[OF Cons s[folded Cons] refl refl d r] obtain new where
        "out' = (out @ [d]) @ new" "map (\<lambda>d. (dc_kind d, dc_body d)) new = sites vs" "\<forall>d \<in> set new. dc_origin d = nm" by blast
      then show ?thesis using parse_decl_site[OF d]
        by (intro exI[of _ "d # new"]) (simp add: sites.simps[of "t # us"] Cons s)
    next
      case None
      then have s: "decl_site (t # us) = None" using Cons by simp
      obtain out1 where g: "(case t of TGroup d g \<Rightarrow> find_walk sy pr line nm (pos @ [i]) 0 g out | _ \<Rightarrow> Inr out) = Inr out1"
        and r: "find_walk sy pr line nm pos (Suc i) us out1 = Inr out'"
        using "1.prems" by (subst (asm) find_walk.simps) (auto simp: Cons s split: sum.splits)
      obtain new1 where n1: "out1 = out @ new1"
        "map (\<lambda>d. (dc_kind d, dc_body d)) new1 = (case t of TGroup d g \<Rightarrow> sites g | _ \<Rightarrow> [])" "\<forall>d \<in> set new1. dc_origin d = nm"
      proof (cases t)
        case (TGroup d ts')
        then have "find_walk sy pr line nm (pos @ [i]) 0 ts' out = Inr out1" using g by simp
        from "1.IH"(1)[OF Cons None TGroup this] show ?thesis using that TGroup by auto
      qed (use g that in auto)
      from "1.IH"(2)[OF Cons None g r] obtain new where
        "out' = out1 @ new" "map (\<lambda>d. (dc_kind d, dc_body d)) new = sites us" "\<forall>d \<in> set new. dc_origin d = nm" by blast
      then show ?thesis using n1
        by (intro exI[of _ "new1 @ new"]) (auto simp: sites.simps[of "t # us"] Cons s)
    qed
  qed
qed

section \<open>What is left after an exclusion\<close>

fun deps_of :: "item \<Rightarrow> dep list" where
  "deps_of (NodeItem n) = ni_deps n"
| "deps_of (PoolItem p) = pi_deps p"
| "deps_of (ExecutorItem x) = []"

definition names_of :: "item list \<Rightarrow> ident list" where
  "names_of items = List.map_filter item_name items"

text \<open>Every dependency is on an item.\<close>

definition deps_declared :: "item list \<Rightarrow> bool" where
  "deps_declared items \<longleftrightarrow> (\<forall>i \<in> set items. \<forall>x \<in> set (deps_of i). d_ident x \<in> set (names_of items))"

lemma drop_deps_item [simp]:
  "item_name (drop_deps names i) = item_name i"
  "deps_of (drop_deps names i) = filter (\<lambda>d. d_ident d \<notin> set names) (deps_of i)"
  by (cases i; simp add: drop_deps_def item_name_def)+

lemma names_of_kept:
  "names_of (map (drop_deps names) (filter (\<lambda>i. case item_name i of None \<Rightarrow> True | Some n \<Rightarrow> n \<notin> set names) items))
     = filter (\<lambda>n. n \<notin> set names) (names_of items)"
  by (induction items) (auto simp: names_of_def List.map_filter_simps split: option.splits)

lemma exclude_leaves:
  assumes "exclude d names = (e, unmatched)"
  shows "names_of (gs_items (dc_spec e)) = filter (\<lambda>n. n \<notin> set names) (names_of (gs_items (dc_spec d)))"
    and "unmatched = filter (\<lambda>n. n \<notin> set (names_of (gs_items (dc_spec d)))) names"
    and "deps_declared (gs_items (dc_spec d)) \<Longrightarrow> deps_declared (gs_items (dc_spec e))"
proof -
  have e: "gs_items (dc_spec e) = map (drop_deps names)
      (filter (\<lambda>i. case item_name i of None \<Rightarrow> True | Some n \<Rightarrow> n \<notin> set names) (gs_items (dc_spec d)))"
    using assms by (auto simp: exclude_def Let_def)
  show n: "names_of (gs_items (dc_spec e)) = filter (\<lambda>n. n \<notin> set names) (names_of (gs_items (dc_spec d)))"
    unfolding e by (rule names_of_kept)
  show "unmatched = filter (\<lambda>n. n \<notin> set (names_of (gs_items (dc_spec d)))) names"
    using assms by (auto simp: exclude_def names_of_def Let_def)
  show "deps_declared (gs_items (dc_spec e))" if "deps_declared (gs_items (dc_spec d))"
    using that unfolding deps_declared_def n by (auto simp: e)
qed

section \<open>What a composed graph holds\<close>

text \<open>The fragment a name stands for, and its items, if it is the only one and is read.\<close>

definition unique_fragment :: "decl list \<Rightarrow> string \<Rightarrow> decl option" where
  "unique_fragment decls want =
     (case filter (\<lambda>d. dc_kind d = FragmentDecl \<and> decl_name d = Some (last_segment want)) decls of
        [f] \<Rightarrow> Some f
      | _ \<Rightarrow> None)"

definition fragment_items :: "syn \<Rightarrow> (string \<Rightarrow> tok list option) \<Rightarrow> decl list \<Rightarrow> string \<Rightarrow> item list option" where
  "fragment_items sy read_toks decls want =
     (case unique_fragment decls want of
        None \<Rightarrow> None
      | Some f \<Rightarrow> (case spliced sy read_toks f want (last_segment want) of Inl e \<Rightarrow> None | Inr items \<Rightarrow> Some items))"

definition composed_items :: "syn \<Rightarrow> (string \<Rightarrow> tok list option) \<Rightarrow> decl list \<Rightarrow> decl \<Rightarrow> item list" where
  "composed_items sy read_toks decls site =
     (let all = concat (List.map_filter (fragment_items sy read_toks decls) (dc_fragments site)) @ gs_items (dc_spec site)
      in case gs_default_executor (dc_spec site) of None \<Rightarrow> all | Some ex \<Rightarrow> apply_default_executor all ex)"

definition place :: "decl \<Rightarrow> string \<times> nat" where
  "place d = (dc_origin d, dc_line d)"

definition taken_by :: "decl list \<Rightarrow> string list \<Rightarrow> (string \<times> nat) set" where
  "taken_by decls asked = {place f |f want. want \<in> set asked \<and> unique_fragment decls want = Some f}"

lemma splice_one_parts:
  "cs_items (splice_one sy read_toks decls site want s) = cs_items s @ (case fragment_items sy read_toks decls want of None \<Rightarrow> [] | Some is \<Rightarrow> is)"
  "set (cs_consumed (splice_one sy read_toks decls site want s)) = set (cs_consumed s) \<union> taken_by decls [want]"
  "cs_warnings (splice_one sy read_toks decls site want s) = [] \<longleftrightarrow> cs_warnings s = [] \<and> fragment_items sy read_toks decls want \<noteq> None"
  by (auto simp: splice_one_def fragment_items_def unique_fragment_def taken_by_def place_def Let_def
      split: list.splits sum.splits)

lemma taken_by_Cons: "taken_by decls (w # ws) = taken_by decls [w] \<union> taken_by decls ws"
  by (auto simp: taken_by_def)

lemma splice_all_parts:
  "cs_items (fold (splice_one sy read_toks decls site) asked s) = cs_items s @ concat (List.map_filter (fragment_items sy read_toks decls) asked)"
  "set (cs_consumed (fold (splice_one sy read_toks decls site) asked s)) = set (cs_consumed s) \<union> taken_by decls asked"
  "cs_warnings (fold (splice_one sy read_toks decls site) asked s) = [] \<longleftrightarrow>
     cs_warnings s = [] \<and> (\<forall>want \<in> set asked. fragment_items sy read_toks decls want \<noteq> None)"
proof (induction asked arbitrary: s)
  case (Cons w ws)
  {
    case 1
    then show ?case by (simp add: Cons.IH(1) splice_one_parts(1) List.map_filter_simps split: option.split)
  next
    case 2
    then show ?case by (simp add: Cons.IH(2) splice_one_parts(2) taken_by_Cons[of decls w ws] Un_assoc)
  next
    case 3
    then show ?case by (simp only: fold_simps comp_def Cons.IH(3) splice_one_parts(3)) auto
  }
qed (simp_all add: List.map_filter_simps taken_by_def)

text \<open>A declaration as it is drawn: kind, place and items.\<close>

definition drawn :: "decl \<Rightarrow> item list \<Rightarrow> decl_kind \<times> (string \<times> nat) \<times> item list" where
  "drawn d items = (dc_kind d, place d, items)"

lemma resolve_site_parts:
  assumes "resolve_site sy read_toks decls site (out, consumed, warnings) = (out', consumed', warnings')"
  shows "\<exists>m. out' = out @ [m] \<and> drawn m (gs_items (dc_spec m)) = drawn site (composed_items sy read_toks decls site)"
    and "set consumed' = set consumed \<union> taken_by decls (dc_fragments site)"
    and "warnings' = [] \<longleftrightarrow> warnings = [] \<and> (\<forall>want \<in> set (dc_fragments site). fragment_items sy read_toks decls want \<noteq> None)"
  using assms
  by (auto simp: resolve_site_def Let_def splice_all_parts drawn_def place_def composed_items_def split: option.split)

lemma resolve_sites_parts:
  "fold (resolve_site sy read_toks decls) ss (out, consumed, warnings) = (out', consumed', warnings') \<Longrightarrow>
     map (\<lambda>m. drawn m (gs_items (dc_spec m))) out'
       = map (\<lambda>m. drawn m (gs_items (dc_spec m))) out @ map (\<lambda>s. drawn s (composed_items sy read_toks decls s)) ss
     \<and> set consumed' = set consumed \<union> (\<Union>s \<in> set ss. taken_by decls (dc_fragments s))
     \<and> (warnings' = [] \<longleftrightarrow> warnings = []
          \<and> (\<forall>s \<in> set ss. \<forall>want \<in> set (dc_fragments s). fragment_items sy read_toks decls want \<noteq> None))"
proof (induction ss arbitrary: out consumed warnings)
  case (Cons s ss)
  obtain o1 c1 w1 where r: "resolve_site sy read_toks decls s (out, consumed, warnings) = (o1, c1, w1)"
    by (cases "resolve_site sy read_toks decls s (out, consumed, warnings)") auto
  have "fold (resolve_site sy read_toks decls) ss (o1, c1, w1) = (out', consumed', warnings')"
    using Cons.prems r by simp
  from Cons.IH[OF this] resolve_site_parts[OF r] show ?case by (elim exE conjE) auto
qed auto


text \<open>\<open>name: NET; executor RADIO;\<close>, composed as \<open>net::NET\<close> into a graph without items of its own.\<close>

definition net_fragment :: decl where
  "net_fragment =
     \<lparr>dc_kind = FragmentDecl,
      dc_spec = \<lparr>gs_name = Some ''NET'', gs_observe_writes = None, gs_observe_reads = None, gs_default_executor = None,
                 gs_items = [ExecutorItem \<lparr>xi_cfg = [], xi_ident = ''RADIO'', xi_default = False\<rparr>]\<rparr>,
      dc_body = [TIdent ''name'', TPunct CHR '':'' False, TIdent ''NET'', TPunct CHR '';'' False,
                 TIdent ''executor'', TIdent ''RADIO'', TPunct CHR '';'' False],
      dc_fragments = [], dc_fragment_origins = Map.empty, dc_origin = ''net.rs'', dc_line = 4\<rparr>"

definition app_graph :: decl where
  "app_graph =
     \<lparr>dc_kind = ComposeDecl,
      dc_spec = \<lparr>gs_name = None, gs_observe_writes = None, gs_observe_reads = None, gs_default_executor = None, gs_items = []\<rparr>,
      dc_body = [], dc_fragments = [''net::NET''], dc_fragment_origins = Map.empty, dc_origin = ''main.rs'', dc_line = 1\<rparr>"

lemma net_spliced:
  "spliced small_syn (\<lambda>_. Some [TIdent ''net'']) net_fragment ''net::NET'' ''NET''
     = Inr [ExecutorItem \<lparr>xi_cfg = [], xi_ident = ''RADIO'', xi_default = False\<rparr>]"
  by (simp add: spliced_def net_fragment_def eval_defs loop_step loop_done set_fragment_def cong: bindp_weak_cong)


end
