(* ===== verification/Discover.thy ===== *)
theory Discover
  imports Find
begin

text \<open>
  What the host tools know of the \<open>#[dataflow]\<close> functions in source files, and which of them a
  declaration binds, from \<^verbatim>\<open>supervisor-tools/src/lib.rs\<close> and \<^verbatim>\<open>supervisor-tools/src/render.rs\<close>.
  A file is the items \<^verbatim>\<open>syn\<close> parses, or \<open>None\<close> if it parses none; identifiers are ASCII.
\<close>

section \<open>Paths of files and signals\<close>

fun split_slash :: "string \<Rightarrow> string list" where
  "split_slash [] = [ []]"
| "split_slash (c # s) =
     (if c = CHR ''/'' then [] # split_slash s
      else case split_slash s of [] \<Rightarrow> [ [c]] | p # ps \<Rightarrow> (c # p) # ps)"

text \<open>The components of a path, as \<open>std::path::Path\<close> reads them.\<close>

definition path_parts :: "string \<Rightarrow> string list" where
  "path_parts s = filter (\<lambda>p. p \<noteq> [] \<and> p \<noteq> ''.'') (split_slash s)"

definition file_name :: "string list \<Rightarrow> string option" where
  "file_name ps = (if ps = [] \<or> last ps = ''..'' then None else Some (last ps))"

text \<open>A name without what follows its last dot, unless it starts there.\<close>

definition stem_of :: "string \<Rightarrow> string" where
  "stem_of name =
     (let r = dropWhile (\<lambda>c. c \<noteq> CHR ''.'') (rev name) in if length r \<le> 1 then name else rev (tl r))"

definition module_of :: "string \<Rightarrow> string" where
  "module_of origin =
     (let ps = path_parts origin;
          stem = (case file_name ps of None \<Rightarrow> [] | Some n \<Rightarrow> stem_of n)
      in if stem \<in> {''mod'', ''lib'', ''main''}
         then (case file_name (butlast ps) of Some dir \<Rightarrow> dir | None \<Rightarrow> stem)
         else stem)"

lemma split_once_colons_length: "split_once_colons s = Some (a, b) \<Longrightarrow> s = a @ ''::'' @ b"
  by (induction s arbitrary: a rule: split_once_colons.induct) (auto split: if_splits)

function split_colons :: "string \<Rightarrow> string list" where
  "split_colons s = (case split_once_colons s of None \<Rightarrow> [s] | Some (a, b) \<Rightarrow> a # split_colons b)"
  by pat_completeness auto

termination by (relation "measure length") (auto dest: split_once_colons_length)

declare split_colons.simps [simp del]

datatype use_tree = UsePath ident use_tree | UseName ident | UseRename ident ident | UseGroup "use_tree list" | UseGlob

fun collect_use :: "ident list \<Rightarrow> use_tree \<Rightarrow> (string \<rightharpoonup> string) \<Rightarrow> string \<rightharpoonup> string" where
  "collect_use before (UsePath i t) m = collect_use (before @ [i]) t m"
| "collect_use before (UseName n) m = m(n \<mapsto> join_segments (before @ [n]))"
| "collect_use before (UseRename n r) m = m(r \<mapsto> join_segments (before @ [n]))"
| "collect_use before (UseGroup ts) m = fold (collect_use before) ts m"
| "collect_use before UseGlob m = m"

text \<open>A static with a path as type: its line, its name, the segments, and whether it has a visibility.\<close>

record static_decl =
  sc_line :: nat
  sc_name :: ident
  sc_ty :: "ident list option"
  sc_public :: bool

datatype file_item = FileFn scanned_fn | FileMod "meta list" ident "file_item list option" | FileImpl "scanned_fn list"
  | FileUse use_tree | FileStatic static_decl | FileOther

fun src_of :: "file_item \<Rightarrow> src_item" where
  "src_of (FileFn f) = FnItem f"
| "src_of (FileMod attrs name content) = ModItem (map_option (map src_of) content)"
| "src_of (FileImpl fs) = ImplItem fs"
| "src_of _ = OtherItem"

fun use_item :: "file_item \<Rightarrow> (string \<rightharpoonup> string) \<Rightarrow> string \<rightharpoonup> string" where
  "use_item (FileUse t) m = collect_use [] t m"
| "use_item (FileMod attrs name (Some items)) m = fold use_item items m"
| "use_item _ m = m"

definition use_aliases :: "file_item list option \<Rightarrow> string \<rightharpoonup> string" where
  "use_aliases file = (case file of None \<Rightarrow> Map.empty | Some items \<Rightarrow> fold use_item items Map.empty)"

definition is_lowercase :: "char \<Rightarrow> bool" where
  "is_lowercase c \<longleftrightarrow> CHR ''a'' \<le> c \<and> c \<le> CHR ''z''"

definition relative_path :: "string list \<Rightarrow> bool" where
  "relative_path segs \<longleftrightarrow>
     segs \<noteq> [] \<and> hd segs = ''super''
     \<or> (case segs of
          [one] \<Rightarrow> one \<noteq> ''crate''
        | [first, _] \<Rightarrow> first \<noteq> ''crate'' \<and> first \<noteq> [] \<and> is_lowercase (hd first)
        | _ \<Rightarrow> False)"

definition resolve_path :: "string \<Rightarrow> (string \<rightharpoonup> string) \<Rightarrow> string \<times> bool" where
  "resolve_path path aliases =
     (let head = takeWhile (\<lambda>c. c \<noteq> CHR ''['') path;
          index = dropWhile (\<lambda>c. c \<noteq> CHR ''['') path;
          all = split_colons head;
          explicit_self = (hd all = ''self'');
          segs = (if explicit_self then tl all else all)
      in case (case segs of [] \<Rightarrow> None | s # _ \<Rightarrow> aliases s) of
           Some full \<Rightarrow> (concat (full # map (\<lambda>s. ''::'' @ s) (tl segs)) @ index, False)
         | None \<Rightarrow> (join_segments segs @ index, explicit_self \<or> relative_path segs))"

record discovered =
  ds_module :: string
  ds_access :: access
  ds_relative :: bool

definition scan_source ::
  "syn \<Rightarrow> (tok list \<Rightarrow> string) \<Rightarrow> ref_target \<Rightarrow> file_item list option \<Rightarrow> string \<Rightarrow> discovered list \<Rightarrow> discovered list" where
  "scan_source sy text rt file origin out =
     (let accesses = scan_dataflow sy text rt (map_option (map src_of) file) [] in
      if accesses = [] then out
      else let aliases = use_aliases file in
        out @ map (\<lambda>a. case resolve_path (ac_path a) aliases of
                         (path, rel) \<Rightarrow> \<lparr>ds_module = module_of origin, ds_access = a\<lparr>ac_path := path\<rparr>, ds_relative = rel\<rparr>) accesses)"

section \<open>Gates, functions and bundles of a file\<close>

record gate_static =
  gx_file :: string
  gx_line :: nat
  gx_name :: ident
  gx_ty :: ident
  gx_public :: bool

fun gate_item_scan :: "string \<Rightarrow> file_item \<Rightarrow> gate_static list \<Rightarrow> gate_static list" where
  "gate_item_scan file (FileStatic s) out =
     (case sc_ty s of
        None \<Rightarrow> out
      | Some segs \<Rightarrow>
          if segs \<noteq> [] \<and> last segs \<in> {''Backed'', ''Leased'', ''VetoGate''}
          then out @ [\<lparr>gx_file = file, gx_line = sc_line s, gx_name = sc_name s, gx_ty = last segs, gx_public = sc_public s\<rparr>]
          else out)"
| "gate_item_scan file (FileMod attrs name (Some items)) out = fold (gate_item_scan file) items out"
| "gate_item_scan file _ out = out"

definition scan_gate_statics :: "file_item list option \<Rightarrow> string \<Rightarrow> gate_static list \<Rightarrow> gate_static list" where
  "scan_gate_statics src file out = (case src of None \<Rightarrow> out | Some items \<Rightarrow> fold (gate_item_scan file) items out)"

definition is_dataflow_attr :: "(tok list \<Rightarrow> string) \<Rightarrow> meta \<Rightarrow> bool" where
  "is_dataflow_attr text m \<longleftrightarrow> dataflow_attr text m \<noteq> None"

definition is_dataflow_fn :: "(tok list \<Rightarrow> string) \<Rightarrow> scanned_fn \<Rightarrow> bool" where
  "is_dataflow_fn text f \<longleftrightarrow> list_ex (is_dataflow_attr text) (sf_attrs f)"

fun scan_fn_item :: "(tok list \<Rightarrow> string) \<Rightarrow> string \<Rightarrow> file_item \<Rightarrow> (string \<times> ident) list \<Rightarrow> (string \<times> ident) list" where
  "scan_fn_item text module (FileFn f) out = (if is_dataflow_fn text f then out @ [(module, sf_ident f)] else out)"
| "scan_fn_item text module (FileMod attrs name (Some items)) out = fold (scan_fn_item text module) items out"
| "scan_fn_item text module _ out = out"

definition scan_fns :: "(tok list \<Rightarrow> string) \<Rightarrow> file_item list option \<Rightarrow> string \<Rightarrow> (string \<times> ident) list \<Rightarrow> (string \<times> ident) list" where
  "scan_fns text file origin out =
     (case file of None \<Rightarrow> out | Some items \<Rightarrow> fold (scan_fn_item text (module_of origin)) items out)"

record fn_bundle =
  bn_module :: string
  bn_mod_name :: ident
  bn_name :: string
  bn_fns :: "ident list"

definition bundle_name :: "(tok list \<Rightarrow> string) \<Rightarrow> meta \<Rightarrow> string" where
  "bundle_name text m =
     (let name = (case m of MetaList _ ts _ \<Rightarrow> text ts | _ \<Rightarrow> []) in if name = [] then ''BUNDLE'' else name)"

definition bundle_fns :: "(tok list \<Rightarrow> string) \<Rightarrow> file_item list \<Rightarrow> ident list" where
  "bundle_fns text items =
     List.map_filter (\<lambda>i. case i of FileFn f \<Rightarrow> if is_dataflow_fn text f then Some (sf_ident f) else None | _ \<Rightarrow> None) items"

definition is_bundle_attr :: "meta \<Rightarrow> bool" where
  "is_bundle_attr m \<longleftrightarrow> meta_path m \<noteq> [] \<and> last (meta_path m) = ''dataflow_bundle''"

fun scan_bundle_item :: "(tok list \<Rightarrow> string) \<Rightarrow> string \<Rightarrow> file_item \<Rightarrow> fn_bundle list \<Rightarrow> fn_bundle list" where
  "scan_bundle_item text module (FileMod attrs name (Some inner)) out =
     fold (scan_bundle_item text module) inner
       (case find is_bundle_attr attrs of
          None \<Rightarrow> out
        | Some a \<Rightarrow> out @ [\<lparr>bn_module = module, bn_mod_name = name, bn_name = bundle_name text a, bn_fns = bundle_fns text inner\<rparr>])"
| "scan_bundle_item text module _ out = out"

definition scan_bundles :: "(tok list \<Rightarrow> string) \<Rightarrow> file_item list option \<Rightarrow> string \<Rightarrow> fn_bundle list \<Rightarrow> fn_bundle list" where
  "scan_bundles text file origin out =
     (case file of None \<Rightarrow> out | Some items \<Rightarrow> fold (scan_bundle_item text (module_of origin)) items out)"

text \<open>A function is named with the module before it, if that is not a keyword.\<close>

type_synonym fn_ref = "string \<times> string option"

definition bundle_hit :: "fn_ref \<Rightarrow> fn_bundle \<Rightarrow> bool" where
  "bundle_hit r b \<longleftrightarrow> bn_name b = fst r \<and> (case snd r of None \<Rightarrow> True | Some h \<Rightarrow> h = bn_mod_name b \<or> h = bn_module b)"

definition expand_bundles :: "fn_ref list \<Rightarrow> fn_bundle list \<Rightarrow> fn_ref list" where
  "expand_bundles pairs bundles =
     concat (map (\<lambda>r. case find (bundle_hit r) bundles of
                        Some b \<Rightarrow> map (\<lambda>f. (f, Some (bn_module b))) (bn_fns b)
                      | None \<Rightarrow> [r]) pairs)"

section \<open>The functions a declaration binds\<close>

definition split_fn :: "string list \<Rightarrow> fn_ref option" where
  "split_fn segs =
     (if segs = [] then None
      else Some (last segs,
        if 2 \<le> length segs \<and> segs ! (length segs - 2) \<notin> {''crate'', ''self'', ''super''}
        then Some (segs ! (length segs - 2)) else None))"

definition source_expr :: "task_source \<Rightarrow> expr" where
  "source_expr s = (case s of ShellSource e \<Rightarrow> e | SpawnSource e \<Rightarrow> e)"

fun item_source :: "item \<Rightarrow> task_source option" where
  "item_source (NodeItem n) = ni_source n"
| "item_source (PoolItem p) = Some (pi_source p)"
| "item_source (ExecutorItem x) = None"

fun item_adopted :: "item \<Rightarrow> adopted_fn list" where
  "item_adopted (NodeItem n) = ni_dataflow n"
| "item_adopted (PoolItem p) = pi_dataflow p"
| "item_adopted (ExecutorItem x) = []"

fun item_discovers :: "item \<Rightarrow> bool" where
  "item_discovers (NodeItem n) = (ni_discover n \<noteq> None)"
| "item_discovers (PoolItem p) = (pi_discover p \<noteq> None)"
| "item_discovers (ExecutorItem x) = False"

definition adopted_refs :: "item \<Rightarrow> fn_ref list" where
  "adopted_refs i = List.map_filter (\<lambda>a. split_fn (segments (af_path a))) (item_adopted i)"

text \<open>\<open>segs\<close> gives the segments of the path an expression is, or calls.\<close>

definition task_fn :: "(expr \<Rightarrow> string list option) \<Rightarrow> item \<Rightarrow> fn_ref option" where
  "task_fn segs i = Option.bind (Option.bind (item_source i) (\<lambda>s. segs (source_expr s))) split_fn"

definition bound_item :: "(expr \<Rightarrow> string list option) \<Rightarrow> item \<Rightarrow> (ident \<times> fn_ref) list" where
  "bound_item segs i =
     (case item_name i of
        None \<Rightarrow> []
      | Some name \<Rightarrow>
          map (Pair name) ((if item_discovers i then (case task_fn segs i of None \<Rightarrow> [] | Some r \<Rightarrow> [r]) else []) @ adopted_refs i))"

definition bound_fns :: "(expr \<Rightarrow> string list option) \<Rightarrow> decl \<Rightarrow> (ident \<times> fn_ref) list" where
  "bound_fns segs d = concat (map (bound_item segs) (gs_items (dc_spec d)))"

definition fn_matches :: "string \<times> ident \<Rightarrow> fn_ref \<Rightarrow> string \<Rightarrow> bool" where
  "fn_matches scanned r graph_module \<longleftrightarrow>
     snd scanned = fst r \<and> (case snd r of None \<Rightarrow> True | Some h \<Rightarrow> h = fst scanned \<or> fst scanned = graph_module)"

datatype coverage_warning = NoFnScanned ident fn_ref | FnNotBound string ident

definition bound_refs :: "(expr \<Rightarrow> string list option) \<Rightarrow> fn_bundle list \<Rightarrow> decl \<Rightarrow> (ident \<times> fn_ref) list" where
  "bound_refs segs bundles d = concat (map (\<lambda>(node, r). map (Pair node) (expand_bundles [r] bundles)) (bound_fns segs d))"

definition cover_binding ::
  "(string \<times> ident) list \<Rightarrow> (string \<times> ident) list \<Rightarrow> string \<Rightarrow> ident \<times> fn_ref \<Rightarrow> bool list \<times> coverage_warning list
     \<Rightarrow> bool list \<times> coverage_warning list" where
  "cover_binding scanned dep_scanned graph_module b s =
     (case (b, s) of ((node, r), (used, warnings)) \<Rightarrow>
       let hits = map (\<lambda>sf. fn_matches sf r graph_module) scanned in
       (map (\<lambda>(u, h). u \<or> h) (zip used hits),
        if list_ex id hits \<or> list_ex (\<lambda>sf. fn_matches sf r graph_module) dep_scanned then warnings
        else warnings @ [NoFnScanned node r]))"

definition cover_decl ::
  "(expr \<Rightarrow> string list option) \<Rightarrow> (string \<times> ident) list \<Rightarrow> (string \<times> ident) list \<Rightarrow> fn_bundle list \<Rightarrow> decl
     \<Rightarrow> bool list \<times> coverage_warning list \<Rightarrow> bool list \<times> coverage_warning list" where
  "cover_decl segs scanned dep_scanned bundles d s =
     fold (cover_binding scanned dep_scanned (module_of (dc_origin d))) (bound_refs segs bundles d) s"

definition coverage_warnings ::
  "(expr \<Rightarrow> string list option) \<Rightarrow> decl list \<Rightarrow> (string \<times> ident) list \<Rightarrow> (string \<times> ident) list \<Rightarrow> fn_bundle list
     \<Rightarrow> coverage_warning list" where
  "coverage_warnings segs decls scanned dep_scanned bundles =
     (case fold (cover_decl segs scanned dep_scanned bundles) decls (replicate (length scanned) False, []) of
        (used, warnings) \<Rightarrow>
          warnings @ List.map_filter (\<lambda>(u, m, f). if u then None else Some (FnNotBound m f)) (zip used scanned))"

section \<open>The functions an item's signals come from\<close>

definition dataflow_fn_sources :: "(expr \<Rightarrow> string list option) \<Rightarrow> item \<Rightarrow> fn_ref list" where
  "dataflow_fn_sources segs i = (case task_fn segs i of None \<Rightarrow> [] | Some r \<Rightarrow> [r]) @ adopted_refs i"

definition discovered_access_matches :: "fn_ref list \<Rightarrow> discovered \<Rightarrow> string \<Rightarrow> bool" where
  "discovered_access_matches funcs d graph_module \<longleftrightarrow>
     list_ex (\<lambda>(f, hint). f = ac_func (ds_access d)
        \<and> (case hint of None \<Rightarrow> True | Some h \<Rightarrow> h = ds_module d \<or> ds_module d = graph_module)) funcs"

definition without_crate :: "string \<Rightarrow> string" where
  "without_crate s = (if prefix ''crate::'' s then drop 7 s else s)"

definition paths_alias :: "string \<Rightarrow> string \<Rightarrow> bool" where
  "paths_alias a b \<longleftrightarrow>
     (let a = without_crate a; b = without_crate b in a = b \<or> suffix (''::'' @ b) a \<or> suffix (''::'' @ a) b)"

definition discovered_key :: "discovered \<Rightarrow> string list \<Rightarrow> string list \<Rightarrow> string" where
  "discovered_key d emitted declared =
     (let raw = ac_path (ds_access d) in
      if \<not> ds_relative d then (case find (\<lambda>k. paths_alias k raw) emitted of Some k \<Rightarrow> k | None \<Rightarrow> raw)
      else let qualified = ds_module d @ ''::'' @ raw in
        case find (\<lambda>k. paths_alias k qualified) emitted of
          Some k \<Rightarrow> k
        | None \<Rightarrow> (case filter (\<lambda>k. paths_alias k raw) declared of [k] \<Rightarrow> k | _ \<Rightarrow> qualified))"

section \<open>What the coverage reports\<close>

text \<open>Every binding of every declaration, with the module of the graph.\<close>

definition all_bindings :: "(expr \<Rightarrow> string list option) \<Rightarrow> fn_bundle list \<Rightarrow> decl list \<Rightarrow> (string \<times> ident \<times> fn_ref) list" where
  "all_bindings segs bundles decls = concat (map (\<lambda>d. map (Pair (module_of (dc_origin d))) (bound_refs segs bundles d)) decls)"

definition binds :: "(string \<times> ident \<times> fn_ref) list \<Rightarrow> string \<times> ident \<Rightarrow> bool" where
  "binds bs sf \<longleftrightarrow> (\<exists>(m, _, r) \<in> set bs. fn_matches sf r m)"

definition no_fn_for :: "(string \<times> ident) list \<Rightarrow> string \<times> ident \<times> fn_ref \<Rightarrow> bool" where
  "no_fn_for fns b \<longleftrightarrow> (case b of (m, _, r) \<Rightarrow> \<not> (\<exists>sf \<in> set fns. fn_matches sf r m))"

lemma cover_decls_flat:
  "fold (cover_decl segs scanned dep_scanned bundles) decls s
     = fold (\<lambda>(m, b). cover_binding scanned dep_scanned m b) (all_bindings segs bundles decls) s"
  by (induction decls arbitrary: s) (simp_all add: all_bindings_def cover_decl_def fold_map comp_def)

lemma cover_bindings:
  "length used = length scanned \<Longrightarrow>
     fold (\<lambda>(m, b). cover_binding scanned dep_scanned m b) bs (used, warnings)
       = (map (\<lambda>(u, sf). u \<or> binds bs sf) (zip used scanned),
          warnings @ map (\<lambda>(m, n, r). NoFnScanned n r) (filter (no_fn_for (scanned @ dep_scanned)) bs))"
proof (induction bs arbitrary: used warnings)
  case Nil
  have "map (\<lambda>(u, sf). u \<or> binds [] sf) (zip used scanned) = map fst (zip used scanned)"
    by (auto simp: binds_def intro: map_cong)
  then show ?case using Nil by simp
next
  case (Cons b bs)
  obtain m n r where b: "b = (m, n, r)" by (cases b) auto
  let ?used = "map (\<lambda>(u, h). u \<or> h) (zip used (map (\<lambda>sf. fn_matches sf r m) scanned))"
  have z: "map (\<lambda>(u, sf). u \<or> binds bs sf) (zip ?used scanned) = map (\<lambda>(u, sf). u \<or> binds (b # bs) sf) (zip used scanned)"
    by (rule nth_equalityI) (auto simp: binds_def b Cons.prems)
  have "length ?used = length scanned" using Cons.prems by simp
  note IH = Cons.IH[OF this]
  have step: "cover_binding scanned dep_scanned m (n, r) (used, warnings)
      = (?used, warnings @ (if no_fn_for (scanned @ dep_scanned) (m, n, r) then [NoFnScanned n r] else []))"
    by (auto simp: cover_binding_def no_fn_for_def list_ex_iff Let_def)
  have "fold (\<lambda>(m, b). cover_binding scanned dep_scanned m b) (b # bs) (used, warnings)
      = fold (\<lambda>(m, b). cover_binding scanned dep_scanned m b) bs
          (?used, warnings @ (if no_fn_for (scanned @ dep_scanned) (m, n, r) then [NoFnScanned n r] else []))"
    by (simp only: fold_simps comp_def b case_prod_conv step)
  then show ?case unfolding IH z by (simp add: b)
qed

lemma coverage_warnings_exact:
  "coverage_warnings segs decls scanned dep_scanned bundles =
     map (\<lambda>(m, n, r). NoFnScanned n r) (filter (no_fn_for (scanned @ dep_scanned)) (all_bindings segs bundles decls))
     @ map (\<lambda>(m, f). FnNotBound m f) (filter (\<lambda>sf. \<not> binds (all_bindings segs bundles decls) sf) scanned)"
proof -
  let ?bs = "all_bindings segs bundles decls"
  have "map (\<lambda>(u, sf). u \<or> binds ?bs sf) (zip (replicate (length scanned) False) scanned) = map (binds ?bs) scanned"
    by (rule nth_equalityI) auto
  moreover have "List.map_filter (\<lambda>(u, m, f). if u then None else Some (FnNotBound m f)) (zip (map P xs) xs)
      = map (\<lambda>(m, f). FnNotBound m f) (filter (\<lambda>sf. \<not> P sf) xs)" for P and xs :: "(string \<times> ident) list"
    by (induction xs) (auto simp: List.map_filter_simps)
  ultimately show ?thesis
    by (simp add: coverage_warnings_def cover_decls_flat cover_bindings)
qed

lemma paths_alias_sym: "paths_alias a b = paths_alias b a"
  by (auto simp: paths_alias_def Let_def)

end
