(* ===== verification/Lint.thy ===== *)
theory Lint
  imports Discover
begin

text \<open>
  The dataflow lints of \<^verbatim>\<open>supervisor-tools/src/lint.rs\<close>: signals of a graph that are read and never
  written, or written and never read, and gates that can be reached around. A warning is the value
  its text is made of.
\<close>

section \<open>Categories\<close>

record lint_cats =
  lc_orphan_reads :: bool
  lc_dead_writes :: bool
  lc_public_gate :: bool

definition any_cat :: "lint_cats \<Rightarrow> bool" where
  "any_cat c \<longleftrightarrow> lc_orphan_reads c \<or> lc_dead_writes c \<or> lc_public_gate c"

definition all_cats :: lint_cats where
  "all_cats = \<lparr>lc_orphan_reads = True, lc_dead_writes = True, lc_public_gate = True\<rparr>"

definition is_white :: "char \<Rightarrow> bool" where
  "is_white c \<longleftrightarrow> c = CHR '' '' \<or> 9 \<le> (of_char c :: nat) \<and> (of_char c :: nat) \<le> 13"

definition trim_end :: "string \<Rightarrow> string" where
  "trim_end s = rev (dropWhile is_white (rev s))"

definition trim :: "string \<Rightarrow> string" where
  "trim s = dropWhile is_white (trim_end s)"

fun split_char :: "char \<Rightarrow> string \<Rightarrow> string list" where
  "split_char sep [] = [ []]"
| "split_char sep (c # s) =
     (if c = sep then [] # split_char sep s
      else case split_char sep s of [] \<Rightarrow> [ [c]] | p # ps \<Rightarrow> (c # p) # ps)"

text \<open>\<open>parse\<close> stops at an unknown category and keeps what it has set.\<close>

fun set_cats :: "string list \<Rightarrow> lint_cats \<Rightarrow> lint_cats \<times> string option" where
  "set_cats [] c = (c, None)"
| "set_cats (w # ws) c =
     (if w = ''orphan-reads'' then set_cats ws (c\<lparr>lc_orphan_reads := True\<rparr>)
      else if w = ''dead-writes'' then set_cats ws (c\<lparr>lc_dead_writes := True\<rparr>)
      else if w = ''public-gate'' then set_cats ws (c\<lparr>lc_public_gate := True\<rparr>)
      else if w = ''all'' then set_cats ws all_cats
      else (c, Some w))"

definition parse_cats :: "string \<Rightarrow> lint_cats \<Rightarrow> lint_cats \<times> string option" where
  "parse_cats arg c = set_cats (filter (\<lambda>w. w \<noteq> []) (map trim (split_char CHR '','' arg))) c"

section \<open>The sides of a signal\<close>

record sides =
  sd_writers :: "ident list"
  sd_readers :: "ident list"
  sd_monitor :: bool

record lint_state =
  ls_order :: "string list"
  ls_sides :: "string \<rightharpoonup> sides"

text \<open>What is noted: a node uses a signal, to write or to read, the write perhaps for a monitor.\<close>

record signal_use =
  su_key :: string
  su_node :: ident
  su_write :: bool
  su_monitor :: bool

definition push_new :: "'a \<Rightarrow> 'a list \<Rightarrow> 'a list" where
  "push_new x xs = (if x \<in> set xs then xs else xs @ [x])"

definition no_sides :: sides where
  "no_sides = \<lparr>sd_writers = [], sd_readers = [], sd_monitor = False\<rparr>"

definition note_use :: "signal_use \<Rightarrow> lint_state \<Rightarrow> lint_state" where
  "note_use u s =
     (let k = su_key u;
          sd = (case ls_sides s k of Some sd \<Rightarrow> sd | None \<Rightarrow> no_sides);
          sd = (if su_write u then sd\<lparr>sd_writers := push_new (su_node u) (sd_writers sd)\<rparr>
                else sd\<lparr>sd_readers := push_new (su_node u) (sd_readers sd)\<rparr>)
      in s\<lparr>ls_order := (if ls_sides s k = None then ls_order s @ [k] else ls_order s),
           ls_sides := (ls_sides s)(k \<mapsto> sd\<lparr>sd_monitor := sd_monitor sd \<or> su_monitor u\<rparr>)\<rparr>)"

fun signals_of :: "item \<Rightarrow> (bool \<times> signal_decl) list" where
  "signals_of (NodeItem n) = map (Pair True) (ni_writes n) @ map (Pair False) (ni_reads n)"
| "signals_of (PoolItem p) = map (Pair True) (pi_writes p) @ map (Pair False) (pi_reads p)"
| "signals_of (ExecutorItem x) = []"

text \<open>The two passes over the items; \<open>note\<close> takes a use into the state.\<close>

definition declare_signal ::
  "(signal_use \<Rightarrow> 's \<Rightarrow> 's) \<Rightarrow> ident \<Rightarrow> bool \<times> signal_decl \<Rightarrow> string list \<times> 's \<Rightarrow> string list \<times> 's" where
  "declare_signal note name ws s =
     (case ws of (is_write, sig) \<Rightarrow>
       (push_new (display sig) (fst s),
        note \<lparr>su_key = display sig, su_node = name, su_write = is_write,
              su_monitor = is_write \<and> (sg_observed sig \<or> sg_beat sig)\<rparr> (snd s)))"

definition declare_item :: "(signal_use \<Rightarrow> 's \<Rightarrow> 's) \<Rightarrow> item \<Rightarrow> string list \<times> 's \<Rightarrow> string list \<times> 's" where
  "declare_item note i s =
     (case item_name i of None \<Rightarrow> s | Some name \<Rightarrow> fold (declare_signal note name) (signals_of i) s)"

definition discover_access ::
  "(signal_use \<Rightarrow> 's \<Rightarrow> 's) \<Rightarrow> string \<Rightarrow> string list \<Rightarrow> fn_ref list \<Rightarrow> ident \<Rightarrow> discovered
     \<Rightarrow> (bool \<times> string) list \<times> string list \<times> 's \<Rightarrow> (bool \<times> string) list \<times> string list \<times> 's" where
  "discover_access note graph_module declared funcs name d s =
     (case s of (seen, emitted, st) \<Rightarrow>
       let a = ds_access d in
       if \<not> discovered_access_matches funcs d graph_module \<or> (ac_write a, ac_path a) \<in> set seen then s
       else let key = discovered_key d emitted declared in
         (seen @ [(ac_write a, ac_path a)], push_new key emitted,
          note \<lparr>su_key = key, su_node = name, su_write = ac_write a,
                su_monitor = ac_write a \<and> prefix ''beat'' (ac_verb a)\<rparr> st))"

definition discover_item ::
  "(signal_use \<Rightarrow> 's \<Rightarrow> 's) \<Rightarrow> (expr \<Rightarrow> string list option) \<Rightarrow> fn_bundle list \<Rightarrow> discovered list \<Rightarrow> string \<Rightarrow> string list
     \<Rightarrow> item \<Rightarrow> string list \<times> 's \<Rightarrow> string list \<times> 's" where
  "discover_item note segs bundles discovered graph_module declared i s =
     (case item_name i of
        None \<Rightarrow> s
      | Some name \<Rightarrow>
          let funcs = expand_bundles (dataflow_fn_sources segs i) bundles in
          if funcs = [] then s
          else snd (fold (discover_access note graph_module declared funcs name) discovered ([], s)))"

definition note_decl ::
  "(signal_use \<Rightarrow> 's \<Rightarrow> 's) \<Rightarrow> (expr \<Rightarrow> string list option) \<Rightarrow> fn_bundle list \<Rightarrow> discovered list \<Rightarrow> decl \<Rightarrow> 's \<Rightarrow> 's" where
  "note_decl note segs bundles discovered d s =
     (case fold (declare_item note) (gs_items (dc_spec d)) ([], s) of
        (declared, s1) \<Rightarrow>
          snd (fold (discover_item note segs bundles discovered (module_of (dc_origin d)) declared)
                (gs_items (dc_spec d)) (declared, s1)))"

section \<open>Arrays and their elements\<close>

definition element_base :: "string \<Rightarrow> string option" where
  "element_base key =
     (if CHR ''['' \<in> set key then Some (trim_end (takeWhile (\<lambda>c. c \<noteq> CHR ''['') key)) else None)"

definition is_whole_of :: "string \<Rightarrow> string \<Rightarrow> bool" where
  "is_whole_of base key \<longleftrightarrow>
     CHR ''['' \<notin> set key \<and> (key = base \<or> suffix (''::'' @ key) base \<or> suffix (''::'' @ base) key)"

definition whole_of :: "string list \<Rightarrow> string \<Rightarrow> string option" where
  "whole_of keys key = Option.bind (element_base key) (\<lambda>base. find (is_whole_of base) keys)"

definition element_links :: "string list \<Rightarrow> (string \<times> string) list" where
  "element_links keys = List.map_filter (\<lambda>key. map_option (Pair key) (whole_of keys key)) keys"

text \<open>Both keys of a link have sides.\<close>

definition merge_sides :: "string \<Rightarrow> string \<Rightarrow> (string \<rightharpoonup> sides) \<Rightarrow> string \<rightharpoonup> sides" where
  "merge_sides from to m =
     (case (m from, m to) of
        (Some src, Some dst) \<Rightarrow>
          m(to \<mapsto> dst\<lparr>sd_writers := fold push_new (sd_writers src) (sd_writers dst),
                     sd_readers := fold push_new (sd_readers src) (sd_readers dst)\<rparr>)
      | _ \<Rightarrow> m)"

definition merge_link :: "string \<times> string \<Rightarrow> (string \<rightharpoonup> sides) \<Rightarrow> string \<rightharpoonup> sides" where
  "merge_link l m = (case l of (element, whole) \<Rightarrow> merge_sides whole element (merge_sides element whole m))"

section \<open>The warnings\<close>

datatype lint_warning = OrphanRead string "ident list" | DeadWrite string "ident list" | StaleAllow string
  | PublicGate gate_static

definition allow_matches :: "string \<Rightarrow> string \<Rightarrow> bool" where
  "allow_matches key allowed \<longleftrightarrow>
     (let k = without_crate key; a = without_crate allowed in k = a \<or> suffix (''::'' @ a) k \<or> suffix (''::'' @ k) a)"

definition is_orphan :: "lint_cats \<Rightarrow> sides \<Rightarrow> bool" where
  "is_orphan cats s \<longleftrightarrow> lc_orphan_reads cats \<and> sd_writers s = [] \<and> sd_readers s \<noteq> []"

definition is_dead :: "lint_cats \<Rightarrow> sides \<Rightarrow> bool" where
  "is_dead cats s \<longleftrightarrow> lc_dead_writes cats \<and> sd_readers s = [] \<and> sd_writers s \<noteq> [] \<and> \<not> sd_monitor s"

definition lint_key ::
  "lint_cats \<Rightarrow> string list \<Rightarrow> (string \<rightharpoonup> sides) \<Rightarrow> string \<Rightarrow> bool list \<times> lint_warning list \<Rightarrow> bool list \<times> lint_warning list" where
  "lint_key cats allow m key r =
     (let s = the (m key) in
      if \<not> (is_orphan cats s \<or> is_dead cats s) then r
      else case position (allow_matches key) allow of
             Some i \<Rightarrow> ((fst r)[i := True], snd r)
           | None \<Rightarrow> (fst r, snd r @ (if is_orphan cats s then [OrphanRead key (sd_readers s)] else [])
                               @ (if is_dead cats s then [DeadWrite key (sd_writers s)] else [])))"

definition noted :: "(expr \<Rightarrow> string list option) \<Rightarrow> fn_bundle list \<Rightarrow> discovered list \<Rightarrow> decl \<Rightarrow> lint_state" where
  "noted segs bundles discovered d = note_decl note_use segs bundles discovered d \<lparr>ls_order = [], ls_sides = Map.empty\<rparr>"

definition lint_decl ::
  "(expr \<Rightarrow> string list option) \<Rightarrow> fn_bundle list \<Rightarrow> discovered list \<Rightarrow> lint_cats \<Rightarrow> string list \<Rightarrow> decl
     \<Rightarrow> bool list \<times> lint_warning list \<Rightarrow> bool list \<times> lint_warning list" where
  "lint_decl segs bundles discovered cats allow d r =
     (let s = noted segs bundles discovered d;
          m = fold merge_link (element_links (ls_order s)) (ls_sides s)
      in fold (lint_key cats allow m) (ls_order s) r)"

definition dataflow_lints ::
  "(expr \<Rightarrow> string list option) \<Rightarrow> decl list \<Rightarrow> discovered list \<Rightarrow> fn_bundle list \<Rightarrow> lint_cats \<Rightarrow> string list \<Rightarrow> lint_warning list" where
  "dataflow_lints segs decls discovered bundles cats allow =
     (case fold (lint_decl segs bundles discovered cats allow) decls (replicate (length allow) False, []) of
        (used, warnings) \<Rightarrow>
          warnings @ List.map_filter (\<lambda>(h, a). if h then None else Some (StaleAllow a)) (zip used allow))"

definition gate_lints :: "gate_static list \<Rightarrow> lint_cats \<Rightarrow> lint_warning list" where
  "gate_lints statics cats = (if \<not> lc_public_gate cats then [] else map PublicGate (filter gx_public statics))"

section \<open>The uses of a graph\<close>

text \<open>The same passes, noting the uses themselves.\<close>

definition uses :: "(expr \<Rightarrow> string list option) \<Rightarrow> fn_bundle list \<Rightarrow> discovered list \<Rightarrow> decl \<Rightarrow> signal_use list" where
  "uses segs bundles discovered d = note_decl (\<lambda>u us. us @ [u]) segs bundles discovered d []"

lemma fold_related:
  assumes "\<And>x s t. R s t \<Longrightarrow> R (f x s) (g x t)"
  shows "R s t \<Longrightarrow> R (fold f xs s) (fold g xs t)"
  by (induction xs arbitrary: s t) (simp_all add: assms)

lemma note_decl_related:
  assumes step: "\<And>u s t. R s t \<Longrightarrow> R (note u s) (note' u t)" and "R s t"
  shows "R (note_decl note segs bundles discovered d s) (note_decl note' segs bundles discovered d t)"
proof -
  let ?P = "\<lambda>p q. fst p = fst q \<and> R (snd p) (snd q)"
  let ?T = "\<lambda>p q. fst p = fst q \<and> fst (snd p) = fst (snd q) \<and> R (snd (snd p)) (snd (snd q))"
  have sig: "?P p q \<Longrightarrow> ?P (declare_signal note n ws p) (declare_signal note' n ws q)" for n ws p q
    by (auto simp: declare_signal_def step split: prod.split)
  have item: "?P p q \<Longrightarrow> ?P (declare_item note i p) (declare_item note' i q)" for i p q
  proof (cases "item_name i")
    case (Some n)
    assume "?P p q"
    from fold_related[where R = ?P and f = "declare_signal note n" and g = "declare_signal note' n", OF sig this]
    show ?thesis by (simp add: declare_item_def Some)
  qed (simp add: declare_item_def)
  have acc: "?T p q \<Longrightarrow> ?T (discover_access note m ds fs n x p) (discover_access note' m ds fs n x q)" for m ds fs n x p q
    by (auto simp: discover_access_def step Let_def split: prod.split)
  have disc: "?P p q \<Longrightarrow> ?P (discover_item note segs bundles discovered m ds i p) (discover_item note' segs bundles discovered m ds i q)"
    for m ds i p q
  proof (cases "item_name i")
    case (Some n)
    assume "?P p q"
    then have "?T ([], p) ([], q)" by simp
    from fold_related[where R = ?T and f = "discover_access note m ds (expand_bundles (dataflow_fn_sources segs i) bundles) n"
        and g = "discover_access note' m ds (expand_bundles (dataflow_fn_sources segs i) bundles) n", OF acc this] show ?thesis using \<open>?P p q\<close> by (simp add: discover_item_def Some Let_def)
  qed (simp add: discover_item_def)
  obtain ds s1 where 1: "fold (declare_item note) (gs_items (dc_spec d)) ([], s) = (ds, s1)"
    by (cases "fold (declare_item note) (gs_items (dc_spec d)) ([], s)") auto
  obtain ds' t1 where 2: "fold (declare_item note') (gs_items (dc_spec d)) ([], t) = (ds', t1)"
    by (cases "fold (declare_item note') (gs_items (dc_spec d)) ([], t)") auto
  have e: "ds = ds'" "R s1 t1"
    using fold_related[where R = ?P and f = "declare_item note" and g = "declare_item note'", OF item,
        of "([], s)" "([], t)" "gs_items (dc_spec d)"] assms(2) unfolding 1 2 by simp_all
  show ?thesis
    using fold_related[where R = ?P and f = "discover_item note segs bundles discovered (module_of (dc_origin d)) ds"
        and g = "discover_item note' segs bundles discovered (module_of (dc_origin d)) ds", OF disc,
        of "(ds, s1)" "(ds', t1)"] e unfolding note_decl_def 1 2 by simp
qed

lemma noted_uses:
  "noted segs bundles discovered d = fold note_use (uses segs bundles discovered d) \<lparr>ls_order = [], ls_sides = Map.empty\<rparr>"
  unfolding noted_def uses_def
  by (rule note_decl_related[where R = "\<lambda>s us. s = fold note_use us \<lparr>ls_order = [], ls_sides = Map.empty\<rparr>"]) simp_all

definition side_nodes :: "signal_use list \<Rightarrow> bool \<Rightarrow> string \<Rightarrow> ident list" where
  "side_nodes us w k = keep_first [] (map su_node (filter (\<lambda>u. su_key u = k \<and> su_write u = w) us))"

definition monitored :: "signal_use list \<Rightarrow> string \<Rightarrow> bool" where
  "monitored us k \<longleftrightarrow> (\<exists>u \<in> set us. su_key u = k \<and> su_monitor u)"

definition keys_of :: "signal_use list \<Rightarrow> string list" where
  "keys_of us = keep_first [] (map su_key us)"

definition sides_of :: "signal_use list \<Rightarrow> string \<Rightarrow> sides" where
  "sides_of us k = \<lparr>sd_writers = side_nodes us True k, sd_readers = side_nodes us False k, sd_monitor = monitored us k\<rparr>"

lemma keep_first_snoc: "keep_first acc (xs @ [x]) = push_new x (keep_first acc xs)"
  by (induction acc xs rule: keep_first.induct) (auto simp: push_new_def)

lemma set_keys_of: "set (keys_of us) = su_key ` set us"
  by (simp add: keys_of_def keep_first_set)

lemma keys_of_distinct: "distinct (keys_of us)"
  by (simp add: keys_of_def keep_first_distinct)

lemma notes_sides:
  "fold note_use us \<lparr>ls_order = [], ls_sides = Map.empty\<rparr>
     = \<lparr>ls_order = keys_of us, ls_sides = (\<lambda>k. if k \<in> su_key ` set us then Some (sides_of us k) else None)\<rparr>"
proof (induction us rule: rev_induct)
  case Nil
  show ?case by (simp add: keys_of_def)
next
  case (snoc u us)
  have k: "keys_of (us @ [u]) = push_new (su_key u) (keys_of us)" by (simp add: keys_of_def keep_first_snoc)
  have s: "sides_of (us @ [u]) k = (if k = su_key u then
      (let sd = sides_of us k; sd = (if su_write u then sd\<lparr>sd_writers := push_new (su_node u) (sd_writers sd)\<rparr>
                else sd\<lparr>sd_readers := push_new (su_node u) (sd_readers sd)\<rparr>)
       in sd\<lparr>sd_monitor := sd_monitor sd \<or> su_monitor u\<rparr>) else sides_of us k)" for k
    by (auto simp: sides_of_def side_nodes_def monitored_def keep_first_snoc Let_def)
  have e: "su_key u \<notin> su_key ` set us \<Longrightarrow> sides_of us (su_key u) = no_sides"
  proof -
    assume "su_key u \<notin> su_key ` set us"
    then have n: "su_key x \<noteq> su_key u" if "x \<in> set us" for x using that by (metis image_eqI)
    then have "filter (\<lambda>ua. su_key ua = su_key u \<and> P ua) us = []" for P by (simp add: filter_empty_conv)
    then show ?thesis using n by (auto simp: sides_of_def side_nodes_def monitored_def no_sides_def)
  qed
  have o: "push_new (su_key u) (keys_of us) = (if su_key u \<in> su_key ` set us then keys_of us else keys_of us @ [su_key u])"
    by (simp add: push_new_def set_keys_of)
  show ?case
  proof (cases "su_key u \<in> su_key ` set us")
    case True
    then have i: "su_key ` set (us @ [u]) = su_key ` set us" by auto
    show ?thesis unfolding fold_append comp_def snoc fold_simps k o i
      using True by (auto simp: note_use_def Let_def s fun_eq_iff)
  next
    case False
    then show ?thesis unfolding fold_append comp_def snoc fold_simps k o
      by (auto simp: note_use_def Let_def s e fun_eq_iff)
  qed
qed

section \<open>What the links add\<close>

definition side :: "bool \<Rightarrow> sides \<Rightarrow> ident list" where
  "side w s = (if w then sd_writers s else sd_readers s)"

text \<open>The nodes on a side of a key.\<close>

definition on_side :: "bool \<Rightarrow> (string \<rightharpoonup> sides) \<Rightarrow> string \<Rightarrow> ident set" where
  "on_side w m k = (case m k of None \<Rightarrow> {} | Some s \<Rightarrow> set (side w s))"

lemma set_fold_push_new: "set (fold push_new xs ys) = set ys \<union> set xs"
  by (induction xs arbitrary: ys) (auto simp: push_new_def)

lemma merge_sides_dom: "dom (merge_sides a b m) = dom m"
  by (auto simp: merge_sides_def split: option.splits)

lemma merge_sides_other: "k \<noteq> b \<Longrightarrow> merge_sides a b m k = m k"
  by (simp add: merge_sides_def split: option.split)

lemma merge_sides_monitor: "map_option sd_monitor (merge_sides a b m k) = map_option sd_monitor (m k)"
  by (simp add: merge_sides_def split: option.split)

lemma merge_sides_on: "a \<in> dom m \<Longrightarrow> b \<in> dom m \<Longrightarrow> on_side w (merge_sides a b m) b = on_side w m b \<union> on_side w m a"
  by (auto simp: merge_sides_def on_side_def side_def set_fold_push_new split: option.splits)

lemma merge_link_on:
  assumes "a \<in> dom m" "b \<in> dom m" "a \<noteq> b"
  shows "on_side w (merge_link (a, b) m) k = (if k = a \<or> k = b then on_side w m a \<union> on_side w m b else on_side w m k)"
proof -
  have b: "on_side w (merge_sides a b m) b = on_side w m b \<union> on_side w m a" using assms by (simp add: merge_sides_on)
  have o: "k \<noteq> b \<Longrightarrow> on_side w (merge_sides a b m) k = on_side w m k" for k by (simp add: on_side_def merge_sides_other)
  have o2: "k \<noteq> a \<Longrightarrow> on_side w (merge_link (a, b) m) k = on_side w (merge_sides a b m) k" for k
    by (simp add: merge_link_def on_side_def merge_sides_other)
  have "on_side w (merge_link (a, b) m) a = on_side w (merge_sides a b m) a \<union> on_side w (merge_sides a b m) b"
    using merge_sides_on[of b "merge_sides a b m" a w] assms by (simp add: merge_link_def merge_sides_dom)
  then show ?thesis using assms b o o2 by auto
qed

lemma merge_link_keeps: "dom (merge_link l m) = dom m" "map_option sd_monitor (merge_link l m k) = map_option sd_monitor (m k)"
  by (simp_all add: merge_link_def merge_sides_dom merge_sides_monitor split: prod.split)

lemma merge_links_keep:
  "dom (fold merge_link ls m) = dom m" "map_option sd_monitor (fold merge_link ls m k) = map_option sd_monitor (m k)"
  by (induction ls arbitrary: m) (simp_all add: merge_link_keeps)

text \<open>Links over keys that have sides, of two keys each.\<close>

definition links_ok :: "(string \<times> string) list \<Rightarrow> string set \<Rightarrow> bool" where
  "links_ok ls D \<longleftrightarrow> (\<forall>(a, b) \<in> set ls. a \<in> D \<and> b \<in> D \<and> a \<noteq> b)"

lemma merge_links_grow:
  "links_ok ls (dom m) \<Longrightarrow> on_side w m k \<subseteq> on_side w (fold merge_link ls m) k"
proof (induction ls arbitrary: m)
  case (Cons l ls)
  obtain a b where l: "l = (a, b)" by (cases l)
  have "a \<in> dom m" "b \<in> dom m" "a \<noteq> b" "links_ok ls (dom (merge_link l m))"
    using Cons.prems by (auto simp: links_ok_def l merge_link_keeps)
  from merge_link_on[OF this(1-3), of w k] Cons.IH[OF this(4)] show ?case by (auto simp: l split: if_splits)
qed simp

lemma merge_links_reach:
  "links_ok ls (dom m) \<Longrightarrow> (a, b) \<in> set ls \<Longrightarrow>
     on_side w m b \<subseteq> on_side w (fold merge_link ls m) a \<and> on_side w m a \<subseteq> on_side w (fold merge_link ls m) b"
proof (induction ls arbitrary: m)
  case (Cons l ls)
  obtain c d where l: "l = (c, d)" by (cases l)
  have p: "c \<in> dom m" "d \<in> dom m" "c \<noteq> d" and ok: "links_ok ls (dom (merge_link l m))"
    using Cons.prems(1) by (auto simp: links_ok_def l merge_link_keeps)
  note on = merge_link_on[OF p, of w]
  show ?case
  proof (cases "(a, b) = l")
    case True
    have ab: "a = c" "b = d" using True l by auto
    have "on_side w m a \<union> on_side w m b \<subseteq> on_side w (merge_link l m) a" "on_side w m a \<union> on_side w m b \<subseteq> on_side w (merge_link l m) b"
      by (simp_all add: l ab on)
    then show ?thesis using merge_links_grow[OF ok, of w a] merge_links_grow[OF ok, of w b] by (simp add: l) blast
  next
    case False
    then have i: "(a, b) \<in> set ls" using Cons.prems(2) by simp
    have "on_side w m k \<subseteq> on_side w (merge_link l m) k" for k using on[of k] by (auto simp: l)
    then show ?thesis using Cons.IH[OF ok i] by (simp add: l) blast
  qed
qed simp

text \<open>What reaches a key comes from keys linked with it over any number of links.\<close>

lemma merge_links_within:
  assumes "\<forall>(a, b) \<in> set ls. g a = g b"
  shows "links_ok ls (dom m) \<Longrightarrow> on_side w (fold merge_link ls m) k \<subseteq> (\<Union>k' \<in> {k'. g k' = g k}. on_side w m k')"
  using assms
proof (induction ls arbitrary: m)
  case (Cons l ls)
  obtain a b where l: "l = (a, b)" by (cases l)
  have p: "a \<in> dom m" "b \<in> dom m" "a \<noteq> b" and ok: "links_ok ls (dom (merge_link l m))"
    using Cons.prems(1) by (auto simp: links_ok_def l merge_link_keeps)
  have g: "g a = g b" "\<forall>(a, b) \<in> set ls. g a = g b" using Cons.prems(2) by (auto simp: l)
  have "on_side w (merge_link l m) k' \<subseteq> (\<Union>k' \<in> {k'. g k' = g k}. on_side w m k')" if "g k' = g k" for k'
    using merge_link_on[OF p, of w k'] that g(1) by (auto simp: l split: if_splits)
  then have "(\<Union>k' \<in> {k'. g k' = g k}. on_side w (merge_link l m) k') \<subseteq> (\<Union>k' \<in> {k'. g k' = g k}. on_side w m k')" by blast
  then show ?case using Cons.IH[OF ok g(2)] by simp
qed auto

section \<open>What is reported\<close>

definition allowed :: "string list \<Rightarrow> string \<Rightarrow> bool" where
  "allowed allow k \<longleftrightarrow> (\<exists>a \<in> set allow. paths_alias k a)"

lemma allow_matches_alias: "allow_matches k a = paths_alias k a"
  by (auto simp: allow_matches_def paths_alias_def Let_def)

lemma position_None: "position P xs = None \<longleftrightarrow> (\<forall>x \<in> set xs. \<not> P x)"
  by (induction P xs rule: position.induct) auto

definition key_warnings :: "lint_cats \<Rightarrow> string list \<Rightarrow> (string \<rightharpoonup> sides) \<Rightarrow> string \<Rightarrow> lint_warning list" where
  "key_warnings cats allow m k =
     (if allowed allow k then []
      else (if is_orphan cats (the (m k)) then [OrphanRead k (sd_readers (the (m k)))] else [])
         @ (if is_dead cats (the (m k)) then [DeadWrite k (sd_writers (the (m k)))] else []))"

lemma lint_key_warnings: "snd (lint_key cats allow m k r) = snd r @ key_warnings cats allow m k"
proof (cases "position (allow_matches k) allow")
  case None
  then have "\<not> allowed allow k" by (simp add: position_None allowed_def allow_matches_alias)
  then show ?thesis by (simp add: lint_key_def key_warnings_def Let_def None)
next
  case (Some i)
  then have "allowed allow k" using position_None[of "allow_matches k" allow] by (auto simp: allowed_def allow_matches_alias)
  then show ?thesis by (simp add: lint_key_def key_warnings_def Let_def Some)
qed

lemma lint_keys_warnings: "snd (fold (lint_key cats allow m) ks r) = snd r @ concat (map (key_warnings cats allow m) ks)"
  by (induction ks arbitrary: r) (simp_all add: lint_key_warnings)

text \<open>The sides of a graph after the links, and its warnings.\<close>

definition merged :: "signal_use list \<Rightarrow> string \<rightharpoonup> sides" where
  "merged us = fold merge_link (element_links (keys_of us)) (\<lambda>k. if k \<in> su_key ` set us then Some (sides_of us k) else None)"

lemma lint_decls_warnings:
  "snd (fold (lint_decl segs bundles discovered cats allow) ds r) = snd r @ concat (map (\<lambda>d.
     concat (map (key_warnings cats allow (merged (uses segs bundles discovered d))) (keys_of (uses segs bundles discovered d)))) ds)"
proof (induction ds arbitrary: r)
  case (Cons d ds)
  have "snd (lint_decl segs bundles discovered cats allow d r) = snd r @
      concat (map (key_warnings cats allow (merged (uses segs bundles discovered d))) (keys_of (uses segs bundles discovered d)))"
    by (simp add: lint_decl_def Let_def noted_uses notes_sides lint_keys_warnings merged_def)
  then show ?case by (simp add: Cons.IH)
qed simp

text \<open>Two keys are linked if one is an element of the other; a group is an array with its elements.\<close>

definition linked :: "string list \<Rightarrow> string \<Rightarrow> string \<Rightarrow> bool" where
  "linked ks a b \<longleftrightarrow> whole_of ks a = Some b \<or> whole_of ks b = Some a"

definition group_of :: "string list \<Rightarrow> string \<Rightarrow> string" where
  "group_of ks k = (case whole_of ks k of Some w \<Rightarrow> w | None \<Rightarrow> k)"

lemma find_in: "find P xs = Some x \<Longrightarrow> x \<in> set xs \<and> P x"
  by (induction xs) (auto split: if_splits)

lemma in_map_filter: "y \<in> set (List.map_filter f xs) \<longleftrightarrow> (\<exists>x \<in> set xs. f x = Some y)"
  by (induction xs) (auto simp: List.map_filter_simps split: option.splits)

lemma whole_of_Some: "whole_of ks a = Some b \<Longrightarrow> b \<in> set ks \<and> CHR ''['' \<in> set a \<and> CHR ''['' \<notin> set b"
  by (auto simp: whole_of_def element_base_def is_whole_of_def bind_eq_Some_conv split: if_splits dest!: find_in)

lemma element_links_iff: "(a, b) \<in> set (element_links ks) \<longleftrightarrow> a \<in> set ks \<and> whole_of ks a = Some b"
  by (auto simp: element_links_def in_map_filter)

lemma element_links_ok: "links_ok (element_links ks) (set ks)"
  by (auto simp: links_ok_def element_links_iff dest: whole_of_Some)

lemma group_of_link: "whole_of ks a = Some b \<Longrightarrow> group_of ks a = group_of ks b"
proof -
  assume a: "whole_of ks a = Some b"
  then have "whole_of ks b = None" using whole_of_Some[OF a] by (simp add: whole_of_def element_base_def)
  with a show ?thesis by (simp add: group_of_def)
qed

lemma merged_bounds:
  assumes "k \<in> su_key ` set us"
  shows "\<exists>s. merged us k = Some s \<and> sd_monitor s = monitored us k
     \<and> (\<forall>u \<in> set us. su_key u = k \<or> linked (keys_of us) k (su_key u) \<longrightarrow> su_node u \<in> set (side (su_write u) s))
     \<and> (\<forall>w. side w s \<noteq> [] \<longrightarrow> (\<exists>u \<in> set us. group_of (keys_of us) (su_key u) = group_of (keys_of us) k \<and> su_write u = w))"
proof -
  let ?ls = "element_links (keys_of us)"
  define m where "m = (\<lambda>k. if k \<in> su_key ` set us then Some (sides_of us k) else None)"
  have M: "merged us = fold merge_link ?ls m" by (simp add: merged_def m_def)
  have d: "dom m = set (keys_of us)" by (auto simp: set_keys_of m_def dom_def split: if_splits)
  have on: "on_side w m j = {su_node u |u. u \<in> set us \<and> su_key u = j \<and> su_write u = w}" for w j
    by (auto simp: on_side_def side_def sides_of_def side_nodes_def keep_first_set m_def)
  have ok: "links_ok ?ls (dom m)" unfolding d by (rule element_links_ok)
  have "k \<in> dom (merged us)" unfolding M merge_links_keep d using assms by (simp add: set_keys_of)
  then obtain s where s: "merged us k = Some s" by blast
  then have in_s: "on_side w (merged us) k = set (side w s)" for w by (simp add: on_side_def)
  have "sd_monitor s = monitored us k"
    using merge_links_keep(2)[of ?ls m k] s assms by (simp add: M) (simp add: m_def sides_of_def)
  moreover have "su_node u \<in> set (side (su_write u) s)"
    if u: "u \<in> set us" "su_key u = k \<or> linked (keys_of us) k (su_key u)" for u
  proof -
    have n: "su_node u \<in> on_side (su_write u) m (su_key u)" unfolding on using u(1) by blast
    have k: "su_key u \<in> set (keys_of us)" "k \<in> set (keys_of us)" using u(1) assms by (auto simp: set_keys_of)
    have r: "on_side w m b \<subseteq> on_side w (merged us) a \<and> on_side w m a \<subseteq> on_side w (merged us) b"
      if "a \<in> set (keys_of us)" "whole_of (keys_of us) a = Some b" for a b w
      unfolding M by (rule merge_links_reach[OF ok]) (simp add: element_links_iff that)
    have "on_side (su_write u) m (su_key u) \<subseteq> on_side (su_write u) (merged us) k"
      using u(2) merge_links_grow[OF ok, of "su_write u" k, folded M] r[OF k(1)] r[OF k(2)] unfolding linked_def by blast
    then show ?thesis using n in_s by blast
  qed
  moreover have "\<exists>u \<in> set us. group_of (keys_of us) (su_key u) = group_of (keys_of us) k \<and> su_write u = w" if ne: "side w s \<noteq> []" for w
  proof -
    obtain n where n: "n \<in> on_side w (merged us) k" unfolding in_s using ne by (cases "side w s") auto
    have "\<forall>(a, b) \<in> set ?ls. group_of (keys_of us) a = group_of (keys_of us) b"
      by (auto simp: element_links_iff group_of_link)
    from subsetD[OF merge_links_within[OF this ok, folded M] n] obtain j
      where "group_of (keys_of us) j = group_of (keys_of us) k" "n \<in> on_side w m j" by blast
    then show ?thesis unfolding on by blast
  qed
  ultimately show ?thesis using s by blast
qed

text \<open>
  A signal all uses of which are on one side: its own and those of the keys it is linked with, and,
  to be sure, those of its whole group.
\<close>

definition one_sided :: "signal_use list \<Rightarrow> bool \<Rightarrow> string \<Rightarrow> bool" where
  "one_sided us w k \<longleftrightarrow> k \<in> su_key ` set us
     \<and> (\<forall>u \<in> set us. su_key u = k \<or> linked (keys_of us) k (su_key u) \<longrightarrow> su_write u = w) \<and> \<not> (w \<and> monitored us k)"

definition surely_one_sided :: "signal_use list \<Rightarrow> bool \<Rightarrow> string \<Rightarrow> bool" where
  "surely_one_sided us w k \<longleftrightarrow> k \<in> su_key ` set us
     \<and> (\<forall>u \<in> set us. group_of (keys_of us) (su_key u) = group_of (keys_of us) k \<longrightarrow> su_write u = w) \<and> \<not> (w \<and> monitored us k)"

definition warning :: "bool \<Rightarrow> string \<Rightarrow> ident list \<Rightarrow> lint_warning" where
  "warning w k ns = (if w then DeadWrite k ns else OrphanRead k ns)"

definition enabled :: "lint_cats \<Rightarrow> bool \<Rightarrow> bool" where
  "enabled cats w = (if w then lc_dead_writes cats else lc_orphan_reads cats)"

definition reports :: "lint_cats \<Rightarrow> signal_use list \<Rightarrow> bool \<Rightarrow> string \<Rightarrow> ident list \<Rightarrow> bool" where
  "reports cats us w k ns \<longleftrightarrow> k \<in> su_key ` set us \<and> enabled cats w
     \<and> side (\<not> w) (the (merged us k)) = [] \<and> ns = side w (the (merged us k)) \<and> ns \<noteq> [] \<and> \<not> (w \<and> sd_monitor (the (merged us k)))"

lemma warning_iff:
  "warning w k ns \<in> set (concat (map (key_warnings cats allow (merged us)) (keys_of us)))
     \<longleftrightarrow> reports cats us w k ns \<and> \<not> allowed allow k"
  by (cases w) (auto simp: set_keys_of key_warnings_def warning_def reports_def enabled_def is_orphan_def is_dead_def side_def
      split: if_splits)

lemma reports_one_sided:
  assumes "reports cats us w k ns"
  shows "one_sided us w k \<and> {su_node u |u. u \<in> set us \<and> su_key u = k} \<subseteq> set ns"
proof -
  have k: "k \<in> su_key ` set us" using assms by (simp add: reports_def)
  from merged_bounds[OF k] obtain s where s: "merged us k = Some s" "sd_monitor s = monitored us k"
    and n: "\<forall>u \<in> set us. su_key u = k \<or> linked (keys_of us) k (su_key u) \<longrightarrow> su_node u \<in> set (side (su_write u) s)" by blast
  have e: "side (\<not> w) s = []" "ns = side w s" "\<not> (w \<and> monitored us k)" using assms s by (auto simp: reports_def)
  have w: "su_write u = w" if "u \<in> set us" "su_key u = k \<or> linked (keys_of us) k (su_key u)" for u
  proof (rule ccontr)
    assume "su_write u \<noteq> w"
    then have o: "su_write u = (\<not> w)" by simp
    have "su_node u \<in> set (side (su_write u) s)" using n that by blast
    then show False unfolding o e(1) by simp
  qed
  then show ?thesis using k n e by (auto simp: one_sided_def)
qed

lemma sure_reports:
  assumes "surely_one_sided us w k" "enabled cats w"
  shows "\<exists>ns. reports cats us w k ns"
proof -
  have k: "k \<in> su_key ` set us" using assms by (simp add: surely_one_sided_def)
  from merged_bounds[OF k] obtain s where s: "merged us k = Some s" "sd_monitor s = monitored us k"
    and n: "\<forall>u \<in> set us. su_key u = k \<or> linked (keys_of us) k (su_key u) \<longrightarrow> su_node u \<in> set (side (su_write u) s)"
    and g: "\<forall>w. side w s \<noteq> [] \<longrightarrow> (\<exists>u \<in> set us. group_of (keys_of us) (su_key u) = group_of (keys_of us) k \<and> su_write u = w)" by blast
  have a: "\<forall>u \<in> set us. group_of (keys_of us) (su_key u) = group_of (keys_of us) k \<longrightarrow> su_write u = w" "\<not> (w \<and> monitored us k)"
    using assms(1) by (simp_all add: surely_one_sided_def)
  obtain u where u: "u \<in> set us" "su_key u = k" using k by blast
  have "side (\<not> w) s = []" using g a(1) by blast
  moreover have "side w s \<noteq> []" using n a(1) u by force
  ultimately show ?thesis using k assms(2) s a(2) by (auto simp: reports_def)
qed


text \<open>
  The links are merged one after the other, so what an element gets from another over their array
  depends on the order in which the signals are first used.
\<close>

definition use_of :: "string \<Rightarrow> bool \<Rightarrow> signal_use" where
  "use_of k w = \<lparr>su_key = k, su_node = (if w then ''W'' else ''R''), su_write = w, su_monitor = False\<rparr>"

lemma verdict_depends_on_order:
  "reports all_cats [use_of ''T[0]'' False, use_of ''T'' False, use_of ''T[1]'' True] False ''T[0]'' [''R'']"
  "\<not> reports all_cats [use_of ''T[1]'' True, use_of ''T[0]'' False, use_of ''T'' False] False ''T[0]'' ns"
proof -
  have w: "whole_of ks ''T[0]'' = find (is_whole_of ''T'') ks" "whole_of ks ''T[1]'' = find (is_whole_of ''T'') ks"
    "whole_of ks ''T'' = None" for ks
    by (simp_all add: whole_of_def element_base_def trim_end_def is_white_def)
  have i: "is_whole_of ''T'' ''T''" "\<not> is_whole_of ''T'' ''T[0]''" "\<not> is_whole_of ''T'' ''T[1]''"
    by (simp_all add: is_whole_of_def)
  show "reports all_cats [use_of ''T[0]'' False, use_of ''T'' False, use_of ''T[1]'' True] False ''T[0]'' [''R'']"
    by (simp add: reports_def merged_def keys_of_def use_of_def element_links_def List.map_filter_simps w i merge_link_def
        merge_sides_def sides_of_def side_nodes_def monitored_def side_def enabled_def all_cats_def push_new_def)
  show "\<not> reports all_cats [use_of ''T[1]'' True, use_of ''T[0]'' False, use_of ''T'' False] False ''T[0]'' ns"
    by (simp add: reports_def merged_def keys_of_def use_of_def element_links_def List.map_filter_simps w i merge_link_def
        merge_sides_def sides_of_def side_nodes_def monitored_def side_def enabled_def all_cats_def push_new_def)
qed

text \<open>A graph of one node that reads \<open>S\<close>.\<close>

definition reader_decl :: decl where
  "reader_decl =
     \<lparr>dc_kind = GraphDecl,
      dc_spec = \<lparr>gs_name = None, gs_observe_writes = None, gs_observe_reads = None, gs_default_executor = None,
        gs_items = [NodeItem \<lparr>ni_cfg = [], ni_ident = ''A'', ni_mode = ''Terminate'', ni_deps = [], ni_source = None,
          ni_resources = [], ni_disabled = None, ni_executor = None, ni_executor_defaulted = False, ni_slot_timeout = None,
          ni_ack_timeout = None, ni_beat_timeout = None, ni_beat_window = None, ni_enabled_if = None,
          ni_restart_budget = None, ni_ready_on_write = None,
          ni_reads = [\<lparr>sg_cfg = [], sg_path = \<lparr>leading_colon = False, segments = [''S'']\<rparr>, sg_index = None,
                       sg_observed = False, sg_beat = False, sg_veto = False, sg_via = None\<rparr>],
          ni_writes = [], ni_exit = None, ni_state = None, ni_cancel = False, ni_discover = None, ni_dataflow = [],
          ni_provides = [], ni_fragment = None\<rparr>]\<rparr>,
      dc_body = [], dc_fragments = [], dc_fragment_origins = Map.empty, dc_origin = ''main.rs'', dc_line = 1\<rparr>"


end
