(* ===== verification/Model.thy ===== *)
theory Model
  imports Find
begin

text \<open>
  The typed model of declarations that other tools read, \<^verbatim>\<open>supervisor-tools/src/model.rs\<close>. A literal
  is its value, a type its text; \<open>text\<close> prints an expression.
\<close>

section \<open>The model\<close>

type_synonym cfg_texts = "string list"

definition cfg_texts :: "cfg_attrs \<Rightarrow> cfg_texts" where
  "cfg_texts attrs = List.map_filter (\<lambda>a. case a of CfgAttr p \<Rightarrow> Some (strip_spaces p) | OtherAttr _ \<Rightarrow> None) attrs"

record lit_value =
  lv_cfg :: cfg_texts
  lv_lit :: nat

definition as_u64 :: "lit_value \<Rightarrow> nat option" where
  "as_u64 l = (if is_u64 (lv_lit l) then Some (lv_lit l) else None)"

record expr_value =
  ev_expr :: expr
  ev_text :: string

definition expr_value_new :: "(expr \<Rightarrow> string) \<Rightarrow> expr \<Rightarrow> expr_value" where
  "expr_value_new text e = \<lparr>ev_expr = e, ev_text = text e\<rparr>"

record dep_model =
  dm_name :: string
  dm_ready :: bool
  dm_bound :: bool
  dm_cfg :: cfg_texts

record signal_model =
  sm_path :: string
  sm_observed :: bool
  sm_beat :: bool
  sm_veto :: bool
  sm_via :: "string option"
  sm_cfg :: cfg_texts

record resource_model =
  rm_name :: string
  rm_local :: bool
  rm_consume :: bool
  rm_shared :: bool
  rm_divisible :: bool
  rm_serialized :: bool
  rm_cfg :: cfg_texts

record provide_model =
  pv_m_name :: string
  pv_m_cfg :: cfg_texts

datatype task_kind = SpawnTask | ShellTask

record task_model =
  tm_kind :: task_kind
  tm_path :: string

definition task_model_new :: "(expr \<Rightarrow> string) \<Rightarrow> task_source \<Rightarrow> task_model" where
  "task_model_new text s =
     (case s of SpawnSource e \<Rightarrow> \<lparr>tm_kind = SpawnTask, tm_path = text e\<rparr> | ShellSource e \<Rightarrow> \<lparr>tm_kind = ShellTask, tm_path = text e\<rparr>)"

record state_model =
  st_m_ty :: string
  st_m_init :: string

record enabled_if_model =
  ei_cfg :: cfg_texts
  ei_predicate :: expr_value

record restart_budget_model =
  rb_cfg :: cfg_texts
  rb_max :: lit_value
  rb_window_ms :: lit_value

record node_model =
  nm_name :: string
  nm_mode :: string
  nm_cfg :: cfg_texts
  nm_deps :: "dep_model list"
  nm_task :: "task_model option"
  nm_resources :: "resource_model list"
  nm_provides :: "provide_model list"
  nm_disabled :: "cfg_texts option"
  nm_executor :: "string option"
  nm_executor_defaulted :: bool
  nm_slot_timeout_ms :: "lit_value option"
  nm_ack_timeout_ms :: "lit_value option"
  nm_beat_timeout_ms :: "lit_value option"
  nm_beat_window :: "lit_value option"
  nm_ready_on_write :: "cfg_texts option"
  nm_enabled_if :: "enabled_if_model option"
  nm_restart_budget :: "restart_budget_model option"
  nm_reads :: "signal_model list"
  nm_writes :: "signal_model list"
  nm_exit :: "string option"
  nm_state :: "state_model option"
  nm_cancel :: bool
  nm_discover :: "cfg_texts option"
  nm_dataflow :: "string list"

record pool_model =
  pm_name :: string
  pm_modes :: "string list"
  pm_cfg :: cfg_texts
  pm_deps :: "dep_model list"
  pm_task :: task_model
  pm_policy :: expr_value
  pm_policy_ty :: "string option"
  pm_executor :: "string option"
  pm_executor_defaulted :: bool
  pm_resources :: "resource_model list"
  pm_slot_timeout_ms :: "lit_value option"
  pm_ack_timeout_ms :: "lit_value option"
  pm_reads :: "signal_model list"
  pm_writes :: "signal_model list"
  pm_min :: expr_value
  pm_max :: expr_value
  pm_state :: "state_model option"
  pm_cancel :: bool
  pm_discover :: "cfg_texts option"
  pm_dataflow :: "string list"

record executor_model =
  em_name :: string
  em_default :: bool
  em_cfg :: cfg_texts

datatype item_model = NodeModel node_model | PoolModel pool_model | ExecutorModel executor_model

record graph_model =
  gm_macro_name :: string
  gm_name :: "string option"
  gm_origin :: string
  gm_line :: nat
  gm_items :: "item_model list"

section \<open>The projection\<close>

definition macro_name :: "decl_kind \<Rightarrow> string" where
  "macro_name k = (case k of GraphDecl \<Rightarrow> ''supervisor_graph!'' | FragmentDecl \<Rightarrow> ''supervisor_fragment!'' | ComposeDecl \<Rightarrow> ''compose_graph!'')"

definition dep_model_of :: "dep \<Rightarrow> dep_model" where
  "dep_model_of d = \<lparr>dm_name = d_ident d, dm_ready = d_ready d, dm_bound = d_bound d, dm_cfg = cfg_texts (d_cfg d)\<rparr>"

definition signal_model_of :: "(expr \<Rightarrow> string) \<Rightarrow> signal_decl \<Rightarrow> signal_model" where
  "signal_model_of text s =
     \<lparr>sm_path = display s, sm_observed = sg_observed s, sm_beat = sg_beat s, sm_veto = sg_veto s,
      sm_via = map_option text (sg_via s), sm_cfg = cfg_texts (sg_cfg s)\<rparr>"

definition resource_model_of :: "resource_decl \<Rightarrow> resource_model" where
  "resource_model_of r =
     \<lparr>rm_name = rd_ident r, rm_local = rd_local r, rm_consume = rd_consume r, rm_shared = rd_shared r,
      rm_divisible = rd_divisible r, rm_serialized = rd_serialized r, rm_cfg = cfg_texts (rd_cfg r)\<rparr>"

definition state_model_of :: "(expr \<Rightarrow> string) \<Rightarrow> string \<times> state_init \<Rightarrow> state_model" where
  "state_model_of text s = \<lparr>st_m_ty = fst s, st_m_init = (case snd s of StateExpr e \<Rightarrow> text e | Zeroed \<Rightarrow> ''zeroed'')\<rparr>"

definition dataflow_paths :: "adopted_fn list \<Rightarrow> string list" where
  "dataflow_paths fns = map (\<lambda>f. join_segments (segments (af_path f))) fns"

definition gated_lit :: "nat gated \<Rightarrow> lit_value" where
  "gated_lit g = \<lparr>lv_cfg = cfg_texts (gt_cfg g), lv_lit = gt_value g\<rparr>"

definition gated_cfg :: "unit gated \<Rightarrow> cfg_texts" where
  "gated_cfg g = cfg_texts (gt_cfg g)"

definition node_model_of :: "(expr \<Rightarrow> string) \<Rightarrow> node_item \<Rightarrow> node_model" where
  "node_model_of text n =
     \<lparr>nm_name = ni_ident n, nm_mode = ni_mode n, nm_cfg = cfg_texts (ni_cfg n), nm_deps = map dep_model_of (ni_deps n),
      nm_task = map_option (task_model_new text) (ni_source n), nm_resources = map resource_model_of (ni_resources n),
      nm_provides = map (\<lambda>p. \<lparr>pv_m_name = pv_ident p, pv_m_cfg = cfg_texts (pv_cfg p)\<rparr>) (ni_provides n),
      nm_disabled = map_option gated_cfg (ni_disabled n), nm_executor = ni_executor n,
      nm_executor_defaulted = ni_executor_defaulted n, nm_slot_timeout_ms = map_option gated_lit (ni_slot_timeout n),
      nm_ack_timeout_ms = map_option gated_lit (ni_ack_timeout n), nm_beat_timeout_ms = map_option gated_lit (ni_beat_timeout n),
      nm_beat_window = map_option gated_lit (ni_beat_window n), nm_ready_on_write = map_option gated_cfg (ni_ready_on_write n),
      nm_enabled_if = map_option (\<lambda>g. \<lparr>ei_cfg = cfg_texts (gt_cfg g), ei_predicate = expr_value_new text (gt_value g)\<rparr>) (ni_enabled_if n),
      nm_restart_budget = map_option (\<lambda>g. \<lparr>rb_cfg = cfg_texts (gt_cfg g),
          rb_max = \<lparr>lv_cfg = cfg_texts (gt_cfg g), lv_lit = fst (gt_value g)\<rparr>,
          rb_window_ms = \<lparr>lv_cfg = cfg_texts (gt_cfg g), lv_lit = snd (gt_value g)\<rparr>\<rparr>) (ni_restart_budget n),
      nm_reads = map (signal_model_of text) (ni_reads n), nm_writes = map (signal_model_of text) (ni_writes n),
      nm_exit = ni_exit n, nm_state = map_option (state_model_of text) (ni_state n), nm_cancel = ni_cancel n,
      nm_discover = map_option gated_cfg (ni_discover n), nm_dataflow = dataflow_paths (ni_dataflow n)\<rparr>"

definition pool_model_of :: "(expr \<Rightarrow> string) \<Rightarrow> pool_item \<Rightarrow> pool_model" where
  "pool_model_of text p =
     \<lparr>pm_name = pi_ident p, pm_modes = pi_modes p, pm_cfg = cfg_texts (pi_cfg p), pm_deps = map dep_model_of (pi_deps p),
      pm_task = task_model_new text (pi_source p), pm_policy = expr_value_new text (pi_policy p), pm_policy_ty = pi_policy_ty p,
      pm_executor = pi_executor p, pm_executor_defaulted = pi_executor_defaulted p,
      pm_resources = map resource_model_of (pi_resources p), pm_slot_timeout_ms = map_option gated_lit (pi_slot_timeout p),
      pm_ack_timeout_ms = map_option gated_lit (pi_ack_timeout p), pm_reads = map (signal_model_of text) (pi_reads p),
      pm_writes = map (signal_model_of text) (pi_writes p), pm_min = expr_value_new text (pi_min p),
      pm_max = expr_value_new text (pi_max p), pm_state = map_option (state_model_of text) (pi_state p),
      pm_cancel = pi_cancel p, pm_discover = map_option gated_cfg (pi_discover p), pm_dataflow = dataflow_paths (pi_dataflow p)\<rparr>"

definition item_model_of :: "(expr \<Rightarrow> string) \<Rightarrow> item \<Rightarrow> item_model" where
  "item_model_of text i =
     (case i of
        NodeItem n \<Rightarrow> NodeModel (node_model_of text n)
      | PoolItem p \<Rightarrow> PoolModel (pool_model_of text p)
      | ExecutorItem x \<Rightarrow> ExecutorModel \<lparr>em_name = xi_ident x, em_default = xi_default x, em_cfg = cfg_texts (xi_cfg x)\<rparr>)"

definition full_model :: "(expr \<Rightarrow> string) \<Rightarrow> decl list \<Rightarrow> graph_model list" where
  "full_model text decls =
     map (\<lambda>d. \<lparr>gm_macro_name = macro_name (dc_kind d), gm_name = decl_name d, gm_origin = dc_origin d, gm_line = dc_line d,
               gm_items = map (item_model_of text) (gs_items (dc_spec d))\<rparr>) decls"

section \<open>What the model tells\<close>

text \<open>The clauses the model does not tell apart.\<close>

lemma model_forgets:
  "node_model_of text (n\<lparr>ni_resources := map (\<lambda>r. r\<lparr>rd_ty := t\<rparr>) (ni_resources n)\<rparr>) = node_model_of text n"
  "node_model_of text (n\<lparr>ni_dataflow := map (\<lambda>a. a\<lparr>af_cfg := c\<rparr>) (ni_dataflow n)\<rparr>) = node_model_of text n"
  "full_model text [d\<lparr>dc_spec := (dc_spec d)\<lparr>gs_observe_writes := w, gs_observe_reads := r\<rparr>\<rparr>] = full_model text [d]"
  by (simp_all add: node_model_of_def resource_model_of_def dataflow_paths_def full_model_def decl_name_def comp_def)

text \<open>The graph of the model is the declared one: names, dependencies and markers, in order.\<close>

fun model_name :: "item_model \<Rightarrow> string option" where
  "model_name (NodeModel n) = Some (nm_name n)"
| "model_name (PoolModel p) = Some (pm_name p)"
| "model_name (ExecutorModel x) = None"

fun model_deps :: "item_model \<Rightarrow> dep_model list" where
  "model_deps (NodeModel n) = nm_deps n"
| "model_deps (PoolModel p) = pm_deps p"
| "model_deps (ExecutorModel x) = []"

lemma model_keeps_graph:
  "model_name (item_model_of text i) = item_name i"
  "model_deps (item_model_of text i) = map dep_model_of (deps_of i)"
  by (cases i; simp add: item_model_of_def item_name_def node_model_of_def pool_model_of_def)+

end
