(* ===== verification/Spec2Isabelle.thy ===== *)
theory Spec2Isabelle
  imports Prelude Topology Handle Events Budget Veto Coupling Slots World Node Pool Stop_Wave Stop_Live Start_Wave Start_Live Graph_Ref Verbs Verb_Live
    Supervisor Control Bind Restart Control_Live Monitor Shell Trace Trace_Nested
    Signals Leased Backed Declaration Expand Expand_Plan Expand_Graph Tokens Small_Syn Parse Parse_Wf Gate Walker Scan Dataflow Glue Emit Helpers
    Find Discover Lint Model
begin

text \<open>
  \<^bold>\<open>embassy-supervisor\<close>, a supervisor for the tasks of an embedded firmware.

  \<^bold>\<open>The program.\<close> An application declares its tasks with \<open>supervisor_graph!\<close>: nodes and pools with
  their dependencies, resources, executors, timeouts and signals. The macro checks the
  declaration and writes static tables; the runtime starts the nodes dependencies first, stops
  them dependents first, restarts, pauses and scales them on request, watches their heartbeats,
  and records what happened. Supervisor and tasks share memory: per node a word of flags and a
  few signals, per resource a slot, and some global signals and queues.

  \<^bold>\<open>Theories and sources.\<close> Paths are under \<^verbatim>\<open>src/\<close>; where nothing else is said the source is
  \<^verbatim>\<open>supervisor/src/lib.rs\<close>.

  \<^item> \<open>Prelude\<close>: the Rust integers and their checked and saturating operations, fixed arrays.
  \<^item> \<open>Topology\<close>: \<open>topo_sort_const\<close>, the topologies \<open>Ordered\<close> and \<open>Flat\<close>, the shape bits.
  \<^item> \<open>Handle\<close>: \<open>TaskHandle\<close>, flags as bits of one word, and the operations on it.
  \<^item> \<open>Events\<close>: faults, transitions, breadcrumb word.
  \<^item> \<open>Slots\<close>: \<open>ResourceSlot\<close>, the trait \<open>ResourceGate\<close> as a locale, \<open>SpawnerSlot\<close> and its fence.
  \<^item> \<open>Coupling\<close>: declared \<open>reads:\<close> and \<open>writes:\<close> entries.
  \<^item> \<open>World\<close>: the live state, the declarations, the platform, \<open>note\<close> and the gate loops.
  \<^item> \<open>Node\<close>: the methods of \<open>TaskNode\<close>: stop protocol, injected faults, readiness, beats, epochs.
  \<^item> \<open>Stop_Wave\<close>, \<open>Stop_Live\<close>: \<open>stop_wave\<close> and its selectors. \<open>Start_Wave\<close>, \<open>Start_Live\<close>: \<open>start_nodes\<close>.
  \<^item> \<open>Verbs\<close>, \<open>Verb_Live\<close>: \<open>start_node\<close>, \<open>stop_node\<close>, \<open>resume_node\<close> and their waits.
  \<^item> \<open>Supervisor\<close>, \<open>Control\<close>, \<open>Bind\<close>, \<open>Restart\<close>, \<open>Control_Live\<close>: \<open>activate\<close>, \<open>deactivate\<close>, \<open>restart\<close>,
    \<open>apply_control\<close>, \<open>apply_bind\<close>, the queries of \<open>Graph\<close>, and the driver of \<^verbatim>\<open>pool.rs\<close>.
  \<^item> \<open>Monitor\<close>: the liveness monitor. \<open>Shell\<close>: \<open>Injected\<close>, \<open>RunCancellable\<close>, \<open>RunPausable\<close>, parking.
  \<^item> \<open>Graph_Ref\<close>: \<^verbatim>\<open>graph_ref.rs\<close>. \<open>Budget\<close>: \<^verbatim>\<open>budget.rs\<close>. \<open>Pool\<close>: \<^verbatim>\<open>pool.rs\<close>. \<open>Veto\<close>: \<^verbatim>\<open>veto.rs\<close>.
    \<open>Trace\<close>, \<open>Trace_Nested\<close>: \<^verbatim>\<open>trace.rs\<close>.
  \<^item> \<open>Signals\<close>: \<^verbatim>\<open>supervisor-observe\<close>, \<^verbatim>\<open>stamped.rs\<close>, \<^verbatim>\<open>dataflow.rs\<close>. \<open>Leased\<close>, \<open>Backed\<close>: \<^verbatim>\<open>data_deps/\<close>.
  \<^item> \<open>Declaration\<close>, \<open>Tokens\<close>, \<open>Parse\<close>, \<open>Parse_Wf\<close>, \<open>Walker\<close>, \<open>Scan\<close>: \<^verbatim>\<open>supervisor-syntax/src/lib.rs\<close>, the items
    of a graph, the token trees and parser steps, the parser of clauses and graphs, the walk over
    the verb calls of a function body, the crate of a fragment and the scan of a file.
    \<open>Small_Syn\<close> is a small Rust grammar for the examples.
  \<^item> \<open>Gate\<close>: \<^verbatim>\<open>supervisor-macros/src/gate.rs\<close>.
  \<^item> \<open>Expand\<close>, \<open>Expand_Plan\<close>, \<open>Expand_Graph\<close>, \<open>Glue\<close>, \<open>Emit\<close>, \<open>Helpers\<close>, \<open>Dataflow\<close>: \<^verbatim>\<open>supervisor-macros/src/lib.rs\<close>,
    the planning passes of \<open>expand\<close> and the graph they make, the spawn function and the task shell
    that are emitted, the node and pool statics, the helper items, and the macros \<open>dataflow\<close>,
    \<open>dataflow_bundle\<close> and \<open>supervisor_fragment\<close>.
  \<^item> \<open>Find\<close>, \<open>Discover\<close>, \<open>Lint\<close>, \<open>Model\<close>: \<^verbatim>\<open>supervisor-tools/src/\<close>, finding and composing declarations
    (\<^verbatim>\<open>find.rs\<close>, \<^verbatim>\<open>lib.rs\<close>), the functions and accesses of source files and their coverage
    (\<^verbatim>\<open>lib.rs\<close>, \<^verbatim>\<open>render.rs\<close>), the lints (\<^verbatim>\<open>lint.rs\<close>) and the typed model (\<^verbatim>\<open>model.rs\<close>).

  \<^bold>\<open>State and operations.\<close> A \<open>&'static TaskNode\<close> is an address, \<open>nref\<close>. \<open>world\<close> maps addresses to
  handles, slots and gates and holds the clock, the global signals and the queues; \<open>node_cfg\<close> is
  the constant part of a node. An operation takes the world and returns it changed. What is not
  this program is a parameter, \<open>platform\<close>: other tasks and interrupts act at every await through
  \<open>p_env\<close>, an arbitrary function of the await's number and the world; spawn functions, the event
  sink, queue capacities and the time driver are functions too. Every safety theorem holds for
  every \<open>p_env\<close>. A Rust panic is a result of its own, so that a theorem can exclude it. Where
  operations race inside one await (wedge replay in \<open>Node\<close>, \<open>Leased\<close>, \<open>Budget.rebalance\<close>) the atomic
  steps are separate and interleave.

  \<^bold>\<open>Loops and rounds.\<close> A loop that awaits takes a number of rounds and is \<open>Pending\<close> when they are
  used up. Safety theorems hold for every number of rounds, so also for a wave cut short. The
  return theorems name a number that is enough (\<open>stop_budget\<close>, \<open>start_budget\<close>, \<open>control_budget\<close>):
  a sum of the timeouts of the slots, because every round either settles a slot or brings a
  deadline nearer. They rest on \<open>clock_runs\<close> (time passes during an await), \<open>time_laws\<close> (the
  time crate's conversion does not shorten) and \<open>budgets_keep_size\<close>.

  \<^bold>\<open>What the theorems show.\<close>
  \<^item> Waves: order, single requests, complete and honest results over the whole trace; no spawn
    behind a closed gate; return within the bound whatever the tasks do.
  \<^item> Verbs: outcomes of \<open>start_node\<close> and \<open>stop_node\<close> on every branch; which nodes a control command
    latches, marks, stops, revives; the walks equal the closures they stand for; every command
    and every reaction to bound dependencies returns.
  \<^item> Protocols: no acknowledgement is lost to a wedge, drain waits for every lease, a backed value
    is handed out only by a serving producer and retired only without readers, a veto holds
    while any contributor asserts it.
  \<^item> Policies: fair shares, the ramp's safety and convergence, pool bounds, restart budget,
    monitor hysteresis against its streak specification.
  \<^item> Bookkeeping: breadcrumb round trip, nested accounting, chain of graphs, beat counters.
  \<^item> Declaration: the parser accepts only what its checks say; a shape bit is set only with its
    feature on; exclusive slots, disjoint budget and veto slots, and that an accepted
    declaration builds a supervisor meeting \<open>wf_sup\<close>, the condition of the wave theorems.
  \<^item> Emitted code: the statics of every node and pool member agree with the tables of the graph,
    claims on a budget are disjoint, a task can be spawned once its gates are open, and the
    shell gives back what it borrowed.
  \<^item> Dataflow: macro and tools see the same verb calls; the tables of a function name exactly the
    signals of its compiled calls, a rewritten call points at its own entry, and a bundle is the
    tables of its members.
  \<^item> Tools: what a composed graph is drawn with, and that lints report one-sided signals only.
  \<^item> Flaws: the lemmas \<open>topo_sort_accepts_wrapped_row\<close>, \<open>restart_window_wraps\<close>,
    \<open>early_start_is_a_stale_resume\<close>, \<open>stale_twice_without_recovery\<close>, \<open>dep_on_empty_pool\<close>,
    \<open>dep_under_two_conditions\<close>, \<open>lost_resource_strands_earlier\<close>, \<open>provides_follows_first_declarer\<close>,
    \<open>bundle_drops_wrapper\<close>, \<open>verdict_depends_on_order\<close>, \<open>model_forgets\<close> and \<open>helper_names_clash\<close> prove
    behaviour that the code or its documentation does not intend.

  \<^bold>\<open>Interfaces.\<close> \<open>resource_gate\<close>, \<open>budget_policy\<close>, \<open>signal_cell\<close>, \<open>observable_cell\<close> and \<open>counting_cell\<close>
  are the crate's traits as locales, interpreted on the crate's implementations.

  \<^bold>\<open>Rust's own syntax.\<close> What \<^verbatim>\<open>syn\<close> and \<^verbatim>\<open>proc_macro2\<close> do is a parameter: the record \<open>syn\<close> has their parsers
  of expressions, types and paths, \<open>text\<close> prints tokens, \<open>segs\<close> reads the path of an expression, and a
  source file comes as the items \<^verbatim>\<open>syn\<close> makes of it. The theorems hold for all of them. What rustc
  makes of a \<open>cfg\<close> is \<open>holds\<close>, an arbitrary predicate on conditions, so they hold in every build.

  \<^bold>\<open>Not modelled.\<close> \<open>run\<close>, \<open>run_driver\<close> and \<open>run_driver_inner\<close>: they race the driver loops, and the
  loser's future is dropped at its last await; each loop is modelled alone. Of the emitted code:
  doc strings, the statics of a pool's policy, the fence task's item and the allocation of task
  state, which is a parameter of the spawn function. The expressions of \<open>task:\<close>, \<open>spawn:\<close>, \<open>discover\<close>
  and \<open>policy:\<close> are checked only for the clauses \<open>Expand\<close> names, so \<open>expand\<close> accepts here what the
  macro may still refuse for the form of an expression. Of the tools: walking directories, the
  command lines, and the text of diagrams, pages and JSON, which no other part reads. \<^verbatim>\<open>firmware\<close> and
  \<^verbatim>\<open>bootloader\<close> are a demonstration around the library; \<^verbatim>\<open>fmt.rs\<close> and \<^verbatim>\<open>host_log.rs\<close> only print.
\<close>

end
